(* ===== verification/Prelude.thy ===== *)
theory Prelude
  imports Main "HOL-Library.AList" "HOL-Library.Sublist"
begin

text \<open>
  Shared vocabulary of the development.

  The modelled code is the employee workbench client of WorkAgent3
  (\<^verbatim>\<open>packages/dsh-client-workagent/src\<close>, plain JavaScript with React) and parts of the workspace
  service it talks to (\<^verbatim>\<open>harness-bundle/src\<close>, TypeScript). The conventions below hold in every theory.

  \<^item> A JavaScript \<open>Map\<close> iterates in insertion order, and assigning an existing key keeps its
    place; that is exactly \<open>AList.update\<close> and \<open>AList.delete\<close> on an association list.
  \<^item> A JavaScript string is a \<open>string\<close>; only ASCII text is written. The Chinese texts shown to the
    user are written as English stand-ins, one distinct stand-in for each distinct text.
  \<^item> A rejected promise or a thrown error is the \<open>Inl\<close> side of a sum, a returned value the \<open>Inr\<close> side.
  \<^item> Sizes, offsets and counters are JavaScript numbers within the safe integer range, written as
    \<open>int\<close> or \<open>nat\<close>.
\<close>

section \<open>Collections of rules\<close>

named_theorems jmap_simps "insertion-ordered maps"
named_theorems text_simps "splitting and joining of strings"

section \<open>Insertion-ordered maps\<close>

abbreviation jmap_get :: "('k \<times> 'v) list \<Rightarrow> 'k \<Rightarrow> 'v option" where
  "jmap_get m k \<equiv> map_of m k"

abbreviation jmap_set :: "'k \<Rightarrow> 'v \<Rightarrow> ('k \<times> 'v) list \<Rightarrow> ('k \<times> 'v) list" where
  "jmap_set k v m \<equiv> AList.update k v m"

abbreviation jmap_delete :: "'k \<Rightarrow> ('k \<times> 'v) list \<Rightarrow> ('k \<times> 'v) list" where
  "jmap_delete k m \<equiv> AList.delete k m"

abbreviation jkeys :: "('k \<times> 'v) list \<Rightarrow> 'k list" where
  "jkeys m \<equiv> map fst m"

lemma jmap_get_set [jmap_simps]:
  "jmap_get (jmap_set k v m) k' = (if k' = k then Some v else jmap_get m k')"
  by (simp add: AList.update_conv')

lemma jmap_get_delete [jmap_simps]:
  "jmap_get (jmap_delete k m) k' = (if k' = k then None else jmap_get m k')"
  by (simp add: AList.delete_conv')

lemma jkeys_delete [jmap_simps]: "jkeys (jmap_delete k m) = removeAll k (jkeys m)"
  by (simp add: AList.delete_keys)

lemma jkeys_set_set [jmap_simps]: "set (jkeys (jmap_set k v m)) = insert k (set (jkeys m))"
  using AList.dom_update [of k v m] by simp

lemma jmap_set_fresh: "k \<notin> set (jkeys m) \<Longrightarrow> jmap_set k v m = m @ [(k, v)]"
  by (induction m) auto

lemma jmap_set_distinct [simp]: "distinct (jkeys m) \<Longrightarrow> distinct (jkeys (jmap_set k v m))"
  by (simp add: AList.update_keys)

lemma jmap_delete_distinct [simp]:
  "distinct (jkeys m) \<Longrightarrow> distinct (jkeys (jmap_delete k m))"
  by (simp add: distinct_removeAll AList.delete_keys)

lemma jmap_get_in: "jmap_get m k = Some v \<Longrightarrow> (k, v) \<in> set m"
  by (rule map_of_SomeD)

lemma jmap_delete_filter: "jmap_delete k m = filter (\<lambda>p. fst p \<noteq> k) m"
  by (induction m) auto

lemma jmap_split:
  assumes "distinct (jkeys m)" "jmap_get m k = Some v"
  obtains xs ys where "m = xs @ (k, v) # ys" "k \<notin> set (jkeys xs)" "k \<notin> set (jkeys ys)"
    "jmap_delete k m = xs @ ys"
proof -
  from assms(2) have "(k, v) \<in> set m" by (rule map_of_SomeD)
  then obtain xs ys where m: "m = xs @ (k, v) # ys" by (meson split_list)
  with assms(1) have xs: "k \<notin> set (jkeys xs)" and ys: "k \<notin> set (jkeys ys)" by auto
  from xs have "filter (\<lambda>p. fst p \<noteq> k) xs = xs" by (auto simp: filter_id_conv)
  moreover from ys have "filter (\<lambda>p. fst p \<noteq> k) ys = ys" by (auto simp: filter_id_conv)
  ultimately have "jmap_delete k m = xs @ ys" by (simp add: m jmap_delete_filter)
  with m xs ys that show thesis by blast
qed

lemma jmap_get_suffix:
  assumes "distinct (jkeys (zs @ m))" "jmap_get m k = Some v"
  shows "jmap_get (zs @ m) k = Some v"
proof -
  from assms have "k \<notin> set (jkeys zs)" by (force dest: map_of_SomeD)
  then have "jmap_get zs k = None" by (simp add: map_of_eq_None_iff)
  with assms(2) show ?thesis by (simp add: map_add_def)
qed

text \<open>Object spread \<open>{...base, ...extra}\<close>.\<close>

definition js_spread :: "('k \<times> 'v) list \<Rightarrow> ('k \<times> 'v) list \<Rightarrow> ('k \<times> 'v) list" where
  "js_spread base extra = fold (\<lambda>p. jmap_set (fst p) (snd p)) extra base"

lemma js_spread_simps [simp]:
  "js_spread base [] = base"
  "js_spread base ((k, v) # ps) = js_spread (jmap_set k v base) ps"
  by (simp_all add: js_spread_def)

lemma js_spread_distinct [simp]:
  "distinct (jkeys base) \<Longrightarrow> distinct (jkeys (js_spread base extra))"
proof (induction extra arbitrary: base)
  case (Cons p extra)
  then show ?case by (cases p) simp
qed simp

lemma jmap_get_spread [jmap_simps]:
  "distinct (jkeys extra) \<Longrightarrow> jmap_get (js_spread base extra) k =
    (case jmap_get extra k of None \<Rightarrow> jmap_get base k | Some v \<Rightarrow> Some v)"
proof (induction extra arbitrary: base)
  case (Cons p extra)
  obtain k' v where p: "p = (k', v)" by (cases p)
  from Cons.prems p have "jmap_get extra k' = None" by (simp add: map_of_eq_None_iff)
  moreover from Cons p have "jmap_get (js_spread (jmap_set k' v base) extra) k =
      (case jmap_get extra k of None \<Rightarrow> jmap_get (jmap_set k' v base) k | Some w \<Rightarrow> Some w)"
    by simp
  ultimately show ?case by (cases "k = k'") (simp_all add: p jmap_get_set split: option.split)
qed simp

text \<open>Sums over the values of a map, under the two updates.\<close>

lemma sum_list_jmap_delete:
  fixes f :: "'v \<Rightarrow> int"
  assumes "distinct (jkeys m)"
  shows "(\<Sum>p\<leftarrow>jmap_delete k m. f (snd p)) =
    (\<Sum>p\<leftarrow>m. f (snd p)) - (case jmap_get m k of None \<Rightarrow> 0 | Some v \<Rightarrow> f v)"
proof (cases "jmap_get m k")
  case None
  then have "jmap_delete k m = m" by (simp add: map_of_eq_None_iff)
  with None show ?thesis by simp
next
  case (Some v)
  obtain xs ys where "m = xs @ (k, v) # ys" "jmap_delete k m = xs @ ys"
    by (rule jmap_split [OF assms Some])
  with Some show ?thesis by (simp add: algebra_simps)
qed

lemma sum_list_jmap_set:
  fixes f :: "'v \<Rightarrow> int"
  assumes "distinct (jkeys m)"
  shows "(\<Sum>p\<leftarrow>jmap_set k v m. f (snd p)) =
    (\<Sum>p\<leftarrow>m. f (snd p)) - (case jmap_get m k of None \<Rightarrow> 0 | Some w \<Rightarrow> f w) + f v"
  using assms
proof (induction m)
  case Nil
  then show ?case by simp
next
  case (Cons p m)
  show ?case
  proof (cases "fst p = k")
    case True
    then have "jmap_get (p # m) k = Some (snd p)" by (cases p) auto
    with True show ?thesis by (cases p) (simp add: algebra_simps)
  next
    case False
    then have "jmap_get (p # m) k = jmap_get m k" by (cases p) auto
    with False Cons show ?thesis by (cases p) simp
  qed
qed

lemma map_of_map_values: "jmap_get (map (map_prod id f) m) i = map_option f (jmap_get m i)"
  by (induction m) auto

text \<open>A map keyed by the id of its values.\<close>

definition keyed :: "('v \<Rightarrow> string) \<Rightarrow> (string \<times> 'v) list \<Rightarrow> bool" where
  "keyed f m \<longleftrightarrow> distinct (jkeys m) \<and> (\<forall>(k, v) \<in> set m. f v = k)"

lemma keyed_distinct: "keyed f m \<Longrightarrow> distinct (jkeys m)"
  by (simp add: keyed_def)

lemma pairs_set: "set (jmap_set k v m) \<subseteq> insert (k, v) (set m)"
  by (induction m) auto

lemma keyed_set: "keyed f m \<Longrightarrow> k = f v \<Longrightarrow> keyed f (jmap_set k v m)"
  using pairs_set [of k v m] by (auto simp: keyed_def)

lemma keyed_get: "keyed f m \<Longrightarrow> jmap_get m k = Some v \<Longrightarrow> f v = k"
  by (auto simp: keyed_def dest: map_of_SomeD)

lemma keyed_get_value: "keyed f m \<Longrightarrow> v \<in> set (map snd m) \<Longrightarrow> jmap_get m (f v) = Some v"
  by (auto simp: keyed_def)

lemma keyed_filter: "keyed f m \<Longrightarrow> keyed f (filter P m)"
  by (auto simp: keyed_def intro: distinct_map_filter)

lemma values_set: "set (map snd (jmap_set k v m)) \<subseteq> insert v (set (map snd m))"
  by (induction m) auto

lemma fold_put_keyed:
  assumes "distinct (map f vs)" "set (jkeys m) \<inter> f ` set vs = {}"
  shows "fold (\<lambda>v. jmap_set (f v) (g v)) vs m = m @ map (\<lambda>v. (f v, g v)) vs"
  using assms by (induction vs arbitrary: m) (auto simp: jmap_set_fresh)

lemma keyed_values: "keyed f m \<Longrightarrow> map (\<lambda>v. (f v, g v)) (map snd m) = map (map_prod id g) m"
  by (induction m) (auto simp: keyed_def)

lemma keyed_fold:
  assumes "keyed f m"
  shows "fold (\<lambda>v. jmap_set (f v) (g v)) (map snd m) [] = map (map_prod id g) m"
proof -
  have "map f (map snd m) = jkeys m" using assms by (induction m) (auto simp: keyed_def)
  then have "distinct (map f (map snd m))" using keyed_distinct [OF assms] by (simp only:)
  from fold_put_keyed [OF this, of "[]" g] show ?thesis using keyed_values [OF assms, of g] by simp
qed

section \<open>Strings\<close>

text \<open>\<open>s.split(c)\<close> and \<open>parts.join(c)\<close> for a one-character separator.\<close>

fun js_split :: "char \<Rightarrow> string \<Rightarrow> string list" where
  "js_split c [] = [[]]"
| "js_split c (x # xs) =
     (if x = c then [] # js_split c xs
      else (case js_split c xs of [] \<Rightarrow> [[x]] | p # ps \<Rightarrow> (x # p) # ps))"

fun js_join :: "char \<Rightarrow> string list \<Rightarrow> string" where
  "js_join c [] = []"
| "js_join c [p] = p"
| "js_join c (p # q # ps) = p @ c # js_join c (q # ps)"

fun join_with :: "string \<Rightarrow> string list \<Rightarrow> string" where
  "join_with sep [] = []"
| "join_with sep [p] = p"
| "join_with sep (p # q # ps) = p @ sep @ join_with sep (q # ps)"

lemma js_split_not_Nil [simp]: "js_split c s \<noteq> []"
  by (induction s) (auto split: list.splits)

lemma js_split_no_sep [text_simps]: "c \<notin> set s \<Longrightarrow> js_split c s = [s]"
  by (induction s) auto

lemma js_split_append_sep [text_simps]:
  "c \<notin> set a \<Longrightarrow> js_split c (a @ c # b) = a # js_split c b"
  by (induction a) auto

lemma js_join_split: "js_join c (js_split c s) = s"
proof (induction s)
  case (Cons x xs)
  obtain p ps where "js_split c xs = p # ps" by (cases "js_split c xs") auto
  with Cons show ?case by (cases ps) auto
qed simp

lemma js_split_join:
  "ps \<noteq> [] \<Longrightarrow> (\<And>p. p \<in> set ps \<Longrightarrow> c \<notin> set p) \<Longrightarrow> js_split c (js_join c ps) = ps"
  by (induction c ps rule: js_join.induct) (auto simp: text_simps)

lemma js_split_parts: "p \<in> set (js_split c s) \<Longrightarrow> c \<notin> set p"
  by (induction s arbitrary: p) (auto split: list.splits if_splits)

text \<open>\<open>s.toLowerCase()\<close> on ASCII text.\<close>

definition lower_char :: "char \<Rightarrow> char" where
  "lower_char c =
     (let n = of_char c :: nat in if 65 \<le> n \<and> n \<le> 90 then char_of (n + 32) else c)"

definition js_lower :: "string \<Rightarrow> string" where
  "js_lower s = map lower_char s"

lemma js_lower_append [simp]: "js_lower (a @ b) = js_lower a @ js_lower b"
  by (simp add: js_lower_def)

lemma js_lower_Cons [simp]: "js_lower (c # b) = lower_char c # js_lower b"
  by (simp add: js_lower_def)

lemma js_lower_Nil [simp]: "js_lower [] = []"
  by (simp add: js_lower_def)

lemma length_js_lower [simp]: "length (js_lower s) = length s"
  by (simp add: js_lower_def)

lemma of_char_lower:
  "(of_char (lower_char c) :: nat) =
    (let n = of_char c in if 65 \<le> n \<and> n \<le> 90 then n + 32 else n)"
proof -
  have "(of_char c :: nat) < 256" using of_nat_of_char by simp
  then show ?thesis by (auto simp: lower_char_def Let_def)
qed

lemma lower_char_slash [simp]: "lower_char CHR ''/'' = CHR ''/''"
  by (simp add: lower_char_def)

lemma lower_char_eq_slash [simp]: "lower_char c = CHR ''/'' \<longleftrightarrow> c = CHR ''/''"
proof
  assume "lower_char c = CHR ''/''"
  then have "(of_char (lower_char c) :: nat) = of_char CHR ''/''" by simp
  then have "(of_char c :: nat) = of_char CHR ''/''"
    by (auto simp: of_char_lower Let_def split: if_splits)
  then show "c = CHR ''/''" by (metis char_of_char)
qed simp

text \<open>\<open>s.trim()\<close> on ASCII text.\<close>

definition js_space :: "char \<Rightarrow> bool" where
  "js_space c = (let n = of_char c :: nat in n = 32 \<or> 9 \<le> n \<and> n \<le> 13)"

definition js_trim :: "string \<Rightarrow> string" where
  "js_trim s = rev (dropWhile js_space (rev (dropWhile js_space s)))"

lemma set_js_trim: "set (js_trim s) \<subseteq> set s"
  unfolding js_trim_def by (metis set_dropWhileD set_rev subsetI)

lemma js_trim_parts: "\<exists>xs zs. s = xs @ js_trim s @ zs"
proof -
  let ?t = "dropWhile js_space s"
  have "s = takeWhile js_space s @ ?t" by simp
  moreover have "?t = rev (dropWhile js_space (rev ?t)) @ rev (takeWhile js_space (rev ?t))"
    by (metis rev_append rev_rev_ident takeWhile_dropWhile_id)
  ultimately show ?thesis unfolding js_trim_def by metis
qed

lemma js_trim_ends: "js_trim s = [] \<or> \<not> js_space (hd (js_trim s)) \<and> \<not> js_space (last (js_trim s))"
proof -
  let ?t = "dropWhile js_space s"
  let ?r = "dropWhile js_space (rev ?t)"
  have "?r \<noteq> [] \<Longrightarrow> \<not> js_space (last (rev ?r))" using hd_dropWhile [of js_space "rev ?t"] by (simp add: last_rev)
  moreover have "?r \<noteq> [] \<Longrightarrow> hd (rev ?r) = hd ?t"
  proof -
    assume r: "?r \<noteq> []"
    obtain zs where "rev ?t = zs @ ?r" by (metis takeWhile_dropWhile_id)
    then have "?t = rev ?r @ rev zs" by (metis rev_append rev_rev_ident)
    then show ?thesis using r by (metis hd_append2 rev_is_Nil_conv)
  qed
  moreover have "?t \<noteq> [] \<Longrightarrow> \<not> js_space (hd ?t)" by (rule hd_dropWhile)
  ultimately show ?thesis unfolding js_trim_def by (metis dropWhile.simps(1) rev.simps(1) rev_is_Nil_conv)
qed

lemma js_trim_id: "s = [] \<or> \<not> js_space (hd s) \<and> \<not> js_space (last s) \<Longrightarrow> js_trim s = s"
proof -
  assume ends: "s = [] \<or> \<not> js_space (hd s) \<and> \<not> js_space (last s)"
  have keep: "t = [] \<or> \<not> js_space (hd t) \<Longrightarrow> dropWhile js_space t = t" for t by (cases t) auto
  have "dropWhile js_space s = s" by (rule keep) (use ends in auto)
  moreover have "dropWhile js_space (rev s) = rev s" by (rule keep) (use ends in \<open>auto simp: hd_rev\<close>)
  ultimately show ?thesis by (simp add: js_trim_def)
qed

lemma js_trim_idem [simp]: "js_trim (js_trim s) = js_trim s"
  by (rule js_trim_id) (rule js_trim_ends)

text \<open>JavaScript truthiness of a string, and \<open>a || b\<close> on strings.\<close>

abbreviation truthy :: "string \<Rightarrow> bool" where
  "truthy s \<equiv> s \<noteq> []"

definition js_or :: "string \<Rightarrow> string \<Rightarrow> string" where
  "js_or a b = (if truthy a then a else b)"

section \<open>JSON values\<close>

datatype json =
  JNull | JBool bool | JNum int | JStr string | JArr "json list" | JObj "(string \<times> json) list"

definition json_field :: "json \<Rightarrow> string \<Rightarrow> json option" where
  "json_field j k = (case j of JObj fs \<Rightarrow> map_of fs k | _ \<Rightarrow> None)"

definition json_truthy :: "json \<Rightarrow> bool" where
  "json_truthy j = (case j of JNull \<Rightarrow> False | JBool b \<Rightarrow> b | JNum n \<Rightarrow> n \<noteq> 0
     | JStr s \<Rightarrow> s \<noteq> [] | JArr _ \<Rightarrow> True | JObj _ \<Rightarrow> True)"

section \<open>What a component shows\<close>

text \<open>
  A rendered fragment as the list of its texts, alerts, fields and buttons in document order;
  containers, class names and attributes for assistive technology are left out. The flag of a
  button or a field is its \<open>disabled\<close> attribute, the action is what its handler runs.
\<close>

datatype 'a widget = Shown string | Alert string | Field string string bool | Press string bool 'a

definition shown_if :: "bool \<Rightarrow> 'a widget list \<Rightarrow> 'a widget list" where
  "shown_if c ws = (if c then ws else [])"

lemma in_shown_if [simp]: "w \<in> set (shown_if c ws) \<longleftrightarrow> c \<and> w \<in> set ws"
  by (simp add: shown_if_def)

definition can_press :: "'a widget list \<Rightarrow> 'a \<Rightarrow> bool" where
  "can_press ws a = (\<exists>w \<in> set ws. case w of Press _ disabled b \<Rightarrow> \<not> disabled \<and> b = a | _ \<Rightarrow> False)"

lemma can_press_simps [simp]:
  "can_press [] a = False"
  "can_press (Shown t # ws) a = can_press ws a"
  "can_press (Alert t # ws) a = can_press ws a"
  "can_press (Field t v d # ws) a = can_press ws a"
  "can_press (Press t d b # ws) a = (\<not> d \<and> b = a \<or> can_press ws a)"
  "can_press (ws @ vs) a = (can_press ws a \<or> can_press vs a)"
  "can_press (shown_if c ws) a = (c \<and> can_press ws a)"
  by (auto simp: can_press_def)

lemma can_press_concat [simp]: "can_press (concat wss) a \<longleftrightarrow> (\<exists>ws \<in> set wss. can_press ws a)"
  by (induction wss) auto

text \<open>\<open>h(tag, props, message)\<close> guarded by \<open>message ? ... : null\<close>\<close>

definition alert_of :: "string \<Rightarrow> 'a widget list" where
  "alert_of e = shown_if (truthy e) [Alert e]"

lemma can_press_alert [simp]: "\<not> can_press (alert_of e) a"
  by (simp add: alert_of_def)

section \<open>Small generic facts\<close>

lemma filter_nonempty_iff: "filter P xs \<noteq> [] \<longleftrightarrow> (\<exists>x \<in> set xs. P x)"
  by (auto simp: filter_empty_conv)

lemma sum_list_nonneg_int:
  "(\<And>x. x \<in> set xs \<Longrightarrow> (0::int) \<le> f x) \<Longrightarrow> 0 \<le> (\<Sum>x\<leftarrow>xs. f x)"
  by (rule sum_list_nonneg) auto

end
