(* ===== verification/Conversation_Cache.thy ===== *)
theory Conversation_Cache
  imports Prelude
begin

text \<open>
  The conversation cache, \<^verbatim>\<open>features/conversations/cache.js\<close>: two levels of insertion-ordered maps
  (session, then key), where reading or writing a session moves it to the end, bounded by a
  number of sessions and by a total serialized size. \<open>evict\<close> is the \<open>while\<close> loop of \<open>set\<close>; it is a
  partial function because the loop of the code does not end when the map is empty and the
  counter is still too large, which the invariant \<open>cache_wf\<close> rules out.
\<close>

section \<open>State and operations\<close>

record ('k, 'v) cache_entry =
  entry_values :: "('k \<times> ('v \<times> nat)) list"
  entry_bytes :: int

record ('i, 'k, 'v) cache =
  sessions :: "('i \<times> ('k, 'v) cache_entry) list"
  total_bytes :: int

definition empty_cache :: "('i, 'k, 'v) cache" where
  "empty_cache = \<lparr>sessions = [], total_bytes = 0\<rparr>"

definition default_limit :: int where
  "default_limit = 12"

definition default_max_bytes :: int where
  "default_max_bytes = 16 * 1024 * 1024"

definition cache_remove :: "'i \<Rightarrow> ('i, 'k, 'v) cache \<Rightarrow> ('i, 'k, 'v) cache" where
  "cache_remove i c =
     (let c' = (case jmap_get (sessions c) i of
                  None \<Rightarrow> c
                | Some e \<Rightarrow> c\<lparr>total_bytes := total_bytes c - entry_bytes e\<rparr>)
      in c'\<lparr>sessions := jmap_delete i (sessions c')\<rparr>)"

definition cache_get ::
  "'i \<Rightarrow> 'k \<Rightarrow> ('i, 'k, 'v) cache \<Rightarrow> 'v option \<times> ('i, 'k, 'v) cache" where
  "cache_get i k c =
     (case jmap_get (sessions c) i of
        None \<Rightarrow> (None, c)
      | Some e \<Rightarrow>
          (map_option fst (jmap_get (entry_values e) k),
           c\<lparr>sessions := jmap_set i e (jmap_delete i (sessions c))\<rparr>))"

partial_function (option) evict ::
  "int \<Rightarrow> int \<Rightarrow> ('i, 'k, 'v) cache \<Rightarrow> ('i, 'k, 'v) cache option" where
  "evict limit max_bytes c =
     (if limit < int (length (sessions c)) \<or> max_bytes < total_bytes c
      then evict limit max_bytes
             (case sessions c of [] \<Rightarrow> c | (i, e) # _ \<Rightarrow> cache_remove i c)
      else Some c)"

definition cache_store ::
  "'i \<Rightarrow> 'k \<Rightarrow> 'v \<Rightarrow> nat \<Rightarrow> ('i, 'k, 'v) cache \<Rightarrow> ('i, 'k, 'v) cache" where
  "cache_store i k v sz c =
     (let entry = (case jmap_get (sessions c) i of
                     None \<Rightarrow> \<lparr>entry_values = [], entry_bytes = 0\<rparr>
                   | Some e \<Rightarrow> e);
          change = int sz -
            (case jmap_get (entry_values entry) k of None \<Rightarrow> 0 | Some (_, n) \<Rightarrow> int n);
          entry' = \<lparr>entry_values = jmap_set k (v, sz) (entry_values entry),
                    entry_bytes = entry_bytes entry + change\<rparr>
      in c\<lparr>total_bytes := total_bytes c + change,
           sessions := jmap_set i entry' (jmap_delete i (sessions c))\<rparr>)"

definition cache_set ::
  "('v \<Rightarrow> nat) \<Rightarrow> int \<Rightarrow> int \<Rightarrow> 'i \<Rightarrow> 'k \<Rightarrow> 'v \<Rightarrow> ('i, 'k, 'v) cache \<Rightarrow>
    ('i, 'k, 'v) cache option" where
  "cache_set json_length limit max_bytes i k v c =
     (let sz = json_length v * 2
      in if max_bytes < int sz then Some (cache_remove i c)
         else evict limit max_bytes (cache_store i k v sz c))"

section \<open>Invariant\<close>

definition entry_wf :: "('k, 'v) cache_entry \<Rightarrow> bool" where
  "entry_wf e \<longleftrightarrow>
     distinct (jkeys (entry_values e)) \<and>
     entry_bytes e = (\<Sum>p\<leftarrow>entry_values e. int (snd (snd p)))"

definition cache_wf :: "('i, 'k, 'v) cache \<Rightarrow> bool" where
  "cache_wf c \<longleftrightarrow>
     distinct (jkeys (sessions c)) \<and>
     (\<forall>p \<in> set (sessions c). entry_wf (snd p)) \<and>
     total_bytes c = (\<Sum>p\<leftarrow>sessions c. entry_bytes (snd p))"

definition cache_bounded :: "int \<Rightarrow> int \<Rightarrow> ('i, 'k, 'v) cache \<Rightarrow> bool" where
  "cache_bounded limit max_bytes c \<longleftrightarrow>
     int (length (sessions c)) \<le> limit \<and> total_bytes c \<le> max_bytes"

definition cached :: "('i, 'k, 'v) cache \<Rightarrow> 'i \<Rightarrow> 'k \<Rightarrow> 'v option" where
  "cached c i k = fst (cache_get i k c)"

lemma cached_eq:
  "cached c i k = (case jmap_get (sessions c) i of
      None \<Rightarrow> None | Some e \<Rightarrow> map_option fst (jmap_get (entry_values e) k))"
  by (simp add: cached_def cache_get_def split: option.split)

lemma entry_bytes_nonneg: "entry_wf e \<Longrightarrow> 0 \<le> entry_bytes e"
  by (auto simp: entry_wf_def intro: sum_list_nonneg_int)

lemma empty_cache_wf [simp]: "cache_wf empty_cache"
  by (simp add: cache_wf_def empty_cache_def)

lemma cache_wf_entry: "cache_wf c \<Longrightarrow> jmap_get (sessions c) i = Some e \<Longrightarrow> entry_wf e"
  using map_of_SomeD by (fastforce simp: cache_wf_def)

lemma cache_wf_bytes_nonneg: "cache_wf c \<Longrightarrow> 0 \<le> total_bytes c"
  unfolding cache_wf_def by (auto intro: sum_list_nonneg_int entry_bytes_nonneg)

lemma sessions_cache_remove [simp]:
  "sessions (cache_remove i c) = jmap_delete i (sessions c)"
  by (simp add: cache_remove_def Let_def split: option.split)

lemma total_bytes_cache_remove:
  "total_bytes (cache_remove i c) = total_bytes c -
     (case jmap_get (sessions c) i of None \<Rightarrow> 0 | Some e \<Rightarrow> entry_bytes e)"
  by (simp add: cache_remove_def Let_def split: option.split)

lemma set_jmap_delete_subset: "set (jmap_delete k m) \<subseteq> set m"
  by (auto simp: jmap_delete_filter)

lemma cache_remove_wf [simp, intro]:
  assumes "cache_wf c" shows "cache_wf (cache_remove i c)"
  using assms set_jmap_delete_subset [of i "sessions c"]
    sum_list_jmap_delete [of "sessions c" entry_bytes i]
  by (auto simp: cache_wf_def total_bytes_cache_remove)

lemma cache_remove_bytes_le: "cache_wf c \<Longrightarrow> total_bytes (cache_remove i c) \<le> total_bytes c"
  by (auto simp: total_bytes_cache_remove split: option.split
      dest: cache_wf_entry entry_bytes_nonneg)

lemma cache_remove_bounded [intro]:
  "cache_wf c \<Longrightarrow> cache_bounded l b c \<Longrightarrow> cache_bounded l b (cache_remove i c)"
  using cache_remove_bytes_le [of c i] AList.length_delete_le [of i "sessions c"]
  by (auto simp: cache_bounded_def)

lemma cached_cache_remove:
  "cached (cache_remove i c) j k = (if j = i then None else cached c j k)"
  by (simp add: cached_eq jmap_simps)

text \<open>Moving one entry to the end keeps contents, sizes and counters.\<close>

lemma move_to_end_wf:
  assumes wf: "cache_wf c" and e: "entry_wf e"
    and bytes: "tb = total_bytes c + entry_bytes e -
      (case jmap_get (sessions c) i of None \<Rightarrow> 0 | Some e' \<Rightarrow> entry_bytes e')"
  shows "cache_wf (c\<lparr>total_bytes := tb, sessions := jmap_set i e (jmap_delete i (sessions c))\<rparr>)"
proof -
  have fresh: "i \<notin> set (jkeys (jmap_delete i (sessions c)))" by (simp add: jkeys_delete)
  have d: "distinct (jkeys (sessions c))" using wf by (simp add: cache_wf_def)
  have dist: "distinct (jkeys (jmap_set i e (jmap_delete i (sessions c))))"
    using d by (intro jmap_set_distinct jmap_delete_distinct)
  from sum_list_jmap_delete [OF d, of entry_bytes i] wf dist e bytes show ?thesis
    using set_jmap_delete_subset [of i "sessions c"]
    by (auto simp: cache_wf_def jmap_set_fresh [OF fresh])
qed

lemma cache_get_wf: "cache_wf c \<Longrightarrow> cache_wf (snd (cache_get i k c))"
proof (cases "jmap_get (sessions c) i")
  case (Some e)
  assume wf: "cache_wf c"
  have "cache_wf (c\<lparr>total_bytes := total_bytes c,
      sessions := jmap_set i e (jmap_delete i (sessions c))\<rparr>)"
    by (rule move_to_end_wf [OF wf cache_wf_entry [OF wf Some]]) (simp add: Some)
  then show ?thesis by (simp add: cache_get_def Some)
qed (simp add: cache_get_def)

lemma cached_cache_get: "cached (snd (cache_get i k c)) j k' = cached c j k'"
  by (simp add: cached_eq cache_get_def jmap_simps split: option.split)

lemma length_cache_get: "cache_wf c \<Longrightarrow> length (sessions (snd (cache_get i k c))) = length (sessions c)"
proof (cases "jmap_get (sessions c) i")
  case (Some e)
  assume "cache_wf c"
  then have d: "distinct (jkeys (sessions c))" by (simp add: cache_wf_def)
  obtain xs ys where "sessions c = xs @ (i, e) # ys" "jmap_delete i (sessions c) = xs @ ys"
      "i \<notin> set (jkeys xs)" "i \<notin> set (jkeys ys)"
    by (rule jmap_split [OF d Some])
  with Some show ?thesis by (simp add: cache_get_def jmap_set_fresh)
qed (simp add: cache_get_def)

lemma cache_get_bounded:
  "cache_wf c \<Longrightarrow> cache_bounded l b c \<Longrightarrow> cache_bounded l b (snd (cache_get i k c))"
proof -
  assume "cache_wf c" "cache_bounded l b c"
  moreover have "total_bytes (snd (cache_get i k c)) = total_bytes c"
    by (simp add: cache_get_def split: option.split)
  ultimately show ?thesis by (simp add: cache_bounded_def length_cache_get)
qed

section \<open>The eviction loop\<close>

lemma evict_stop: "cache_bounded l b c \<Longrightarrow> evict l b c = Some c"
  by (subst evict.simps) (auto simp: cache_bounded_def)

lemma evict_drop:
  "\<not> cache_bounded l b c \<Longrightarrow> sessions c = (i, e) # rest \<Longrightarrow>
    evict l b c = evict l b (cache_remove i c)"
  by (subst evict.simps) (auto simp: cache_bounded_def)

text \<open>
  Under the invariant and non-negative bounds the loop returns; its result is well-formed and
  bounded, and is a suffix of the recency order. The induction is on the number of sessions.
\<close>

lemma evict_total:
  assumes "cache_wf c" "0 \<le> l" "0 \<le> b"
  shows "\<exists>c'. evict l b c = Some c' \<and> cache_wf c' \<and> cache_bounded l b c' \<and>
    suffix (sessions c') (sessions c) \<and>
    (l \<noteq> 0 \<longrightarrow> sessions c \<noteq> [] \<longrightarrow> entry_bytes (snd (last (sessions c))) \<le> b \<longrightarrow> sessions c' \<noteq> [])"
  using assms
proof (induction "length (sessions c)" arbitrary: c rule: less_induct)
  case less
  show ?case
  proof (cases "cache_bounded l b c")
    case True
    then show ?thesis using less.prems evict_stop by fastforce
  next
    case False
    then obtain i e rest where s: "sessions c = (i, e) # rest"
      using less.prems by (cases "sessions c") (auto simp: cache_bounded_def cache_wf_def)
    have "distinct (jkeys (sessions c))" using less.prems by (simp add: cache_wf_def)
    then have d: "sessions (cache_remove i c) = rest"
      using s by (auto simp: image_iff)
    have last: "rest \<noteq> []" if "l \<noteq> 0" "entry_bytes (snd (last (sessions c))) \<le> b"
    proof
      assume "rest = []"
      then have "total_bytes c = entry_bytes e" using less.prems s by (simp add: cache_wf_def)
      with that s False less.prems(2,3) \<open>rest = []\<close> show False by (simp add: cache_bounded_def)
    qed
    have "\<exists>c'. evict l b (cache_remove i c) = Some c' \<and> cache_wf c' \<and> cache_bounded l b c' \<and>
      suffix (sessions c') (sessions (cache_remove i c)) \<and>
      (l \<noteq> 0 \<longrightarrow> sessions (cache_remove i c) \<noteq> [] \<longrightarrow>
        entry_bytes (snd (last (sessions (cache_remove i c)))) \<le> b \<longrightarrow> sessions c' \<noteq> [])"
      by (rule less.hyps) (use less.prems s d in auto)
    then obtain c' where c': "evict l b (cache_remove i c) = Some c'" "cache_wf c'"
      "cache_bounded l b c'" "suffix (sessions c') rest"
      "l \<noteq> 0 \<longrightarrow> rest \<noteq> [] \<longrightarrow> entry_bytes (snd (last rest)) \<le> b \<longrightarrow> sessions c' \<noteq> []"
      unfolding d by blast
    have ev: "evict l b c = Some c'" using evict_drop [OF False s] c'(1) by simp
    have suf: "suffix (sessions c') (sessions c)" using c'(4) s by (simp add: suffix_ConsI)
    have ne: "sessions c' \<noteq> []" if "l \<noteq> 0" "entry_bytes (snd (last (sessions c))) \<le> b"
      using last [OF that] c'(5) that s by simp
    from ev c'(2,3) suf ne show ?thesis by blast
  qed
qed

section \<open>Writing\<close>

lemma entry_store_wf:
  assumes "entry_wf e"
  shows "entry_wf \<lparr>entry_values = jmap_set k (v, sz) (entry_values e),
     entry_bytes = entry_bytes e + (int sz -
       (case jmap_get (entry_values e) k of None \<Rightarrow> 0 | Some (_, n) \<Rightarrow> int n))\<rparr>"
  using assms sum_list_jmap_set [of "entry_values e" "\<lambda>p. int (snd p)" k "(v, sz)"]
  by (auto simp: entry_wf_def split: option.splits)

definition stored_entry ::
  "'i \<Rightarrow> 'k \<Rightarrow> 'v \<Rightarrow> nat \<Rightarrow> ('i, 'k, 'v) cache \<Rightarrow> ('k, 'v) cache_entry" where
  "stored_entry i k v sz c =
     (let e = (case jmap_get (sessions c) i of
                 None \<Rightarrow> \<lparr>entry_values = [], entry_bytes = 0\<rparr> | Some e \<Rightarrow> e)
      in \<lparr>entry_values = jmap_set k (v, sz) (entry_values e),
          entry_bytes = entry_bytes e + (int sz -
            (case jmap_get (entry_values e) k of None \<Rightarrow> 0 | Some (_, n) \<Rightarrow> int n))\<rparr>)"

lemma sessions_cache_store:
  "sessions (cache_store i k v sz c) =
     jmap_delete i (sessions c) @ [(i, stored_entry i k v sz c)]"
proof -
  have "i \<notin> set (jkeys (jmap_delete i (sessions c)))" by (simp add: jkeys_delete)
  then show ?thesis
    by (simp add: cache_store_def stored_entry_def Let_def jmap_set_fresh)
qed

lemma stored_entry_wf: "cache_wf c \<Longrightarrow> entry_wf (stored_entry i k v sz c)"
proof -
  assume wf: "cache_wf c"
  have empty: "entry_wf \<lparr>entry_values = [], entry_bytes = 0\<rparr>" by (simp add: entry_wf_def)
  from wf show ?thesis
    unfolding stored_entry_def Let_def
    by (intro entry_store_wf) (auto simp: empty split: option.split dest: cache_wf_entry)
qed

lemma cache_store_wf: "cache_wf c \<Longrightarrow> cache_wf (cache_store i k v sz c)"
proof -
  assume wf: "cache_wf c"
  define e where "e = stored_entry i k v sz c"
  have tb: "total_bytes (cache_store i k v sz c) = total_bytes c + entry_bytes e -
      (case jmap_get (sessions c) i of None \<Rightarrow> 0 | Some e' \<Rightarrow> entry_bytes e')"
    by (simp add: cache_store_def stored_entry_def e_def Let_def split: option.split)
  have eq: "cache_store i k v sz c =
      c\<lparr>total_bytes := total_bytes (cache_store i k v sz c),
        sessions := jmap_set i e (jmap_delete i (sessions c))\<rparr>"
    by (simp add: cache_store_def stored_entry_def e_def Let_def)
  show ?thesis
    by (subst eq, rule move_to_end_wf [OF wf _ tb]) (simp add: e_def stored_entry_wf wf)
qed

lemma cached_cache_store:
  "cached (cache_store i k v sz c) j k' =
     (if j = i \<and> k' = k then Some v else cached c j k')"
proof -
  have "jmap_get (sessions (cache_store i k v sz c)) j =
      (if j = i then Some (stored_entry i k v sz c) else jmap_get (sessions c) j)"
    by (auto simp: sessions_cache_store map_of_append map_add_def jmap_simps split: option.split)
  then show ?thesis
    by (auto simp: cached_eq stored_entry_def Let_def jmap_simps split: option.split)
qed

text \<open>A suffix of the sessions only forgets; what it keeps is unchanged.\<close>

lemma cached_suffix:
  assumes suf: "suffix (sessions c') (sessions c)" and d: "distinct (jkeys (sessions c))"
  shows "cached c' j k = None \<or> cached c' j k = cached c j k"
proof -
  from suf obtain zs where zs: "sessions c = zs @ sessions c'" by (auto simp: suffix_def)
  have "jmap_get (sessions c) j = jmap_get (sessions c') j"
    if "jmap_get (sessions c') j = Some e" for e
    using jmap_get_suffix [of zs "sessions c'" j e] that d zs by simp
  then show ?thesis by (auto simp: cached_eq split: option.split)
qed

theorem cache_set_result:
  assumes wf: "cache_wf c" and l: "0 \<le> l" and b: "0 \<le> b" and bd: "cache_bounded l b c"
  shows "\<exists>c'. cache_set jl l b i k v c = Some c' \<and> cache_wf c' \<and> cache_bounded l b c' \<and>
    (\<forall>j k'. cached c' j k' = None \<or>
       cached c' j k' = (if j = i \<and> k' = k then Some v else cached c j k'))"
proof (cases "b < int (jl v * 2)")
  case True
  then show ?thesis
    using wf bd cache_remove_bounded [OF wf bd]
    by (simp add: cache_set_def cached_cache_remove)
next
  case False
  define c0 where "c0 = cache_store i k v (jl v * 2) c"
  have wf0: "cache_wf c0" by (simp add: c0_def cache_store_wf wf)
  obtain c' where c': "evict l b c0 = Some c'" "cache_wf c'" "cache_bounded l b c'"
      "suffix (sessions c') (sessions c0)"
    using evict_total [OF wf0 l b] by blast
  have "cached c' j k' = None \<or>
      cached c' j k' = (if j = i \<and> k' = k then Some v else cached c j k')" for j k'
    using cached_suffix [OF c'(4), of j k'] wf0
    by (simp add: c0_def cached_cache_store cache_wf_def)
  with c' False show ?thesis by (simp add: cache_set_def c0_def)
qed

lemma cache_set_cached:
  assumes "cache_wf c" "0 \<le> l" "0 \<le> b" "cache_bounded l b c" "cache_set jl l b i k v c = Some c'"
  shows "cached c' j k' = None \<or>
    cached c' j k' = (if j = i \<and> k' = k then Some v else cached c j k')"
  using cache_set_result [OF assms(1-4), of jl i k v] assms(5) by (metis option.inject)

text \<open>
  Least recently used: a write only evicts sessions that were used longer ago, so what is left is
  the end of the recency order; and with room for one session, the written value itself is there
  whenever its own session fits the byte bound.
\<close>

lemma cache_set_recency:
  assumes "cache_wf c" "0 \<le> l" "0 \<le> b" "cache_set jl l b i k v c = Some c'"
    "int (jl v * 2) \<le> b"
  shows "suffix (jkeys (sessions c')) (removeAll i (jkeys (sessions c)) @ [i])"
proof -
  define c0 where "c0 = cache_store i k v (jl v * 2) c"
  have "evict l b c0 = Some c'" using assms(4,5) by (simp add: cache_set_def c0_def)
  then have "suffix (sessions c') (sessions c0)"
    using evict_total [of c0 l b] assms(1-3) by (simp add: c0_def cache_store_wf)
  then have "suffix (jkeys (sessions c')) (jkeys (sessions c0))"
    by (auto simp: suffix_def)
  then show ?thesis by (simp add: c0_def sessions_cache_store jkeys_delete)
qed

lemma cache_set_kept:
  assumes "cache_wf c" "0 < l" "0 \<le> b" "cache_set jl l b i k v c = Some c'"
    "int (jl v * 2) \<le> b" "entry_bytes (stored_entry i k v (jl v * 2) c) \<le> b"
  shows "cached c' i k = Some v"
proof -
  define c0 where "c0 = cache_store i k v (jl v * 2) c"
  have wf0: "cache_wf c0" by (simp add: c0_def cache_store_wf assms(1))
  have s0: "sessions c0 = jmap_delete i (sessions c) @ [(i, stored_entry i k v (jl v * 2) c)]"
    by (simp add: c0_def sessions_cache_store)
  have ev: "evict l b c0 = Some c'" using assms(4,5) by (simp add: cache_set_def c0_def)
  with evict_total [OF wf0, of l b] assms(2,3,6) s0
  have suf: "suffix (sessions c') (sessions c0)" and ne: "sessions c' \<noteq> []" and wf': "cache_wf c'"
    by auto
  from suf obtain zs where zs: "sessions c0 = zs @ sessions c'" by (auto simp: suffix_def)
  have "last (sessions c') = last (sessions c0)" using zs ne by simp
  with s0 have "(i, stored_entry i k v (jl v * 2) c) \<in> set (sessions c')"
    using last_in_set [OF ne] by simp
  then have "jmap_get (sessions c') i = Some (stored_entry i k v (jl v * 2) c)"
    using wf' by (intro map_of_is_SomeI) (simp_all add: cache_wf_def)
  then show ?thesis by (simp add: cached_eq stored_entry_def Let_def jmap_simps)
qed

section \<open>Runs and properties\<close>

datatype ('i, 'k, 'v) cache_op = Read 'i 'k | Write 'i 'k 'v | Drop 'i

fun cache_step ::
  "('v \<Rightarrow> nat) \<Rightarrow> int \<Rightarrow> int \<Rightarrow> ('i, 'k, 'v) cache_op \<Rightarrow> ('i, 'k, 'v) cache \<Rightarrow>
    ('i, 'k, 'v) cache option" where
  "cache_step jl l b (Read i k) c = Some (snd (cache_get i k c))"
| "cache_step jl l b (Write i k v) c = cache_set jl l b i k v c"
| "cache_step jl l b (Drop i) c = Some (cache_remove i c)"

fun cache_run ::
  "('v \<Rightarrow> nat) \<Rightarrow> int \<Rightarrow> int \<Rightarrow> ('i, 'k, 'v) cache_op list \<Rightarrow> ('i, 'k, 'v) cache \<Rightarrow>
    ('i, 'k, 'v) cache option" where
  "cache_run jl l b [] c = Some c"
| "cache_run jl l b (x # xs) c = Option.bind (cache_step jl l b x c) (cache_run jl l b xs)"

text \<open>The abstract map that the cache approximates: the last value written and not dropped.\<close>

fun last_written :: "('i, 'k, 'v) cache_op list \<Rightarrow> ('i \<Rightarrow> 'k \<Rightarrow> 'v option) \<Rightarrow> 'i \<Rightarrow> 'k \<Rightarrow> 'v option" where
  "last_written [] m = m"
| "last_written (Read i k # xs) m = last_written xs m"
| "last_written (Write i k v # xs) m = last_written xs (m(i := (m i)(k \<mapsto> v)))"
| "last_written (Drop i # xs) m = last_written xs (m(i := Map.empty))"

lemma cache_run_ok:
  assumes "cache_wf c" "cache_bounded l b c" "0 \<le> l" "0 \<le> b"
    "\<And>i k. cached c i k = None \<or> cached c i k = m i k"
  shows "\<exists>c'. cache_run jl l b xs c = Some c' \<and> cache_wf c' \<and> cache_bounded l b c' \<and>
    (\<forall>i k. cached c' i k = None \<or> cached c' i k = last_written xs m i k)"
  using assms
proof (induction xs m arbitrary: c rule: last_written.induct)
  case (2 i k xs m)
  show ?case
    using "2.IH" [of "snd (cache_get i k c)"] "2.prems"
    by (simp add: cache_get_wf cache_get_bounded cached_cache_get)
next
  case (3 i k v xs m)
  obtain c' where c': "cache_set jl l b i k v c = Some c'" "cache_wf c'" "cache_bounded l b c'"
    using cache_set_result [OF "3.prems"(1,3,4,2)] by blast
  have "cached c' j k' = None \<or> cached c' j k' = (m(i := (m i)(k \<mapsto> v))) j k'" for j k'
    using cache_set_cached [OF "3.prems"(1,3,4,2) c'(1), of j k'] "3.prems"(5) [of j k'] by auto
  from "3.IH" [OF c'(2,3) "3.prems"(3,4) this] c'(1) show ?case by (simp add: fun_upd_def)
next
  case (4 i xs m)
  show ?case
    using "4.IH" [of "cache_remove i c"] "4.prems"
    by (simp add: cached_cache_remove cache_remove_bounded fun_upd_def)
qed auto

lemma cached_empty [simp]: "cached empty_cache i k = None"
  by (simp add: cached_eq empty_cache_def)

lemma empty_cache_bounded [simp]: "0 \<le> l \<Longrightarrow> 0 \<le> b \<Longrightarrow> cache_bounded l b empty_cache"
  by (simp add: cache_bounded_def empty_cache_def)

lemma cache_run_empty:
  assumes "0 \<le> l" "0 \<le> b"
  shows "\<exists>c. cache_run jl l b xs empty_cache = Some c \<and> cache_wf c \<and> cache_bounded l b c \<and>
    (\<forall>i k. cached c i k = None \<or> cached c i k = last_written xs (\<lambda>_ _. None) i k)"
  by (rule cache_run_ok) (simp_all add: assms)

text \<open>C27. Whatever is read, written and dropped, the cache never exceeds its number of sessions nor its
  size in bytes, its byte counters equal the sizes stored, and the eviction loop of \<open>set\<close> ends.\<close>

theorem cache_always_bounded:
  assumes "0 \<le> limit" "0 \<le> max_bytes"
  shows "\<exists>c. cache_run json_length limit max_bytes ops empty_cache = Some c \<and> cache_wf c \<and>
    int (length (sessions c)) \<le> limit \<and> total_bytes c \<le> max_bytes"
  using cache_run_empty [OF assms, of json_length ops] by (auto simp: cache_bounded_def)

theorem cache_always_bounded_witness:
  "\<exists>c. cache_run (\<lambda>v. v) 1 10 [Write ''a'' ''x'' (3::nat), Write ''b'' ''y'' 4, Read ''b'' ''y''] empty_cache =
      Some c \<and> cache_wf c \<and> int (length (sessions c)) \<le> 1 \<and> total_bytes c \<le> 10"
  using cache_always_bounded [of 1 10 "\<lambda>v. v"
      "[Write ''a'' ''x'' (3::nat), Write ''b'' ''y'' 4, Read ''b'' ''y'']"] by simp

text \<open>C28. A lookup never returns a wrong or outdated value: it is empty, or the last value written under
  this session and key since the session was last dropped.\<close>

theorem cache_refines_map:
  assumes "0 \<le> limit" "0 \<le> max_bytes"
    and "cache_run json_length limit max_bytes ops empty_cache = Some c"
  shows "fst (cache_get i k c) = None \<or> fst (cache_get i k c) = last_written ops (\<lambda>_ _. None) i k"
  using cache_run_empty [OF assms(1,2), of json_length ops] assms(3) by (auto simp: cached_def)

theorem cache_refines_map_witness:
  "\<exists>c. cache_run (\<lambda>v. v) 2 20 [Write ''a'' ''x'' (3::nat), Write ''a'' ''x'' 5] empty_cache = Some c \<and>
    (fst (cache_get ''a'' ''x'' c) = None \<or> fst (cache_get ''a'' ''x'' c) = Some 5)"
proof -
  let ?ops = "[Write ''a'' ''x'' (3::nat), Write ''a'' ''x'' 5]"
  obtain c where c: "cache_run (\<lambda>v. v) 2 20 ?ops empty_cache = Some c"
    using cache_run_empty [of 2 20 "\<lambda>v. v" ?ops] by auto
  show ?thesis using cache_refines_map [OF _ _ c, of "''a''" "''x''"] c by simp
qed

text \<open>Least recently used: a write that fits evicts only the sessions used longest ago, in order, and
  when the written session itself fits the byte bound the value just written is there.\<close>

lemma cache_set_lru:
  assumes "cache_wf c" "0 < limit" "0 \<le> max_bytes"
    and "cache_set json_length limit max_bytes i k v c = Some c'"
    and "int (json_length v * 2) \<le> max_bytes"
  shows "suffix (jkeys (sessions c')) (removeAll i (jkeys (sessions c)) @ [i]) \<and>
    (entry_bytes (stored_entry i k v (json_length v * 2) c) \<le> max_bytes \<longrightarrow>
       fst (cache_get i k c') = Some v)"
  using cache_set_recency [of c limit max_bytes json_length i k v c']
    cache_set_kept [of c limit max_bytes json_length i k v c'] assms
  by (auto simp: cached_def)

theorem cache_set_lru_witness:
  "suffix (jkeys (sessions (cache_store ''a'' ''x'' (3::nat) 6 empty_cache)))
      (removeAll ''a'' (jkeys (sessions (empty_cache :: (string, string, nat) cache))) @ [''a''])"
proof -
  let ?c = "cache_store ''a'' ''x'' (3::nat) 6 (empty_cache :: (string, string, nat) cache)"
  have "cache_bounded 1 10 ?c"
    by (simp add: cache_bounded_def sessions_cache_store empty_cache_def)
      (simp add: cache_store_def Let_def)
  then have "cache_set (\<lambda>v. v) 1 10 ''a'' ''x'' (3::nat) empty_cache = Some ?c"
    by (simp add: cache_set_def Let_def evict_stop)
  from cache_set_lru [OF _ _ _ this] show ?thesis by simp
qed

end
