(* ===== verification/Resource_Loader.thy ===== *)
theory Resource_Loader
  imports Prelude
begin

text \<open>
  The HTTP layer \<^verbatim>\<open>platform/api.js\<close> and the generic resource hook \<^verbatim>\<open>platform/resources.js\<close>.

  \<open>useResource\<close> is a state machine. Its state is the rendered triple (loading, rows, error), the
  generation counter, the abort controllers, and the requests in flight, each with what its
  closure captured. An \<open>async\<close> function is split at its \<open>await\<close>: \<open>load_start\<close> is the part before
  it, \<open>load_ok\<close> and \<open>load_fail\<close> are the two continuations. Requests settle in any order.
  The cache is an interface, the locale \<open>resource_cache\<close>.
\<close>

section \<open>Requests\<close>

record http_error =
  err_status :: "nat option"
  err_name :: string
  err_message :: string

record response =
  resp_ok :: bool
  resp_status :: nat
  resp_type :: "string option"
  resp_json :: "json option"
  resp_text :: string

datatype payload = Undefined | Json json | Text string

fun show_nat :: "nat \<Rightarrow> string" where
  "show_nat n = (if n < 10 then [char_of (48 + n)] else show_nat (n div 10) @ [char_of (48 + n mod 10)])"

declare show_nat.simps [simp del]

definition request_headers ::
  "string option \<Rightarrow> (string \<times> string) list option \<Rightarrow> (string \<times> string) list option" where
  "request_headers body headers =
     (case body of
        None \<Rightarrow> headers
      | Some _ \<Rightarrow> Some (js_spread [(''Content-Type'', ''application/json'')]
                    (case headers of None \<Rightarrow> [] | Some hs \<Rightarrow> hs)))"

definition plain_error :: "string \<Rightarrow> string \<Rightarrow> http_error" where
  "plain_error name msg = \<lparr>err_status = None, err_name = name, err_message = msg\<rparr>"

text \<open>
  The part of \<open>request\<close> after \<open>fetch\<close> has answered or rejected. \<open>js_string\<close> is the
  conversion of a value to text; a body that is the JSON value null has no field to read.
\<close>

definition request ::
  "(json \<Rightarrow> string) \<Rightarrow> http_error + response \<Rightarrow> http_error + payload" where
  "request js_string fetched =
     (case fetched of
        Inl e \<Rightarrow> Inl e
      | Inr r \<Rightarrow>
          (if \<not> resp_ok r then
             (let body = (case resp_json r of None \<Rightarrow> JObj [] | Some j \<Rightarrow> j)
              in if body = JNull
                 then Inl (plain_error ''TypeError'' ''Cannot read properties of null'')
                 else Inl \<lparr>err_status = Some (resp_status r), err_name = ''Error'',
                   err_message =
                     (case json_field body ''error'' of
                        None \<Rightarrow> ''HTTP '' @ show_nat (resp_status r)
                      | Some j \<Rightarrow> if json_truthy j then js_string j
                                  else ''HTTP '' @ show_nat (resp_status r))\<rparr>)
           else if resp_status r = 204 then Inr Undefined
           else if sublist ''json'' (case resp_type r of None \<Rightarrow> [] | Some t \<Rightarrow> t)
           then (case resp_json r of
                   None \<Rightarrow> Inl (plain_error ''SyntaxError'' ''Unexpected token'')
                 | Some j \<Rightarrow> Inr (Json j))
           else Inr (Text (resp_text r))))"

text \<open>
  \<open>mutate\<close> over a world \<open>'w\<close>: \<open>send\<close> performs the request, \<open>refresh\<close> reloads. The result is the
  returned flag, the error text left by \<open>setError\<close>, and the world.
\<close>

definition mutate ::
  "('w \<Rightarrow> (http_error + payload) \<times> 'w) \<Rightarrow> ('w \<Rightarrow> (http_error + unit) \<times> 'w) \<Rightarrow> 'w \<Rightarrow>
    bool \<times> string \<times> 'w" where
  "mutate send refresh w =
     (case send w of
        (Inl e, w1) \<Rightarrow> (False, err_message e, w1)
      | (Inr _, w1) \<Rightarrow>
          (case refresh w1 of
             (Inl e, w2) \<Rightarrow> (False, err_message e, w2)
           | (Inr _, w2) \<Rightarrow> (True, [], w2)))"

lemma request_error_message_truthy:
  assumes "request js (Inr r) = Inl e" "\<not> resp_ok r" "resp_json r \<noteq> Some JNull"
    "\<And>j. json_truthy j \<Longrightarrow> js j \<noteq> []"
  shows "err_status e = Some (resp_status r) \<and> err_message e \<noteq> []"
  using assms
  by (auto simp: request_def Let_def split: option.splits if_splits)

section \<open>The hook's state\<close>

record 'r res_state =
  rs_loading :: bool
  rs_rows :: "'r list"
  rs_error :: string

datatype 'r selected = Rows "'r list" | Nullish | Single 'r

record 'e call =
  call_endpoint :: 'e
  call_signal :: "nat option"
  call_quiet :: bool
  call_gen :: nat

record ('e, 'r) loader =
  ld_endpoint :: "'e option"
  ld_state :: "'r res_state"
  ld_gen :: nat
  ld_mount :: nat
  ld_aborted :: "nat list"
  ld_live :: bool
  ld_pending :: "'e call list"

definition loading_state :: "'r res_state" where
  "loading_state = \<lparr>rs_loading = True, rs_rows = [], rs_error = []\<rparr>"

definition initial_loader :: "('e, 'r) loader" where
  "initial_loader = \<lparr>ld_endpoint = None, ld_state = loading_state, ld_gen = 0, ld_mount = 0,
     ld_aborted = [], ld_live = False, ld_pending = []\<rparr>"

definition selected_rows :: "'r selected \<Rightarrow> 'r list" where
  "selected_rows s = (case s of Rows rs \<Rightarrow> rs | Nullish \<Rightarrow> [] | Single r \<Rightarrow> [r])"

definition denied :: "http_error \<Rightarrow> bool" where
  "denied e = (err_status e \<in> {Some 401, Some 403, Some 404})"

text \<open>React drops updates of an unmounted component.\<close>

definition set_state ::
  "('r res_state \<Rightarrow> 'r res_state) \<Rightarrow> ('e, 'r) loader \<Rightarrow> ('e, 'r) loader" where
  "set_state f s = (if ld_live s then s\<lparr>ld_state := f (ld_state s)\<rparr> else s)"

definition call_aborted :: "('e, 'r) loader \<Rightarrow> 'e call \<Rightarrow> bool" where
  "call_aborted s k = (case call_signal k of None \<Rightarrow> False | Some i \<Rightarrow> i \<in> set (ld_aborted s))"

definition stale :: "('e, 'r) loader \<Rightarrow> 'e call \<Rightarrow> bool" where
  "stale s k = (call_aborted s k \<or> call_gen k \<noteq> ld_gen s)"

section \<open>The hook's operations\<close>

definition load_start ::
  "('c \<Rightarrow> 'e \<Rightarrow> 'r res_state option \<times> 'c) \<Rightarrow> 'e option \<Rightarrow> nat option \<Rightarrow> bool \<Rightarrow>
    ('e, 'r) loader \<times> 'c \<Rightarrow> ('e, 'r) loader \<times> 'c" where
  "load_start cget endpoint signal quiet sc =
     (case endpoint of
        None \<Rightarrow> sc
      | Some e \<Rightarrow>
          (let s = fst sc; c = snd sc; g = ld_gen s + 1;
               hit_c = (if quiet then (None, c) else cget c e);
               s1 = s\<lparr>ld_gen := g\<rparr>;
               s2 = (if \<not> quiet \<and> fst hit_c = None
                     then set_state (\<lambda>v. v\<lparr>rs_loading := True, rs_error := []\<rparr>) s1 else s1)
           in (s2\<lparr>ld_pending := ld_pending s2 @
                 [\<lparr>call_endpoint = e, call_signal = signal, call_quiet = quiet, call_gen = g\<rparr>]\<rparr>,
               snd hit_c)))"

definition load_fail ::
  "('c \<Rightarrow> 'e \<Rightarrow> 'c) \<Rightarrow> 'e call \<Rightarrow> http_error \<Rightarrow> ('e, 'r) loader \<times> 'c \<Rightarrow> ('e, 'r) loader \<times> 'c" where
  "load_fail cremove k err sc =
     (let s = (fst sc)\<lparr>ld_pending := removeAll k (ld_pending (fst sc))\<rparr>; c = snd sc
      in if stale s k then (s, c)
         else (if err_name err \<noteq> ''AbortError''
               then set_state (\<lambda>v. \<lparr>rs_loading = False,
                       rs_rows = (if call_quiet k \<and> \<not> denied err then rs_rows v else []),
                       rs_error = err_message err\<rparr>) s
               else s,
               if denied err then cremove c (call_endpoint k) else c))"

definition load_ok ::
  "('c \<Rightarrow> 'e \<Rightarrow> 'r res_state \<Rightarrow> 'c option) \<Rightarrow> ('c \<Rightarrow> 'e \<Rightarrow> 'c) \<Rightarrow>
    ('v \<Rightarrow> http_error + 'r selected) \<Rightarrow> 'e call \<Rightarrow> 'v \<Rightarrow>
    ('e, 'r) loader \<times> 'c \<Rightarrow> (('e, 'r) loader \<times> 'c) option" where
  "load_ok cset cremove select k v sc =
     (let s = (fst sc)\<lparr>ld_pending := removeAll k (ld_pending (fst sc))\<rparr>; c = snd sc
      in if stale s k then Some (s, c)
         else (case select v of
                 Inl err \<Rightarrow> Some (load_fail cremove k err sc)
               | Inr sel \<Rightarrow>
                   (let nxt = \<lparr>rs_loading = False, rs_rows = selected_rows sel, rs_error = []\<rparr>
                    in case cset c (call_endpoint k) nxt of
                         None \<Rightarrow> None
                       | Some c' \<Rightarrow> Some (set_state (\<lambda>_. nxt) s, c'))))"

definition cleanup :: "('e, 'r) loader \<Rightarrow> ('e, 'r) loader" where
  "cleanup s =
     (if ld_live s
      then s\<lparr>ld_gen := ld_gen s + 1, ld_aborted := ld_mount s # ld_aborted s, ld_live := False\<rparr>
      else s)"

definition mount ::
  "('c \<Rightarrow> 'e \<Rightarrow> 'r res_state option \<times> 'c) \<Rightarrow> 'e option \<Rightarrow>
    ('e, 'r) loader \<times> 'c \<Rightarrow> ('e, 'r) loader \<times> 'c" where
  "mount cget endpoint sc =
     (let s = cleanup (fst sc);
          hit_c = (case endpoint of None \<Rightarrow> (None, snd sc) | Some e \<Rightarrow> cget (snd sc) e);
          m = ld_mount s + 1;
          s1 = s\<lparr>ld_endpoint := endpoint, ld_live := True, ld_mount := m,
                 ld_state := (case fst hit_c of None \<Rightarrow> loading_state | Some r \<Rightarrow> r)\<rparr>
      in load_start cget endpoint (Some m) False (s1, snd hit_c))"

definition refresh ::
  "('c \<Rightarrow> 'e \<Rightarrow> 'r res_state option \<times> 'c) \<Rightarrow>
    ('e, 'r) loader \<times> 'c \<Rightarrow> ('e, 'r) loader \<times> 'c" where
  "refresh cget sc = load_start cget (ld_endpoint (fst sc)) None True sc"

section \<open>Runs\<close>

text \<open>
  \<open>answers e v\<close> says that \<open>v\<close> is a response the server may give for \<open>e\<close>. A fetch rejects with
  an \<open>AbortError\<close> only when its own signal was aborted.
\<close>

inductive loader_step ::
  "('c \<Rightarrow> 'e \<Rightarrow> 'r res_state option \<times> 'c) \<Rightarrow> ('c \<Rightarrow> 'e \<Rightarrow> 'r res_state \<Rightarrow> 'c option) \<Rightarrow>
   ('c \<Rightarrow> 'e \<Rightarrow> 'c) \<Rightarrow> ('v \<Rightarrow> http_error + 'r selected) \<Rightarrow> ('e \<Rightarrow> 'v \<Rightarrow> bool) \<Rightarrow>
   ('e, 'r) loader \<times> 'c \<Rightarrow> ('e, 'r) loader \<times> 'c \<Rightarrow> bool"
  for cget cset cremove select answers where
  step_mount: "loader_step cget cset cremove select answers sc (mount cget endpoint sc)"
| step_unmount:
    "loader_step cget cset cremove select answers sc (cleanup (fst sc), snd sc)"
| step_refresh: "loader_step cget cset cremove select answers sc (refresh cget sc)"
| step_ok: "k \<in> set (ld_pending (fst sc)) \<Longrightarrow> answers (call_endpoint k) v \<Longrightarrow>
    load_ok cset cremove select k v sc = Some sc' \<Longrightarrow>
    loader_step cget cset cremove select answers sc sc'"
| step_fail: "k \<in> set (ld_pending (fst sc)) \<Longrightarrow>
    (err_name err = ''AbortError'' \<Longrightarrow> call_aborted (fst sc) k) \<Longrightarrow>
    loader_step cget cset cremove select answers sc (load_fail cremove k err sc)"

inductive loader_reach ::
  "('c \<Rightarrow> 'e \<Rightarrow> 'r res_state option \<times> 'c) \<Rightarrow> ('c \<Rightarrow> 'e \<Rightarrow> 'r res_state \<Rightarrow> 'c option) \<Rightarrow>
   ('c \<Rightarrow> 'e \<Rightarrow> 'c) \<Rightarrow> ('v \<Rightarrow> http_error + 'r selected) \<Rightarrow> ('e \<Rightarrow> 'v \<Rightarrow> bool) \<Rightarrow> 'c \<Rightarrow>
   ('e, 'r) loader \<times> 'c \<Rightarrow> bool"
  for cget cset cremove select answers c0 where
  reach_start: "loader_reach cget cset cremove select answers c0 (initial_loader, c0)"
| reach_step: "loader_reach cget cset cremove select answers c0 sc \<Longrightarrow>
    loader_step cget cset cremove select answers sc sc' \<Longrightarrow>
    loader_reach cget cset cremove select answers c0 sc'"

text \<open>Rows that came from an answer for \<open>e\<close>, or no rows at all.\<close>

definition rows_from :: "('e \<Rightarrow> 'v \<Rightarrow> bool) \<Rightarrow> ('v \<Rightarrow> http_error + 'r selected) \<Rightarrow> 'e \<Rightarrow> 'r list \<Rightarrow> bool" where
  "rows_from answers select e rows \<longleftrightarrow>
     rows = [] \<or> (\<exists>v sel. answers e v \<and> select v = Inr sel \<and> rows = selected_rows sel)"

lemma rows_from_Nil [simp]: "rows_from answers select e []"
  by (simp add: rows_from_def)

lemma stale_pending [simp]: "stale (s\<lparr>ld_pending := ks\<rparr>) k = stale s k"
  by (simp add: stale_def call_aborted_def split: option.split)

text \<open>A \<open>select\<close> function never throws an abort error.\<close>

definition select_errors :: "('v \<Rightarrow> http_error + 'r selected) \<Rightarrow> bool" where
  "select_errors select \<longleftrightarrow> (\<forall>v err. select v = Inl err \<longrightarrow> err_name err \<noteq> ''AbortError'')"

section \<open>The interface to the cache\<close>

text \<open>
  What \<open>useResource\<close> needs of a cache. A cache may forget at any time, so a lookup after a
  write is either empty or the right value.
\<close>

locale resource_cache =
  fixes cget :: "'c \<Rightarrow> 'e \<Rightarrow> 'r res_state option \<times> 'c"
    and cset :: "'c \<Rightarrow> 'e \<Rightarrow> 'r res_state \<Rightarrow> 'c option"
    and cremove :: "'c \<Rightarrow> 'e \<Rightarrow> 'c"
    and cinv :: "'c \<Rightarrow> bool"
  assumes get_inv: "cinv c \<Longrightarrow> cinv (snd (cget c e))"
    and get_get: "cinv c \<Longrightarrow> fst (cget (snd (cget c e)) e') = fst (cget c e')"
    and set_ok: "cinv c \<Longrightarrow> \<exists>c'. cset c e v = Some c' \<and> cinv c' \<and>
      (\<forall>e'. fst (cget c' e') = None \<or>
            fst (cget c' e') = (if e' = e then Some v else fst (cget c e')))"
    and remove_inv: "cinv c \<Longrightarrow> cinv (cremove c e)"
    and get_remove: "cinv c \<Longrightarrow> fst (cget (cremove c e) e') = None \<or>
      e' \<noteq> e \<and> fst (cget (cremove c e) e') = fst (cget c e')"
begin

definition cache_from :: "('e \<Rightarrow> 'v \<Rightarrow> bool) \<Rightarrow> ('v \<Rightarrow> http_error + 'r selected) \<Rightarrow> 'c \<Rightarrow> bool" where
  "cache_from answers select c \<longleftrightarrow>
     (\<forall>e r. fst (cget c e) = Some r \<longrightarrow> rows_from answers select e (rs_rows r) \<and> \<not> rs_loading r)"

text \<open>
  The invariant in two parts: \<open>loader_base\<close> (numbering of generations and signals, where rows come
  from) and \<open>loader_progress\<close> (requests of the current generation are for the current endpoint, and
  a spinner has such a request behind it). Mounting breaks the second part for a moment.
\<close>

definition loader_base :: "('e \<Rightarrow> 'v \<Rightarrow> bool) \<Rightarrow> ('v \<Rightarrow> http_error + 'r selected) \<Rightarrow>
    ('e, 'r) loader \<times> 'c \<Rightarrow> bool" where
  "loader_base answers select sc \<longleftrightarrow>
     cinv (snd sc) \<and> cache_from answers select (snd sc) \<and>
     (\<forall>k \<in> set (ld_pending (fst sc)). call_gen k \<le> ld_gen (fst sc) \<and>
        (\<forall>i. call_signal k = Some i \<longrightarrow> i \<le> ld_mount (fst sc))) \<and>
     (\<forall>i \<in> set (ld_aborted (fst sc)). i \<le> ld_mount (fst sc)) \<and>
     (ld_live (fst sc) \<longrightarrow> ld_mount (fst sc) \<notin> set (ld_aborted (fst sc)) \<and>
        (\<forall>e. ld_endpoint (fst sc) = Some e \<longrightarrow>
           rows_from answers select e (rs_rows (ld_state (fst sc)))))"

definition loader_progress :: "('e, 'r) loader \<Rightarrow> bool" where
  "loader_progress s \<longleftrightarrow>
     (\<forall>e. ld_live s \<longrightarrow> ld_endpoint s = Some e \<longrightarrow>
        (\<forall>k \<in> set (ld_pending s). call_gen k = ld_gen s \<longrightarrow> call_endpoint k = e) \<and>
        (rs_loading (ld_state s) \<longrightarrow> (\<exists>k \<in> set (ld_pending s). \<not> stale s k)))"

lemma cache_from_get:
  "cinv c \<Longrightarrow> cache_from answers select c \<Longrightarrow> cache_from answers select (snd (cget c e))"
  by (simp add: cache_from_def get_get)

lemma cache_from_remove:
  "cinv c \<Longrightarrow> cache_from answers select c \<Longrightarrow> cache_from answers select (cremove c e)"
  unfolding cache_from_def by (metis get_remove option.distinct(1))

lemma cache_from_set:
  assumes "cinv c" "cache_from answers select c" "cset c e v = Some c'"
    "rows_from answers select e (rs_rows v)" "\<not> rs_loading v"
  shows "cinv c' \<and> cache_from answers select c'"
  using set_ok [OF assms(1), of e v] assms(2-5)
  unfolding cache_from_def by (metis option.distinct(1) option.inject)

lemma load_start_base:
  assumes inv: "loader_base answers select (s, c)" and sig: "\<And>i. signal = Some i \<Longrightarrow> i = ld_mount s"
  shows "loader_base answers select (load_start cget endpoint signal quiet (s, c))"
proof (cases "endpoint")
  case None
  then show ?thesis using inv by (simp add: load_start_def)
next
  case (Some e)
  have get: "cinv (snd (cget c e))" "cache_from answers select (snd (cget c e))"
    using inv by (auto simp: loader_base_def get_inv cache_from_get)
  from inv get sig Some show ?thesis
    by (auto simp: load_start_def loader_base_def Let_def set_state_def intro: le_SucI)
qed

lemma load_start_progress:
  assumes inv: "loader_base answers select (s, c)"
    and sig: "\<And>i. signal = Some i \<Longrightarrow> i \<notin> set (ld_aborted s)"
    and e: "endpoint = ld_endpoint s"
  shows "loader_progress (fst (load_start cget endpoint signal quiet (s, c)))"
proof (cases "endpoint")
  case None
  then show ?thesis using e by (simp add: load_start_def loader_progress_def)
next
  case (Some e')
  have le: "\<And>k. k \<in> set (ld_pending s) \<Longrightarrow> call_gen k \<noteq> Suc (ld_gen s)"
    using inv by (fastforce simp: loader_base_def)
  from sig e Some show ?thesis
    by (auto simp: load_start_def loader_progress_def Let_def set_state_def stale_def
        call_aborted_def le split: option.split)
qed

lemma cleanup_base: "loader_base answers select (s, c) \<Longrightarrow> loader_base answers select (cleanup s, c)"
  by (auto simp: loader_base_def cleanup_def)

lemma cleanup_not_live [simp]: "\<not> ld_live (cleanup s)"
  by (simp add: cleanup_def)

lemma mount_inv:
  assumes inv: "loader_base answers select (s, c)"
  shows "loader_base answers select (mount cget endpoint (s, c)) \<and>
    loader_progress (fst (mount cget endpoint (s, c)))"
proof -
  have s0: "loader_base answers select (cleanup s, c)" by (rule cleanup_base [OF inv])
  define hit where "hit = (case endpoint of None \<Rightarrow> (None, c) | Some e \<Rightarrow> cget c e)"
  define s1 where "s1 = (cleanup s)\<lparr>ld_endpoint := endpoint, ld_live := True,
      ld_mount := ld_mount (cleanup s) + 1,
      ld_state := (case fst hit of None \<Rightarrow> loading_state | Some r \<Rightarrow> r)\<rparr>"
  have hit: "cinv (snd hit)" "cache_from answers select (snd hit)"
    using s0 by (auto simp: hit_def loader_base_def get_inv cache_from_get split: option.split)
  have rows: "rows_from answers select e (rs_rows (ld_state s1))" if "endpoint = Some e" for e
    using s0 that
    by (auto simp: s1_def hit_def loader_base_def cache_from_def loading_state_def split: option.split)
  have b1: "loader_base answers select (s1, snd hit)"
    using s0 hit rows by (fastforce simp: loader_base_def s1_def)
  have sig: "Suc (ld_mount (cleanup s)) \<notin> set (ld_aborted (cleanup s))"
    using s0 by (fastforce simp: loader_base_def)
  have eq: "mount cget endpoint (s, c) =
      load_start cget endpoint (Some (ld_mount s1)) False (s1, snd hit)"
    by (simp add: mount_def Let_def hit_def s1_def split: option.split)
  show ?thesis
    unfolding eq
    using load_start_base [OF b1, of "Some (ld_mount s1)"]
      load_start_progress [OF b1, of "Some (ld_mount s1)"] sig
    by (simp add: s1_def)
qed

lemma settle_base:
  "loader_base answers select (s, c) \<Longrightarrow>
    loader_base answers select (s\<lparr>ld_pending := removeAll k (ld_pending s)\<rparr>, c)"
  by (auto simp: loader_base_def)

lemma set_state_base:
  assumes "loader_base answers select (s, c)" "cinv c'" "cache_from answers select c'"
    "\<And>e. ld_live s \<Longrightarrow> ld_endpoint s = Some e \<Longrightarrow> rows_from answers select e (rs_rows (f (ld_state s)))"
  shows "loader_base answers select (set_state f s, c')"
  using assms by (auto simp: loader_base_def set_state_def)

lemma settle_progress:
  "loader_progress s \<Longrightarrow> stale s k \<Longrightarrow>
    loader_progress (s\<lparr>ld_pending := removeAll k (ld_pending s)\<rparr>)"
  by (fastforce simp: loader_progress_def)

lemma set_state_progress:
  "loader_progress s \<Longrightarrow> \<not> rs_loading (f (ld_state s)) \<Longrightarrow>
    loader_progress (set_state f (s\<lparr>ld_pending := removeAll k (ld_pending s)\<rparr>))"
  by (auto simp: loader_progress_def set_state_def)

lemma load_fail_inv:
  assumes "loader_base answers select (s, c)" "loader_progress s"
    and abort: "err_name err = ''AbortError'' \<Longrightarrow> stale s k"
  shows "loader_base answers select (load_fail cremove k err (s, c)) \<and>
    loader_progress (fst (load_fail cremove k err (s, c)))"
proof (cases "stale s k")
  case True
  with assms show ?thesis by (simp add: load_fail_def Let_def settle_base settle_progress)
next
  case False
  let ?c' = "if denied err then cremove c (call_endpoint k) else c"
  have c': "cinv ?c'" "cache_from answers select ?c'"
    using assms(1) by (auto simp: loader_base_def remove_inv cache_from_remove)
  from False abort have "err_name err \<noteq> ''AbortError''" by blast
  moreover define f where "f = (\<lambda>v :: 'r res_state. \<lparr>rs_loading = False,
      rs_rows = (if call_quiet k \<and> \<not> denied err then rs_rows v else []),
      rs_error = err_message err\<rparr>)"
  ultimately have eq: "load_fail cremove k err (s, c) =
      (set_state f (s\<lparr>ld_pending := removeAll k (ld_pending s)\<rparr>), ?c')"
    using False by (simp add: load_fail_def Let_def)
  have "loader_base answers select
      (set_state f (s\<lparr>ld_pending := removeAll k (ld_pending s)\<rparr>), ?c')"
    by (rule set_state_base [OF settle_base [OF assms(1)] c'])
      (use assms(1) in \<open>auto simp: f_def loader_base_def\<close>)
  moreover have "loader_progress (set_state f (s\<lparr>ld_pending := removeAll k (ld_pending s)\<rparr>))"
    by (rule set_state_progress [OF assms(2)]) (simp add: f_def)
  ultimately show ?thesis by (simp add: eq)
qed

lemma load_ok_inv:
  assumes base: "loader_base answers select (s, c)" and prog: "loader_progress s"
    and k: "k \<in> set (ld_pending s)" and ans: "answers (call_endpoint k) v"
    and sel: "select_errors select"
    and ok: "load_ok cset cremove select k v (s, c) = Some sc'"
  shows "loader_base answers select sc' \<and> loader_progress (fst sc')"
proof (cases "stale s k")
  case True
  with ok base prog show ?thesis
    by (auto simp: load_ok_def Let_def settle_base settle_progress)
next
  case False
  show ?thesis
  proof (cases "select v")
    case (Inl err)
    with ok False have "sc' = load_fail cremove k err (s, c)" by (simp add: load_ok_def Let_def)
    with load_fail_inv [OF base prog, of err k] sel Inl show ?thesis by (simp add: select_errors_def)
  next
    case (Inr r)
    define nxt where "nxt = \<lparr>rs_loading = False, rs_rows = selected_rows r, rs_error = []\<rparr>"
    obtain c' where c': "cset c (call_endpoint k) nxt = Some c'"
      "sc' = (set_state (\<lambda>_. nxt) (s\<lparr>ld_pending := removeAll k (ld_pending s)\<rparr>), c')"
      using ok False Inr by (auto simp: load_ok_def Let_def nxt_def split: option.splits)
    have rows: "rows_from answers select (call_endpoint k) (rs_rows nxt)"
      using ans Inr by (auto simp: rows_from_def nxt_def)
    have cc: "cinv c' \<and> cache_from answers select c'"
      using base rows by (intro cache_from_set [OF _ _ c'(1)]) (auto simp: loader_base_def nxt_def)
    have ep: "call_endpoint k = e" if "ld_live s" "ld_endpoint s = Some e" for e
      using prog False k that by (auto simp: loader_progress_def stale_def)
    have "loader_base answers select sc'"
      unfolding c'(2) using cc rows ep by (intro set_state_base [OF settle_base [OF base]]) auto
    moreover have "loader_progress (fst sc')"
      unfolding c'(2) using set_state_progress [OF prog] by (simp add: nxt_def)
    ultimately show ?thesis ..
  qed
qed

theorem loader_reach_inv:
  assumes "loader_reach cget cset cremove select answers c0 sc" "cinv c0"
    "\<And>e. fst (cget c0 e) = None" "select_errors select"
  shows "loader_base answers select sc \<and> loader_progress (fst sc)"
  using assms(1)
proof (induction rule: loader_reach.induct)
  case reach_start
  then show ?case
    using assms(2,3) by (simp add: loader_base_def loader_progress_def initial_loader_def cache_from_def)
next
  case (reach_step sc sc')
  obtain s c where sc: "sc = (s, c)" by (cases sc)
  from reach_step.IH have base: "loader_base answers select (s, c)" and prog: "loader_progress s"
    by (simp_all add: sc)
  from reach_step.hyps(2) show ?case
  proof (cases rule: loader_step.cases)
    case (step_mount endpoint)
    then show ?thesis using mount_inv [OF base] by (simp add: sc)
  next
    case step_unmount
    then show ?thesis using cleanup_base [OF base] by (simp add: sc loader_progress_def)
  next
    case step_refresh
    then show ?thesis
      using load_start_base [OF base, of None "ld_endpoint s" True]
        load_start_progress [OF base, of None "ld_endpoint s" True]
      by (simp add: sc refresh_def)
  next
    case (step_ok k v)
    then show ?thesis using load_ok_inv [OF base prog _ _ assms(4)] by (auto simp: sc)
  next
    case (step_fail k err)
    then show ?thesis using load_fail_inv [OF base prog, of err k] by (simp add: sc stale_def)
  qed
qed

text \<open>The two facts the clients use.\<close>

lemma loading_has_request:
  assumes "loader_reach cget cset cremove select answers c0 sc" "cinv c0"
    "\<And>e. fst (cget c0 e) = None" "select_errors select"
    "ld_live (fst sc)" "ld_endpoint (fst sc) = Some e" "rs_loading (ld_state (fst sc))"
  shows "\<exists>k \<in> set (ld_pending (fst sc)). call_gen k = ld_gen (fst sc) \<and> call_endpoint k = e"
  using loader_reach_inv [OF assms(1-4)] assms(5-7)
  by (auto simp: loader_progress_def stale_def)

lemma rows_of_endpoint:
  assumes "loader_reach cget cset cremove select answers c0 sc" "cinv c0"
    "\<And>e. fst (cget c0 e) = None" "select_errors select"
    "ld_live (fst sc)" "ld_endpoint (fst sc) = Some e"
  shows "rows_from answers select e (rs_rows (ld_state (fst sc)))"
  using loader_reach_inv [OF assms(1-4)] assms(5,6) by (auto simp: loader_base_def)

end

text \<open>A request of an older generation, or one whose signal was aborted, changes nothing.\<close>

lemma stale_result_ignored:
  assumes "stale (fst sc) k"
  shows "load_fail cremove k err sc =
      ((fst sc)\<lparr>ld_pending := removeAll k (ld_pending (fst sc))\<rparr>, snd sc)"
    and "load_ok cset cremove select k v sc =
      Some ((fst sc)\<lparr>ld_pending := removeAll k (ld_pending (fst sc))\<rparr>, snd sc)"
  using assms by (simp_all add: load_fail_def load_ok_def Let_def)

text \<open>Settling the current request of a mounted hook ends the loading state.\<close>

lemma settle_not_loading:
  assumes "ld_live (fst sc)" "\<not> stale (fst sc) k"
  shows "load_ok cset cremove select k v sc = Some sc' \<Longrightarrow>
      select_errors select \<Longrightarrow>
      \<not> rs_loading (ld_state (fst sc'))"
    and "err_name err \<noteq> ''AbortError'' \<Longrightarrow>
      \<not> rs_loading (ld_state (fst (load_fail cremove k err sc)))"
  using assms
  by (auto simp: load_ok_def load_fail_def Let_def set_state_def select_errors_def
      split: sum.splits option.splits)

end
