(* ===== verification/Conversation_Resources.thy ===== *)
theory Conversation_Resources
  imports Conversation_Cache Resource_Loader
begin

text \<open>
  The session cache as seen by its two users.

  \<^item> \<^verbatim>\<open>features/conversations/resources.js\<close> adapts the conversation cache to the interface of
    \<open>useResource\<close>: the session is the sixth segment of the endpoint. The interpretation below
    discharges the laws of \<open>resource_cache\<close> for it.
  \<^item> \<^verbatim>\<open>features/conversations/scroll.js\<close> keeps the scroll position of a transcript in the same cache.

  The cache is untyped in the code; here a cached value is a resource state or a position.
\<close>

section \<open>The adapter\<close>

datatype 'r cached_value = Resource "'r res_state" | Position int

type_synonym 'r conversation_cache = "(string option, string, 'r cached_value) cache"

definition session_id :: "string \<Rightarrow> string option" where
  "session_id endpoint =
     (let ps = js_split CHR ''/'' endpoint in if 5 < length ps then Some (ps ! 5) else None)"

definition session_get ::
  "'r conversation_cache \<Rightarrow> string \<Rightarrow> 'r res_state option \<times> 'r conversation_cache" where
  "session_get c endpoint =
     (let vc = cache_get (session_id endpoint) endpoint c
      in (case fst vc of Some (Resource r) \<Rightarrow> Some r | _ \<Rightarrow> None, snd vc))"

definition session_set ::
  "('r cached_value \<Rightarrow> nat) \<Rightarrow> 'r conversation_cache \<Rightarrow> string \<Rightarrow> 'r res_state \<Rightarrow>
    'r conversation_cache option" where
  "session_set json_length c endpoint r =
     cache_set json_length default_limit default_max_bytes (session_id endpoint) endpoint (Resource r) c"

definition session_remove :: "'r conversation_cache \<Rightarrow> string \<Rightarrow> 'r conversation_cache" where
  "session_remove c endpoint = cache_remove (session_id endpoint) c"

definition session_cache_ok :: "'r conversation_cache \<Rightarrow> bool" where
  "session_cache_ok c \<longleftrightarrow> cache_wf c \<and> cache_bounded default_limit default_max_bytes c"

definition as_resource :: "'r cached_value option \<Rightarrow> 'r res_state option" where
  "as_resource v = (case v of Some (Resource r) \<Rightarrow> Some r | _ \<Rightarrow> None)"

lemma fst_session_get: "fst (session_get c e) = as_resource (cached c (session_id e) e)"
  by (simp add: session_get_def Let_def cached_def as_resource_def)

lemma snd_session_get: "snd (session_get c e) = snd (cache_get (session_id e) e c)"
  by (simp add: session_get_def Let_def)

lemma default_bounds [simp]: "0 \<le> default_limit" "0 \<le> default_max_bytes"
  by (simp_all add: default_limit_def default_max_bytes_def)

lemma as_resource_simps [simp]: "as_resource None = None" "as_resource (Some (Resource r)) = Some r"
  by (simp_all add: as_resource_def)

lemma session_set_law:
  assumes "session_cache_ok c"
  shows "\<exists>c'. session_set jl c e v = Some c' \<and> session_cache_ok c' \<and>
      (\<forall>e'. fst (session_get c' e') = None \<or>
            fst (session_get c' e') = (if e' = e then Some v else fst (session_get c e')))"
proof -
  from assms obtain c' where c': "session_set jl c e v = Some c'" "session_cache_ok c'"
    "\<And>j k. cached c' j k = None \<or>
       cached c' j k = (if j = session_id e \<and> k = e then Some (Resource v) else cached c j k)"
    using cache_set_result [of c default_limit default_max_bytes jl "session_id e" e "Resource v"]
    unfolding session_cache_ok_def session_set_def by auto
  have "fst (session_get c' e') = None \<or>
      fst (session_get c' e') = (if e' = e then Some v else fst (session_get c e'))" for e'
    using c'(3) [of "session_id e'" e'] by (auto simp: fst_session_get split: if_splits)
  with c'(1,2) show ?thesis by blast
qed

interpretation session_cache: resource_cache session_get "session_set jl" session_remove session_cache_ok
  for jl
proof unfold_locales
  show "session_cache_ok (snd (session_get c e))" if "session_cache_ok c" for c e
    using that by (simp add: session_cache_ok_def snd_session_get cache_get_wf cache_get_bounded)
  show "fst (session_get (snd (session_get c e)) e') = fst (session_get c e')" for c e e'
    by (simp add: fst_session_get snd_session_get cached_cache_get)
  show "session_cache_ok (session_remove c e)" if "session_cache_ok c" for c e
    using that by (auto simp: session_cache_ok_def session_remove_def)
  show "fst (session_get (session_remove c e) e') = None \<or>
      e' \<noteq> e \<and> fst (session_get (session_remove c e) e') = fst (session_get c e')" for c e e'
    by (auto simp: fst_session_get session_remove_def cached_cache_remove)
qed (rule session_set_law)

text \<open>The hook without a cache argument: \<open>cache?.get\<close> is undefined and \<open>cache?.set\<close> does nothing.\<close>

definition no_get :: "unit \<Rightarrow> 'e \<Rightarrow> 'r res_state option \<times> unit" where
  "no_get c e = (None, c)"

definition no_set :: "unit \<Rightarrow> 'e \<Rightarrow> 'r res_state \<Rightarrow> unit option" where
  "no_set c e r = Some c"

definition no_remove :: "unit \<Rightarrow> 'e \<Rightarrow> unit" where
  "no_remove c e = c"

interpretation uncached: resource_cache no_get no_set no_remove "\<lambda>_. True"
  by unfold_locales (simp_all add: no_get_def no_set_def no_remove_def)

section \<open>Scroll positions\<close>

text \<open>
  The browser around the tracker: the media query, the drawer, the document and list offsets;
  and the tracker's own variables. \<open>side\<close> is the argument of the same name.
\<close>

record 'r scroller =
  sw_mobile :: bool
  sw_drawer :: bool
  sw_window_y :: int
  sw_list_top :: int
  sw_was_open :: bool
  sw_position :: int
  sw_cache :: "'r conversation_cache"

datatype scroll_event =
    DocumentScroll int
  | ListScroll int
  | SidebarChange bool
  | MediaChange bool

definition in_document :: "bool \<Rightarrow> 'r scroller \<Rightarrow> bool" where
  "in_document side w = (sw_mobile w \<and> \<not> side)"

definition scroll_save ::
  "('r cached_value \<Rightarrow> nat) \<Rightarrow> string option \<Rightarrow> int \<Rightarrow> 'r scroller \<Rightarrow> 'r scroller option" where
  "scroll_save jl sid v w =
     map_option (\<lambda>c. w\<lparr>sw_position := v, sw_cache := c\<rparr>)
       (cache_set jl default_limit default_max_bytes sid ''scroll'' (Position v) (sw_cache w))"

definition scroll_restore :: "bool \<Rightarrow> 'r scroller \<Rightarrow> 'r scroller" where
  "scroll_restore side w =
     (if in_document side w then w\<lparr>sw_window_y := (if sw_drawer w then 0 else sw_position w)\<rparr>
      else (let w' = (if \<not> side \<and> sw_window_y w \<noteq> 0 then w\<lparr>sw_window_y := 0\<rparr> else w)
            in w'\<lparr>sw_list_top := sw_position w\<rparr>))"

fun scroll_step ::
  "('r cached_value \<Rightarrow> nat) \<Rightarrow> string option \<Rightarrow> bool \<Rightarrow> scroll_event \<Rightarrow> 'r scroller \<Rightarrow>
    'r scroller option" where
  "scroll_step jl sid side (DocumentScroll y) w =
     (let w' = w\<lparr>sw_window_y := y\<rparr>
      in if in_document side w' \<and> \<not> sw_drawer w' then scroll_save jl sid y w' else Some w')"
| "scroll_step jl sid side (ListScroll y) w =
     (let w' = w\<lparr>sw_list_top := y\<rparr>
      in if \<not> in_document side w' then scroll_save jl sid y w' else Some w')"
| "scroll_step jl sid side (SidebarChange b) w =
     (let w' = w\<lparr>sw_drawer := b\<rparr>
      in if b = sw_was_open w' then Some w'
         else (let w'' = w'\<lparr>sw_was_open := b\<rparr>
               in Some (if in_document side w'' then scroll_restore side w'' else w'')))"
| "scroll_step jl sid side (MediaChange b) w = Some (scroll_restore side (w\<lparr>sw_mobile := b\<rparr>))"

fun scroll_run ::
  "('r cached_value \<Rightarrow> nat) \<Rightarrow> string option \<Rightarrow> bool \<Rightarrow> scroll_event list \<Rightarrow> 'r scroller \<Rightarrow>
    'r scroller option" where
  "scroll_run jl sid side [] w = Some w"
| "scroll_run jl sid side (e # es) w =
     Option.bind (scroll_step jl sid side e w) (scroll_run jl sid side es)"

text \<open>Starting the tracker: read the stored position, subscribe, restore.\<close>

definition scroll_track :: "string option \<Rightarrow> bool \<Rightarrow> 'r scroller \<Rightarrow> 'r scroller" where
  "scroll_track sid side w =
     (let vc = cache_get sid ''scroll'' (sw_cache w)
      in scroll_restore side
           (w\<lparr>sw_was_open := sw_drawer w, sw_cache := snd vc,
              sw_position := (case fst vc of Some (Position p) \<Rightarrow> p | _ \<Rightarrow> 0)\<rparr>))"

definition scroll_dispose :: "bool \<Rightarrow> 'r scroller \<Rightarrow> 'r scroller" where
  "scroll_dispose side w = (if in_document side w then w\<lparr>sw_window_y := 0\<rparr> else w)"

lemma scroll_run_append:
  "scroll_run jl sid side (es @ fs) w =
    Option.bind (scroll_run jl sid side es w) (scroll_run jl sid side fs)"
  by (induction es arbitrary: w) (auto simp: bind_eq_Some_conv split: bind_splits)

text \<open>While the drawer is open on a phone, the document may scroll anywhere; nothing is saved.\<close>

lemma scroll_run_drawer_open:
  assumes "sw_mobile w" "sw_drawer w"
  shows "\<exists>y. scroll_run jl sid False (map DocumentScroll ys) w = Some (w\<lparr>sw_window_y := y\<rparr>)"
  using assms
proof (induction ys arbitrary: w)
  case Nil
  show ?case by (rule exI [of _ "sw_window_y w"]) simp
next
  case (Cons y ys)
  have "\<exists>y'. scroll_run jl sid False (map DocumentScroll ys) (w\<lparr>sw_window_y := y\<rparr>) =
      Some (w\<lparr>sw_window_y := y, sw_window_y := y'\<rparr>)"
    by (rule Cons.IH) (use Cons.prems in simp_all)
  with Cons.prems show ?case by (simp add: in_document_def)
qed

lemma drawer_roundtrip:
  assumes "sw_mobile w" "\<not> sw_drawer w" "\<not> sw_was_open w"
  shows "\<exists>w'. scroll_run jl sid False
      (SidebarChange True # map DocumentScroll ys @ [SidebarChange False]) w = Some w' \<and>
      sw_window_y w' = sw_position w \<and> sw_position w' = sw_position w \<and> sw_cache w' = sw_cache w"
proof -
  let ?w1 = "w\<lparr>sw_drawer := True, sw_was_open := True, sw_window_y := 0\<rparr>"
  have s1: "scroll_step jl sid False (SidebarChange True) w = Some ?w1"
    using assms by (simp add: in_document_def scroll_restore_def)
  obtain y where "scroll_run jl sid False (map DocumentScroll ys) ?w1 = Some (?w1\<lparr>sw_window_y := y\<rparr>)"
    using scroll_run_drawer_open [of ?w1 jl sid ys] assms by auto
  then show ?thesis
    using assms s1
    by (simp add: scroll_run_append in_document_def scroll_restore_def del: scroll_step.simps(3))
      (simp add: in_document_def scroll_restore_def)
qed

text \<open>A saved position is found again by the next tracker, as long as it is still cached.\<close>

lemma scroll_save_track:
  assumes "cache_wf (sw_cache w)" "cache_bounded default_limit default_max_bytes (sw_cache w)"
    "scroll_save jl sid v w = Some w'" "cached (sw_cache w') sid ''scroll'' \<noteq> None"
  shows "sw_position (scroll_track sid side w') = v"
proof -
  obtain c' where c': "cache_set jl default_limit default_max_bytes sid ''scroll'' (Position v) (sw_cache w) = Some c'"
      "w' = w\<lparr>sw_position := v, sw_cache := c'\<rparr>"
    using assms(3) by (auto simp: scroll_save_def)
  then have "cached c' sid ''scroll'' = Some (Position v)"
    using cache_set_cached [OF assms(1) _ _ assms(2), of jl sid "''scroll''" "Position v" c' sid "''scroll''"]
      assms(4)
    by (auto simp: c')
  then show ?thesis
    by (simp add: scroll_track_def Let_def c' cached_def scroll_restore_def)
qed

section \<open>Properties\<close>

text \<open>A mounted hook on the session cache, after its first mount, for the witnesses below.\<close>

definition witness_endpoint :: string where
  "witness_endpoint = ''/api/runtime/v1/sessions/s1/messages''"

definition witness_mounted :: "(string, nat) loader \<times> nat conversation_cache" where
  "witness_mounted = mount session_get (Some witness_endpoint) (initial_loader, empty_cache)"

lemma empty_cache_ok [simp]: "session_cache_ok empty_cache"
  by (simp add: session_cache_ok_def cache_bounded_def empty_cache_def default_limit_def default_max_bytes_def
      cache_wf_def)

lemma empty_cache_get [simp]: "fst (session_get empty_cache e) = None"
  by (simp add: fst_session_get cached_eq empty_cache_def)

lemma witness_mounted_reach:
  "loader_reach session_get (session_set jl) session_remove select answers empty_cache witness_mounted"
  unfolding witness_mounted_def by (rule reach_step [OF reach_start step_mount])

lemma witness_mounted_state:
  "ld_live (fst witness_mounted)" "ld_endpoint (fst witness_mounted) = Some witness_endpoint"
  "rs_loading (ld_state (fst witness_mounted))"
  by (simp_all add: witness_mounted_def mount_def load_start_def cleanup_def initial_loader_def
      Let_def set_state_def loading_state_def empty_cache_def session_get_def cache_get_def)





text \<open>On a phone, opening the drawer, scrolling the page behind it in any way and closing it again
  brings the transcript back to its position, and the stored position is untouched.\<close>

lemma drawer_keeps_position:
  assumes "sw_mobile w" "\<not> sw_drawer w" "\<not> sw_was_open w"
  shows "\<exists>w'. scroll_run json_length sid False
      (SidebarChange True # map DocumentScroll ys @ [SidebarChange False]) w = Some w' \<and>
      sw_window_y w' = sw_position w \<and> sw_position w' = sw_position w \<and> sw_cache w' = sw_cache w"
  using drawer_roundtrip [OF assms] .

theorem drawer_keeps_position_witness:
  "\<exists>w'. scroll_run (\<lambda>_. 2) (Some ''s1'') False
      (SidebarChange True # map DocumentScroll [40, 7] @ [SidebarChange False])
      \<lparr>sw_mobile = True, sw_drawer = False, sw_window_y = 300, sw_list_top = 0, sw_was_open = False,
       sw_position = 300, sw_cache = (empty_cache :: nat conversation_cache)\<rparr> = Some w' \<and>
      sw_window_y w' = 300 \<and> sw_position w' = 300 \<and> sw_cache w' = empty_cache"
  using drawer_keeps_position [of "\<lparr>sw_mobile = True, sw_drawer = False, sw_window_y = 300,
      sw_list_top = 0, sw_was_open = False, sw_position = 300,
      sw_cache = (empty_cache :: nat conversation_cache)\<rparr>" "\<lambda>_. 2" "Some ''s1''" "[40, 7]"]
  by simp

end
