(* ===== verification/Message_Delivery.thy ===== *)
theory Message_Delivery
  imports Prelude
begin

text \<open>
  Pending message receipts, \<^verbatim>\<open>features/conversations/message-delivery.js\<close>: an in-memory map from
  session to receipt rows, mirrored to the tab's session storage, with change listeners.

  A row is a JavaScript object (an insertion-ordered map of JSON values). What storage holds for a
  key is \<open>Some rows\<close> when the text parses, \<open>None\<close> when it does not; the mode says whether storage
  calls throw. A page reload keeps storage and empties the memory.
\<close>

section \<open>State and operations\<close>

type_synonym row = "(string \<times> json) list"

datatype storage_mode = Works | Write_Throws | All_Throws

record delivery =
  dl_sessions :: "(string \<times> row list) list"
  dl_storage :: "(string \<times> row list option) list"
  dl_mode :: storage_mode
  dl_listeners :: "nat list"
  dl_notified :: "nat list"

definition storage_key :: "string \<Rightarrow> string" where
  "storage_key i = ''workagent.draft.delivery.'' @ i"

definition row_id :: "row \<Rightarrow> json option" where
  "row_id r = jmap_get r ''id''"

definition unconfirmed :: "row \<Rightarrow> row" where
  "unconfirmed r = js_spread r
     [(''status'', JStr ''failed''),
      (''error'', JStr ''delivery unconfirmed, safe to retry'')]"

definition read_storage :: "string \<Rightarrow> delivery \<Rightarrow> row list" where
  "read_storage i d =
     (if dl_mode d = All_Throws then []
      else (case jmap_get (dl_storage d) (storage_key i) of
              None \<Rightarrow> [] | Some None \<Rightarrow> [] | Some (Some rows) \<Rightarrow> rows))"

definition delivery_get :: "string \<Rightarrow> delivery \<Rightarrow> row list \<times> delivery" where
  "delivery_get i d =
     (case jmap_get (dl_sessions d) i of
        Some rows \<Rightarrow> (rows, d)
      | None \<Rightarrow>
          (let rows = map unconfirmed (read_storage i d)
           in (rows, d\<lparr>dl_sessions := jmap_set i rows (dl_sessions d)\<rparr>)))"

definition write_storage :: "string \<Rightarrow> row list \<Rightarrow> delivery \<Rightarrow> delivery" where
  "write_storage i rows d =
     (if rows \<noteq> []
      then (if dl_mode d = Works
            then d\<lparr>dl_storage := jmap_set (storage_key i) (Some rows) (dl_storage d)\<rparr> else d)
      else (if dl_mode d = All_Throws then d
            else d\<lparr>dl_storage := jmap_delete (storage_key i) (dl_storage d)\<rparr>))"

definition delivery_set :: "string \<Rightarrow> row list \<Rightarrow> delivery \<Rightarrow> delivery" where
  "delivery_set i rows d =
     (let d1 = write_storage i rows (d\<lparr>dl_sessions := jmap_set i rows (dl_sessions d)\<rparr>)
      in d1\<lparr>dl_notified := dl_notified d1 @ dl_listeners d1\<rparr>)"

definition update_rows :: "row \<Rightarrow> row list \<Rightarrow> row list" where
  "update_rows r rows =
     (if \<forall>x \<in> set rows. row_id x \<noteq> row_id r then rows @ [r]
      else map (\<lambda>x. if row_id x = row_id r then js_spread x r else x) rows)"

definition delivery_update :: "string \<Rightarrow> row \<Rightarrow> delivery \<Rightarrow> delivery" where
  "delivery_update i r d =
     (let rd = delivery_get i d in delivery_set i (update_rows r (fst rd)) (snd rd))"

definition known_ids :: "row list \<Rightarrow> row list \<Rightarrow> json option list" where
  "known_ids messages queue =
     map row_id messages @ map (\<lambda>r. jmap_get r ''messageId'') queue"

definition remaining_rows :: "row list \<Rightarrow> row list \<Rightarrow> row list \<Rightarrow> row list" where
  "remaining_rows messages queue rows =
     filter (\<lambda>r. row_id r \<notin> set (known_ids messages queue)) rows"

definition delivery_reconcile :: "string \<Rightarrow> row list \<Rightarrow> row list \<Rightarrow> delivery \<Rightarrow> delivery" where
  "delivery_reconcile i messages queue d =
     (let rd = delivery_get i d;
          remaining = remaining_rows messages queue (fst rd)
      in if length remaining \<noteq> length (fst rd) then delivery_set i remaining (snd rd) else snd rd)"

text \<open>\<open>useRows\<close> subscribes and unsubscribes a listener; the listeners are a \<open>Set\<close>.\<close>

definition subscribe :: "nat \<Rightarrow> delivery \<Rightarrow> delivery" where
  "subscribe l d = d\<lparr>dl_listeners := (if l \<in> set (dl_listeners d) then dl_listeners d else dl_listeners d @ [l])\<rparr>"

definition unsubscribe :: "nat \<Rightarrow> delivery \<Rightarrow> delivery" where
  "unsubscribe l d = d\<lparr>dl_listeners := removeAll l (dl_listeners d)\<rparr>"

definition reload_page :: "delivery \<Rightarrow> delivery" where
  "reload_page d = d\<lparr>dl_sessions := [], dl_listeners := []\<rparr>"

section \<open>Lemmas\<close>

definition receipts :: "delivery \<Rightarrow> string \<Rightarrow> row list" where
  "receipts d i = fst (delivery_get i d)"

text \<open>Every row is an object with distinct fields, and the rows of a session have distinct ids.\<close>

definition rows_wf :: "row list \<Rightarrow> bool" where
  "rows_wf rows \<longleftrightarrow> distinct (map row_id rows) \<and> (\<forall>r \<in> set rows. distinct (jkeys r))"

lemma storage_key_inject [simp]: "storage_key i = storage_key j \<longleftrightarrow> i = j"
  by (simp add: storage_key_def)

lemma row_id_spread:
  "distinct (jkeys e) \<Longrightarrow>
    row_id (js_spread r e) = (case row_id e of None \<Rightarrow> row_id r | Some v \<Rightarrow> Some v)"
  by (simp add: row_id_def jmap_get_spread split: option.split)

lemma row_id_unconfirmed [simp]: "row_id (unconfirmed r) = row_id r"
  unfolding unconfirmed_def by (subst row_id_spread) (simp_all add: row_id_def)

lemma unconfirmed_status: "jmap_get (unconfirmed r) ''status'' = Some (JStr ''failed'')"
  by (simp add: unconfirmed_def jmap_get_set)

lemma unconfirmed_other:
  "k \<noteq> ''status'' \<Longrightarrow> k \<noteq> ''error'' \<Longrightarrow> jmap_get (unconfirmed r) k = jmap_get r k"
  by (simp add: unconfirmed_def jmap_get_set)

lemma delivery_set_simps [simp]:
  "dl_sessions (delivery_set i rows d) = jmap_set i rows (dl_sessions d)"
  "dl_mode (delivery_set i rows d) = dl_mode d"
  "dl_listeners (delivery_set i rows d) = dl_listeners d"
  "dl_notified (delivery_set i rows d) = dl_notified d @ dl_listeners d"
  by (simp_all add: delivery_set_def write_storage_def Let_def)

lemma delivery_get_simps [simp]:
  "dl_storage (snd (delivery_get i d)) = dl_storage d"
  "dl_mode (snd (delivery_get i d)) = dl_mode d"
  "dl_listeners (snd (delivery_get i d)) = dl_listeners d"
  "dl_notified (snd (delivery_get i d)) = dl_notified d"
  by (simp_all add: delivery_get_def Let_def split: option.split)

lemma receipts_get [simp]: "receipts (snd (delivery_get i d)) j = receipts d j"
  by (simp add: receipts_def delivery_get_def read_storage_def Let_def jmap_simps split: option.split)

lemma storage_delivery_set:
  "dl_mode d = Works \<Longrightarrow> jmap_get (dl_storage (delivery_set i rows d)) (storage_key j) =
     (if j = i then (if rows = [] then None else Some (Some rows))
      else jmap_get (dl_storage d) (storage_key j))"
  by (simp add: delivery_set_def write_storage_def Let_def jmap_simps)

lemma receipts_set [simp]: "receipts (delivery_set i rows d) i = rows"
  by (simp add: receipts_def delivery_get_def jmap_simps)

lemma receipts_set_other:
  assumes "j \<noteq> i" shows "receipts (delivery_set i rows d) j = receipts d j"
proof -
  have "jmap_get (dl_storage (delivery_set i rows d)) (storage_key j) =
      jmap_get (dl_storage d) (storage_key j)"
    using assms by (simp add: delivery_set_def write_storage_def Let_def jmap_simps)
  with assms show ?thesis
    by (simp add: receipts_def delivery_get_def read_storage_def Let_def jmap_simps split: option.split)
qed

lemma receipts_update:
  "receipts (delivery_update i r d) j =
     (if j = i then update_rows r (receipts d i) else receipts d j)"
  by (simp add: delivery_update_def Let_def receipts_set_other) (simp add: receipts_def)

lemma update_rows_ids:
  assumes "distinct (jkeys r)"
  shows "map row_id (update_rows r rows) =
    (if row_id r \<in> row_id ` set rows then map row_id rows else map row_id rows @ [row_id r])"
proof (cases "row_id r \<in> row_id ` set rows")
  case True
  have "row_id (js_spread x r) = row_id x" if "row_id x = row_id r" for x
    using that by (simp add: row_id_spread [OF assms] split: option.split)
  with True show ?thesis by (auto simp: update_rows_def)
next
  case False
  then have "\<forall>x \<in> set rows. row_id x \<noteq> row_id r" by (metis imageI)
  with False show ?thesis by (simp add: update_rows_def)
qed

lemma update_rows_wf: "rows_wf rows \<Longrightarrow> distinct (jkeys r) \<Longrightarrow> rows_wf (update_rows r rows)"
  using update_rows_ids [of r rows] by (auto simp: rows_wf_def update_rows_def)

lemma update_rows_lookup:
  assumes "rows_wf rows" "distinct (jkeys r)" "x \<in> set (update_rows r rows)"
  shows "row_id x \<noteq> row_id r \<and> x \<in> set rows \<or>
    row_id x = row_id r \<and> (\<forall>k v. jmap_get r k = Some v \<longrightarrow> jmap_get x k = Some v)"
  using assms
  by (auto simp: update_rows_def row_id_spread jmap_get_spread split: if_splits option.splits)

lemma receipts_reconcile:
  "receipts (delivery_reconcile i messages queue d) j =
     (if j = i then remaining_rows messages queue (receipts d i) else receipts d j)"
proof -
  have same: "remaining_rows messages queue rows = rows"
    if "length (remaining_rows messages queue rows) = length rows" for rows
    using that unfolding remaining_rows_def by (metis filter_id_conv length_filter_conv_card order_refl
        length_filter_less less_irrefl)
  show ?thesis
    using same [of "fst (delivery_get i d)"] receipts_set_other receipts_get
    by (auto simp: delivery_reconcile_def Let_def) (simp_all add: receipts_def)
qed

text \<open>
  What storage holds and what memory holds agree up to the confirmation status: a freshly read
  session is marked as failed in memory only. \<open>mirrored\<close> is kept by every operation while storage
  works, and it makes a reload lose nothing.
\<close>

definition mirrored :: "delivery \<Rightarrow> bool" where
  "mirrored d \<longleftrightarrow> dl_mode d = Works \<and>
     (\<forall>i. map unconfirmed (read_storage i d) = map unconfirmed (receipts d i))"

lemma unconfirmed_idem [simp]: "unconfirmed (unconfirmed r) = unconfirmed r"
proof -
  let ?u = "unconfirmed r"
  have "jmap_get ?u ''status'' = Some (JStr ''failed'')" by (rule unconfirmed_status)
  then have "jmap_set ''status'' (JStr ''failed'') ?u = ?u" by (rule AList.update_triv)
  moreover have "jmap_get ?u ''error'' = Some (JStr ''delivery unconfirmed, safe to retry'')"
    by (simp add: unconfirmed_def jmap_get_set)
  then have "jmap_set ''error'' (JStr ''delivery unconfirmed, safe to retry'') ?u = ?u"
    by (rule AList.update_triv)
  ultimately show ?thesis by (simp add: unconfirmed_def [of ?u])
qed

lemma read_storage_get [simp]: "read_storage i (snd (delivery_get j d)) = read_storage i d"
  by (simp add: read_storage_def)

lemma read_storage_set:
  "dl_mode d = Works \<Longrightarrow>
    read_storage j (delivery_set i rows d) = (if j = i then rows else read_storage j d)"
  by (simp add: read_storage_def storage_delivery_set)

lemma mirrored_get: "mirrored d \<Longrightarrow> mirrored (snd (delivery_get i d))"
  by (simp add: mirrored_def)

lemma mirrored_set: "mirrored d \<Longrightarrow> mirrored (delivery_set i rows d)"
  unfolding mirrored_def by (metis delivery_set_simps(2) read_storage_set receipts_set receipts_set_other)

lemma mirrored_update: "mirrored d \<Longrightarrow> mirrored (delivery_update i r d)"
  by (simp add: delivery_update_def Let_def mirrored_set mirrored_get)

lemma mirrored_reconcile: "mirrored d \<Longrightarrow> mirrored (delivery_reconcile i ms q d)"
  by (simp add: delivery_reconcile_def Let_def mirrored_set mirrored_get)

lemma mirrored_fresh: "dl_mode d = Works \<Longrightarrow> dl_sessions d = [] \<Longrightarrow> mirrored d"
  by (simp add: mirrored_def receipts_def delivery_get_def Let_def)

lemma mirrored_reload: "mirrored d \<Longrightarrow> mirrored (reload_page d)"
  by (rule mirrored_fresh) (simp_all add: mirrored_def reload_page_def)

lemma reload_receipts: "mirrored d \<Longrightarrow> receipts (reload_page d) i = map unconfirmed (receipts d i)"
proof -
  assume m: "mirrored d"
  have "receipts (reload_page d) i = map unconfirmed (read_storage i d)"
    by (simp add: receipts_def delivery_get_def reload_page_def read_storage_def Let_def)
  with m show ?thesis by (simp add: mirrored_def)
qed

section \<open>Runs\<close>

datatype delivery_op =
    Get string
  | Update string row
  | Reconcile string "row list" "row list"
  | Subscribe nat
  | Unsubscribe nat
  | Reload

fun delivery_step :: "delivery_op \<Rightarrow> delivery \<Rightarrow> delivery" where
  "delivery_step (Get i) d = snd (delivery_get i d)"
| "delivery_step (Update i r) d = delivery_update i r d"
| "delivery_step (Reconcile i ms q) d = delivery_reconcile i ms q d"
| "delivery_step (Subscribe l) d = subscribe l d"
| "delivery_step (Unsubscribe l) d = unsubscribe l d"
| "delivery_step Reload d = reload_page d"

definition delivery_run :: "delivery_op list \<Rightarrow> delivery \<Rightarrow> delivery" where
  "delivery_run ops d = fold delivery_step ops d"

lemma mirrored_frame:
  assumes "dl_sessions d' = dl_sessions d" "dl_storage d' = dl_storage d" "dl_mode d' = dl_mode d"
  shows "mirrored d' = mirrored d"
proof -
  have "read_storage i d' = read_storage i d" for i using assms by (simp add: read_storage_def)
  moreover from this have "receipts d' i = receipts d i" for i
    using assms by (simp add: receipts_def delivery_get_def Let_def split: option.split)
  ultimately show ?thesis using assms by (simp add: mirrored_def)
qed

lemma mirrored_step: "mirrored d \<Longrightarrow> mirrored (delivery_step op d)"
proof (cases op)
  case (Subscribe l)
  then show "mirrored d \<Longrightarrow> ?thesis"
    using mirrored_frame [of "subscribe l d" d] by (simp add: subscribe_def)
next
  case (Unsubscribe l)
  then show "mirrored d \<Longrightarrow> ?thesis"
    using mirrored_frame [of "unsubscribe l d" d] by (simp add: unsubscribe_def)
qed (simp_all add: mirrored_get mirrored_update mirrored_reconcile mirrored_reload)

lemma mirrored_run: "mirrored d \<Longrightarrow> mirrored (delivery_run ops d)"
  unfolding delivery_run_def by (induction ops arbitrary: d) (auto intro: mirrored_step)

section \<open>Properties\<close>



text \<open>\<open>update\<close> is an upsert by id: it appends a receipt with a new id, merges into the one with the same
  id, keeps the ids of a session distinct, and leaves every other receipt and session alone.\<close>

lemma update_is_upsert:
  assumes "rows_wf (receipts d i)" "distinct (jkeys r)"
  shows "rows_wf (receipts (delivery_update i r d) i) \<and>
    (\<forall>x \<in> set (receipts (delivery_update i r d) i).
       row_id x \<noteq> row_id r \<and> x \<in> set (receipts d i) \<or>
       row_id x = row_id r \<and> (\<forall>k v. jmap_get r k = Some v \<longrightarrow> jmap_get x k = Some v)) \<and>
    map row_id (receipts (delivery_update i r d) i) =
      (if row_id r \<in> row_id ` set (receipts d i) then map row_id (receipts d i)
       else map row_id (receipts d i) @ [row_id r]) \<and>
    (\<forall>j. j \<noteq> i \<longrightarrow> receipts (delivery_update i r d) j = receipts d j)"
  using assms update_rows_wf update_rows_lookup [OF assms] update_rows_ids [OF assms(2)]
  by (simp add: receipts_update)

theorem update_is_upsert_witness:
  "rows_wf (receipts (delivery_update ''s'' [(''id'', JStr ''m1'')]
      \<lparr>dl_sessions = [(''s'', [[(''id'', JStr ''m1''), (''status'', JStr ''sending'')]])], dl_storage = [],
       dl_mode = Works, dl_listeners = [], dl_notified = []\<rparr>) ''s'')"
  using update_is_upsert [of "\<lparr>dl_sessions = [(''s'', [[(''id'', JStr ''m1''), (''status'', JStr ''sending'')]])],
       dl_storage = [], dl_mode = Works, dl_listeners = [], dl_notified = []\<rparr>" "''s''" "[(''id'', JStr ''m1'')]"]
  by (simp add: receipts_def delivery_get_def rows_wf_def)

text \<open>\<open>reconcile\<close> removes exactly the receipts whose id the server knows, as a delivered message or as
  a queued one, and when there is none it neither writes nor notifies.\<close>

lemma reconcile_removes_known:
  "receipts (delivery_reconcile i messages queue d) i =
     filter (\<lambda>r. row_id r \<notin> row_id ` set messages \<union> (\<lambda>q. jmap_get q ''messageId'') ` set queue)
       (receipts d i) \<and>
   (receipts (delivery_reconcile i messages queue d) i = receipts d i \<or>
     (\<exists>r \<in> set (receipts d i). row_id r \<in> set (known_ids messages queue))) \<and>
   dl_notified (delivery_reconcile i messages queue d) = dl_notified d @
     (if \<exists>r \<in> set (receipts d i). row_id r \<in> set (known_ids messages queue) then dl_listeners d else [])"
proof -
  have len: "(length (remaining_rows messages queue rows) \<noteq> length rows) =
      (\<exists>r \<in> set rows. row_id r \<in> set (known_ids messages queue))" for rows
    unfolding remaining_rows_def
    by (metis (mono_tags, lifting) filter_id_conv length_filter_less less_irrefl)
  have not: "dl_notified (delivery_reconcile i messages queue d) = dl_notified d @
     (if \<exists>r \<in> set (receipts d i). row_id r \<in> set (known_ids messages queue) then dl_listeners d else [])"
    using len [of "fst (delivery_get i d)"]
    by (simp add: delivery_reconcile_def Let_def receipts_def)
  have "remaining_rows messages queue rows = rows"
    if "\<not> (\<exists>r \<in> set rows. row_id r \<in> set (known_ids messages queue))" for rows
    using that by (simp add: remaining_rows_def filter_id_conv)
  then show ?thesis
    using not by (auto simp: receipts_reconcile) (auto simp: remaining_rows_def known_ids_def)
qed

end
