(* ===== verification/Uri.thy ===== *)
theory Uri
  imports Prelude
begin

text \<open>
  The two pieces of the JavaScript library that the client's addresses rest on:
  \<open>encodeURIComponent\<close> and reading a query with \<open>URLSearchParams\<close>. Characters are the bytes of the
  UTF-8 text, so the percent encoding is per character.
\<close>

section \<open>Percent encoding\<close>

definition unreserved :: "char \<Rightarrow> bool" where
  "unreserved c =
     (let n = of_char c :: nat
      in 48 \<le> n \<and> n \<le> 57 \<or> 65 \<le> n \<and> n \<le> 90 \<or> 97 \<le> n \<and> n \<le> 122 \<or>
         c \<in> {CHR ''-'', CHR ''_'', CHR ''.'', CHR ''!'', CHR ''~'', CHR ''*'', CHR 0x27,
              CHR ''('', CHR '')''})"

definition hex_digit :: "nat \<Rightarrow> char" where
  "hex_digit n = (if n < 10 then char_of (48 + n) else char_of (55 + n))"

definition hex_value :: "char \<Rightarrow> nat" where
  "hex_value c = (let n = of_char c in if n < 58 then n - 48 else n - 55)"

definition encode_char :: "char \<Rightarrow> string" where
  "encode_char c =
     (if unreserved c then [c]
      else [CHR ''%'', hex_digit (of_char c div 16), hex_digit (of_char c mod 16)])"

definition encode_uri :: "string \<Rightarrow> string" where
  "encode_uri s = concat (map encode_char s)"

text \<open>Decoding a query value: percent triples, and plus for a blank.\<close>

fun decode_query :: "string \<Rightarrow> string" where
  "decode_query [] = []"
| "decode_query (c # cs) =
     (if c = CHR ''%'' then
        (case cs of
           a # b # rest \<Rightarrow> char_of (16 * hex_value a + hex_value b) # decode_query rest
         | _ \<Rightarrow> c # decode_query cs)
      else (if c = CHR ''+'' then CHR '' '' else c) # decode_query cs)"

lemma of_char_lt [simp]: "(of_char c :: nat) < 256"
  using of_char_mod_256 [of c, where ?'a = nat] mod_less_divisor [of 256 "of_char c :: nat"] by simp

lemma hex_roundtrip [simp]: "n < 16 \<Longrightarrow> hex_value (hex_digit n) = n"
  by (simp add: hex_value_def hex_digit_def Let_def)

lemma encode_uri_simps [simp]:
  "encode_uri [] = []"
  "encode_uri (c # s) = encode_char c @ encode_uri s"
  by (simp_all add: encode_uri_def)

lemma not_unreserved [simp]:
  "\<not> unreserved CHR ''%''" "\<not> unreserved CHR ''+''" "\<not> unreserved CHR ''&''"
  "\<not> unreserved CHR ''=''" "\<not> unreserved CHR ''/''" "\<not> unreserved CHR ''?''"
  "\<not> unreserved CHR ''#''"
  by (simp_all add: unreserved_def)

lemma decode_encode_char: "decode_query (encode_char c @ s) = c # decode_query s"
proof (cases "unreserved c")
  case True
  then have "c \<noteq> CHR ''%''" "c \<noteq> CHR ''+''" by auto
  with True show ?thesis by (simp add: encode_char_def)
next
  case False
  have "(of_char c :: nat) div 16 < 16" using of_char_lt [of c] by linarith
  then show ?thesis using False by (simp add: encode_char_def)
qed

lemma decode_encode: "decode_query (encode_uri s) = s"
  by (induction s) (simp_all add: decode_encode_char)

lemma encode_uri_inject [simp]: "encode_uri s = encode_uri t \<longleftrightarrow> s = t"
  by (metis decode_encode)

lemma hex_digit_range:
  "n < 16 \<Longrightarrow> unreserved (hex_digit n)"
  by (simp add: hex_digit_def unreserved_def Let_def)

lemma encode_char_chars: "x \<in> set (encode_char c) \<Longrightarrow> unreserved x \<or> x = CHR ''%''"
proof -
  have "(of_char c :: nat) div 16 < 16" using of_char_lt [of c] by linarith
  then show "x \<in> set (encode_char c) \<Longrightarrow> ?thesis"
    by (auto simp: encode_char_def hex_digit_range split: if_splits)
qed

lemma encode_uri_chars: "x \<in> set (encode_uri s) \<Longrightarrow> unreserved x \<or> x = CHR ''%''"
  unfolding encode_uri_def using encode_char_chars by auto

lemma encode_uri_no_sep [simp]:
  "CHR ''&'' \<notin> set (encode_uri s)" "CHR ''='' \<notin> set (encode_uri s)"
  "CHR ''/'' \<notin> set (encode_uri s)" "CHR ''?'' \<notin> set (encode_uri s)"
  by (auto dest: encode_uri_chars)

section \<open>Query parameters\<close>

fun split_pair :: "string \<Rightarrow> string \<times> string" where
  "split_pair [] = ([], [])"
| "split_pair (c # cs) =
     (if c = CHR ''='' then ([], cs) else (let p = split_pair cs in (c # fst p, snd p)))"

definition query_params :: "string \<Rightarrow> (string \<times> string) list" where
  "query_params q =
     map (\<lambda>p. (decode_query (fst (split_pair p)), decode_query (snd (split_pair p))))
       (filter (\<lambda>p. p \<noteq> []) (js_split CHR ''&'' q))"

definition param_get :: "(string \<times> string) list \<Rightarrow> string \<Rightarrow> string option" where
  "param_get ps k = map_of ps k"

definition param_has :: "(string \<times> string) list \<Rightarrow> string \<Rightarrow> bool" where
  "param_has ps k = (k \<in> fst ` set ps)"

lemma split_pair_eq: "CHR ''='' \<notin> set k \<Longrightarrow> split_pair (k @ CHR ''='' # v) = (k, v)"
  by (induction k) auto

text \<open>A route \<open>path?query\<close>: what follows the first question mark.\<close>

fun route_query :: "string \<Rightarrow> string" where
  "route_query [] = []"
| "route_query (c # cs) = (if c = CHR ''?'' then cs else route_query cs)"

end
