(* ===== verification/Personal_Tasks.thy ===== *)
theory Personal_Tasks
  imports Uri Resource_Loader
begin

text \<open>
  Personal tasks of a shared project, \<^verbatim>\<open>features/collaboration/personal-tasks.js\<close>.

  \<open>createPersonalTask\<close> is an asynchronous run per key (project and configuration), split at its
  awaits: the POST, the one-second sleeps, and the polls. \<open>pt_creating\<close> is the module's map of runs
  in flight, \<open>pt_storage\<close> the tab's session storage. \<open>uuid n\<close> is the \<open>n\<close>-th identifier
  drawn from \<open>crypto.randomUUID\<close>. The logs \<open>pt_posts\<close>, \<open>pt_polls\<close> and \<open>pt_settled\<close> record what was sent
  and how each promise settled.
\<close>

section \<open>Routes\<close>

definition shared_task_project :: "(string \<times> string) list \<Rightarrow> string option" where
  "shared_task_project params =
     (if param_get params ''workagent'' = Some ''shared'' \<and>
         param_get params ''personal'' = Some ''new'' \<and> \<not> param_has params ''session''
      then param_get params ''project'' else None)"

definition personal_task_route :: "string \<Rightarrow> string option \<Rightarrow> string" where
  "personal_task_route project session =
     ''/?workagent=shared&project='' @ encode_uri project @ ''&'' @
     (case session of
        Some s \<Rightarrow> if truthy s then ''session='' @ encode_uri s else ''personal=new''
      | None \<Rightarrow> ''personal=new'')"

lemma route_params_new:
  "query_params (route_query (personal_task_route project None)) =
     [(''workagent'', ''shared''), (''project'', project), (''personal'', ''new'')]"
proof -
  have q: "route_query (personal_task_route project None) =
      ''workagent=shared'' @ CHR ''&'' # (''project='' @ encode_uri project) @ CHR ''&'' # ''personal=new''"
    by (simp add: personal_task_route_def)
  have "js_split CHR ''&'' (route_query (personal_task_route project None)) =
      [''workagent=shared'', ''project='' @ encode_uri project, ''personal=new'']"
    unfolding q by (subst js_split_append_sep, simp, subst js_split_append_sep, simp)
      (simp add: js_split_no_sep)
  then show ?thesis
    using split_pair_eq [of "''project''" "encode_uri project"]
    by (simp add: query_params_def decode_encode)
qed

section \<open>State\<close>

record task_result =
  tr_session :: "string option"
  tr_operation :: "string option"

datatype phase = Posting | Sleeping nat task_result | Polling nat

record pending_op =
  po_id :: string
  po_configuration :: string

record task_state =
  pt_creating :: "(string \<times> phase) list"
  pt_storage :: "(string \<times> pending_op) list"
  pt_can_write :: bool
  pt_drawn :: nat
  pt_posts :: "(string \<times> string \<times> string) list"
  pt_polls :: "(string \<times> string) list"
  pt_settled :: "(string \<times> (http_error + string)) list"
  pt_announced :: nat

definition max_polls :: nat where
  "max_polls = 30"

definition task_key :: "string \<Rightarrow> string \<Rightarrow> string" where
  "task_key project configuration =
     ''workagent.personal-task.pending:'' @ project @ '':'' @ configuration"

section \<open>Operations\<close>

definition task_fail :: "string \<Rightarrow> http_error \<Rightarrow> task_state \<Rightarrow> task_state" where
  "task_fail key err s =
     s\<lparr>pt_storage := (if err_status err \<in> {Some 422, Some 410}
                      then jmap_delete key (pt_storage s) else pt_storage s),
       pt_creating := jmap_delete key (pt_creating s),
       pt_settled := pt_settled s @ [(key, Inl err)]\<rparr>"

definition task_finish :: "string \<Rightarrow> string \<Rightarrow> task_state \<Rightarrow> task_state" where
  "task_finish key session s =
     s\<lparr>pt_storage := jmap_delete key (pt_storage s),
       pt_announced := pt_announced s + 1,
       pt_creating := jmap_delete key (pt_creating s),
       pt_settled := pt_settled s @ [(key, Inr session)]\<rparr>"

text \<open>The loop head with counter \<open>attempt\<close>, and the check after the loop.\<close>

definition task_check :: "string \<Rightarrow> nat \<Rightarrow> task_result \<Rightarrow> task_state \<Rightarrow> task_state" where
  "task_check key attempt result s =
     (case tr_session result of
        Some session \<Rightarrow> task_finish key session s
      | None \<Rightarrow>
          (if attempt < max_polls
           then s\<lparr>pt_creating := jmap_set key (Sleeping attempt result) (pt_creating s)\<rparr>
           else task_fail key (plain_error ''Error'' ''task is still being created'') s))"

definition pending_for :: "(nat \<Rightarrow> string) \<Rightarrow> string \<Rightarrow> string \<Rightarrow> task_state \<Rightarrow> pending_op \<times> nat" where
  "pending_for uuid key configuration s =
     (case jmap_get (pt_storage s) key of
        Some p \<Rightarrow>
          (if po_configuration p = configuration then (p, pt_drawn s)
           else (\<lparr>po_id = uuid (pt_drawn s), po_configuration = configuration\<rparr>, pt_drawn s + 1))
      | None \<Rightarrow> (\<lparr>po_id = uuid (pt_drawn s), po_configuration = configuration\<rparr>, pt_drawn s + 1))"

definition create_personal_task ::
  "(nat \<Rightarrow> string) \<Rightarrow> string \<Rightarrow> string \<Rightarrow> task_state \<Rightarrow> task_state" where
  "create_personal_task uuid project configuration s =
     (let key = task_key project configuration
      in if jmap_get (pt_creating s) key \<noteq> None then s
         else (let pn = pending_for uuid key configuration s;
                   s1 = s\<lparr>pt_drawn := snd pn\<rparr>
               in if pt_can_write s
                  then s1\<lparr>pt_storage := jmap_set key (fst pn) (pt_storage s1),
                          pt_posts := pt_posts s1 @ [(po_id (fst pn), project, configuration)],
                          pt_creating := jmap_set key Posting (pt_creating s1)\<rparr>
                  else task_fail key (plain_error ''QuotaExceededError'' ''storage is full'') s1))"

datatype task_event =
    Create string string
  | Reply string "http_error + task_result"
  | Wake string

fun task_step :: "(nat \<Rightarrow> string) \<Rightarrow> task_event \<Rightarrow> task_state \<Rightarrow> task_state" where
  "task_step uuid (Create project configuration) s = create_personal_task uuid project configuration s"
| "task_step uuid (Reply key r) s =
     (case jmap_get (pt_creating s) key of
        Some Posting \<Rightarrow> (case r of Inl e \<Rightarrow> task_fail key e s | Inr v \<Rightarrow> task_check key 0 v s)
      | Some (Polling n) \<Rightarrow> (case r of Inl e \<Rightarrow> task_fail key e s | Inr v \<Rightarrow> task_check key (n + 1) v s)
      | _ \<Rightarrow> s)"
| "task_step uuid (Wake key) s =
     (case jmap_get (pt_creating s) key of
        Some (Sleeping n v) \<Rightarrow>
          (case tr_operation v of
             None \<Rightarrow> task_fail key (plain_error ''TypeError'' ''Cannot read properties of undefined'') s
           | Some i \<Rightarrow> s\<lparr>pt_polls := pt_polls s @ [(key, encode_uri i)],
                         pt_creating := jmap_set key (Polling n) (pt_creating s)\<rparr>)
      | _ \<Rightarrow> s)"

definition task_run :: "(nat \<Rightarrow> string) \<Rightarrow> task_event list \<Rightarrow> task_state \<Rightarrow> task_state" where
  "task_run uuid es s = fold (task_step uuid) es s"

text \<open>\<open>deletePersonalTask\<close>: one DELETE, announced when it succeeds.\<close>

definition delete_personal_task ::
  "string \<Rightarrow> ('w \<Rightarrow> (http_error + payload) \<times> 'w) \<Rightarrow> ('w \<Rightarrow> 'w) \<Rightarrow> 'w \<Rightarrow> (http_error + unit) \<times> 'w" where
  "delete_personal_task conversation send announce w =
     (case send w of
        (Inl e, w') \<Rightarrow> (Inl e, w')
      | (Inr _, w') \<Rightarrow> (Inr (), announce w'))"

section \<open>Invariant\<close>

text \<open>Runs are unique per key, their counters are within the bound, and polls follow a POST.\<close>

definition task_inv :: "task_state \<Rightarrow> bool" where
  "task_inv s \<longleftrightarrow> distinct (jkeys (pt_creating s)) \<and>
     (\<forall>(key, p) \<in> set (pt_creating s).
        case p of Posting \<Rightarrow> True | Sleeping n v \<Rightarrow> n < max_polls \<and> tr_session v = None
        | Polling n \<Rightarrow> n < max_polls)"

lemma set_jmap_delete: "set (jmap_delete k m) = {p \<in> set m. fst p \<noteq> k}"
  by (auto simp: jmap_delete_filter)

lemma set_jmap_set:
  "distinct (jkeys m) \<Longrightarrow> set (jmap_set k v m) = insert (k, v) {p \<in> set m. fst p \<noteq> k}"
  by (induction m) (auto simp: image_iff)

lemma task_inv_fail [intro]: "task_inv s \<Longrightarrow> task_inv (task_fail key err s)"
  by (auto simp: task_inv_def task_fail_def set_jmap_delete)

lemma task_inv_finish [intro]: "task_inv s \<Longrightarrow> task_inv (task_finish key session s)"
  by (auto simp: task_inv_def task_finish_def set_jmap_delete)

lemma task_inv_set:
  assumes "task_inv s"
    "case p of Posting \<Rightarrow> True | Sleeping n v \<Rightarrow> n < max_polls \<and> tr_session v = None
      | Polling n \<Rightarrow> n < max_polls"
  shows "task_inv (s\<lparr>pt_creating := jmap_set key p (pt_creating s)\<rparr>)"
  using assms by (auto simp: task_inv_def set_jmap_set)

lemma task_inv_frame:
  "pt_creating s' = pt_creating s \<Longrightarrow> task_inv s' = task_inv s"
  by (simp add: task_inv_def)

lemma task_inv_check [intro]: "task_inv s \<Longrightarrow> task_inv (task_check key n v s)"
  by (auto simp: task_check_def intro!: task_inv_set split: option.split)

lemma task_inv_phase:
  "task_inv s \<Longrightarrow> jmap_get (pt_creating s) key = Some (Sleeping n v) \<Longrightarrow> n < max_polls"
  "task_inv s \<Longrightarrow> jmap_get (pt_creating s) key = Some (Polling n) \<Longrightarrow> n < max_polls"
  by (auto simp: task_inv_def dest!: map_of_SomeD split: phase.splits)

lemma task_inv_create: "task_inv s \<Longrightarrow> task_inv (create_personal_task uuid project conf s)"
proof -
  assume inv: "task_inv s"
  have f: "task_inv (s\<lparr>pt_drawn := n\<rparr>)" for n using inv by (simp add: task_inv_def)
  have "task_inv (s\<lparr>pt_drawn := n, pt_storage := st, pt_posts := ps,
      pt_creating := jmap_set key Posting (pt_creating s)\<rparr>)" for n st ps key
    using inv by (auto simp: task_inv_def set_jmap_set)
  with inv f show ?thesis by (auto simp: create_personal_task_def Let_def)
qed

lemma task_inv_step: "task_inv s \<Longrightarrow> task_inv (task_step uuid e s)"
proof (cases e)
  case (Wake key)
  assume inv: "task_inv s"
  have "task_inv (s\<lparr>pt_polls := ps, pt_creating := jmap_set key (Polling n) (pt_creating s)\<rparr>)"
    if "n < max_polls" for ps n
    using inv that by (auto simp: task_inv_def set_jmap_set)
  with inv task_inv_phase(1) [OF inv] Wake show ?thesis
    by (auto split: option.split phase.split)
qed (auto simp: task_inv_create split: option.split phase.split sum.split)

lemma task_inv_run: "task_inv s \<Longrightarrow> task_inv (task_run uuid es s)"
  unfolding task_run_def by (induction es arbitrary: s) (auto intro: task_inv_step)

section \<open>Bounded waiting\<close>

text \<open>A variant: every effective reply or wake-up of a run lowers it, and no run exceeds 62.\<close>

definition task_rank :: "task_state \<Rightarrow> string \<Rightarrow> nat" where
  "task_rank s key =
     (case jmap_get (pt_creating s) key of
        None \<Rightarrow> 0
      | Some Posting \<Rightarrow> 2 * max_polls + 2
      | Some (Sleeping n _) \<Rightarrow> 2 * (max_polls - n) + 1
      | Some (Polling n) \<Rightarrow> 2 * (max_polls - n))"

definition effective :: "task_state \<Rightarrow> task_event \<Rightarrow> string \<Rightarrow> bool" where
  "effective s e key =
     (case e of
        Create _ _ \<Rightarrow> False
      | Reply k _ \<Rightarrow> k = key \<and> (case jmap_get (pt_creating s) key of
            Some Posting \<Rightarrow> True | Some (Polling _) \<Rightarrow> True | _ \<Rightarrow> False)
      | Wake k \<Rightarrow> k = key \<and> (case jmap_get (pt_creating s) key of
            Some (Sleeping _ _) \<Rightarrow> True | _ \<Rightarrow> False))"

lemma creating_fail [simp]: "pt_creating (task_fail key err s) = jmap_delete key (pt_creating s)"
  by (simp add: task_fail_def)

lemma creating_finish [simp]: "pt_creating (task_finish key v s) = jmap_delete key (pt_creating s)"
  by (simp add: task_finish_def)

lemma creating_check:
  "jmap_get (pt_creating (task_check key n v s)) key =
     (if tr_session v = None \<and> n < max_polls then Some (Sleeping n v) else None)"
  by (auto simp: task_check_def jmap_simps split: option.split)

lemma task_rank_bound: "task_rank s key \<le> 2 * max_polls + 2"
  by (auto simp: task_rank_def split: option.split phase.split)

lemma task_rank_decreases:
  assumes inv: "task_inv s" and eff: "effective s e key"
  shows "task_rank (task_step uuid e s) key < task_rank s key"
proof (cases e)
  case (Create p c)
  with eff show ?thesis by (simp add: effective_def)
next
  case (Reply k r)
  with eff consider "k = key" "jmap_get (pt_creating s) key = Some Posting"
    | n where "k = key" "jmap_get (pt_creating s) key = Some (Polling n)"
    by (auto simp: effective_def split: option.splits phase.splits)
  then show ?thesis
  proof cases
    case 1
    then show ?thesis
      by (cases r) (simp_all add: Reply task_rank_def creating_check jmap_get_delete split: option.split)
  next
    case 2
    have "n < max_polls" by (rule task_inv_phase(2) [OF inv 2(2)])
    with 2 show ?thesis
      by (cases r) (auto simp: Reply task_rank_def creating_check jmap_get_delete)
  qed
next
  case (Wake k)
  with eff obtain n v where k: "k = key" "jmap_get (pt_creating s) key = Some (Sleeping n v)"
    by (auto simp: effective_def split: option.splits phase.splits)
  then show ?thesis
    by (simp add: Wake task_rank_def jmap_simps split: option.split)
qed

section \<open>Operation identity\<close>

definition terminal :: "http_error + string \<Rightarrow> bool" where
  "terminal r = (case r of Inl e \<Rightarrow> err_status e \<in> {Some 422, Some 410} | Inr _ \<Rightarrow> True)"

text \<open>
  What one step does to the logs and to the stored operation of a key: it keeps it unless it settles
  that key for good, and a POST for the key carries the stored identity.
\<close>

definition keeps_operation :: "string \<Rightarrow> string \<Rightarrow> string \<Rightarrow> task_state \<Rightarrow> task_state \<Rightarrow> bool" where
  "keeps_operation key x c s s' \<longleftrightarrow>
     (\<exists>ns np. pt_settled s' = pt_settled s @ ns \<and> pt_posts s' = pt_posts s @ np \<and>
       ((\<forall>r. (key, r) \<in> set ns \<longrightarrow> \<not> terminal r) \<longrightarrow>
          jmap_get (pt_storage s') key = Some \<lparr>po_id = x, po_configuration = c\<rparr> \<and>
          (\<forall>(i, p', c') \<in> set np. task_key p' c' = key \<longrightarrow> i = x)))"

lemma keeps_refl:
  "jmap_get (pt_storage s) key = Some \<lparr>po_id = x, po_configuration = c\<rparr> \<Longrightarrow>
    pt_settled s' = pt_settled s \<Longrightarrow> pt_posts s' = pt_posts s \<Longrightarrow> pt_storage s' = pt_storage s \<Longrightarrow>
    keeps_operation key x c s s'"
  by (auto simp: keeps_operation_def)

lemma keeps_fail:
  "jmap_get (pt_storage s) key = Some \<lparr>po_id = x, po_configuration = c\<rparr> \<Longrightarrow>
    keeps_operation key x c s (task_fail k err s)"
  by (auto simp: keeps_operation_def task_fail_def terminal_def jmap_simps)

lemma keeps_finish:
  "jmap_get (pt_storage s) key = Some \<lparr>po_id = x, po_configuration = c\<rparr> \<Longrightarrow>
    keeps_operation key x c s (task_finish k v s)"
  by (auto simp: keeps_operation_def task_finish_def terminal_def jmap_simps)

lemma keeps_check:
  "jmap_get (pt_storage s) key = Some \<lparr>po_id = x, po_configuration = c\<rparr> \<Longrightarrow>
    keeps_operation key x c s (task_check k n v s)"
  by (auto simp: task_check_def keeps_finish keeps_fail intro!: keeps_refl split: option.split)

lemma keeps_create:
  assumes st: "jmap_get (pt_storage s) key = Some \<lparr>po_id = x, po_configuration = c\<rparr>"
    and conf: "task_key p c' = key \<Longrightarrow> c' = c"
  shows "keeps_operation key x c s (create_personal_task uuid p c' s)"
proof -
  define s1 where "s1 = s\<lparr>pt_drawn := snd (pending_for uuid (task_key p c') c' s)\<rparr>"
  have fail: "keeps_operation key x c s (task_fail (task_key p c') err s1)" for err
    using keeps_fail [of s1 key x c "task_key p c'" err] st
    by (simp add: keeps_operation_def s1_def)
  have own: "fst (pending_for uuid key c s) = \<lparr>po_id = x, po_configuration = c\<rparr>"
    by (simp add: pending_for_def st)
  show ?thesis
    using fail own st conf
    by (auto simp: create_personal_task_def Let_def s1_def [symmetric] keeps_operation_def jmap_simps)
      (auto simp: s1_def jmap_simps)
qed

lemma keeps_step:
  assumes st: "jmap_get (pt_storage s) key = Some \<lparr>po_id = x, po_configuration = c\<rparr>"
    and conf: "\<And>p' c'. e = Create p' c' \<Longrightarrow> task_key p' c' = key \<Longrightarrow> c' = c"
  shows "keeps_operation key x c s (task_step uuid e s)"
proof (cases e)
  case (Create p c')
  with keeps_create [OF st] conf show ?thesis by simp
next
  case (Reply k r)
  then show ?thesis
    by (auto simp: keeps_fail [OF st] keeps_check [OF st] keeps_refl [OF st]
        split: option.split phase.split sum.split)
next
  case (Wake k)
  then show ?thesis
    by (auto simp: keeps_fail [OF st] intro!: keeps_refl [OF st] split: option.split phase.split)
qed

lemma task_fail_logs: "pt_settled (task_fail k err s) = pt_settled s @ [(k, Inl err)]"
    "pt_posts (task_fail k err s) = pt_posts s"
  by (simp_all add: task_fail_def)

lemma task_check_logs: "\<exists>ns. pt_settled (task_check k n v s) = pt_settled s @ ns"
    "pt_posts (task_check k n v s) = pt_posts s"
  by (auto simp: task_check_def task_finish_def task_fail_logs split: option.split)

lemma task_step_logs:
  "\<exists>ns np. pt_settled (task_step uuid e s) = pt_settled s @ ns \<and>
    pt_posts (task_step uuid e s) = pt_posts s @ np"
proof (cases e)
  case (Create p c)
  then show ?thesis by (auto simp: create_personal_task_def Let_def task_fail_logs)
next
  case (Reply k r)
  then show ?thesis
    by (auto simp: task_fail_logs task_check_logs split: option.split phase.split sum.split)
next
  case (Wake k)
  then show ?thesis by (auto simp: task_fail_logs split: option.split phase.split)
qed

lemma keeps_run:
  assumes "jmap_get (pt_storage s) key = Some \<lparr>po_id = x, po_configuration = c\<rparr>"
    and "\<And>p' c'. Create p' c' \<in> set es \<Longrightarrow> task_key p' c' = key \<Longrightarrow> c' = c"
  shows "keeps_operation key x c s (task_run uuid es s)"
  using assms
proof (induction es rule: rev_induct)
  case Nil
  then show ?case by (auto simp: task_run_def intro: keeps_refl)
next
  case (snoc e es)
  let ?m = "task_run uuid es s"
  have run: "task_run uuid (es @ [e]) s = task_step uuid e ?m" by (simp add: task_run_def)
  have "keeps_operation key x c s ?m"
    by (rule snoc.IH [OF snoc.prems(1)]) (rule snoc.prems(2), auto)
  then obtain ns np where m: "pt_settled ?m = pt_settled s @ ns"
      "pt_posts ?m = pt_posts s @ np"
      "(\<forall>r. (key, r) \<in> set ns \<longrightarrow> \<not> terminal r) \<Longrightarrow>
         jmap_get (pt_storage ?m) key = Some \<lparr>po_id = x, po_configuration = c\<rparr> \<and>
         (\<forall>(i, p', c') \<in> set np. task_key p' c' = key \<longrightarrow> i = x)"
    unfolding keeps_operation_def by auto
  show ?case
  proof (cases "\<forall>r. (key, r) \<in> set ns \<longrightarrow> \<not> terminal r")
    case True
    with m(3) have st: "jmap_get (pt_storage ?m) key = Some \<lparr>po_id = x, po_configuration = c\<rparr>" by blast
    have "keeps_operation key x c ?m (task_step uuid e ?m)"
      by (rule keeps_step [OF st]) (use snoc.prems(2) in auto)
    then show ?thesis unfolding run using m True by (fastforce simp: keeps_operation_def)
  next
    case False
    obtain ns' np' where "pt_settled (task_step uuid e ?m) = pt_settled ?m @ ns'"
        "pt_posts (task_step uuid e ?m) = pt_posts ?m @ np'"
      using task_step_logs [of uuid e ?m] by auto
    with m(1,2) False show ?thesis
      unfolding run keeps_operation_def
      by (intro exI [of _ "ns @ ns'"] exI [of _ "np @ np'"]) auto
  qed
qed

section \<open>Properties\<close>

text \<open>C31. Losing a response never creates a second task: as long as the operation has not settled for
  good (a session, or status 422 or 410), every POST for the same project and configuration, over
  any interleaving of submits, answers, lost answers and wake-ups, repeats the stored operation id.\<close>

theorem retries_repeat_operation:
  assumes "jmap_get (pt_storage s) (task_key p c) = Some \<lparr>po_id = x, po_configuration = c\<rparr>"
    and "\<forall>p' c'. Create p' c' \<in> set es \<longrightarrow> task_key p' c' = task_key p c \<longrightarrow> c' = c"
    and "\<forall>r. (task_key p c, r) \<in> set (drop (length (pt_settled s)) (pt_settled (task_run uuid es s))) \<longrightarrow>
      \<not> terminal r"
  shows "\<forall>(i, p', c') \<in> set (drop (length (pt_posts s)) (pt_posts (task_run uuid es s))).
      task_key p' c' = task_key p c \<longrightarrow> i = x"
proof -
  have "keeps_operation (task_key p c) x c s (task_run uuid es s)"
    by (rule keeps_run) (use assms(1,2) in auto)
  with assms(3) show ?thesis by (auto simp: keeps_operation_def)
qed

text \<open>A run for the witnesses: submit, lose the answer, submit again.\<close>

definition witness_tasks :: task_state where
  "witness_tasks = \<lparr>pt_creating = [], pt_storage = [], pt_can_write = True, pt_drawn = 0, pt_posts = [],
     pt_polls = [], pt_settled = [], pt_announced = 0\<rparr>"

definition witness_submitted :: task_state where
  "witness_submitted = task_step (\<lambda>n. show_nat n) (Create ''p'' ''{}'') witness_tasks"

definition witness_retry :: "task_event list" where
  "witness_retry =
     [Reply (task_key ''p'' ''{}'') (Inl (plain_error ''TypeError'' ''Failed to fetch'')), Create ''p'' ''{}'']"

lemmas witness_task_defs = witness_tasks_def witness_submitted_def witness_retry_def
  create_personal_task_def pending_for_def task_fail_def plain_error_def task_run_def Let_def

theorem retries_repeat_operation_witness:
  "length (pt_posts (task_run (\<lambda>n. show_nat n) witness_retry witness_submitted)) = 2 \<and>
   fst (last (pt_posts (task_run (\<lambda>n. show_nat n) witness_retry witness_submitted))) = show_nat 0"
proof -
  let ?s = "task_run (\<lambda>n. show_nat n) witness_retry witness_submitted"
  have posts: "\<exists>a b. pt_posts ?s = [a, b] \<and> task_key (fst (snd b)) (snd (snd b)) = task_key ''p'' ''{}''"
    by (simp add: witness_task_defs)
  have one: "length (pt_posts witness_submitted) = 1" by (simp add: witness_task_defs)
  have "\<forall>r. (task_key ''p'' ''{}'', r) \<in> set (drop (length (pt_settled witness_submitted))
      (pt_settled ?s)) \<longrightarrow> \<not> terminal r"
    by (simp add: witness_task_defs terminal_def jmap_simps)
  moreover have "jmap_get (pt_storage witness_submitted) (task_key ''p'' ''{}'') =
      Some \<lparr>po_id = show_nat 0, po_configuration = ''{}''\<rparr>"
    by (simp add: witness_task_defs)
  moreover have "\<forall>p' c'. Create p' c' \<in> set witness_retry \<longrightarrow>
      task_key p' c' = task_key ''p'' ''{}'' \<longrightarrow> c' = ''{}''"
    by (simp add: witness_retry_def)
  ultimately have "\<forall>(i, p', c') \<in> set (drop (length (pt_posts witness_submitted)) (pt_posts ?s)).
      task_key p' c' = task_key ''p'' ''{}'' \<longrightarrow> i = show_nat 0"
    by (intro retries_repeat_operation)
  then have "\<forall>(i, p', c') \<in> set (drop 1 (pt_posts ?s)).
      task_key p' c' = task_key ''p'' ''{}'' \<longrightarrow> i = show_nat 0"
    unfolding one .
  with posts show ?thesis by auto
qed

text \<open>At most one run per project and configuration: a submit while a run of the same key is in flight
  changes nothing, so a double click sends one POST; and the runs in flight always have distinct
  keys and never wait for a poll beyond the thirtieth.\<close>

lemma one_run_per_key:
  "distinct (jkeys (pt_creating (task_run uuid es witness_tasks))) \<and>
   (\<forall>key n. jmap_get (pt_creating (task_run uuid es witness_tasks)) key = Some (Polling n) \<longrightarrow> n < 30) \<and>
   (\<forall>p c. task_key p c \<in> set (jkeys (pt_creating (task_run uuid es witness_tasks))) \<longrightarrow>
      task_step uuid (Create p c) (task_run uuid es witness_tasks) = task_run uuid es witness_tasks)"
proof -
  let ?s = "task_run uuid es witness_tasks"
  have inv: "task_inv ?s" by (rule task_inv_run) (simp add: task_inv_def witness_tasks_def)
  have "jmap_get (pt_creating ?s) (task_key p c) \<noteq> None"
    if "task_key p c \<in> set (jkeys (pt_creating ?s))" for p c
    using that by (simp add: map_of_eq_None_iff)
  with inv task_inv_phase(2) [OF inv] show ?thesis
    by (auto simp: create_personal_task_def Let_def task_inv_def max_polls_def)
qed

theorem one_run_per_key_witness:
  "task_step (\<lambda>n. show_nat n) (Create ''p'' ''{}'')
     (task_run (\<lambda>n. show_nat n) [Create ''p'' ''{}''] witness_tasks) =
   task_run (\<lambda>n. show_nat n) [Create ''p'' ''{}''] witness_tasks"
  using one_run_per_key [of "\<lambda>n. show_nat n" "[Create ''p'' ''{}'']"]
  by (auto simp: task_run_def create_personal_task_def pending_for_def witness_tasks_def Let_def)



text \<open>The address of a new personal task is read back: parsing the query of the route gives exactly
  the project, whatever characters its id has.\<close>

lemma personal_route_roundtrip:
  "shared_task_project (query_params (route_query (personal_task_route project None))) = Some project"
  by (simp add: route_params_new shared_task_project_def param_get_def param_has_def)

end
