(* ===== verification/File_Paths.thy ===== *)
theory File_Paths
  imports Uri Resource_Loader
begin

text \<open>
  Paths and addresses of workspace files: \<^verbatim>\<open>features/files/api.js\<close> and the path helpers of
  \<^verbatim>\<open>features/files/moves.js\<close> (\<open>contains\<close>, \<open>join\<close>, \<open>parentOf\<close> and the selection of top entries, which
  the code repeats in \<open>moveTo\<close>, \<open>moveOut\<close> and \<open>confirmRemove\<close>). Containment is an interface: the
  locale \<open>containment\<close> holds the lemmas about top entries, interpreted on \<open>contains\<close>.
\<close>

section \<open>Addresses and sizes\<close>

definition file_parent :: "string \<Rightarrow> string" where
  "file_parent path = js_join CHR ''/'' (butlast (js_split CHR ''/'' path))"

definition api_root :: string where
  "api_root = ''/api/runtime/v1''"

text \<open>\<open>encodeURIComponent(undefined)\<close> is the text undefined.\<close>

definition workspace_file_root :: "string option \<Rightarrow> string" where
  "workspace_file_root ws =
     (case ws of
        None \<Rightarrow> api_root @ ''/workspaces/undefined''
      | Some w \<Rightarrow>
          (if prefix ''shared:'' w
           then ''/api/portal/shared-workspaces/'' @ encode_uri (drop (length ''shared:'') w)
           else api_root @ ''/workspaces/'' @ encode_uri w))"

definition file_url ::
  "string option \<Rightarrow> string \<Rightarrow> bool \<Rightarrow> string option \<Rightarrow> bool \<Rightarrow> string" where
  "file_url ws path preview file_id historical =
     workspace_file_root ws @ ''/content?path='' @ encode_uri path @
     (if preview then ''&preview=1'' else []) @
     (case file_id of
        Some i \<Rightarrow> if truthy i then ''&fileId='' @ encode_uri i else []
      | None \<Rightarrow> []) @
     (if historical then ''&reference=1'' else [])"

text \<open>
  \<open>(size / unit).toFixed(1)\<close> for a power of two: the quotient is exact, ties round up.
\<close>

definition fixed1 :: "nat \<Rightarrow> nat \<Rightarrow> string" where
  "fixed1 n unit =
     (let t = (20 * n + unit) div (2 * unit)
      in show_nat (t div 10) @ ''.'' @ show_nat (t mod 10))"

definition file_size :: "nat \<Rightarrow> string" where
  "file_size n =
     (if n < 1024 then show_nat n @ '' B''
      else if n < 1024 * 1024 then fixed1 n 1024 @ '' KB''
      else fixed1 n (1024 * 1024) @ '' MB'')"

text \<open>The query of a file address is read back exactly.\<close>

lemma workspace_file_root_no_query: "CHR ''?'' \<notin> set (workspace_file_root ws)"
  by (simp add: workspace_file_root_def api_root_def split: option.split)

lemma route_query_skip: "CHR ''?'' \<notin> set a \<Longrightarrow> route_query (a @ CHR ''?'' # q) = q"
  by (induction a) auto

lemma file_url_path:
  "param_get (query_params (route_query (file_url ws path preview file_id historical))) ''path'' = Some path"
proof -
  define rest where "rest = (if preview then ''&preview=1'' else []) @
     (case file_id of Some i \<Rightarrow> if truthy i then ''&fileId='' @ encode_uri i else [] | None \<Rightarrow> []) @
     (if historical then ''&reference=1'' else [])"
  have q: "route_query (file_url ws path preview file_id historical) =
      (''path='' @ encode_uri path) @ rest"
    using route_query_skip [of "workspace_file_root ws @ ''/content''"] workspace_file_root_no_query [of ws]
    by (simp add: file_url_def rest_def)
  have no: "CHR ''&'' \<notin> set (''path='' @ encode_uri path)" by simp
  have "rest = [] \<or> (\<exists>r. rest = CHR ''&'' # r)"
    by (auto simp: rest_def split: option.split)
  then obtain ps where "js_split CHR ''&'' ((''path='' @ encode_uri path) @ rest) =
      (''path='' @ encode_uri path) # ps"
    using js_split_append_sep [OF no] js_split_no_sep [OF no] by auto
  then show ?thesis
    using split_pair_eq [of "''path''" "encode_uri path"]
    unfolding q by (simp add: query_params_def param_get_def decode_encode)
qed

section \<open>Containment of paths\<close>

definition contains_path :: "string \<Rightarrow> string \<Rightarrow> bool" where
  "contains_path parent path =
     (js_lower path = js_lower parent \<or> prefix (js_lower parent @ ''/'') (js_lower path))"

definition join_path :: "string \<Rightarrow> string \<Rightarrow> string" where
  "join_path directory name = js_join CHR ''/'' (filter truthy [directory, name])"

fun last_slash :: "string \<Rightarrow> nat option" where
  "last_slash [] = None"
| "last_slash (c # cs) =
     (case last_slash cs of Some n \<Rightarrow> Some (Suc n) | None \<Rightarrow> if c = CHR ''/'' then Some 0 else None)"

definition parent_of :: "string \<Rightarrow> string" where
  "parent_of path = (case last_slash path of Some n \<Rightarrow> take n path | None \<Rightarrow> [])"

lemma contains_refl [simp]: "contains_path p p"
  by (simp add: contains_path_def)

definition path_ext :: "string \<Rightarrow> bool" where
  "path_ext r = (case r of [] \<Rightarrow> True | c # _ \<Rightarrow> c = CHR ''/'')"

lemma path_ext_simps: "path_ext []" "path_ext (CHR ''/'' # zs)"
  by (simp_all add: path_ext_def)

lemma path_ext_append: "path_ext r \<Longrightarrow> path_ext r' \<Longrightarrow> path_ext (r @ r')"
  by (cases r) (simp_all add: path_ext_def)

lemma contains_iff: "contains_path a b \<longleftrightarrow> (\<exists>r. js_lower b = js_lower a @ r \<and> path_ext r)"
proof
  assume "contains_path a b"
  then consider "js_lower b = js_lower a @ []" | zs where "js_lower b = js_lower a @ (CHR ''/'' # zs)"
    unfolding contains_path_def prefix_def by fastforce
  then show "\<exists>r. js_lower b = js_lower a @ r \<and> path_ext r"
    by cases (blast intro: path_ext_simps)+
next
  assume "\<exists>r. js_lower b = js_lower a @ r \<and> path_ext r"
  then obtain r where r: "js_lower b = js_lower a @ r" "path_ext r" by blast
  show "contains_path a b"
  proof (cases r)
    case Nil
    with r show ?thesis by (simp add: contains_path_def)
  next
    case (Cons c zs)
    with r(2) have "c = CHR ''/''" by (simp add: path_ext_def)
    with r(1) Cons have "js_lower b = (js_lower a @ ''/'') @ zs" by simp
    then show ?thesis unfolding contains_path_def by (metis prefixI)
  qed
qed

lemma contains_trans:
  assumes "contains_path a b" "contains_path b c" shows "contains_path a c"
proof -
  from assms obtain r r' where r: "js_lower b = js_lower a @ r" "path_ext r"
    "js_lower c = js_lower b @ r'" "path_ext r'"
    unfolding contains_iff by blast
  then have "js_lower c = js_lower a @ (r @ r')" by simp
  moreover have "path_ext (r @ r')" using r by (simp add: path_ext_append)
  ultimately show ?thesis unfolding contains_iff by blast
qed

lemma contains_antisym:
  assumes "contains_path a b" "contains_path b a" shows "js_lower a = js_lower b"
proof -
  from assms obtain r r' where r: "js_lower b = js_lower a @ r" "js_lower a = js_lower b @ r'"
    unfolding contains_iff by blast
  then have "length r = 0" using arg_cong [OF r(1), of length] arg_cong [OF r(2), of length] by simp
  with r(1) show ?thesis by simp
qed

lemma last_slash_Some:
  "last_slash p = Some n \<longleftrightarrow> n < length p \<and> p ! n = CHR ''/'' \<and> CHR ''/'' \<notin> set (drop (Suc n) p)"
proof (induction p arbitrary: n)
  case (Cons c cs)
  have none: "last_slash cs = None \<longleftrightarrow> CHR ''/'' \<notin> set cs" for cs
    by (induction cs) (auto split: option.splits)
  show ?case
  proof (cases "last_slash cs")
    case None
    then show ?thesis using none [of cs] by (cases n) (auto dest!: in_set_dropD nth_mem)
  next
    case (Some m)
    then have "CHR ''/'' \<in> set cs" using none [of cs] by auto
    with Some Cons [of "n - 1"] show ?thesis by (cases n) auto
  qed
qed simp

lemma last_slash_None: "last_slash p = None \<longleftrightarrow> CHR ''/'' \<notin> set p"
  by (induction p) (auto split: option.splits)

lemma parent_of_join:
  "CHR ''/'' \<notin> set name \<Longrightarrow> truthy name \<Longrightarrow> parent_of (join_path directory name) = directory"
proof (cases "directory = []")
  case False
  assume name: "CHR ''/'' \<notin> set name" "truthy name"
  have eq: "join_path directory name = directory @ CHR ''/'' # name"
    using False name by (simp add: join_path_def)
  have "last_slash (join_path directory name) = Some (length directory)"
    unfolding last_slash_Some eq using name by simp
  then show ?thesis by (simp add: parent_of_def eq)
next
  case True
  assume "CHR ''/'' \<notin> set name" "truthy name"
  with True show ?thesis by (simp add: join_path_def parent_of_def last_slash_None [THEN iffD2])
qed

lemma join_parent:
  assumes "last_slash p = Some n" "0 < n" "Suc n < length p"
  shows "join_path (parent_of p) (drop (Suc n) p) = p"
proof -
  from assms(1) have n: "n < length p" "p ! n = CHR ''/''" by (simp_all add: last_slash_Some)
  then have "p = take n p @ CHR ''/'' # drop (Suc n) p" by (metis id_take_nth_drop)
  with assms n show ?thesis by (simp add: join_path_def parent_of_def)
qed

section \<open>Top entries of a selection\<close>

text \<open>
  \<open>entries.filter((entry) => !entries.some((other) => other !== entry && contains(other.path, entry.path)))\<close>.
  Entries are objects, each once in the selection, so identity is the position.
\<close>

definition top_entries :: "('p \<Rightarrow> 'p \<Rightarrow> bool) \<Rightarrow> ('e \<Rightarrow> 'p) \<Rightarrow> 'e list \<Rightarrow> 'e list" where
  "top_entries cont path es =
     map snd (filter (\<lambda>(i, e). \<not> (\<exists>(j, d) \<in> set (enumerate 0 es). j \<noteq> i \<and> cont (path d) (path e)))
       (enumerate 0 es))"

locale containment =
  fixes cont :: "'p \<Rightarrow> 'p \<Rightarrow> bool"
  assumes cont_refl: "cont p p"
    and cont_trans: "cont p q \<Longrightarrow> cont q r \<Longrightarrow> cont p r"
begin

lemma top_entries_iff:
  "e \<in> set (top_entries cont path es) \<longleftrightarrow>
    (\<exists>i < length es. es ! i = e \<and> (\<forall>j < length es. j \<noteq> i \<longrightarrow> \<not> cont (path (es ! j)) (path e)))"
  by (force simp: top_entries_def in_set_enumerate_eq image_iff Bex_def)

lemma top_entries_subset: "set (top_entries cont path es) \<subseteq> set es"
  by (auto simp: top_entries_iff)

lemma top_entries_antichain:
  assumes "d \<in> set (top_entries cont path es)" "e \<in> set (top_entries cont path es)"
    "cont (path d) (path e)"
  shows "d = e"
  using assms by (auto simp: top_entries_iff)

text \<open>When no two entries contain each other, every entry is below a top entry.\<close>

lemma top_entries_cover_index:
  assumes anti: "\<And>i j. i < length es \<Longrightarrow> j < length es \<Longrightarrow> i \<noteq> j \<Longrightarrow>
      cont (path (es ! i)) (path (es ! j)) \<Longrightarrow> \<not> cont (path (es ! j)) (path (es ! i))"
    and i: "i < length es"
  shows "\<exists>e \<in> set (top_entries cont path es). cont (path e) (path (es ! i))"
  using i
proof (induction "card {j. j < length es \<and> cont (path (es ! j)) (path (es ! i))}"
    arbitrary: i rule: less_induct)
  case less
  show ?case
  proof (cases "\<exists>j < length es. j \<noteq> i \<and> cont (path (es ! j)) (path (es ! i))")
    case False
    then have "es ! i \<in> set (top_entries cont path es)" using less.prems by (auto simp: top_entries_iff)
    then show ?thesis using cont_refl by blast
  next
    case True
    then obtain j where j: "j < length es" "j \<noteq> i" "cont (path (es ! j)) (path (es ! i))" by blast
    then have "\<not> cont (path (es ! i)) (path (es ! j))" using anti less.prems by blast
    then have "{k. k < length es \<and> cont (path (es ! k)) (path (es ! j))} \<subset>
        {k. k < length es \<and> cont (path (es ! k)) (path (es ! i))}"
      using j less.prems cont_trans cont_refl by blast
    then have "card {k. k < length es \<and> cont (path (es ! k)) (path (es ! j))} <
        card {k. k < length es \<and> cont (path (es ! k)) (path (es ! i))}"
      by (intro psubset_card_mono) auto
    from less.hyps [OF this j(1)] j(3) show ?thesis using cont_trans by blast
  qed
qed

end

interpretation path_containment: containment contains_path
  by unfold_locales (auto intro: contains_trans)

section \<open>Properties\<close>

text \<open>The address of a file carries its path exactly: whatever workspace, path and options, the
  query parameter \<open>path\<close> of the address decodes to the path, so no path can inject parameters.\<close>

lemma file_url_roundtrip:
  "param_get (query_params (route_query (file_url ws path preview file_id historical))) ''path'' = Some path"
  by (rule file_url_path)

text \<open>Nothing selected is forgotten and nothing is handled twice: when no two entries of a selection
  have the same path up to case, every selected entry lies in a top entry, top entries are
  selected entries, and no top entry lies in another.\<close>

lemma top_entries_partition:
  assumes "distinct (map (js_lower \<circ> path) es)"
  shows "(\<forall>e \<in> set es. \<exists>t \<in> set (top_entries contains_path path es). contains_path (path t) (path e)) \<and>
    set (top_entries contains_path path es) \<subseteq> set es \<and>
    (\<forall>s \<in> set (top_entries contains_path path es). \<forall>t \<in> set (top_entries contains_path path es).
       contains_path (path s) (path t) \<longrightarrow> s = t)"
proof -
  have "js_lower (path (es ! i)) \<noteq> js_lower (path (es ! j))"
    if "i < length es" "j < length es" "i \<noteq> j" for i j
    using assms that by (auto simp: distinct_conv_nth)
  then have "\<exists>t \<in> set (top_entries contains_path path es). contains_path (path t) (path (es ! i))"
    if "i < length es" for i
    by (intro path_containment.top_entries_cover_index [OF _ that]) (use contains_antisym in blast)
  then show ?thesis
    using path_containment.top_entries_subset path_containment.top_entries_antichain
    by (metis in_set_conv_nth)
qed

theorem top_entries_partition_witness:
  "\<exists>t. t \<in> set (top_entries contains_path id [''a'', ''a/b'', ''c'']) \<and> contains_path (id t) (id ''a/b'')"
  using top_entries_partition [of id "[''a'', ''a/b'', ''c'']"]
  by (auto simp: js_lower_def lower_char_def)

end
