(* ===== verification/File_Moves.thy ===== *)
theory File_Moves
  imports File_Paths
begin

text \<open>
  Moving, downloading and deleting files of a project, \<^verbatim>\<open>features/files/moves.js\<close>
  (\<open>createFileMoves\<close>, hook \<open>useFileMoves\<close>).

  The record \<open>moves_state\<close> holds the hook's React states and refs, the two asynchronous handlers
  that may be waiting for an answer (\<open>mv_submitting\<close>, \<open>mv_removing\<close>: what their closure still needs),
  and logs of the effects: requests sent, error texts given to \<open>onError\<close>, and the calls of
  \<open>onCompleted\<close> and \<open>onRemoved\<close>. \<open>fe\<close> is \<open>friendlyError\<close>, a parameter of the factory.
\<close>

section \<open>State\<close>

record entry =
  en_path :: string
  en_name :: string
  en_kind :: string
  en_file_id :: "string option"

record move =
  mo_source :: string
  mo_destination :: string
  mo_file_id :: "string option"

record operation =
  op_id :: string
  op_state :: string
  op_applied :: nat
  op_moves :: "move list"
  op_error :: string

datatype sent =
    Get_Moves
  | Get_Folders string
  | Post_Move "move list" bool
  | Post_Action string string
  | Delete_File string
  | Post_Directory string

record moves_state =
  mv_checked :: "entry list"
  mv_picker :: "entry list option"
  mv_target :: string
  mv_folders :: "entry list"
  mv_folder_name :: string
  mv_hover :: "string option"
  mv_operations :: "operation list"
  mv_conflict :: "move list option"
  mv_busy :: bool
  mv_removal :: "entry list option"
  mv_deleting :: bool
  mv_seen :: "(string \<times> string) list option"
  mv_drag :: "entry list option"
  mv_submitting :: "move list option"
  mv_removing :: "(entry list \<times> entry list) option"
  mv_sent :: "sent list"
  mv_errors :: "string list"
  mv_completed :: "move list list"
  mv_removed :: "entry list list"
  mv_downloads :: "(string \<times> string) list"

definition initial_moves :: moves_state where
  "initial_moves = \<lparr>mv_checked = [], mv_picker = None, mv_target = [], mv_folders = [],
     mv_folder_name = [], mv_hover = None, mv_operations = [], mv_conflict = None, mv_busy = False,
     mv_removal = None, mv_deleting = False, mv_seen = None, mv_drag = None, mv_submitting = None,
     mv_removing = None, mv_sent = [], mv_errors = [], mv_completed = [], mv_removed = [],
     mv_downloads = []\<rparr>"

definition on_error :: "string \<Rightarrow> moves_state \<Rightarrow> moves_state" where
  "on_error msg s = s\<lparr>mv_errors := mv_errors s @ [msg]\<rparr>"

definition send_request :: "sent \<Rightarrow> moves_state \<Rightarrow> moves_state" where
  "send_request r s = s\<lparr>mv_sent := mv_sent s @ [r]\<rparr>"

section \<open>Observing operations\<close>

definition op_key :: "operation \<Rightarrow> string" where
  "op_key op = op_state op @ '':'' @ show_nat (op_applied op)"

definition fresh_op :: "(string \<times> string) list \<Rightarrow> operation \<Rightarrow> bool" where
  "fresh_op seen op = (jmap_get seen (op_id op) \<noteq> Some (op_key op) \<and> op_applied op \<noteq> 0)"

definition accept :: "operation \<Rightarrow> moves_state \<Rightarrow> moves_state" where
  "accept op s =
     s\<lparr>mv_completed := mv_completed s @
         (if fresh_op (case mv_seen s of None \<Rightarrow> [] | Some m \<Rightarrow> m) op
          then [take (op_applied op) (op_moves op)] else []),
       mv_seen := map_option (jmap_set (op_id op) (op_key op)) (mv_seen s),
       mv_operations := filter (\<lambda>row. op_id row \<noteq> op_id op) (mv_operations s) @ [op]\<rparr>"

definition poll_start :: "moves_state \<Rightarrow> moves_state" where
  "poll_start s = send_request Get_Moves s"

text \<open>\<open>rows\<close> is \<open>None\<close> when the answer is not an array; \<open>live\<close> is the effect's own flag.\<close>

definition poll_ok :: "bool \<Rightarrow> operation list option \<Rightarrow> moves_state \<Rightarrow> moves_state" where
  "poll_ok live rows s =
     (case rows of
        None \<Rightarrow> s
      | Some ops \<Rightarrow>
          (if \<not> live then s
           else s\<lparr>mv_completed := mv_completed s @
                    (case mv_seen s of
                       None \<Rightarrow> []
                     | Some m \<Rightarrow> map (\<lambda>op. take (op_applied op) (op_moves op)) (filter (fresh_op m) ops)),
                  mv_seen := Some (js_spread [] (map (\<lambda>op. (op_id op, op_key op)) ops)),
                  mv_operations := ops\<rparr>))"

definition poll_fail :: "(string \<Rightarrow> string) \<Rightarrow> bool \<Rightarrow> http_error \<Rightarrow> moves_state \<Rightarrow> moves_state" where
  "poll_fail fe live err s = (if live then on_error (fe (err_message err)) s else s)"

section \<open>The folder list of the picker\<close>

definition folders_start :: "moves_state \<Rightarrow> moves_state" where
  "folders_start s =
     (case mv_picker s of None \<Rightarrow> s | Some _ \<Rightarrow> send_request (Get_Folders (mv_target s)) s)"

definition folders_settle ::
  "(string \<Rightarrow> string) \<Rightarrow> bool \<Rightarrow> http_error + entry list \<Rightarrow> moves_state \<Rightarrow> moves_state" where
  "folders_settle fe aborted r s =
     (if aborted then s
      else (case r of
              Inr rows \<Rightarrow> s\<lparr>mv_folders := filter (\<lambda>row. en_kind row = ''directory'') rows\<rparr>
            | Inl err \<Rightarrow> on_error (fe (err_message err)) s))"

section \<open>Submitting moves\<close>

definition submit :: "move list \<Rightarrow> bool \<Rightarrow> moves_state \<Rightarrow> moves_state" where
  "submit moves keep_both s =
     (if mv_busy s then s
      else send_request (Post_Move moves keep_both)
             (on_error [] (s\<lparr>mv_busy := True, mv_submitting := Some moves\<rparr>)))"

definition submit_reply ::
  "(string \<Rightarrow> string) \<Rightarrow> http_error + operation \<Rightarrow> moves_state \<Rightarrow> moves_state" where
  "submit_reply fe r s =
     (case mv_submitting s of
        None \<Rightarrow> s
      | Some moves \<Rightarrow>
          (let s1 = (case r of
               Inr result \<Rightarrow>
                 (let s2 = (accept result s)\<lparr>mv_picker := None, mv_checked := [], mv_conflict := None\<rparr>
                  in if op_state result = ''failed'' then on_error (fe (op_error result)) s2 else s2)
             | Inl err \<Rightarrow>
                 (if err_message err = ''destination_exists'' then s\<lparr>mv_conflict := Some moves\<rparr>
                  else on_error (fe (err_message err)) s))
           in s1\<lparr>mv_busy := False, mv_submitting := None\<rparr>))"

definition moves_to :: "entry list \<Rightarrow> string \<Rightarrow> move list" where
  "moves_to entries directory =
     filter (\<lambda>m. mo_source m \<noteq> mo_destination m)
       (map (\<lambda>e. \<lparr>mo_source = en_path e, mo_destination = join_path directory (en_name e),
                  mo_file_id = en_file_id e\<rparr>)
          (top_entries contains_path en_path entries))"

definition move_to :: "entry list \<Rightarrow> string \<Rightarrow> moves_state \<Rightarrow> moves_state" where
  "move_to entries directory s =
     (let moves = moves_to entries directory
      in if moves \<noteq> [] then submit moves False s
         else on_error ''the file is already in this folder'' s)"

definition moves_out :: "entry list \<Rightarrow> move list" where
  "moves_out entries =
     filter (\<lambda>m. mo_source m \<noteq> mo_destination m)
       (map (\<lambda>e. \<lparr>mo_source = en_path e,
                  mo_destination = join_path (parent_of (parent_of (en_path e))) (en_name e),
                  mo_file_id = en_file_id e\<rparr>)
          (top_entries contains_path en_path entries))"

definition move_out :: "entry list \<Rightarrow> moves_state \<Rightarrow> moves_state" where
  "move_out entries s =
     (let moves = moves_out entries in if moves \<noteq> [] then submit moves False s else s)"

section \<open>Downloading and deleting the selection\<close>

definition download_checked :: "(string \<Rightarrow> string) \<Rightarrow> moves_state \<Rightarrow> moves_state" where
  "download_checked content_url s =
     (let files = filter (\<lambda>e. en_kind e = ''file'') (mv_checked s)
      in if files = [] then on_error ''nothing in the selection can be downloaded'' s
         else s\<lparr>mv_downloads := mv_downloads s @
                  map (\<lambda>e. (content_url (en_path e), en_name e)) files\<rparr>)"

definition is_dirty :: "string list \<Rightarrow> string \<Rightarrow> bool" where
  "is_dirty dirty_files path = (\<exists>f \<in> set dirty_files. f = path \<or> prefix (path @ ''/'') f)"

definition ask_remove :: "string list \<Rightarrow> moves_state \<Rightarrow> moves_state" where
  "ask_remove dirty_files s =
     (if \<exists>e \<in> set (mv_checked s). is_dirty dirty_files (en_path e)
      then on_error ''save or close the unsaved edits first'' s
      else s\<lparr>mv_removal := Some (mv_checked s)\<rparr>)"

text \<open>The loop of \<open>confirmRemove\<close>: one DELETE at a time; \<open>remove_next\<close> is its head.\<close>

definition remove_next ::
  "(string \<Rightarrow> string) \<Rightarrow> entry list \<Rightarrow> entry list \<Rightarrow> moves_state \<Rightarrow> moves_state" where
  "remove_next content_url todo done_entries s =
     (case todo of
        e # rest \<Rightarrow>
          send_request (Delete_File (content_url (en_path e)))
            (s\<lparr>mv_removing := Some (todo, done_entries)\<rparr>)
      | [] \<Rightarrow>
          s\<lparr>mv_checked := [], mv_removal := None, mv_deleting := False, mv_removing := None,
            mv_removed := mv_removed s @ [done_entries]\<rparr>)"

definition confirm_remove :: "(string \<Rightarrow> string) \<Rightarrow> moves_state \<Rightarrow> moves_state" where
  "confirm_remove content_url s =
     (case mv_removal s of
        None \<Rightarrow> s
      | Some removal \<Rightarrow>
          (if mv_deleting s then s
           else remove_next content_url (top_entries contains_path en_path removal) []
                  (on_error [] (s\<lparr>mv_deleting := True\<rparr>))))"

definition remove_reply ::
  "(string \<Rightarrow> string) \<Rightarrow> (string \<Rightarrow> string) \<Rightarrow> http_error + unit \<Rightarrow> moves_state \<Rightarrow> moves_state" where
  "remove_reply fe content_url r s =
     (case mv_removing s of
        Some (e # rest, done_entries) \<Rightarrow>
          (case r of
             Inr _ \<Rightarrow> remove_next content_url rest (done_entries @ [e]) s
           | Inl err \<Rightarrow> (on_error (fe (err_message err)) s)
                          \<lparr>mv_deleting := False, mv_removing := None\<rparr>)
      | _ \<Rightarrow> s)"

definition action_start :: "string \<Rightarrow> string \<Rightarrow> moves_state \<Rightarrow> moves_state" where
  "action_start op kind s = send_request (Post_Action kind op) s"

definition action_reply ::
  "(string \<Rightarrow> string) \<Rightarrow> http_error + operation \<Rightarrow> moves_state \<Rightarrow> moves_state" where
  "action_reply fe r s =
     (case r of Inr op \<Rightarrow> accept op s | Inl err \<Rightarrow> on_error (fe (err_message err)) s)"

section \<open>Drag and drop\<close>

definition move_out_key :: string where
  "move_out_key = ''__move_out__''"

definition selection_of :: "entry \<Rightarrow> moves_state \<Rightarrow> entry list" where
  "selection_of e s =
     (if \<exists>row \<in> set (mv_checked s). en_path row = en_path e then mv_checked s else [e])"

definition drag_start :: "entry \<Rightarrow> moves_state \<Rightarrow> moves_state" where
  "drag_start e s = s\<lparr>mv_drag := Some (selection_of e s)\<rparr>"

definition drag_end :: "moves_state \<Rightarrow> moves_state" where
  "drag_end s = s\<lparr>mv_drag := None, mv_hover := None\<rparr>"

definition drag_over :: "bool \<Rightarrow> string \<Rightarrow> moves_state \<Rightarrow> moves_state" where
  "drag_over has_mime path s =
     (if \<not> has_mime then s
      else (let invalid = (case mv_drag s of None \<Rightarrow> False
                           | Some es \<Rightarrow> \<exists>row \<in> set es. contains_path (en_path row) path)
            in s\<lparr>mv_hover := (if invalid then None else Some path)\<rparr>))"

definition drag_over_out :: "bool \<Rightarrow> moves_state \<Rightarrow> moves_state" where
  "drag_over_out has_mime s =
     (if \<not> has_mime then s
      else (let movable = (case mv_drag s of None \<Rightarrow> False
                           | Some es \<Rightarrow> \<exists>row \<in> set es. parent_of (en_path row) \<noteq> [])
            in s\<lparr>mv_hover := (if movable then Some move_out_key else None)\<rparr>))"

definition drag_leave :: "bool \<Rightarrow> moves_state \<Rightarrow> moves_state" where
  "drag_leave inside s = (if inside then s else s\<lparr>mv_hover := None\<rparr>)"

text \<open>The dropped payload: \<open>None\<close> when the transferred text does not parse.\<close>

definition drop_with ::
  "(string \<Rightarrow> string) \<Rightarrow> string \<Rightarrow> bool \<Rightarrow> (string \<times> entry list) option \<Rightarrow>
    (entry list \<Rightarrow> moves_state \<Rightarrow> moves_state) \<Rightarrow> moves_state \<Rightarrow> moves_state" where
  "drop_with fe workspace has_mime payload act s =
     (if \<not> has_mime then s
      else (let s1 = s\<lparr>mv_hover := None\<rparr>
            in case payload of
                 None \<Rightarrow> on_error (fe ''Unexpected token'') s1
               | Some (ws, entries) \<Rightarrow>
                   (if ws \<noteq> workspace
                    then on_error (fe ''files can only be moved within the current project'') s1
                    else act entries s1)))"

definition drop_on ::
  "(string \<Rightarrow> string) \<Rightarrow> string \<Rightarrow> bool \<Rightarrow> (string \<times> entry list) option \<Rightarrow> string \<Rightarrow>
    moves_state \<Rightarrow> moves_state" where
  "drop_on fe workspace has_mime payload path s =
     drop_with fe workspace has_mime payload (\<lambda>entries. move_to entries path) s"

definition drop_out ::
  "(string \<Rightarrow> string) \<Rightarrow> string \<Rightarrow> bool \<Rightarrow> (string \<times> entry list) option \<Rightarrow>
    moves_state \<Rightarrow> moves_state" where
  "drop_out fe workspace has_mime payload s =
     drop_with fe workspace has_mime payload move_out s"

section \<open>The picker and the selection\<close>

definition open_picker :: "entry option \<Rightarrow> moves_state \<Rightarrow> moves_state" where
  "open_picker entry s =
     s\<lparr>mv_target := [], mv_folder_name := [],
       mv_picker := Some (case entry of Some e \<Rightarrow> selection_of e s | None \<Rightarrow> mv_checked s)\<rparr>"

definition check_entry :: "entry \<Rightarrow> bool \<Rightarrow> moves_state \<Rightarrow> moves_state" where
  "check_entry e checked s =
     s\<lparr>mv_checked := (if checked then mv_checked s @ [e]
                      else filter (\<lambda>row. en_path row \<noteq> en_path e) (mv_checked s))\<rparr>"

definition valid_folder_name :: "string \<Rightarrow> bool" where
  "valid_folder_name name =
     (truthy (js_trim name) \<and>
      (\<forall>c \<in> set name. c \<notin> {CHR 0x5C, CHR ''/'', CHR '':'', CHR ''*'', CHR ''?'', CHR 0x22,
                             CHR ''<'', CHR ''>'', CHR ''|''}) \<and>
      js_trim name \<notin> {''.'', ''..''})"

definition create_folder :: "moves_state \<Rightarrow> moves_state" where
  "create_folder s =
     (if \<not> valid_folder_name (mv_folder_name s) then on_error ''enter a valid folder name'' s
      else send_request (Post_Directory (join_path (mv_target s) (js_trim (mv_folder_name s)))) s)"

definition create_folder_reply ::
  "(string \<Rightarrow> string) \<Rightarrow> string \<Rightarrow> http_error + unit \<Rightarrow> moves_state \<Rightarrow> moves_state" where
  "create_folder_reply fe path r s =
     (case r of
        Inr _ \<Rightarrow> s\<lparr>mv_folder_name := [], mv_target := path\<rparr>
      | Inl err \<Rightarrow> on_error (fe (err_message err)) s)"

section \<open>The controls shown\<close>

text \<open>
  The \<open>controls\<close> element as the list of its texts and buttons in document order; containers, class
  names and the text input are left out. \<open>None\<close> is a render that throws: the notice about the last
  completed move reads the destination of its first move.
\<close>

datatype moves_action =
    Open_Picker
  | Confirm_Remove
  | Cancel_Remove
  | Download
  | Ask_Remove
  | Clear_Selection
  | Cancel_Move string
  | Undo_Move string
  | Keep_Both "move list"
  | Dismiss_Conflict
  | Set_Target string
  | New_Folder
  | Close_Picker
  | Move_Here "entry list"

datatype control = Label string | Button string bool moves_action

definition selection_controls :: "moves_state \<Rightarrow> control list" where
  "selection_controls s =
     (if mv_checked s = [] then []
      else [Label (''selected '' @ show_nat (length (mv_checked s))),
            Button ''move to'' (mv_deleting s) Open_Picker] @
           (case mv_removal s of
              Some r \<Rightarrow>
                [Label (''confirm deleting '' @ show_nat (length r)),
                 Button ''confirm delete'' (mv_deleting s) Confirm_Remove,
                 Button ''cancel'' (mv_deleting s) Cancel_Remove]
            | None \<Rightarrow>
                [Button ''download'' (mv_deleting s) Download,
                 Button ''delete'' (mv_deleting s) Ask_Remove]) @
           [Button ''clear selection'' (mv_deleting s) Clear_Selection])"

definition queued_controls :: "moves_state \<Rightarrow> control list" where
  "queued_controls s =
     concat (map (\<lambda>op. [Label ''move scheduled'', Button ''cancel move'' False (Cancel_Move (op_id op))])
       (filter (\<lambda>op. op_state op = ''queued'') (mv_operations s)))"

definition completed_controls :: "moves_state \<Rightarrow> control list option" where
  "completed_controls s =
     (case rev (filter (\<lambda>op. op_state op = ''completed'') (mv_operations s)) of
        [] \<Rightarrow> Some []
      | op # _ \<Rightarrow>
          (case op_moves op of
             [] \<Rightarrow> None
           | m # ms \<Rightarrow>
               Some [Label (''moved '' @ show_nat (length (op_moves op)) @ '' to '' @
                       js_or (join_with '' / '' (butlast (js_split CHR ''/'' (mo_destination m))))
                             ''the root folder''),
                     Button ''undo move'' False (Undo_Move (op_id op))]))"

definition failed_controls :: "(string \<Rightarrow> string) \<Rightarrow> moves_state \<Rightarrow> control list" where
  "failed_controls fe s =
     (case rev (filter (\<lambda>op. op_state op = ''failed'') (mv_operations s)) of
        [] \<Rightarrow> []
      | op # _ \<Rightarrow>
          [Label (''move incomplete '' @ show_nat (op_applied op) @ ''/'' @
             show_nat (length (op_moves op)) @ '': '' @ fe (op_error op))])"

definition conflict_controls :: "moves_state \<Rightarrow> control list" where
  "conflict_controls s =
     (case mv_conflict s of
        None \<Rightarrow> []
      | Some moves \<Rightarrow>
          [Label ''the target folder has a file of this name'',
           Button ''keep both'' (mv_busy s) (Keep_Both moves),
           Button ''cancel'' False Dismiss_Conflict])"

definition breadcrumbs :: "string \<Rightarrow> control list" where
  "breadcrumbs target =
     (let parts = filter truthy (js_split CHR ''/'' target)
      in map (\<lambda>i. Button (parts ! i) False (Set_Target (js_join CHR ''/'' (take (i + 1) parts))))
           [0..<length parts])"

definition picker_controls :: "bool \<Rightarrow> moves_state \<Rightarrow> control list" where
  "picker_controls has_dirty s =
     (case mv_picker s of
        None \<Rightarrow> []
      | Some picked \<Rightarrow>
          [Label (''move '' @ show_nat (length picked)), Button ''root folder'' False (Set_Target [])] @
          breadcrumbs (mv_target s) @
          map (\<lambda>f. Button (en_name f)
                 (\<exists>e \<in> set picked. contains_path (en_path e) (en_path f)) (Set_Target (en_path f)))
            (mv_folders s) @
          [Button ''new folder'' False New_Folder] @
          (if has_dirty then [Label ''moves wait for unsaved edits''] else []) @
          [Button ''cancel'' False Close_Picker,
           Button ''move here''
             (mv_busy s \<or> (\<exists>e \<in> set picked. contains_path (en_path e) (mv_target s)))
             (Move_Here picked)])"

definition move_controls ::
  "(string \<Rightarrow> string) \<Rightarrow> bool \<Rightarrow> moves_state \<Rightarrow> control list option" where
  "move_controls fe has_dirty s =
     map_option (\<lambda>completed. selection_controls s @ queued_controls s @ completed @
         failed_controls fe s @ conflict_controls s @ picker_controls has_dirty s)
       (completed_controls s)"

fun perform ::
  "(string \<Rightarrow> string) \<Rightarrow> string list \<Rightarrow> moves_action \<Rightarrow> moves_state \<Rightarrow> moves_state" where
  "perform content_url dirty Open_Picker s = open_picker None s"
| "perform content_url dirty Confirm_Remove s = confirm_remove content_url s"
| "perform content_url dirty Cancel_Remove s = s\<lparr>mv_removal := None\<rparr>"
| "perform content_url dirty Download s = download_checked content_url s"
| "perform content_url dirty Ask_Remove s = ask_remove dirty s"
| "perform content_url dirty Clear_Selection s = s\<lparr>mv_checked := []\<rparr>"
| "perform content_url dirty (Cancel_Move i) s = action_start i ''cancel'' s"
| "perform content_url dirty (Undo_Move i) s = action_start i ''undo'' s"
| "perform content_url dirty (Keep_Both moves) s = submit moves True s"
| "perform content_url dirty Dismiss_Conflict s = s\<lparr>mv_conflict := None\<rparr>"
| "perform content_url dirty (Set_Target p) s = s\<lparr>mv_target := p\<rparr>"
| "perform content_url dirty New_Folder s = create_folder s"
| "perform content_url dirty Close_Picker s = s\<lparr>mv_picker := None\<rparr>"
| "perform content_url dirty (Move_Here picked) s = move_to picked (mv_target s) s"

section \<open>Runs\<close>

datatype moves_event =
    Click moves_action
  | Check entry bool
  | Pick entry
  | Type_Name string
  | Drag_Start entry
  | Drag_End
  | Drag_Over string
  | Drag_Over_Out
  | Drop_On "(string \<times> entry list) option" string
  | Drop_Out "(string \<times> entry list) option"
  | Poll
  | Poll_Reply bool "http_error + operation list option"
  | Folders_Reply bool "http_error + entry list"
  | Submit_Reply "http_error + operation"
  | Action_Reply "http_error + operation"
  | Remove_Reply "http_error + unit"
  | Folder_Reply string "http_error + unit"

fun moves_step ::
  "(string \<Rightarrow> string) \<Rightarrow> string \<Rightarrow> (string \<Rightarrow> string) \<Rightarrow> string list \<Rightarrow>
    moves_event \<Rightarrow> moves_state \<Rightarrow> moves_state" where
  "moves_step fe ws url dirty (Click a) s = perform url dirty a s"
| "moves_step fe ws url dirty (Check e b) s = check_entry e b s"
| "moves_step fe ws url dirty (Pick e) s = open_picker (Some e) s"
| "moves_step fe ws url dirty (Type_Name n) s = s\<lparr>mv_folder_name := n\<rparr>"
| "moves_step fe ws url dirty (Drag_Start e) s = drag_start e s"
| "moves_step fe ws url dirty Drag_End s = drag_end s"
| "moves_step fe ws url dirty (Drag_Over p) s = drag_over True p s"
| "moves_step fe ws url dirty Drag_Over_Out s = drag_over_out True s"
| "moves_step fe ws url dirty (Drop_On payload p) s = drop_on fe ws True payload p s"
| "moves_step fe ws url dirty (Drop_Out payload) s = drop_out fe ws True payload s"
| "moves_step fe ws url dirty Poll s = poll_start s"
| "moves_step fe ws url dirty (Poll_Reply live r) s =
     (case r of Inl err \<Rightarrow> poll_fail fe live err s | Inr rows \<Rightarrow> poll_ok live rows s)"
| "moves_step fe ws url dirty (Folders_Reply aborted r) s = folders_settle fe aborted r s"
| "moves_step fe ws url dirty (Submit_Reply r) s = submit_reply fe r s"
| "moves_step fe ws url dirty (Action_Reply r) s = action_reply fe r s"
| "moves_step fe ws url dirty (Remove_Reply r) s = remove_reply fe url r s"
| "moves_step fe ws url dirty (Folder_Reply p r) s = create_folder_reply fe p r s"

definition moves_run ::
  "(string \<Rightarrow> string) \<Rightarrow> string \<Rightarrow> (string \<Rightarrow> string) \<Rightarrow> string list \<Rightarrow>
    moves_event list \<Rightarrow> moves_state \<Rightarrow> moves_state" where
  "moves_run fe ws url dirty es s = fold (moves_step fe ws url dirty) es s"

text \<open>What the user may do: click an enabled button that is shown.\<close>

definition offered :: "(string \<Rightarrow> string) \<Rightarrow> string list \<Rightarrow> moves_state \<Rightarrow> moves_action \<Rightarrow> bool" where
  "offered fe dirty s a =
     (case move_controls fe (dirty \<noteq> []) s of
        None \<Rightarrow> False
      | Some cs \<Rightarrow> \<exists>c \<in> set cs. case c of Button _ disabled b \<Rightarrow> \<not> disabled \<and> b = a | Label _ \<Rightarrow> False)"

inductive moves_reach ::
  "(string \<Rightarrow> string) \<Rightarrow> string \<Rightarrow> (string \<Rightarrow> string) \<Rightarrow> string list \<Rightarrow> moves_state \<Rightarrow> bool"
  for fe ws url dirty where
  moves_start: "moves_reach fe ws url dirty initial_moves"
| moves_next: "moves_reach fe ws url dirty s \<Longrightarrow>
    (\<And>a. e = Click a \<Longrightarrow> offered fe dirty s a) \<Longrightarrow>
    moves_reach fe ws url dirty (moves_step fe ws url dirty e s)"

section \<open>Batches of moves\<close>

text \<open>
  A batch that may be sent: not empty, no source inside another source, every move changes the path.
\<close>

definition batch_ok :: "move list \<Rightarrow> bool" where
  "batch_ok ms \<longleftrightarrow> ms \<noteq> [] \<and> (\<forall>m \<in> set ms. mo_source m \<noteq> mo_destination m) \<and>
     (\<forall>m \<in> set ms. \<forall>n \<in> set ms. contains_path (mo_source m) (mo_source n) \<longrightarrow>
        mo_source m = mo_source n)"

definition sent_batches :: "moves_state \<Rightarrow> move list set" where
  "sent_batches s = {ms. \<exists>kb. Post_Move ms kb \<in> set (mv_sent s)}"

definition moves_inv :: "moves_state \<Rightarrow> bool" where
  "moves_inv s \<longleftrightarrow>
     (mv_busy s \<longleftrightarrow> mv_submitting s \<noteq> None) \<and>
     (mv_deleting s \<longleftrightarrow> mv_removing s \<noteq> None) \<and>
     (\<forall>t d. mv_removing s = Some (t, d) \<longrightarrow> t \<noteq> []) \<and>
     (\<forall>ms. mv_submitting s = Some ms \<longrightarrow> batch_ok ms) \<and>
     (\<forall>ms. mv_conflict s = Some ms \<longrightarrow> batch_ok ms) \<and>
     (\<forall>ms \<in> sent_batches s. batch_ok ms)"

text \<open>Everything the invariant reads; most operations leave it alone.\<close>

definition core :: "moves_state \<Rightarrow> bool \<times> move list option \<times> bool \<times>
    (entry list \<times> entry list) option \<times> move list option \<times> move list set" where
  "core s = (mv_busy s, mv_submitting s, mv_deleting s, mv_removing s, mv_conflict s, sent_batches s)"

lemma moves_inv_core: "core s' = core s \<Longrightarrow> moves_inv s' = moves_inv s"
  by (simp add: core_def moves_inv_def)

named_theorems core_simps

lemma sent_batches_send [simp]:
  "sent_batches (send_request (Post_Move ms kb) s) = insert ms (sent_batches s)"
  "sent_batches (send_request Get_Moves s) = sent_batches s"
  "sent_batches (send_request (Get_Folders p) s) = sent_batches s"
  "sent_batches (send_request (Post_Action k i) s) = sent_batches s"
  "sent_batches (send_request (Delete_File p) s) = sent_batches s"
  "sent_batches (send_request (Post_Directory p) s) = sent_batches s"
  by (auto simp: sent_batches_def send_request_def)

lemma sent_batches_update [simp]:
  "sent_batches (s\<lparr>mv_busy := b\<rparr>) = sent_batches s"
  "sent_batches (s\<lparr>mv_submitting := sm\<rparr>) = sent_batches s"
  "sent_batches (s\<lparr>mv_deleting := b\<rparr>) = sent_batches s"
  "sent_batches (s\<lparr>mv_removing := rm\<rparr>) = sent_batches s"
  "sent_batches (s\<lparr>mv_conflict := cf\<rparr>) = sent_batches s"
  "sent_batches (s\<lparr>mv_checked := es\<rparr>) = sent_batches s"
  "sent_batches (s\<lparr>mv_removal := ro\<rparr>) = sent_batches s"
  "sent_batches (s\<lparr>mv_removed := rs\<rparr>) = sent_batches s"
  by (simp_all add: sent_batches_def)

lemma core_update [core_simps]:
  "core (s\<lparr>mv_checked := es\<rparr>) = core s"
  "core (s\<lparr>mv_picker := pk\<rparr>) = core s"
  "core (s\<lparr>mv_target := t\<rparr>) = core s"
  "core (s\<lparr>mv_folders := es\<rparr>) = core s"
  "core (s\<lparr>mv_folder_name := t\<rparr>) = core s"
  "core (s\<lparr>mv_hover := h\<rparr>) = core s"
  "core (s\<lparr>mv_operations := ops\<rparr>) = core s"
  "core (s\<lparr>mv_removal := ro\<rparr>) = core s"
  "core (s\<lparr>mv_seen := sn\<rparr>) = core s"
  "core (s\<lparr>mv_drag := pk\<rparr>) = core s"
  "core (s\<lparr>mv_errors := ers\<rparr>) = core s"
  "core (s\<lparr>mv_completed := cs\<rparr>) = core s"
  "core (s\<lparr>mv_downloads := dls\<rparr>) = core s"
  by (simp_all add: core_def sent_batches_def)

lemma core_send [core_simps]:
  "core (send_request Get_Moves s) = core s"
  "core (send_request (Get_Folders p) s) = core s"
  "core (send_request (Post_Action k i) s) = core s"
  "core (send_request (Post_Directory p) s) = core s"
  by (simp_all add: core_def) (simp_all add: send_request_def)

lemma core_ops [core_simps]:
  "core (on_error m s) = core s"
  "core (accept op s) = core s"
  "core (poll_start s) = core s"
  "core (poll_fail fe live err s) = core s"
  "core (action_start i k s) = core s"
  "core (open_picker eo s) = core s"
  "core (check_entry e b s) = core s"
  "core (drag_start e s) = core s"
  "core (drag_end s) = core s"
  by (simp_all add: on_error_def accept_def poll_start_def poll_fail_def action_start_def
      open_picker_def check_entry_def drag_start_def drag_end_def core_simps)

lemma core_ops_cases [core_simps]:
  "core (poll_ok live rows s) = core s"
  "core (folders_settle fe ab r0 s) = core s"
  "core (drag_over has p s) = core s"
  "core (drag_over_out has s) = core s"
  "core (drag_leave b s) = core s"
  "core (download_checked url s) = core s"
  "core (ask_remove dirty s) = core s"
  "core (create_folder s) = core s"
  "core (create_folder_reply fe p r1 s) = core s"
  "core (action_reply fe r2 s) = core s"
  by (simp_all add: poll_ok_def folders_settle_def drag_over_def drag_over_out_def drag_leave_def
      download_checked_def ask_remove_def create_folder_def create_folder_reply_def action_reply_def
      Let_def core_simps split: option.split sum.split)

lemmas moves_inv_frame = core_simps [THEN moves_inv_core]

lemma batch_ok_top:
  assumes "ms = filter (\<lambda>m. mo_source m \<noteq> mo_destination m) (map f (top_entries contains_path en_path es))"
    "\<And>e. mo_source (f e) = en_path e" "ms \<noteq> []"
  shows "batch_ok ms"
  using assms path_containment.top_entries_antichain [of _ en_path es]
  unfolding batch_ok_def by fastforce

lemma batch_ok_moves_to: "moves_to es d \<noteq> [] \<Longrightarrow> batch_ok (moves_to es d)"
  by (rule batch_ok_top [OF moves_to_def]) simp_all

lemma batch_ok_moves_out: "moves_out es \<noteq> [] \<Longrightarrow> batch_ok (moves_out es)"
  by (rule batch_ok_top [OF moves_out_def]) simp_all

lemma moves_inv_submit: "moves_inv s \<Longrightarrow> batch_ok ms \<Longrightarrow> moves_inv (submit ms kb s)"
  by (auto simp: submit_def moves_inv_def) (auto simp: send_request_def on_error_def sent_batches_def)

lemma moves_inv_move_to: "moves_inv s \<Longrightarrow> moves_inv (move_to es d s)"
  by (simp add: move_to_def Let_def moves_inv_submit batch_ok_moves_to moves_inv_frame)

lemma moves_inv_move_out: "moves_inv s \<Longrightarrow> moves_inv (move_out es s)"
  by (simp add: move_out_def Let_def moves_inv_submit batch_ok_moves_out)

lemma core_eq_iff:
  "core s = (b, sm, dl, rm, cf, sb) \<longleftrightarrow>
     mv_busy s = b \<and> mv_submitting s = sm \<and> mv_deleting s = dl \<and> mv_removing s = rm \<and>
     mv_conflict s = cf \<and> sent_batches s = sb"
  by (simp add: core_def)

lemma core_fields:
  assumes "core s' = core s"
  shows "mv_busy s' = mv_busy s" "mv_submitting s' = mv_submitting s" "mv_deleting s' = mv_deleting s"
    "mv_removing s' = mv_removing s" "mv_conflict s' = mv_conflict s" "sent_batches s' = sent_batches s"
  using assms by (simp_all add: core_def)

lemmas core_proj = core_simps [THEN core_fields(1)] core_simps [THEN core_fields(2)]
  core_simps [THEN core_fields(3)] core_simps [THEN core_fields(4)] core_simps [THEN core_fields(5)]
  core_simps [THEN core_fields(6)]

lemma moves_inv_settle:
  assumes "moves_inv s" "mv_deleting s1 = mv_deleting s" "mv_removing s1 = mv_removing s"
    "sent_batches s1 = sent_batches s" "\<And>ms. mv_conflict s1 = Some ms \<Longrightarrow> batch_ok ms"
  shows "moves_inv (s1\<lparr>mv_busy := False, mv_submitting := None\<rparr>)"
  using assms by (simp add: moves_inv_def)

lemma moves_inv_submit_reply: "moves_inv s \<Longrightarrow> moves_inv (submit_reply fe r s)"
proof (cases "mv_submitting s")
  case (Some ms)
  assume inv: "moves_inv s"
  then have ok: "batch_ok ms" "\<And>ms. mv_conflict s = Some ms \<Longrightarrow> batch_ok ms"
    using Some by (simp_all add: moves_inv_def)
  define s2 where "s2 res = (accept res s)\<lparr>mv_picker := None, mv_checked := [], mv_conflict := None\<rparr>" for res
  have s2: "mv_deleting (s2 res) = mv_deleting s" "mv_removing (s2 res) = mv_removing s"
    "sent_batches (s2 res) = sent_batches s" "mv_conflict (s2 res) = None" for res
    by (simp_all add: s2_def accept_def sent_batches_def)
  have eq: "submit_reply fe r s =
      (case r of
         Inr res \<Rightarrow> if op_state res = ''failed'' then on_error (fe (op_error res)) (s2 res) else s2 res
       | Inl err \<Rightarrow> if err_message err = ''destination_exists'' then s\<lparr>mv_conflict := Some ms\<rparr>
                     else on_error (fe (err_message err)) s)\<lparr>mv_busy := False, mv_submitting := None\<rparr>"
    by (simp add: submit_reply_def Some s2_def Let_def split: sum.split)
  show ?thesis
    unfolding eq
    by (rule moves_inv_settle [OF inv]) (auto simp: s2 core_proj ok split: sum.splits if_splits)
qed (simp add: submit_reply_def)

lemma moves_inv_remove_next: "moves_inv s \<Longrightarrow> moves_inv (remove_next url t d (s\<lparr>mv_deleting := True\<rparr>))"
  by (cases t) (auto simp: remove_next_def moves_inv_def, auto simp: send_request_def)

lemma moves_inv_confirm_remove: "moves_inv s \<Longrightarrow> moves_inv (confirm_remove url s)"
proof -
  assume inv: "moves_inv s"
  have "on_error [] (s\<lparr>mv_deleting := True\<rparr>) = (on_error [] s)\<lparr>mv_deleting := True\<rparr>"
    by (simp add: on_error_def)
  then show ?thesis
    using inv moves_inv_remove_next [of "on_error [] s"]
    by (simp add: confirm_remove_def moves_inv_frame split: option.split)
qed

lemma moves_inv_remove_reply: "moves_inv s \<Longrightarrow> moves_inv (remove_reply fe url r s)"
proof (cases "mv_removing s")
  case (Some td)
  assume inv: "moves_inv s"
  have del: "s\<lparr>mv_deleting := True\<rparr> = s" using inv Some by (simp add: moves_inv_def)
  have step: "moves_inv (remove_next url t d s)" for t d
    using moves_inv_remove_next [OF inv, of url t d] del by simp
  have fail: "moves_inv ((on_error m s)\<lparr>mv_deleting := False, mv_removing := None\<rparr>)" for m
    using inv by (auto simp: moves_inv_def core_proj)
  show ?thesis
    by (auto simp: remove_reply_def step fail inv split: option.split list.split sum.split)
qed (simp add: remove_reply_def)

lemma offeredD:
  assumes "offered fe dirty s a"
  obtains cs l where "move_controls fe (dirty \<noteq> []) s = Some cs" "Button l False a \<in> set cs"
proof -
  from assms obtain cs c where "move_controls fe (dirty \<noteq> []) s = Some cs" "c \<in> set cs"
    "case c of Button _ disabled b \<Rightarrow> \<not> disabled \<and> b = a | Label _ \<Rightarrow> False"
    by (auto simp: offered_def split: option.splits)
  with that show thesis by (cases c) auto
qed

lemma selection_buttons:
  "Button l False a \<in> set (selection_controls s) \<Longrightarrow>
     \<not> mv_deleting s \<and> a \<in> {Open_Picker, Confirm_Remove, Cancel_Remove, Download, Ask_Remove, Clear_Selection}"
  by (cases "mv_removal s"; cases "mv_deleting s"; cases "mv_checked s")
    (auto simp: selection_controls_def)

lemma queued_buttons: "Button l d a \<in> set (queued_controls s) \<Longrightarrow> \<exists>i. a = Cancel_Move i"
  by (auto simp: queued_controls_def split: if_splits)

lemma completed_buttons:
  "completed_controls s = Some cs \<Longrightarrow> Button l d a \<in> set cs \<Longrightarrow> \<exists>i. a = Undo_Move i"
  by (auto simp: completed_controls_def split: list.splits)

lemma failed_buttons: "Button l d a \<notin> set (failed_controls fe s)"
  by (simp add: failed_controls_def split: list.split)

lemma conflict_buttons:
  "Button l d a \<in> set (conflict_controls s) \<Longrightarrow>
     (\<exists>ms. mv_conflict s = Some ms \<and> a = Keep_Both ms \<and> d = mv_busy s) \<or> a = Dismiss_Conflict"
  by (auto simp: conflict_controls_def split: option.splits)

lemma breadcrumb_buttons: "Button l d a \<in> set (breadcrumbs t) \<Longrightarrow> \<exists>p. a = Set_Target p"
  by (auto simp: breadcrumbs_def Let_def)

lemma picker_buttons:
  assumes "Button l False a \<in> set (picker_controls hasd s)"
  shows "(\<exists>p. a = Set_Target p) \<or> a = New_Folder \<or> a = Close_Picker \<or>
     (\<exists>picked. mv_picker s = Some picked \<and> a = Move_Here picked \<and> \<not> mv_busy s \<and>
        (\<forall>e \<in> set picked. \<not> contains_path (en_path e) (mv_target s)))"
proof (cases "mv_picker s")
  case None
  with assms show ?thesis by (simp add: picker_controls_def)
next
  case (Some picked)
  with assms consider "a = Set_Target []" | "Button l False a \<in> set (breadcrumbs (mv_target s))"
    | f where "f \<in> set (mv_folders s)" "a = Set_Target (en_path f)" | "a = New_Folder" | "a = Close_Picker"
    | "a = Move_Here picked" "\<not> mv_busy s" "\<forall>e \<in> set picked. \<not> contains_path (en_path e) (mv_target s)"
    by (auto simp: picker_controls_def split: if_splits)
  then show ?thesis using breadcrumb_buttons Some by cases blast+
qed

lemma offered_cases:
  assumes "offered fe dirty s a"
  shows "(a \<in> {Open_Picker, Confirm_Remove, Cancel_Remove, Download, Ask_Remove, Clear_Selection} \<and>
      \<not> mv_deleting s) \<or> (\<exists>i. a = Cancel_Move i) \<or> (\<exists>i. a = Undo_Move i) \<or>
    (\<exists>ms. mv_conflict s = Some ms \<and> a = Keep_Both ms \<and> \<not> mv_busy s) \<or> a = Dismiss_Conflict \<or>
    (\<exists>p. a = Set_Target p) \<or> a = New_Folder \<or> a = Close_Picker \<or>
    (\<exists>picked. mv_picker s = Some picked \<and> a = Move_Here picked \<and> \<not> mv_busy s \<and>
       (\<forall>e \<in> set picked. \<not> contains_path (en_path e) (mv_target s)))"
proof -
  from assms obtain cs l where cs: "move_controls fe (dirty \<noteq> []) s = Some cs" "Button l False a \<in> set cs"
    by (rule offeredD)
  then obtain completed where comp: "completed_controls s = Some completed"
    and "cs = selection_controls s @ queued_controls s @ completed @
         failed_controls fe s @ conflict_controls s @ picker_controls (dirty \<noteq> []) s"
    by (auto simp: move_controls_def)
  with cs(2) failed_buttons consider "Button l False a \<in> set (selection_controls s)"
    | "Button l False a \<in> set (queued_controls s)" | "Button l False a \<in> set completed"
    | "Button l False a \<in> set (conflict_controls s)"
    | "Button l False a \<in> set (picker_controls (dirty \<noteq> []) s)"
    by auto
  then show ?thesis
  proof cases
    case 1
    then show ?thesis using selection_buttons [OF 1] by blast
  next
    case 2
    then show ?thesis using queued_buttons [OF 2] by blast
  next
    case 3
    then show ?thesis using completed_buttons [OF comp] by blast
  next
    case 4
    then show ?thesis using conflict_buttons [OF 4] by blast
  next
    case 5
    then show ?thesis using picker_buttons [OF 5] by blast
  qed
qed

lemma offered_keep_both: "offered fe dirty s (Keep_Both ms) \<Longrightarrow> mv_conflict s = Some ms"
  by (drule offered_cases) simp

lemma moves_inv_click:
  assumes "moves_inv s" "offered fe dirty s a"
  shows "moves_inv (perform url dirty a s)"
proof (cases a)
  case (Keep_Both ms)
  have "batch_ok ms" using assms offered_keep_both Keep_Both by (auto simp: moves_inv_def)
  then show ?thesis using assms(1) by (simp add: Keep_Both moves_inv_submit)
next
  case Dismiss_Conflict
  then show ?thesis using assms by (simp add: moves_inv_def)
qed (simp_all add: assms(1) moves_inv_frame moves_inv_move_to moves_inv_confirm_remove)

lemma moves_inv_drop:
  "moves_inv s \<Longrightarrow> (\<And>es s. moves_inv s \<Longrightarrow> moves_inv (act es s)) \<Longrightarrow>
    moves_inv (drop_with fe ws has payload act s)"
  by (auto simp: drop_with_def Let_def moves_inv_frame split: option.split)

lemma moves_inv_step:
  assumes "moves_inv s" "\<And>a. e = Click a \<Longrightarrow> offered fe dirty s a"
  shows "moves_inv (moves_step fe ws url dirty e s)"
  using assms
  by (cases e) (simp_all add: moves_inv_click moves_inv_frame drop_on_def drop_out_def
      moves_inv_drop moves_inv_move_to moves_inv_move_out moves_inv_submit_reply
      moves_inv_remove_reply split: sum.split)

lemma moves_inv_initial: "moves_inv initial_moves"
  by (simp add: moves_inv_def initial_moves_def sent_batches_def)

lemma moves_reach_inv: "moves_reach fe ws url dirty s \<Longrightarrow> moves_inv s"
  by (induction rule: moves_reach.induct) (auto intro: moves_inv_initial moves_inv_step)

section \<open>Lemmas on observation, deletion and folders\<close>

lemma accept_seen: "mv_seen s = Some m \<Longrightarrow> mv_seen (accept op s) = Some (jmap_set (op_id op) (op_key op) m)"
  by (simp add: accept_def)

lemma accept_completed_again:
  "mv_seen s \<noteq> None \<Longrightarrow> mv_completed (accept op (accept op s)) = mv_completed (accept op s)"
  by (auto simp: accept_def fresh_op_def jmap_simps)

lemma spread_ops_get:
  assumes "distinct (map op_id ops)" "op \<in> set ops"
  shows "jmap_get (js_spread [] (map (\<lambda>op. (op_id op, op_key op)) ops)) (op_id op) = Some (op_key op)"
proof -
  have d: "distinct (jkeys (map (\<lambda>op. (op_id op, op_key op)) ops))"
    using assms(1) by (simp add: comp_def)
  have "jmap_get (map (\<lambda>op. (op_id op, op_key op)) ops) (op_id op) = Some (op_key op)"
    by (rule map_of_is_SomeI [OF d]) (use assms(2) in auto)
  then show ?thesis by (simp add: jmap_get_spread [OF d])
qed

lemma poll_completed_again:
  assumes "distinct (map op_id ops)" "ops' = filter P ops"
  shows "mv_completed (poll_ok True (Some ops') (poll_ok True (Some ops) s)) =
    mv_completed (poll_ok True (Some ops) s)"
proof -
  have "\<not> fresh_op (js_spread [] (map (\<lambda>op. (op_id op, op_key op)) ops)) op" if "op \<in> set ops'" for op
    using spread_ops_get [OF assms(1)] that assms(2) by (simp add: fresh_op_def)
  then have "filter (fresh_op (js_spread [] (map (\<lambda>op. (op_id op, op_key op)) ops))) ops' = []"
    by (simp add: filter_empty_conv)
  then show ?thesis by (simp add: poll_ok_def)
qed

text \<open>The deletion loop against a list of answers.\<close>

lemma remove_all_ok:
  assumes "mv_removing s = Some (t @ rest, d)" "t @ rest \<noteq> []"
  shows "mv_sent (fold (\<lambda>_. remove_reply fe url (Inr ())) t s) =
      mv_sent s @ map (\<lambda>e. Delete_File (url (en_path e))) (drop 1 (t @ take 1 rest)) \<and>
    (rest \<noteq> [] \<longrightarrow> mv_removing (fold (\<lambda>_. remove_reply fe url (Inr ())) t s) = Some (rest, d @ t)) \<and>
    (rest = [] \<longrightarrow> mv_removed (fold (\<lambda>_. remove_reply fe url (Inr ())) t s) = mv_removed s @ [d @ t] \<and>
       mv_checked (fold (\<lambda>_. remove_reply fe url (Inr ())) t s) = [] \<and>
       mv_removal (fold (\<lambda>_. remove_reply fe url (Inr ())) t s) = None \<and>
       \<not> mv_deleting (fold (\<lambda>_. remove_reply fe url (Inr ())) t s))"
  using assms
proof (induction t arbitrary: s d)
  case Nil
  then show ?case by (cases rest) auto
next
  case (Cons e t)
  let ?s' = "remove_reply fe url (Inr ()) s"
  have s': "?s' = remove_next url (t @ rest) (d @ [e]) s" using Cons.prems by (simp add: remove_reply_def)
  show ?case
  proof (cases "t @ rest")
    case Nil
    then show ?thesis by (simp add: s' remove_next_def)
  next
    case (Cons x xs)
    then have "mv_removing ?s' = Some (t @ rest, d @ [e])" "mv_removed ?s' = mv_removed s"
      "mv_sent ?s' = mv_sent s @ [Delete_File (url (en_path x))]"
      by (simp_all add: s' remove_next_def send_request_def)
    moreover have "x = hd (t @ rest)" using Cons by simp
    ultimately show ?thesis
      using Cons.IH [of ?s' "d @ [e]"] Cons by (cases t; cases rest) auto
  qed
qed

section \<open>Properties\<close>


definition witness_entry :: entry where
  "witness_entry = \<lparr>en_path = ''a/x.txt'', en_name = ''x.txt'', en_kind = ''file'', en_file_id = None\<rparr>"

definition witness_moved :: moves_state where
  "witness_moved = moves_step id ''w'' id [] (Drop_On (Some (''w'', [witness_entry])) ''b'') initial_moves"


text \<open>The move button never moves a folder into itself: whenever it is enabled, no moved source contains
  the target folder.\<close>

lemma picker_never_moves_into_itself:
  assumes "offered fe dirty s (Move_Here picked)"
  shows "\<not> mv_busy s \<and>
    (\<forall>m \<in> set (moves_to picked (mv_target s)). \<not> contains_path (mo_source m) (mv_target s))"
proof -
  have "\<not> mv_busy s" "\<forall>e \<in> set picked. \<not> contains_path (en_path e) (mv_target s)"
    using offered_cases [OF assms] by auto
  then show ?thesis
    using path_containment.top_entries_subset [of en_path picked] by (auto simp: moves_to_def)
qed

theorem picker_never_moves_into_itself_witness:
  "\<not> mv_busy (initial_moves\<lparr>mv_picker := Some [witness_entry], mv_target := ''b''\<rparr>) \<and>
    map mo_source (moves_to [witness_entry] ''b'') = [''a/x.txt''] \<and> \<not> contains_path ''a/x.txt'' ''b''"
proof -
  have "offered id [] (initial_moves\<lparr>mv_picker := Some [witness_entry], mv_target := ''b''\<rparr>)
      (Move_Here [witness_entry])"
    by (simp add: offered_def move_controls_def completed_controls_def picker_controls_def
        initial_moves_def witness_entry_def contains_path_def js_lower_def lower_char_def)
  from picker_never_moves_into_itself [OF this] show ?thesis
    by (simp add: moves_to_def top_entries_def witness_entry_def join_path_def)
qed

text \<open>Progress is reported once: after an operation was seen, accepting it again, or polling a list
  that repeats known operations unchanged, calls \<open>onCompleted\<close> for none of them.\<close>

lemma completion_reported_once:
  "(mv_seen s \<noteq> None \<longrightarrow> mv_completed (accept op (accept op s)) = mv_completed (accept op s)) \<and>
   (distinct (map op_id ops) \<longrightarrow>
      mv_completed (poll_ok True (Some (filter P ops)) (poll_ok True (Some ops) s)) =
        mv_completed (poll_ok True (Some ops) s)) \<and>
   (mv_seen s = None \<longrightarrow> mv_completed (poll_ok True (Some ops) s) = mv_completed s)"
  using accept_completed_again [of s op] poll_completed_again [of ops "filter P ops" P s]
  by (auto simp: poll_ok_def)

definition witness_operation :: operation where
  "witness_operation = \<lparr>op_id = ''1'', op_state = ''completed'', op_applied = 1, op_moves = [], op_error = []\<rparr>"

theorem completion_reported_once_witness:
  "mv_completed (accept witness_operation (accept witness_operation (poll_ok True (Some []) initial_moves))) =
    mv_completed (accept witness_operation (poll_ok True (Some []) initial_moves)) \<and>
   mv_completed (poll_ok True (Some (filter (\<lambda>_. True) [witness_operation]))
      (poll_ok True (Some [witness_operation]) (poll_ok True (Some []) initial_moves))) =
    mv_completed (poll_ok True (Some [witness_operation]) (poll_ok True (Some []) initial_moves))"
proof -
  have "mv_seen (poll_ok True (Some []) initial_moves) \<noteq> None" by (simp add: poll_ok_def)
  then show ?thesis
    using completion_reported_once [of "poll_ok True (Some []) initial_moves" witness_operation
        "[witness_operation]" "\<lambda>_. True"]
    by simp
qed

text \<open>Confirming a deletion whose requests all succeed deletes each top entry of the selection exactly
  once, in order, reports exactly these to \<open>onRemoved\<close>, and leaves nothing selected.\<close>

lemma confirm_remove_all:
  assumes "mv_removal s = Some removal" "\<not> mv_deleting s" "removal \<noteq> []"
    and "t = top_entries contains_path en_path removal" "t \<noteq> []"
    and "s' = fold (\<lambda>_. remove_reply fe url (Inr ())) t (confirm_remove url s)"
  shows "mv_sent s' = mv_sent s @ map (\<lambda>e. Delete_File (url (en_path e))) t \<and>
    mv_removed s' = mv_removed s @ [t] \<and> mv_checked s' = [] \<and> mv_removal s' = None \<and> \<not> mv_deleting s'"
proof -
  obtain x xs where t: "t = x # xs" using assms(5) by (cases t) auto
  let ?c = "confirm_remove url s"
  have top: "top_entries contains_path en_path removal = x # xs" using assms(4) t by simp
  have c: "mv_removing ?c = Some (t @ [], [])" "mv_removed ?c = mv_removed s"
    "mv_sent ?c = mv_sent s @ [Delete_File (url (en_path x))]"
    using assms(1,2) top by (simp_all add: t confirm_remove_def remove_next_def send_request_def on_error_def)
  show ?thesis
    using remove_all_ok [OF c(1), of fe url] c t assms(6) by simp
qed

definition witness_other :: entry where
  "witness_other = \<lparr>en_path = ''b'', en_name = ''b'', en_kind = ''directory'', en_file_id = None\<rparr>"

definition witness_removal :: moves_state where
  "witness_removal = initial_moves\<lparr>mv_checked := [witness_entry, witness_other],
     mv_removal := Some [witness_entry, witness_other]\<rparr>"

lemma witness_top: "top_entries contains_path en_path [witness_entry, witness_other] = [witness_entry, witness_other]"
  by (simp add: top_entries_def witness_entry_def witness_other_def contains_path_def js_lower_def lower_char_def)

theorem confirm_remove_all_witness:
  "mv_removed (fold (\<lambda>_. remove_reply id id (Inr ())) [witness_entry, witness_other]
     (confirm_remove id witness_removal)) = mv_removed witness_removal @ [[witness_entry, witness_other]]"
  using confirm_remove_all [of witness_removal "[witness_entry, witness_other]"
      "[witness_entry, witness_other]" _ id id] witness_top
  by (simp add: witness_removal_def initial_moves_def)

text \<open>A deletion that fails half way is stuck: the entries already deleted stay in the pending removal
  and are not reported, so confirming again first asks for the first of them once more, and a
  server that answers not-found for it ends every retry there.\<close>

lemma failed_removal_restarts:
  assumes "mv_removal s = Some removal" "\<not> mv_deleting s"
    and "top_entries contains_path en_path removal = a # b # rest"
    and "s1 = remove_reply fe url (Inl err) (remove_reply fe url (Inr ()) (confirm_remove url s))"
    and "s2 = remove_reply fe url (Inl not_found) (confirm_remove url s1)"
  shows "mv_sent s1 = mv_sent s @ [Delete_File (url (en_path a)), Delete_File (url (en_path b))] \<and>
    mv_removal s1 = Some removal \<and> mv_removed s1 = mv_removed s \<and>
    mv_sent s2 = mv_sent s1 @ [Delete_File (url (en_path a))] \<and>
    mv_removal s2 = Some removal \<and> mv_removed s2 = mv_removed s \<and> \<not> mv_deleting s2"
  using assms by (simp add: confirm_remove_def remove_reply_def remove_next_def send_request_def on_error_def)

theorem failed_removal_restarts_witness:
  "mv_removal (remove_reply id id (Inl (plain_error ''Error'' ''HTTP 500''))
      (remove_reply id id (Inr ()) (confirm_remove id witness_removal))) =
    Some [witness_entry, witness_other]"
proof -
  have "mv_removal witness_removal = Some [witness_entry, witness_other]" "\<not> mv_deleting witness_removal"
    by (simp_all add: witness_removal_def initial_moves_def)
  from failed_removal_restarts [OF this witness_top refl refl, of id id "plain_error ''Error'' ''HTTP 500''"] show ?thesis by blast
qed

text \<open>A new folder is a direct child of the folder shown: when the name passes the check, the path sent
  to the server has the target folder as its parent.\<close>

lemma new_folder_is_child:
  assumes "valid_folder_name (mv_folder_name s)"
  shows "\<exists>p. mv_sent (create_folder s) = mv_sent s @ [Post_Directory p] \<and> parent_of p = mv_target s"
proof -
  have "CHR ''/'' \<notin> set (js_trim (mv_folder_name s))" "truthy (js_trim (mv_folder_name s))"
    using assms set_js_trim [of "mv_folder_name s"] by (auto simp: valid_folder_name_def)
  then show ?thesis
    using assms parent_of_join by (simp add: create_folder_def send_request_def)
qed

theorem new_folder_is_child_witness:
  "\<exists>p. mv_sent (create_folder (initial_moves\<lparr>mv_target := ''a/b'', mv_folder_name := ''c''\<rparr>)) =
      mv_sent initial_moves @ [Post_Directory p] \<and> parent_of p = ''a/b''"
  using new_folder_is_child [of "initial_moves\<lparr>mv_target := ''a/b'', mv_folder_name := ''c''\<rparr>"]
  by (simp add: valid_folder_name_def js_trim_def js_space_def)

end
