(* ===== verification/File_Uploads.thy ===== *)
theory File_Uploads
  imports Resource_Loader
begin

text \<open>
  Resumable uploads, \<^verbatim>\<open>features/files/uploads.js\<close>: the batch \<open>createUploadBatch\<close>, the upload of one
  file \<open>uploadFile\<close> with its chunk requests, the list of interrupted uploads (\<open>Panel\<close>) and the drop
  area (\<open>Area\<close>).

  \<open>uploadFile\<close> talks to a server through four calls; they are parameters over a world \<open>'w\<close>, and their
  contract is the locale \<open>upload_service\<close>. \<^verbatim>\<open>Upload_Server.thy\<close> interprets it on the model of the
  repository's own server. The bytes of a file are a list over any type.
\<close>

section \<open>Files and upload rows\<close>

record 'b local_file =
  lf_name :: string
  lf_modified :: nat
  lf_bytes :: "'b list"

abbreviation lf_size :: "'b local_file \<Rightarrow> nat" where
  "lf_size f \<equiv> length (lf_bytes f)"

record upload_row =
  ur_id :: string
  ur_path :: string
  ur_name :: string
  ur_size :: nat
  ur_modified :: nat
  ur_offset :: nat

record upload_request =
  rq_path :: string
  rq_name :: string
  rq_size :: nat
  rq_modified :: nat
  rq_conflict :: string

definition max_upload_bytes :: nat where
  "max_upload_bytes = 5 * 1024 ^ 3"

definition chunk_limit :: nat where
  "chunk_limit = 8 * 1024 * 1024"

lemma chunk_limit_pos [simp]: "0 < chunk_limit"
  by (simp add: chunk_limit_def)

text \<open>\<open>file.slice(a, b)\<close>\<close>

definition slice :: "'b list \<Rightarrow> nat \<Rightarrow> nat \<Rightarrow> 'b list" where
  "slice bs a b = take (b - a) (drop a bs)"

section \<open>One chunk request\<close>

text \<open>
  \<open>chunk\<close> wraps one \<open>XMLHttpRequest\<close> in a promise. The answer of the promise is written once, by the
  first handler that settles it. \<open>Loaded\<close> carries the status and the parsed body, \<open>None\<close> when it does
  not parse; a body that is the JSON value null makes the handler itself throw when its error
  field is read, and then nothing settles.
\<close>

datatype xhr_event = Upload_Progress nat | Network_Error | Xhr_Aborted | Loaded nat "json option"

record chunk_run =
  ch_sent :: bool
  ch_listening :: bool
  ch_result :: "(http_error + json) option"
  ch_progress :: "nat list"

definition chunk_start :: "bool \<Rightarrow> chunk_run" where
  "chunk_start aborted =
     (if aborted
      then \<lparr>ch_sent = False, ch_listening = False,
            ch_result = Some (Inl (plain_error ''Error'' ''upload paused'')), ch_progress = []\<rparr>
      else \<lparr>ch_sent = True, ch_listening = True, ch_result = None, ch_progress = []\<rparr>)"

definition chunk_settle :: "http_error + json \<Rightarrow> chunk_run \<Rightarrow> chunk_run" where
  "chunk_settle r c =
     c\<lparr>ch_listening := False, ch_result := (case ch_result c of None \<Rightarrow> Some r | Some x \<Rightarrow> Some x)\<rparr>"

definition chunk_loaded :: "(json \<Rightarrow> string) \<Rightarrow> nat \<Rightarrow> json option \<Rightarrow> (http_error + json) option" where
  "chunk_loaded js_string status body =
     (case body of
        None \<Rightarrow> Some (Inl (plain_error ''Error'' (''HTTP '' @ show_nat status)))
      | Some v \<Rightarrow>
          (if 200 \<le> status \<and> status < 300 then Some (Inr v)
           else if v = JNull then None
           else Some (Inl (plain_error ''Error''
             (case json_field v ''error'' of
                Some e \<Rightarrow> (if json_truthy e then js_string e else ''HTTP '' @ show_nat status)
              | None \<Rightarrow> ''HTTP '' @ show_nat status)))))"

fun chunk_event :: "(json \<Rightarrow> string) \<Rightarrow> nat \<Rightarrow> xhr_event \<Rightarrow> chunk_run \<Rightarrow> chunk_run" where
  "chunk_event js_string offset (Upload_Progress n) c = c\<lparr>ch_progress := ch_progress c @ [offset + n]\<rparr>"
| "chunk_event js_string offset Network_Error c =
     chunk_settle (Inl (plain_error ''Error'' ''network interrupted'')) c"
| "chunk_event js_string offset Xhr_Aborted c =
     chunk_settle (Inl (plain_error ''Error'' ''upload paused, it can be continued'')) c"
| "chunk_event js_string offset (Loaded status body) c =
     (case chunk_loaded js_string status body of
        None \<Rightarrow> c
      | Some r \<Rightarrow> chunk_settle r c)"

lemma chunk_result_stable:
  assumes "ch_result c = Some r"
  shows "ch_result (fold (chunk_event js offset) es c) = Some r"
  using assms
proof (induction es arbitrary: c)
  case (Cons e es)
  have "ch_result (chunk_event js offset e c) = Some r"
    using Cons.prems by (cases e) (auto simp: chunk_settle_def split: option.split)
  then show ?case using Cons.IH by simp
qed simp

text \<open>A request whose signal is already aborted is never sent, whatever happens later.\<close>

lemma chunk_aborted_not_sent:
  "\<not> ch_sent (fold (chunk_event js offset) es (chunk_start True)) \<and>
   (\<exists>e. ch_result (fold (chunk_event js offset) es (chunk_start True)) = Some (Inl e))"
proof
  have "ch_sent (chunk_event js offset e c) = ch_sent c" for e c
    by (cases e) (auto simp: chunk_settle_def split: option.split)
  then have "ch_sent (fold (chunk_event js offset) es c) = ch_sent c" for c
    by (induction es arbitrary: c) auto
  then show "\<not> ch_sent (fold (chunk_event js offset) es (chunk_start True))"
    by (simp add: chunk_start_def)
qed (use chunk_result_stable [of "chunk_start True"] in \<open>auto simp: chunk_start_def\<close>)

section \<open>Uploading one file\<close>

definition resumable :: "string \<Rightarrow> string \<Rightarrow> 'b local_file \<Rightarrow> upload_row \<Rightarrow> bool" where
  "resumable p resume_prefix f row =
     ((ur_path row = p \<or> truthy resume_prefix \<and> prefix resume_prefix (ur_path row)) \<and>
      ur_name row = lf_name f \<and> ur_size row = lf_size f \<and> ur_modified row = lf_modified f)"

text \<open>The loop sends chunks until the row is complete; whether it ends depends on the server.\<close>

partial_function (option) send_chunks ::
  "(string \<Rightarrow> nat \<Rightarrow> 'b list \<Rightarrow> 'w \<Rightarrow> (http_error + upload_row) \<times> 'w) \<Rightarrow> 'b list \<Rightarrow> upload_row \<Rightarrow> 'w \<Rightarrow>
    ((http_error + upload_row) \<times> 'w) option" where
  "send_chunks chunk bs row w =
     (if ur_offset row < ur_size row
      then (case chunk (ur_id row) (ur_offset row)
                   (slice bs (ur_offset row) (min (ur_offset row + chunk_limit) (ur_size row))) w of
              (Inl e, w') \<Rightarrow> Some (Inl e, w')
            | (Inr row', w') \<Rightarrow> send_chunks chunk bs row' w')
      else Some (Inr row, w))"

text \<open>
  \<open>list_api\<close>, \<open>create_api\<close>, \<open>chunk\<close> and \<open>complete_api\<close> are the four requests; \<open>progress\<close> is \<open>onProgress\<close>, \<open>announce\<close>
  dispatches \<^verbatim>\<open>workagent:files-changed\<close> and calls \<open>onEntry\<close> with the completed entry, of which only the
  path is read. \<open>finish_upload\<close> is the part after the loop.
\<close>

definition finish_upload ::
  "(string \<Rightarrow> 'w \<Rightarrow> (http_error + string option) \<times> 'w) \<Rightarrow> (string option \<Rightarrow> 'w \<Rightarrow> 'w) \<Rightarrow>
    upload_row \<Rightarrow> 'w \<Rightarrow> (http_error + string) \<times> 'w" where
  "finish_upload complete_api announce row w =
     (case complete_api (ur_id row) w of
        (Inl e, w') \<Rightarrow> (Inl e, w')
      | (Inr saved, w') \<Rightarrow>
          (Inr (case saved of None \<Rightarrow> ur_path row | Some p \<Rightarrow> js_or p (ur_path row)), announce saved w'))"

definition upload_file ::
  "('w \<Rightarrow> (http_error + upload_row list) \<times> 'w) \<Rightarrow>
   (upload_request \<Rightarrow> 'w \<Rightarrow> (http_error + upload_row) \<times> 'w) \<Rightarrow>
   (string \<Rightarrow> nat \<Rightarrow> 'b list \<Rightarrow> 'w \<Rightarrow> (http_error + upload_row) \<times> 'w) \<Rightarrow>
   (string \<Rightarrow> 'w \<Rightarrow> (http_error + string option) \<times> 'w) \<Rightarrow>
   (nat \<Rightarrow> 'w \<Rightarrow> 'w) \<Rightarrow> (string option \<Rightarrow> 'w \<Rightarrow> 'w) \<Rightarrow>
   string \<Rightarrow> string \<Rightarrow> string \<Rightarrow> 'b local_file \<Rightarrow> 'w \<Rightarrow> ((http_error + string) \<times> 'w) option" where
  "upload_file list_api create_api chunk complete_api progress announce p resume_prefix conflict f w =
     (if max_upload_bytes < lf_size f then Some (Inl (plain_error ''Error'' ''larger than 5 GB''), w)
      else case list_api w of
        (Inl e, w1) \<Rightarrow> Some (Inl e, w1)
      | (Inr pending, w1) \<Rightarrow>
          (case (case find (resumable p resume_prefix f) pending of
                   Some row \<Rightarrow> (Inr row, w1)
                 | None \<Rightarrow> create_api \<lparr>rq_path = p, rq_name = lf_name f, rq_size = lf_size f,
                             rq_modified = lf_modified f, rq_conflict = conflict\<rparr> w1) of
             (Inl e, w2) \<Rightarrow> Some (Inl e, w2)
           | (Inr row, w2) \<Rightarrow>
               (case send_chunks chunk (lf_bytes f) row (progress (ur_offset row) w2) of
                  None \<Rightarrow> None
                | Some (Inl e, w3) \<Rightarrow> Some (Inl e, w3)
                | Some (Inr row', w3) \<Rightarrow> Some (finish_upload complete_api announce row' w3))))"

section \<open>A batch of files\<close>

definition default_destination :: "string \<Rightarrow> 'b local_file \<Rightarrow> string" where
  "default_destination directory f = join_with ''/'' (filter truthy [directory, lf_name f])"

text \<open>
  \<open>upload\<close> is \<open>uploadFile\<close> at the destination of the file and \<open>on_uploaded\<close> the callback, which may
  throw; \<open>aborted\<close> reads the signal and \<open>announce\<close> is \<open>onProgress\<close> of the file at zero bytes.
  The accumulator is the number completed and the failure texts; a file whose upload succeeds
  but whose callback throws is in both.
\<close>

fun upload_files ::
  "('w \<Rightarrow> bool) \<Rightarrow> ('b local_file \<Rightarrow> 'w \<Rightarrow> 'w) \<Rightarrow>
   ('b local_file \<Rightarrow> 'w \<Rightarrow> ((http_error + string) \<times> 'w) option) \<Rightarrow>
   (string \<Rightarrow> 'b local_file \<Rightarrow> 'w \<Rightarrow> (http_error + unit) \<times> 'w) \<Rightarrow> (string \<Rightarrow> string) \<Rightarrow> bool \<Rightarrow>
   'b local_file list \<Rightarrow> nat \<times> string list \<Rightarrow> 'w \<Rightarrow> ((nat \<times> string list) \<times> 'w) option" where
  "upload_files aborted announce upload on_uploaded fe stop_on_error [] acc w = Some (acc, w)"
| "upload_files aborted announce upload on_uploaded fe stop_on_error (f # fs) acc w =
     (if aborted w then Some (acc, w)
      else (case upload f (announce f w) of
              None \<Rightarrow> None
            | Some (r, w1) \<Rightarrow>
                (let (failed, done_count, w2) =
                       (case r of
                          Inl e \<Rightarrow> (Some e, fst acc, w1)
                        | Inr p \<Rightarrow> (case on_uploaded p f w1 of
                                     (Inl e, w2) \<Rightarrow> (Some e, Suc (fst acc), w2)
                                   | (Inr _, w2) \<Rightarrow> (None, Suc (fst acc), w2)))
                 in case failed of
                      None \<Rightarrow> upload_files aborted announce upload on_uploaded fe stop_on_error fs
                                (done_count, snd acc) w2
                    | Some e \<Rightarrow>
                        (let acc' = (done_count, snd acc @ [lf_name f @ '': '' @ fe (err_message e)])
                         in if aborted w2 \<or> stop_on_error then Some (acc', w2)
                            else upload_files aborted announce upload on_uploaded fe stop_on_error fs
                                   acc' w2))))"

text \<open>Every file is accounted for: without an abort and without \<open>stopOnError\<close>, each file counts as
  completed or has its own failure text, in the order of the batch.\<close>

lemma upload_files_accounted:
  assumes "upload_files (\<lambda>_. False) announce upload on_uploaded fe False fs acc w = Some (acc', w')"
    and "\<And>p f v. \<exists>u. fst (on_uploaded p f v) = Inr u"
  shows "fst acc' + length (snd acc') = fst acc + length (snd acc) + length fs \<and>
    prefix (snd acc) (snd acc') \<and>
    (\<exists>bad. subseq bad fs \<and> length (snd acc') = length (snd acc) + length bad \<and>
       list_all2 (\<lambda>f t. prefix (lf_name f @ '': '') t) bad (drop (length (snd acc)) (snd acc')))"
  using assms(1)
proof (induction fs arbitrary: acc w)
  case Nil
  then show ?case by auto
next
  case (Cons f fs)
  obtain r w1 where up: "upload f (announce f w) = Some (r, w1)"
    using Cons.prems by (auto split: option.splits)
  show ?case
  proof (cases r)
    case (Inr p)
    obtain u w2 where "on_uploaded p f w1 = (Inr u, w2)" using assms(2) [of p f w1] by (metis surjective_pairing)
    with Cons.prems up Inr
    have "upload_files (\<lambda>_. False) announce upload on_uploaded fe False fs (Suc (fst acc), snd acc) w2 = Some (acc', w')"
      by simp
    from Cons.IH [OF this] show ?thesis by (auto intro: subseq_Cons')
  next
    case (Inl e)
    let ?t = "lf_name f @ '': '' @ fe (err_message e)"
    have "upload_files (\<lambda>_. False) announce upload on_uploaded fe False fs (fst acc, snd acc @ [?t]) w1 = Some (acc', w')"
      using Cons.prems up Inl by simp
    note ih = Cons.IH [OF this]
    then obtain bad where bad: "subseq bad fs" "length (snd acc') = Suc (length (snd acc)) + length bad"
      "list_all2 (\<lambda>f t. prefix (lf_name f @ '': '') t) bad (drop (Suc (length (snd acc))) (snd acc'))"
      by auto
    from ih obtain ts where ts: "snd acc' = snd acc @ ?t # ts" by (auto simp: prefix_def)
    have "subseq (f # bad) (f # fs)" using bad(1) by simp
    moreover have "list_all2 (\<lambda>f t. prefix (lf_name f @ '': '') t) (f # bad) (drop (length (snd acc)) (snd acc'))"
      using bad(3) by (simp add: ts)
    ultimately show ?thesis using ih bad(2) ts
      by (intro conjI exI [of _ "f # bad"]) (auto simp: prefix_def)
  qed
qed

section \<open>The server's contract\<close>

text \<open>
  \<open>stored w i\<close> is the pending upload \<open>i\<close> with the bytes received, \<open>commits\<close> the files finished so far. Every
  call may fail at any point, before or after its effect; a call that returns a value had its
  effect.
\<close>

definition row_of_request :: "upload_request \<Rightarrow> string \<Rightarrow> upload_row" where
  "row_of_request rq i = \<lparr>ur_id = i, ur_path = rq_path rq, ur_name = rq_name rq, ur_size = rq_size rq,
     ur_modified = rq_modified rq, ur_offset = 0\<rparr>"

locale upload_service =
  fixes list_api :: "'w \<Rightarrow> (http_error + upload_row list) \<times> 'w"
    and create_api :: "upload_request \<Rightarrow> 'w \<Rightarrow> (http_error + upload_row) \<times> 'w"
    and chunk :: "string \<Rightarrow> nat \<Rightarrow> 'b list \<Rightarrow> 'w \<Rightarrow> (http_error + upload_row) \<times> 'w"
    and complete_api :: "string \<Rightarrow> 'w \<Rightarrow> (http_error + string option) \<times> 'w"
    and progress :: "nat \<Rightarrow> 'w \<Rightarrow> 'w"
    and announce :: "string option \<Rightarrow> 'w \<Rightarrow> 'w"
    and inv :: "'w \<Rightarrow> bool"
    and stored :: "'w \<Rightarrow> string \<Rightarrow> (upload_row \<times> 'b list) option"
    and commits :: "'w \<Rightarrow> (string \<times> 'b list) list"
  assumes stored_row: "inv w \<Longrightarrow> stored w i = Some (row, bs) \<Longrightarrow>
      ur_id row = i \<and> ur_offset row = length bs \<and> length bs \<le> ur_size row"
    and list_law: "inv w \<Longrightarrow> list_api w = (rl, w') \<Longrightarrow>
      inv w' \<and> commits w' = commits w \<and> (\<forall>i x. stored w' i = Some x \<longrightarrow> stored w i = Some x) \<and>
      (\<forall>rows. rl = Inr rows \<longrightarrow> (\<forall>row \<in> set rows. \<exists>bs. stored w' (ur_id row) = Some (row, bs)))"
    and create_law: "inv w \<Longrightarrow> create_api rq w = (rc, w') \<Longrightarrow>
      inv w' \<and> commits w' = commits w \<and>
      (\<forall>i x. stored w' i = Some x \<longrightarrow> stored w i = Some x \<or> x = (row_of_request rq i, [])) \<and>
      (\<forall>row. rc = Inr row \<longrightarrow> row = row_of_request rq (ur_id row) \<and> stored w' (ur_id row) = Some (row, []))"
    and chunk_law: "inv w \<Longrightarrow> chunk i off bs w = (rk, w') \<Longrightarrow> stored w i = Some (row, data) \<Longrightarrow>
      off = length data \<Longrightarrow>
      inv w' \<and> commits w' = commits w \<and>
      (\<forall>j x. stored w' j = Some x \<longrightarrow> stored w j = Some x \<or>
         j = i \<and> x = (row\<lparr>ur_offset := length data + length bs\<rparr>, data @ bs)) \<and>
      (\<forall>row'. rk = Inr row' \<longrightarrow> row' = row\<lparr>ur_offset := length data + length bs\<rparr> \<and>
         stored w' i = Some (row', data @ bs))"
    and complete_law: "inv w \<Longrightarrow> complete_api i w = (rf, w') \<Longrightarrow> stored w i = Some (row, data) \<Longrightarrow>
      inv w' \<and> (\<forall>j x. stored w' j = Some x \<longrightarrow> stored w j = Some x) \<and>
      (commits w' = commits w \<and> (\<forall>v. rf \<noteq> Inr v) \<or>
       commits w' = commits w @ [(ur_path row, data)] \<and> length data = ur_size row)"
    and quiet: "inv w \<Longrightarrow> inv (progress n w) \<and> inv (announce e w)"
      "stored (progress n w) = stored w" "stored (announce e w) = stored w"
      "commits (progress n w) = commits w" "commits (announce e w) = commits w"
begin

text \<open>What is pending for a file holds the beginning of that file.\<close>

definition faithful :: "string \<Rightarrow> string \<Rightarrow> 'b local_file \<Rightarrow> 'w \<Rightarrow> bool" where
  "faithful p resume_prefix f w \<longleftrightarrow>
     (\<forall>i row bs. stored w i = Some (row, bs) \<longrightarrow> resumable p resume_prefix f row \<longrightarrow> prefix bs (lf_bytes f))"

lemma faithful_mono:
  "faithful p q f w \<Longrightarrow> (\<And>i x. stored w' i = Some x \<Longrightarrow> stored w i = Some x) \<Longrightarrow> faithful p q f w'"
  unfolding faithful_def by blast

lemma prefix_slice:
  assumes "prefix data bs" "length data < length bs"
  shows "prefix (data @ slice bs (length data) (min (length data + chunk_limit) (length bs))) bs"
    and "slice bs (length data) (min (length data + chunk_limit) (length bs)) \<noteq> []"
proof -
  let ?n = "min (length data + chunk_limit) (length bs)"
  have data: "data = take (length data) bs" using assms(1) by (auto simp: prefix_def)
  have "data @ slice bs (length data) ?n = take ?n bs"
    unfolding slice_def
    using take_add [of "length data" "?n - length data" bs] assms(2) data by simp
  then show "prefix (data @ slice bs (length data) ?n) bs" by (simp add: take_is_prefix)
  show "slice bs (length data) ?n \<noteq> []" using assms(2) chunk_limit_pos
    by (auto simp: slice_def simp del: chunk_limit_pos)
qed

lemma resumable_offset [simp]:
  "resumable p q f (row\<lparr>ur_offset := n\<rparr>) = resumable p q f row"
  by (simp add: resumable_def)

lemma send_chunks_faithful:
  assumes "inv w" "faithful p q f w" "stored w (ur_id row) = Some (row, data)" "resumable p q f row"
  shows "\<exists>r w'. send_chunks chunk (lf_bytes f) row w = Some (r, w') \<and> inv w' \<and> faithful p q f w' \<and>
    commits w' = commits w \<and>
    (\<forall>row'. r = Inr row' \<longrightarrow> resumable p q f row' \<and> ur_id row' = ur_id row \<and> ur_path row' = ur_path row \<and>
       stored w' (ur_id row') = Some (row', lf_bytes f))"
  using assms
proof (induction "ur_size row - ur_offset row" arbitrary: row data w rule: less_induct)
  case less
  have size: "ur_size row = lf_size f" using less.prems(4) by (simp add: resumable_def)
  have row: "ur_offset row = length data" "length data \<le> ur_size row"
    using stored_row [OF less.prems(1,3)] by auto
  have pre: "prefix data (lf_bytes f)" using less.prems(2-4) by (auto simp: faithful_def)
  show ?case
  proof (cases "ur_offset row < ur_size row")
    case False
    then have "length data = lf_size f" using row size by simp
    with pre have "data = lf_bytes f" by (auto simp: prefix_def)
    with False less.prems show ?thesis by (simp add: send_chunks.simps)
  next
    case True
    let ?piece = "slice (lf_bytes f) (ur_offset row) (min (ur_offset row + chunk_limit) (ur_size row))"
    have piece: "prefix (data @ ?piece) (lf_bytes f)" "?piece \<noteq> []"
      using prefix_slice [OF pre] True row size by simp_all
    obtain r w1 where call: "chunk (ur_id row) (ur_offset row) ?piece w = (r, w1)" by (cases "chunk (ur_id row) (ur_offset row) ?piece w")
    note law = chunk_law [OF less.prems(1) call less.prems(3) row(1)]
    have f1: "faithful p q f w1"
      unfolding faithful_def
    proof (intro allI impI)
      fix i row' bs assume "stored w1 i = Some (row', bs)" "resumable p q f row'"
      then consider "stored w i = Some (row', bs)" | "bs = data @ ?piece" using law by blast
      then show "prefix bs (lf_bytes f)"
        by cases (use less.prems(2) \<open>resumable p q f row'\<close> piece(1) in \<open>auto simp: faithful_def\<close>)
    qed
    show ?thesis
    proof (cases r)
      case (Inl e)
      with law f1 call True show ?thesis by (simp add: send_chunks.simps)
    next
      case (Inr row')
      with law have row': "row' = row\<lparr>ur_offset := length data + length ?piece\<rparr>"
        "stored w1 (ur_id row) = Some (row', data @ ?piece)" by auto
      have fields: "ur_id row' = ur_id row" "ur_size row' = ur_size row" "ur_path row' = ur_path row"
        "ur_offset row' = length data + length ?piece" "resumable p q f row'"
        unfolding row'(1) using less.prems(4) by simp_all
      have smaller: "ur_size row' - ur_offset row' < ur_size row - ur_offset row"
        using fields piece(2) True row by (cases ?piece) auto
      have "stored w1 (ur_id row') = Some (row', data @ ?piece)" using row'(2) fields by simp
      from less.hyps [OF smaller _ f1 this fields(5)] law
      have "\<exists>r w'. send_chunks chunk (lf_bytes f) row' w1 = Some (r, w') \<and> inv w' \<and> faithful p q f w' \<and>
          commits w' = commits w1 \<and> (\<forall>row''. r = Inr row'' \<longrightarrow> resumable p q f row'' \<and> ur_id row'' = ur_id row' \<and>
          ur_path row'' = ur_path row' \<and> stored w' (ur_id row'') = Some (row'', lf_bytes f))" by blast
      moreover have "send_chunks chunk (lf_bytes f) row w = send_chunks chunk (lf_bytes f) row' w1"
        using True call Inr by (simp add: send_chunks.simps [of chunk "lf_bytes f" row])
      ultimately show ?thesis using law fields by metis
    qed
  qed
qed

lemma upload_file_faithful:
  assumes "inv w" "faithful p q f w"
  shows "\<exists>r w'. upload_file list_api create_api chunk complete_api progress announce p q conflict f w = Some (r, w') \<and>
    inv w' \<and> faithful p q f w' \<and>
    (commits w' = commits w \<and> (\<forall>v. r \<noteq> Inr v) \<or>
     (\<exists>d. commits w' = commits w @ [(d, lf_bytes f)] \<and> (d = p \<or> truthy q \<and> prefix q d)))"
proof (cases "max_upload_bytes < lf_size f")
  case True
  with assms show ?thesis by (simp add: upload_file_def)
next
  case small: False
  let ?rq = "\<lparr>rq_path = p, rq_name = lf_name f, rq_size = lf_size f, rq_modified = lf_modified f, rq_conflict = conflict\<rparr>"
  obtain rl w1 where list: "list_api w = (rl, w1)" by (cases "list_api w")
  note list1 = list_law [OF assms(1) list]
  have f1: "faithful p q f w1" by (rule faithful_mono [OF assms(2)]) (use list1 in blast)
  show ?thesis
  proof (cases rl)
    case (Inl e)
    with small list list1 f1 show ?thesis by (simp add: upload_file_def)
  next
    case (Inr pending)
    define c where "c = (case find (resumable p q f) pending of Some row \<Rightarrow> (Inr row, w1)
      | None \<Rightarrow> create_api ?rq w1)"
    obtain rc w2 where c: "c = (rc, w2)" by (cases c)
    have c2: "inv w2 \<and> commits w2 = commits w \<and> faithful p q f w2 \<and>
      (\<forall>row. rc = Inr row \<longrightarrow> resumable p q f row \<and> (\<exists>data. stored w2 (ur_id row) = Some (row, data)))"
    proof (cases "find (resumable p q f) pending")
      case (Some row)
      then have "row \<in> set pending" "resumable p q f row" by (auto simp: find_Some_iff)
      with Some c list1 f1 Inr show ?thesis unfolding c_def by auto
    next
      case None
      then have call: "create_api ?rq w1 = (rc, w2)" using c by (simp add: c_def)
      note law = create_law [OF _ call]
      have "faithful p q f w2"
        unfolding faithful_def
      proof (intro allI impI)
        fix i row bs assume "stored w2 i = Some (row, bs)" "resumable p q f row"
        moreover from this law list1 have "stored w1 i = Some (row, bs) \<or> bs = []" by blast
        ultimately show "prefix bs (lf_bytes f)" using f1 by (auto simp: faithful_def)
      qed
      moreover have "resumable p q f (row_of_request ?rq i)" for i
        by (simp add: resumable_def row_of_request_def)
      ultimately show ?thesis using law list1 by metis
    qed
    have unf: "upload_file list_api create_api chunk complete_api progress announce p q conflict f w =
        (case c of (Inl e, w2) \<Rightarrow> Some (Inl e, w2)
         | (Inr row, w2) \<Rightarrow>
             (case send_chunks chunk (lf_bytes f) row (progress (ur_offset row) w2) of
                None \<Rightarrow> None
              | Some (Inl e, w3) \<Rightarrow> Some (Inl e, w3)
              | Some (Inr row', w3) \<Rightarrow> Some (finish_upload complete_api announce row' w3)))"
      using small list Inr by (simp add: upload_file_def c_def)
    show ?thesis
    proof (cases rc)
      case (Inl e)
      with unf c c2 show ?thesis by simp
    next
      case (Inr row)
      let ?w = "progress (ur_offset row) w2"
      from Inr c2 obtain data where "stored ?w (ur_id row) = Some (row, data)" "resumable p q f row"
        by (auto simp: quiet)
      moreover have "inv ?w" "faithful p q f ?w" using c2 quiet by (simp_all add: faithful_def)
      ultimately obtain rs w3 where sent: "send_chunks chunk (lf_bytes f) row ?w = Some (rs, w3)"
        and w3: "inv w3" "faithful p q f w3" "commits w3 = commits w"
          "\<forall>row'. rs = Inr row' \<longrightarrow> resumable p q f row' \<and> ur_path row' = ur_path row \<and>
             stored w3 (ur_id row') = Some (row', lf_bytes f)"
        using send_chunks_faithful [of ?w p q f row data] c2 by (auto simp: quiet)
      show ?thesis
      proof (cases rs)
        case (Inl e)
        with unf c Inr sent w3 show ?thesis by simp
      next
        case rs: (Inr row')
        obtain rf w4 where fin: "complete_api (ur_id row') w3 = (rf, w4)" by (cases "complete_api (ur_id row') w3")
        have row': "resumable p q f row'" "stored w3 (ur_id row') = Some (row', lf_bytes f)"
          using w3(4) rs by auto
        note law = complete_law [OF w3(1) fin row'(2)]
        have "faithful p q f w4" by (rule faithful_mono [OF w3(2)]) (use law in blast)
        moreover have "ur_path row' = p \<or> truthy q \<and> prefix q (ur_path row')"
          using row'(1) by (simp add: resumable_def)
        ultimately show ?thesis
          using unf c Inr sent rs fin law w3(3)
          by (cases rf) (auto simp: finish_upload_def quiet faithful_def)
      qed
    qed
  qed
qed

end

text \<open>A service that answers: while \<open>good\<close> holds every call of the client's own upload succeeds.\<close>

locale reliable_service = upload_service +
  fixes good :: "'a \<Rightarrow> bool"
    and room :: "upload_request \<Rightarrow> 'a \<Rightarrow> bool"
  assumes good_list: "inv w \<Longrightarrow> good w \<Longrightarrow> \<exists>rows w'. list_api w = (Inr rows, w') \<and> good w' \<and>
      (room rq w \<longrightarrow> room rq w')"
    and good_create: "inv w \<Longrightarrow> good w \<Longrightarrow> room rq w \<Longrightarrow>
      \<exists>row w'. create_api rq w = (Inr row, w') \<and> good w'"
    and good_chunk: "inv w \<Longrightarrow> good w \<Longrightarrow> stored w i = Some (row, data) \<Longrightarrow>
      length data + length bs \<le> ur_size row \<Longrightarrow> length bs \<le> chunk_limit \<Longrightarrow>
      \<exists>row' w'. chunk i (length data) bs w = (Inr row', w') \<and> good w'"
    and good_complete: "inv w \<Longrightarrow> good w \<Longrightarrow> stored w i = Some (row, data) \<Longrightarrow> length data = ur_size row \<Longrightarrow>
      \<exists>saved w'. complete_api i w = (Inr saved, w') \<and> good w'"
    and good_quiet: "good w \<Longrightarrow> good (progress n w) \<and> good (announce x w)"
begin

lemma send_chunks_good:
  assumes "inv w" "good w" "faithful p q f w" "stored w (ur_id row) = Some (row, data)" "resumable p q f row"
  shows "\<exists>row' w'. send_chunks chunk (lf_bytes f) row w = Some (Inr row', w') \<and> good w' \<and> inv w' \<and>
    ur_id row' = ur_id row \<and> ur_size row' = lf_size f \<and> stored w' (ur_id row) = Some (row', lf_bytes f)"
  using assms
proof (induction "ur_size row - ur_offset row" arbitrary: row data w rule: less_induct)
  case less
  have size: "ur_size row = lf_size f" using less.prems(5) by (simp add: resumable_def)
  have row: "ur_offset row = length data" "length data \<le> ur_size row"
    using stored_row [OF less.prems(1,4)] by auto
  have pre: "prefix data (lf_bytes f)" using less.prems(3-5) by (auto simp: faithful_def)
  show ?case
  proof (cases "ur_offset row < ur_size row")
    case False
    then have "length data = lf_size f" using row size by simp
    with pre have "data = lf_bytes f" by (auto simp: prefix_def)
    with False less.prems size show ?thesis by (simp add: send_chunks.simps)
  next
    case True
    let ?piece = "slice (lf_bytes f) (length data) (min (length data + chunk_limit) (lf_size f))"
    have piece: "prefix (data @ ?piece) (lf_bytes f)" "?piece \<noteq> []"
      using prefix_slice [OF pre] True row size by simp_all
    have len: "length data + length ?piece \<le> lf_size f" "length ?piece \<le> chunk_limit"
      using prefix_length_le [OF piece(1)] by (simp_all add: slice_def)
    obtain row' w1 where call: "chunk (ur_id row) (length data) ?piece w = (Inr row', w1)" "good w1"
      using good_chunk [OF less.prems(1,2,4)] len size by metis
    note law = chunk_law [OF less.prems(1) call(1) less.prems(4) refl]
    have f1: "faithful p q f w1"
      unfolding faithful_def
    proof (intro allI impI)
      fix i row'' bs assume "stored w1 i = Some (row'', bs)" "resumable p q f row''"
      then consider "stored w i = Some (row'', bs)" | "bs = data @ ?piece" using law by blast
      then show "prefix bs (lf_bytes f)"
        by cases (use less.prems(3) \<open>resumable p q f row''\<close> piece(1) in \<open>auto simp: faithful_def\<close>)
    qed
    have row': "row' = row\<lparr>ur_offset := length data + length ?piece\<rparr>"
      "stored w1 (ur_id row) = Some (row', data @ ?piece)" using law by auto
    have fields: "ur_id row' = ur_id row" "ur_size row' = ur_size row"
      "ur_offset row' = length data + length ?piece" "resumable p q f row'"
      unfolding row'(1) using less.prems(5) by simp_all
    have smaller: "ur_size row' - ur_offset row' < ur_size row - ur_offset row"
      using fields piece(2) True row by (cases ?piece) auto
    have "stored w1 (ur_id row') = Some (row', data @ ?piece)" using row'(2) fields by simp
    from less.hyps [OF smaller _ call(2) f1 this fields(4)] law
    obtain row'' w' where rest: "send_chunks chunk (lf_bytes f) row' w1 = Some (Inr row'', w')" "good w'" "inv w'"
      "ur_id row'' = ur_id row'" "ur_size row'' = lf_size f" "stored w' (ur_id row') = Some (row'', lf_bytes f)"
      by blast
    have "send_chunks chunk (lf_bytes f) row w = send_chunks chunk (lf_bytes f) row' w1"
      using True call(1) row(1) size by (simp add: send_chunks.simps [of chunk "lf_bytes f" row])
    with rest fields show ?thesis by auto
  qed
qed

lemma upload_file_good:
  assumes "inv w" "good w" "faithful p q f w" "lf_size f \<le> max_upload_bytes"
    and "room \<lparr>rq_path = p, rq_name = lf_name f, rq_size = lf_size f, rq_modified = lf_modified f, rq_conflict = conflict\<rparr> w"
  shows "\<exists>v w'. upload_file list_api create_api chunk complete_api progress announce p q conflict f w = Some (Inr v, w')"
proof -
  let ?rq = "\<lparr>rq_path = p, rq_name = lf_name f, rq_size = lf_size f, rq_modified = lf_modified f, rq_conflict = conflict\<rparr>"
  obtain pending w1 where list: "list_api w = (Inr pending, w1)" "good w1" "room ?rq w1"
    using good_list [OF assms(1,2), of ?rq] assms(5) by auto
  note list1 = list_law [OF assms(1) list(1)]
  have f1: "faithful p q f w1" by (rule faithful_mono [OF assms(3)]) (use list1 in blast)
  define c where "c = (case find (resumable p q f) pending of Some row \<Rightarrow> (Inr row, w1)
      | None \<Rightarrow> create_api ?rq w1)"
  have "\<exists>row w2 data. c = (Inr row, w2) \<and> good w2 \<and> inv w2 \<and> faithful p q f w2 \<and> resumable p q f row \<and>
      stored w2 (ur_id row) = Some (row, data)"
  proof (cases "find (resumable p q f) pending")
    case (Some row)
    then have "row \<in> set pending" "resumable p q f row" by (auto simp: find_Some_iff)
    with Some list1 list f1 show ?thesis unfolding c_def by auto
  next
    case None
    obtain row w2 where call: "create_api ?rq w1 = (Inr row, w2)" "good w2"
      using good_create [of w1 ?rq] list(2,3) list1 by auto
    note law = create_law [OF _ call(1)]
    have "faithful p q f w2"
      unfolding faithful_def
    proof (intro allI impI)
      fix i row bs assume "stored w2 i = Some (row, bs)" "resumable p q f row"
      moreover from this law list1 have "stored w1 i = Some (row, bs) \<or> bs = []" by blast
      ultimately show "prefix bs (lf_bytes f)" using f1 by (auto simp: faithful_def)
    qed
    moreover have "resumable p q f (row_of_request ?rq i)" for i
      by (simp add: resumable_def row_of_request_def)
    moreover have "row = row_of_request ?rq (ur_id row)" "stored w2 (ur_id row) = Some (row, [])" "inv w2"
      using law list1 by auto
    moreover have "c = (Inr row, w2)" using None call by (simp add: c_def)
    ultimately show ?thesis using call(2) by metis
  qed
  then obtain row w2 data where c: "c = (Inr row, w2)" "good w2" "inv w2" "faithful p q f w2" "resumable p q f row"
      "stored w2 (ur_id row) = Some (row, data)" by blast
  let ?w = "progress (ur_offset row) w2"
  have "inv ?w" "good ?w" "faithful p q f ?w" "stored ?w (ur_id row) = Some (row, data)"
    using c quiet good_quiet by (simp_all add: faithful_def)
  from send_chunks_good [OF this c(5)] obtain row' w3 where sent:
    "send_chunks chunk (lf_bytes f) row ?w = Some (Inr row', w3)" "good w3" "inv w3"
    "ur_id row' = ur_id row" "ur_size row' = lf_size f" "stored w3 (ur_id row) = Some (row', lf_bytes f)" by blast
  obtain saved w4 where "complete_api (ur_id row') w3 = (Inr saved, w4)"
    using good_complete [OF sent(3,2,6)] sent(4,5) by auto
  with sent c(1) list(1) assms(4) show ?thesis by (simp add: upload_file_def c_def finish_upload_def)
qed

end

end
