(* ===== verification/Upload_Server.thy ===== *)
theory Upload_Server
  imports File_Uploads
begin

text \<open>
  The server side of resumable uploads, \<^verbatim>\<open>harness-bundle/src/resumable-upload.ts\<close>, class
  \<open>ResumableUploads\<close>, and the uploads of the client running against it over a faulty network.

  The directory of the class is a list of uploads by id, each with its metadata and its data
  file (\<open>None\<close> once removed); \<open>up_commits\<close> logs the calls of the \<open>commit\<close> callback. The clock and the
  supply of ids are fields; \<open>validate\<close> and \<open>commit\<close> are the callbacks of the constructor. An operation is
  one atomic step: the busy set of the class keeps any other operation on the same upload out
  while \<open>append\<close> or \<open>finish\<close> runs.
\<close>

section \<open>State\<close>

record upload_session = upload_row +
  us_workspace :: string
  us_conflict :: string
  us_created :: int
  us_updated :: int
  us_completed :: "string option"

record 'b uploads =
  up_dir :: "(string \<times> upload_session \<times> 'b list option) list"
  up_busy :: "string list"
  up_commits :: "(string \<times> 'b list) list"
  up_now :: int
  up_ids :: nat

definition lifetime :: int where
  "lifetime = 7 * 24 * 60 * 60 * 1000"

definition hex_char :: "char \<Rightarrow> bool" where
  "hex_char c = (c \<in> set ''0123456789abcdef-'')"

definition valid_id :: "string \<Rightarrow> bool" where
  "valid_id i = (length i = 36 \<and> list_all hex_char i)"

definition wire :: "upload_session \<Rightarrow> upload_row" where
  "wire s = \<lparr>ur_id = ur_id s, ur_path = ur_path s, ur_name = ur_name s, ur_size = ur_size s,
     ur_modified = ur_modified s, ur_offset = ur_offset s\<rparr>"

section \<open>Operations\<close>

definition up_cleanup :: "'b uploads \<Rightarrow> 'b uploads" where
  "up_cleanup u =
     u\<lparr>up_dir := filter (\<lambda>(i, s, _). \<not> (lifetime < up_now u - us_updated s \<and> ur_id s \<notin> set (up_busy u)))
                  (up_dir u)\<rparr>"

definition up_get ::
  "(string \<Rightarrow> string \<Rightarrow> string option) \<Rightarrow> string \<Rightarrow> string \<Rightarrow> 'b uploads \<Rightarrow> string + upload_session" where
  "up_get validate ws i u =
     (if \<not> valid_id i then Inl ''upload_not_found''
      else case jmap_get (up_dir u) i of
        None \<Rightarrow> Inl ''upload_not_found''
      | Some (s, data) \<Rightarrow>
          (if us_workspace s \<noteq> ws then Inl ''upload_not_found''
           else if us_completed s \<noteq> None
           then (case validate ws [] of Some e \<Rightarrow> Inl e | None \<Rightarrow> Inr s)
           else (case validate ws (ur_path s) of
                   Some e \<Rightarrow> Inl e
                 | None \<Rightarrow> (case data of
                              None \<Rightarrow> Inl ''ENOENT''
                            | Some bs \<Rightarrow> Inr (s\<lparr>ur_offset := length bs\<rparr>)))))"

fun up_collect :: "(string + 'a) list \<Rightarrow> string + 'a list" where
  "up_collect [] = Inr []"
| "up_collect (Inl e # rs) = Inl e"
| "up_collect (Inr x # rs) = (case up_collect rs of Inl e \<Rightarrow> Inl e | Inr xs \<Rightarrow> Inr (x # xs))"

definition up_list ::
  "(string \<Rightarrow> string \<Rightarrow> string option) \<Rightarrow> string \<Rightarrow> 'b uploads \<Rightarrow> (string + upload_session list) \<times> 'b uploads" where
  "up_list validate ws u =
     (case validate ws [] of
        Some e \<Rightarrow> (Inl e, u)
      | None \<Rightarrow>
          (let u' = up_cleanup u
           in (up_collect (map (\<lambda>(i, s, _). up_get validate ws (ur_id s) u')
                 (filter (\<lambda>(i, s, _). us_workspace s = ws \<and> us_completed s = None) (up_dir u'))), u')))"

definition up_create ::
  "(nat \<Rightarrow> string) \<Rightarrow> (string \<Rightarrow> string \<Rightarrow> string option) \<Rightarrow> string \<Rightarrow> upload_request \<Rightarrow> 'b uploads \<Rightarrow>
    (string + upload_session) \<times> 'b uploads" where
  "up_create uuid validate ws rq u =
     (if rq_path rq = [] \<or> 255 < length (rq_name rq) \<or> rq_conflict rq \<notin> {[], ''rename''}
      then (Inl ''invalid_upload'', u)
      else if max_upload_bytes < rq_size rq then (Inl ''request_too_large'', u)
      else case validate ws (rq_path rq) of
        Some e \<Rightarrow> (Inl e, u)
      | None \<Rightarrow>
          (let u' = up_cleanup u
           in if 32 \<le> length (filter (\<lambda>(_, _, data). data \<noteq> None) (up_dir u'))
              then (Inl ''upload_limit_reached'', u')
              else (let i = uuid (up_ids u');
                        s = \<lparr>ur_id = i, ur_path = rq_path rq, ur_name = rq_name rq, ur_size = rq_size rq,
                             ur_modified = rq_modified rq, ur_offset = 0, us_workspace = ws,
                             us_conflict = rq_conflict rq, us_created = up_now u', us_updated = up_now u',
                             us_completed = None\<rparr>
                    in if \<not> valid_id i then (Inl ''upload_not_found'', u'\<lparr>up_ids := Suc (up_ids u')\<rparr>)
                       else if (case jmap_get (up_dir u') i of Some (_, Some _) \<Rightarrow> True | _ \<Rightarrow> False)
                       then (Inl ''EEXIST'', u'\<lparr>up_ids := Suc (up_ids u')\<rparr>)
                       else (Inr s, u'\<lparr>up_dir := jmap_set i (s, Some []) (up_dir u'),
                                      up_ids := Suc (up_ids u')\<rparr>))))"

text \<open>Writing the pieces of a request body into the data file; a broken stream throws after its pieces.\<close>

definition write_at :: "'b list \<Rightarrow> nat \<Rightarrow> 'b list \<Rightarrow> 'b list" where
  "write_at file at bs = take at file @ bs @ drop (at + length bs) file"

fun append_pieces ::
  "nat \<Rightarrow> nat \<Rightarrow> bool \<Rightarrow> 'b list list \<Rightarrow> nat \<Rightarrow> 'b list \<Rightarrow> (string + nat) \<times> 'b list" where
  "append_pieces offset row_size broken [] added file =
     (if broken then (Inl ''aborted'', file) else (Inr added, file))"
| "append_pieces offset row_size broken (v # vs) added file =
     (let added' = added + length v
      in if chunk_limit < added' \<or> row_size < offset + added' then (Inl ''invalid_upload_chunk'', file)
         else append_pieces offset row_size broken vs added'
                (write_at file (offset + added' - length v) v))"

definition up_append ::
  "(string \<Rightarrow> string \<Rightarrow> string option) \<Rightarrow> string \<Rightarrow> string \<Rightarrow> nat \<Rightarrow> 'b list list \<times> bool \<Rightarrow> 'b uploads \<Rightarrow>
    (string + upload_session) \<times> 'b uploads" where
  "up_append validate ws i offset source u =
     (if i \<in> set (up_busy u) then (Inl ''upload_busy'', u)
      else case up_get validate ws i u of
        Inl e \<Rightarrow> (Inl e, u)
      | Inr row \<Rightarrow>
          (if offset \<noteq> ur_offset row then (Inl ''upload_offset_conflict'', u)
           else case jmap_get (up_dir u) i of
             Some (s, Some file) \<Rightarrow>
               (case append_pieces offset (ur_size row) (snd source) (fst source) 0 file of
                  (Inl e, file') \<Rightarrow> (Inl e, u\<lparr>up_dir := jmap_set i (s, Some (take offset file')) (up_dir u)\<rparr>)
                | (Inr added, file') \<Rightarrow>
                    (let row' = row\<lparr>ur_offset := ur_offset row + added, us_updated := up_now u\<rparr>
                     in (Inr row', u\<lparr>up_dir := jmap_set i (row', Some file') (up_dir u)\<rparr>)))
           | _ \<Rightarrow> (Inl ''ENOENT'', u)))"

definition up_finish ::
  "(string \<Rightarrow> string \<Rightarrow> string option) \<Rightarrow> (string \<Rightarrow> string \<Rightarrow> 'b list \<Rightarrow> string \<Rightarrow> string + string) \<Rightarrow> bool \<Rightarrow>
    string \<Rightarrow> string \<Rightarrow> 'b uploads \<Rightarrow> (string + string) \<times> 'b uploads" where
  "up_finish validate commit keep_receipts ws i u =
     (if i \<in> set (up_busy u) then (Inl ''upload_busy'', u)
      else case up_get validate ws i u of
        Inl e \<Rightarrow> (Inl e, u)
      | Inr row \<Rightarrow>
          (if ur_offset row \<noteq> ur_size row then (Inl ''upload_incomplete'', u)
           else case us_completed row of
             Some entry \<Rightarrow> (Inr entry, u)
           | None \<Rightarrow>
               (case jmap_get (up_dir u) i of
                  Some (s, Some file) \<Rightarrow>
                    (case commit ws (ur_path row) file (us_conflict row) of
                       Inl e \<Rightarrow> (Inl e, u)
                     | Inr entry \<Rightarrow>
                         (Inr entry,
                          u\<lparr>up_dir := (if keep_receipts
                              then jmap_set i (row\<lparr>us_completed := Some entry, us_updated := up_now u\<rparr>, None) (up_dir u)
                              else jmap_delete i (up_dir u)),
                            up_commits := up_commits u @ [(ur_path row, file)]\<rparr>))
                | _ \<Rightarrow> (Inl ''ENOENT'', u))))"

definition up_cancel ::
  "(string \<Rightarrow> string \<Rightarrow> string option) \<Rightarrow> string \<Rightarrow> string \<Rightarrow> 'b uploads \<Rightarrow> (string + unit) \<times> 'b uploads" where
  "up_cancel validate ws i u =
     (if i \<in> set (up_busy u) then (Inl ''upload_busy'', u)
      else case up_get validate ws i u of
        Inl e \<Rightarrow> (Inl e, u)
      | Inr _ \<Rightarrow> (Inr (), u\<lparr>up_dir := jmap_delete i (up_dir u)\<rparr>))"

section \<open>The invariant of the directory\<close>

definition upload_ok :: "string \<Rightarrow> upload_session \<times> 'b list option \<Rightarrow> bool" where
  "upload_ok i x \<longleftrightarrow> ur_id (fst x) = i \<and> valid_id i \<and>
     (us_completed (fst x) = None \<longrightarrow> (\<exists>bs. snd x = Some bs \<and> length bs \<le> ur_size (fst x)))"

definition uploads_ok :: "'b uploads \<Rightarrow> bool" where
  "uploads_ok u \<longleftrightarrow> distinct (jkeys (up_dir u)) \<and> up_busy u = [] \<and>
     (\<forall>i x. jmap_get (up_dir u) i = Some x \<longrightarrow> upload_ok i x)"

definition stored_in :: "string \<Rightarrow> 'b uploads \<Rightarrow> string \<Rightarrow> (upload_row \<times> 'b list) option" where
  "stored_in ws u i =
     (case jmap_get (up_dir u) i of
        Some (s, Some bs) \<Rightarrow>
          (if us_completed s = None \<and> us_workspace s = ws then Some (wire s\<lparr>ur_offset := length bs\<rparr>, bs) else None)
      | _ \<Rightarrow> None)"

lemma wire_simps [simp]:
  "ur_id (wire s) = ur_id s" "ur_path (wire s) = ur_path s" "ur_size (wire s) = ur_size s"
  "ur_offset (wire s) = ur_offset s"
  "wire (s\<lparr>ur_offset := n\<rparr>) = wire s\<lparr>ur_offset := n\<rparr>" "wire (s\<lparr>us_updated := t\<rparr>) = wire s"
  by (simp_all add: wire_def)

lemma stored_inD:
  assumes "stored_in ws u i = Some (row, bs)"
  obtains s where "jmap_get (up_dir u) i = Some (s, Some bs)" "us_completed s = None" "us_workspace s = ws"
    "row = wire s\<lparr>ur_offset := length bs\<rparr>"
  using assms by (auto simp: stored_in_def split: option.splits prod.splits if_splits)

lemma stored_in_row:
  assumes "uploads_ok u" "stored_in ws u i = Some (row, bs)"
  shows "ur_id row = i \<and> ur_offset row = length bs \<and> length bs \<le> ur_size row"
  using assms(2)
proof (rule stored_inD)
  fix s assume s: "jmap_get (up_dir u) i = Some (s, Some bs)" "us_completed s = None"
    "row = wire s\<lparr>ur_offset := length bs\<rparr>"
  then have "upload_ok i (s, Some bs)" using assms(1) by (auto simp: uploads_ok_def)
  with s show ?thesis by (auto simp: upload_ok_def)
qed

lemma stored_in_mono:
  assumes "\<And>y. jmap_get (up_dir u') i = Some y \<Longrightarrow> jmap_get (up_dir u) i = Some y"
    and "stored_in ws u' i = Some x"
  shows "stored_in ws u i = Some x"
proof (cases "jmap_get (up_dir u') i")
  case None
  with assms(2) show ?thesis by (simp add: stored_in_def)
next
  case (Some y)
  with assms show ?thesis by (simp add: stored_in_def)
qed

lemma stored_in_set:
  "stored_in ws (u\<lparr>up_dir := jmap_set i (s, data) (up_dir u)\<rparr>) j =
     (if j = i then (case data of
          Some bs \<Rightarrow> if us_completed s = None \<and> us_workspace s = ws
                     then Some (wire s\<lparr>ur_offset := length bs\<rparr>, bs) else None
        | None \<Rightarrow> None)
      else stored_in ws u j)"
  by (simp add: stored_in_def jmap_simps)

lemma uploads_ok_set:
  assumes "uploads_ok u" "upload_ok i x"
  shows "uploads_ok (u\<lparr>up_dir := jmap_set i x (up_dir u)\<rparr>)"
  using assms by (auto simp: uploads_ok_def jmap_simps)

lemma uploads_ok_delete:
  assumes "uploads_ok u"
  shows "uploads_ok (u\<lparr>up_dir := jmap_delete i (up_dir u)\<rparr>)"
  using assms unfolding uploads_ok_def
  by (simp add: jmap_get_delete del: map_of_eq_Some_iff)

lemma jmap_get_filter:
  assumes "distinct (jkeys m)" "jmap_get (filter P m) k = Some v"
  shows "jmap_get m k = Some v"
  using assms by (meson filter_is_subset map_of_SomeD map_of_is_SomeI subsetD)

lemma cleanup_shrinks:
  assumes "uploads_ok u"
  shows "uploads_ok (up_cleanup u)" "up_commits (up_cleanup u) = up_commits u" "up_ids (up_cleanup u) = up_ids u"
    "stored_in ws (up_cleanup u) i = Some x \<Longrightarrow> stored_in ws u i = Some x"
    "set (up_dir (up_cleanup u)) \<subseteq> set (up_dir u)"
    "set (jkeys (up_dir (up_cleanup u))) \<subseteq> set (jkeys (up_dir u))"
    "length (filter Q (up_dir (up_cleanup u))) \<le> length (filter Q (up_dir u))"
proof -
  define P :: "string \<times> upload_session \<times> 'a list option \<Rightarrow> bool" where
    "P = (\<lambda>(i, s, _). \<not> (lifetime < up_now u - us_updated s \<and> ur_id s \<notin> set (up_busy u)))"
  have dir: "up_dir (up_cleanup u) = filter P (up_dir u)" and rest: "up_busy (up_cleanup u) = up_busy u"
    by (simp_all add: up_cleanup_def P_def)
  have d: "distinct (jkeys (up_dir u))" using assms by (simp add: uploads_ok_def)
  have get: "jmap_get (up_dir (up_cleanup u)) j = Some y \<Longrightarrow> jmap_get (up_dir u) j = Some y" for j y
    unfolding dir by (rule jmap_get_filter [OF d])
  show "uploads_ok (up_cleanup u)"
    using assms get rest unfolding uploads_ok_def dir by (auto simp: distinct_map_filter)
  show "stored_in ws (up_cleanup u) i = Some x \<Longrightarrow> stored_in ws u i = Some x"
    by (rule stored_in_mono) (use get in auto)
  show "length (filter Q (up_dir (up_cleanup u))) \<le> length (filter Q (up_dir u))"
    unfolding dir by (induction "up_dir u" rule: list.induct) (simp_all add: filter_filter, metis (no_types, lifting) filter_cong filter_filter length_filter_le)
qed (auto simp: up_cleanup_def)

section \<open>What each operation keeps\<close>

lemma up_get_stored:
  assumes "stored_in ws u i = Some (row, bs)" "up_get validate ws i u = Inr s"
  shows "wire s = row \<and> us_workspace s = ws \<and> us_completed s = None \<and> ur_offset s = length bs \<and> ur_path s = ur_path row"
  using assms(1)
  by (rule stored_inD) (use assms(2) in \<open>auto simp: up_get_def split: if_splits option.splits\<close>)

lemma up_get_pending:
  assumes "uploads_ok u" "jmap_get (up_dir u) i = Some (s, data)" "us_workspace s = ws" "us_completed s = None"
    and "up_get validate ws (ur_id s) u = Inr s'"
  shows "ur_id s' = i \<and> (\<exists>bs. stored_in ws u i = Some (wire s', bs))"
proof -
  have "ur_id s = i" using assms(1,2) by (auto simp: uploads_ok_def upload_ok_def)
  with assms show ?thesis
    by (auto simp: up_get_def stored_in_def split: if_splits option.splits)
qed

lemma up_collect_Inr: "up_collect rs = Inr xs \<Longrightarrow> rs = map Inr xs"
  by (induction rs arbitrary: xs rule: up_collect.induct) (auto split: sum.splits)

lemma up_list_law:
  assumes "uploads_ok u" "up_list validate ws u = (r, u')"
  shows "uploads_ok u' \<and> up_commits u' = up_commits u \<and>
    (\<forall>i x. stored_in ws u' i = Some x \<longrightarrow> stored_in ws u i = Some x) \<and>
    (\<forall>rows. r = Inr rows \<longrightarrow> (\<forall>s \<in> set rows. \<exists>bs. stored_in ws u' (ur_id s) = Some (wire s, bs)))"
proof (cases "validate ws []")
  case (Some e)
  with assms show ?thesis by (auto simp: up_list_def)
next
  case None
  let ?c = "up_cleanup u"
  let ?rows = "filter (\<lambda>(i, s, _). us_workspace s = ws \<and> us_completed s = None) (up_dir ?c)"
  have u': "u' = ?c" and r: "r = up_collect (map (\<lambda>(i, s, _). up_get validate ws (ur_id s) ?c) ?rows)"
    using assms(2) None by (auto simp: up_list_def Let_def)
  have "\<exists>bs. stored_in ws ?c (ur_id s) = Some (wire s, bs)" if rows: "r = Inr rows" "s \<in> set rows" for rows s
  proof -
    have "map (\<lambda>(i, s, _). up_get validate ws (ur_id s) ?c) ?rows = map Inr rows"
      using rows(1) r by (intro up_collect_Inr) simp
    then have "Inr s \<in> set (map (\<lambda>(i, s, _). up_get validate ws (ur_id s) ?c) ?rows)"
      using rows(2) by simp
    then obtain i s0 data where "(i, s0, data) \<in> set (up_dir ?c)" "us_workspace s0 = ws" "us_completed s0 = None"
      "up_get validate ws (ur_id s0) ?c = Inr s" by auto
    moreover have "distinct (jkeys (up_dir ?c))" using cleanup_shrinks(1) [OF assms(1)] by (simp add: uploads_ok_def)
    ultimately show ?thesis
      using up_get_pending [OF cleanup_shrinks(1) [OF assms(1)], of i s0 data ws validate s]
      by (metis map_of_is_SomeI)
  qed
  with u' cleanup_shrinks [OF assms(1)] show ?thesis by blast
qed

lemma up_create_cases:
  fixes ws rq and u :: "'b uploads"
  assumes "up_create uuid validate ws rq u = (r, u')"
  defines "c \<equiv> up_cleanup u"
  defines "s \<equiv> \<lparr>ur_id = uuid (up_ids c), ur_path = rq_path rq, ur_name = rq_name rq, ur_size = rq_size rq,
     ur_modified = rq_modified rq, ur_offset = 0, us_workspace = ws, us_conflict = rq_conflict rq,
     us_created = up_now c, us_updated = up_now c, us_completed = None\<rparr>"
  shows "(\<exists>e. r = Inl e \<and> (u' = u \<or> u' = c \<or> u' = c\<lparr>up_ids := Suc (up_ids c)\<rparr>)) \<or>
    r = Inr s \<and> valid_id (uuid (up_ids c)) \<and>
      u' = c\<lparr>up_dir := jmap_set (uuid (up_ids c)) (s, Some []) (up_dir c), up_ids := Suc (up_ids c)\<rparr>"
proof -
  define bad where "bad \<longleftrightarrow> rq_path rq = [] \<or> 255 < length (rq_name rq) \<or> rq_conflict rq \<notin> {[], ''rename''}"
  define full where "full \<longleftrightarrow> 32 \<le> length (filter (\<lambda>(_, _, data). data \<noteq> None) (up_dir c))"
  define old where "old = (case jmap_get (up_dir c) (uuid (up_ids c)) of Some (_, Some _) \<Rightarrow> True | _ \<Rightarrow> False)"
  have eq: "up_create uuid validate ws rq u =
     (if bad then (Inl ''invalid_upload'', u)
      else if max_upload_bytes < rq_size rq then (Inl ''request_too_large'', u)
      else case validate ws (rq_path rq) of Some e \<Rightarrow> (Inl e, u)
      | None \<Rightarrow> if full then (Inl ''upload_limit_reached'', c)
          else if \<not> valid_id (uuid (up_ids c)) then (Inl ''upload_not_found'', c\<lparr>up_ids := Suc (up_ids c)\<rparr>)
          else if old then (Inl ''EEXIST'', c\<lparr>up_ids := Suc (up_ids c)\<rparr>)
          else (Inr s, c\<lparr>up_dir := jmap_set (uuid (up_ids c)) (s, Some []) (up_dir c), up_ids := Suc (up_ids c)\<rparr>))"
    unfolding up_create_def Let_def bad_def full_def old_def c_def s_def by (rule refl)
  show ?thesis
    using trans [OF eq [symmetric] assms(1)]
    by (auto split: if_split_asm option.split_asm)
qed

lemma up_create_law:
  assumes "uploads_ok u" "up_create uuid validate ws rq u = (r, u')"
  shows "uploads_ok u' \<and> up_commits u' = up_commits u \<and>
    (\<forall>i x. stored_in ws u' i = Some x \<longrightarrow> stored_in ws u i = Some x \<or> x = (row_of_request rq i, [])) \<and>
    (\<forall>s. r = Inr s \<longrightarrow> wire s = row_of_request rq (ur_id s) \<and> stored_in ws u' (ur_id s) = Some (wire s, []))"
proof -
  let ?c = "up_cleanup u"
  let ?i = "uuid (up_ids ?c)"
  define s where "s = \<lparr>ur_id = ?i, ur_path = rq_path rq, ur_name = rq_name rq, ur_size = rq_size rq,
     ur_modified = rq_modified rq, ur_offset = 0, us_workspace = ws, us_conflict = rq_conflict rq,
     us_created = up_now ?c, us_updated = up_now ?c, us_completed = None\<rparr>"
  have c: "uploads_ok ?c" "up_commits ?c = up_commits u"
    "\<And>i x. stored_in ws ?c i = Some x \<Longrightarrow> stored_in ws u i = Some x"
    using cleanup_shrinks [OF assms(1)] by auto
  have ids: "uploads_ok (x\<lparr>up_ids := n\<rparr>) = uploads_ok x" "stored_in ws (x\<lparr>up_ids := n\<rparr>) = stored_in ws x"
    for x :: "'b uploads" and n
    by (auto simp: uploads_ok_def stored_in_def fun_eq_iff)
  consider (same) e where "r = Inl e" "u' = u" | (idle) e where "r = Inl e" "u' = ?c"
    | (skip) e where "r = Inl e" "u' = ?c\<lparr>up_ids := Suc (up_ids ?c)\<rparr>"
    | (new) "r = Inr s" "valid_id ?i" "u' = ?c\<lparr>up_dir := jmap_set ?i (s, Some []) (up_dir ?c), up_ids := Suc (up_ids ?c)\<rparr>"
    using up_create_cases [OF assms(2)] unfolding s_def by blast
  then show ?thesis
  proof cases
    case same
    with assms(1) show ?thesis by simp
  next
    case idle
    with c show ?thesis by simp
  next
    case skip
    with c show ?thesis by (simp add: ids)
  next
    case new
    let ?d = "?c\<lparr>up_dir := jmap_set ?i (s, Some []) (up_dir ?c)\<rparr>"
    have u': "u' = ?d\<lparr>up_ids := Suc (up_ids ?c)\<rparr>" using new(3) by simp
    have w: "wire s = row_of_request rq ?i" "ur_id s = ?i" by (simp_all add: s_def wire_def row_of_request_def)
    have "upload_ok ?i (s, Some [])" using new(2) by (simp add: upload_ok_def s_def)
    from uploads_ok_set [OF c(1) this] have "uploads_ok u'" by (simp add: u' ids)
    moreover have "stored_in ws u' j = (if j = ?i then Some (wire s, []) else stored_in ws ?c j)" for j
      unfolding u' ids by (simp add: stored_in_set) (simp add: s_def wire_def)
    ultimately show ?thesis using c new(1) w by (auto simp: u')
  qed
qed

lemma append_pieces_law:
  assumes "length old = offset + added" "added \<le> chunk_limit" "offset + added \<le> row_size"
    and "append_pieces offset row_size broken vs added old = (r, old')"
  shows "take offset old' = take offset old \<and>
    (\<forall>n. r = Inr n \<longrightarrow> n = added + length (concat vs) \<and> old' = old @ concat vs \<and> offset + n \<le> row_size)"
  using assms
proof (induction vs arbitrary: added old)
  case (Cons v vs)
  show ?case
  proof (cases "chunk_limit < added + length v \<or> row_size < offset + (added + length v)")
    case True
    with Cons.prems show ?thesis by (auto simp: Let_def)
  next
    case False
    have w: "write_at old (offset + (added + length v) - length v) v = old @ v"
      using Cons.prems(1) by (simp add: write_at_def)
    have "append_pieces offset row_size broken vs (added + length v) (old @ v) = (r, old')"
      using Cons.prems(4) False w by (simp add: Let_def)
    from Cons.IH [OF _ _ _ this] show ?thesis using Cons.prems False by (auto simp: add.assoc)
  qed
qed (auto split: if_splits)

lemma append_pieces_ok:
  assumes "length old = offset + added" "added + length (concat vs) \<le> chunk_limit"
    "offset + added + length (concat vs) \<le> row_size"
  shows "append_pieces offset row_size False vs added old = (Inr (added + length (concat vs)), old @ concat vs)"
  using assms
proof (induction vs arbitrary: added old)
  case (Cons v vs)
  have w: "write_at old (offset + (added + length v) - length v) v = old @ v"
    using Cons.prems(1) by (simp add: write_at_def)
  show ?case using Cons.IH [of "old @ v" "added + length v"] Cons.prems w by (simp add: Let_def add.assoc)
qed simp

lemma up_append_law:
  assumes "uploads_ok u" "up_append validate ws i offset (vs, broken) u = (r, u')"
    and "stored_in ws u i = Some (row, data)"
  shows "uploads_ok u' \<and> up_commits u' = up_commits u \<and>
    (\<forall>j x. stored_in ws u' j = Some x \<longrightarrow> stored_in ws u j = Some x \<or>
       j = i \<and> offset = length data \<and>
         x = (row\<lparr>ur_offset := length data + length (concat vs)\<rparr>, data @ concat vs)) \<and>
    (\<forall>s. r = Inr s \<longrightarrow> wire s = row\<lparr>ur_offset := length data + length (concat vs)\<rparr> \<and>
       stored_in ws u' i = Some (wire s, data @ concat vs))"
proof -
  obtain s where s: "jmap_get (up_dir u) i = Some (s, Some data)" "us_completed s = None" "us_workspace s = ws"
    "row = wire s\<lparr>ur_offset := length data\<rparr>"
    using assms(3) by (rule stored_inD)
  have ok: "upload_ok i (s, Some data)" using assms(1) s(1) by (auto simp: uploads_ok_def)
  have idle: "i \<notin> set (up_busy u)" using assms(1) by (simp add: uploads_ok_def)
  show ?thesis
  proof (cases "up_get validate ws i u")
    case (Inl e)
    with assms idle show ?thesis by (auto simp: up_append_def)
  next
    case (Inr g)
    have g: "g = s\<lparr>ur_offset := length data\<rparr>"
      using Inr s by (auto simp: up_get_def split: if_splits option.splits)
    show ?thesis
    proof (cases "offset = length data")
      case False
      with assms idle Inr g show ?thesis by (auto simp: up_append_def)
    next
      case True
      obtain p file' where p: "append_pieces offset (ur_size g) broken vs 0 data = (p, file')"
        by (cases "append_pieces offset (ur_size g) broken vs 0 data")
      have law: "take offset file' = data"
        "\<And>n. p = Inr n \<Longrightarrow> n = length (concat vs) \<and> file' = data @ concat vs \<and> offset + n \<le> ur_size s"
        using append_pieces_law [OF _ _ _ p] True ok s(2) g by (auto simp: upload_ok_def)
      show ?thesis
      proof (cases p)
        case p': (Inl e)
        have u': "u' = u\<lparr>up_dir := jmap_set i (s, Some data) (up_dir u)\<rparr>" "r = Inl e"
          using assms(2) idle Inr g True s(1) p p' law(1) by (auto simp: up_append_def)
        have "uploads_ok u'" unfolding u' by (rule uploads_ok_set [OF assms(1) ok])
        moreover have "stored_in ws u' j = stored_in ws u j" for j
          using s assms(3) by (simp add: u' stored_in_set)
        ultimately show ?thesis using u' by simp
      next
        case p': (Inr n)
        note n = law(2) [OF p']
        let ?row = "g\<lparr>ur_offset := length data + n, us_updated := up_now u\<rparr>"
        have u': "u' = u\<lparr>up_dir := jmap_set i (?row, Some file') (up_dir u)\<rparr>" "r = Inr ?row"
          using assms(2) idle Inr g True s(1) p p' by (auto simp: up_append_def Let_def)
        have "upload_ok i (?row, Some file')" using ok n True s(2) by (simp add: upload_ok_def g)
        then have "uploads_ok u'" unfolding u' by (rule uploads_ok_set [OF assms(1)])
        moreover have w: "wire ?row = row\<lparr>ur_offset := length data + length (concat vs)\<rparr>"
          using n by (simp add: g s(4))
        moreover have "stored_in ws u' j = (if j = i then Some (wire ?row, data @ concat vs) else stored_in ws u j)" for j
          unfolding u' stored_in_set using s n by (simp add: g)
        ultimately show ?thesis using u' True by auto
      qed
    qed
  qed
qed

lemma up_finish_law:
  assumes "uploads_ok u" "up_finish validate commit keep ws i u = (r, u')"
    and "stored_in ws u i = Some (row, data)"
  shows "uploads_ok u' \<and> (\<forall>j x. stored_in ws u' j = Some x \<longrightarrow> stored_in ws u j = Some x) \<and>
    (u' = u \<and> (\<forall>v. r \<noteq> Inr v) \<or>
     up_commits u' = up_commits u @ [(ur_path row, data)] \<and> length data = ur_size row \<and> (\<exists>v. r = Inr v))"
proof -
  obtain s where s: "jmap_get (up_dir u) i = Some (s, Some data)" "us_completed s = None" "us_workspace s = ws"
    "row = wire s\<lparr>ur_offset := length data\<rparr>"
    using assms(3) by (rule stored_inD)
  have ok: "upload_ok i (s, Some data)" using assms(1) s(1) by (auto simp: uploads_ok_def)
  have idle: "i \<notin> set (up_busy u)" using assms(1) by (simp add: uploads_ok_def)
  show ?thesis
  proof (cases "up_get validate ws i u")
    case (Inl e)
    with assms idle show ?thesis by (auto simp: up_finish_def)
  next
    case (Inr g)
    have g: "g = s\<lparr>ur_offset := length data\<rparr>"
      using Inr s by (auto simp: up_get_def split: if_splits option.splits)
    show ?thesis
    proof (cases "length data = ur_size s")
      case False
      with assms idle Inr g show ?thesis by (auto simp: up_finish_def)
    next
      case True
      show ?thesis
      proof (cases "commit ws (ur_path g) data (us_conflict g)")
        case c: (Inl e)
        with assms idle Inr g True s show ?thesis by (auto simp: up_finish_def)
      next
        case c: (Inr entry)
        let ?done = "g\<lparr>us_completed := Some entry, us_updated := up_now u\<rparr>"
        let ?dir = "if keep then jmap_set i (?done, None) (up_dir u) else jmap_delete i (up_dir u)"
        have u': "u' = u\<lparr>up_dir := ?dir, up_commits := up_commits u @ [(ur_path g, data)]\<rparr>" "r = Inr entry"
          using assms(2) idle Inr g True s c by (auto simp: up_finish_def)
        have "upload_ok i (?done, None)" using ok by (simp add: upload_ok_def g)
        then have "uploads_ok u'"
          using uploads_ok_set [OF assms(1)] uploads_ok_delete [OF assms(1)]
          by (cases keep) (simp_all add: u' uploads_ok_def)
        moreover have "stored_in ws u' j = (if j = i then None else stored_in ws u j)" for j
          by (simp add: u' stored_in_def jmap_simps)
        ultimately show ?thesis using u' True by (auto simp: g s(4))
      qed
    qed
  qed
qed

section \<open>The client over a faulty network\<close>

text \<open>
  An exchange is delivered, or the request or its answer is lost; the body of a chunk arrives in
  pieces and may be cut off. When the faults run out everything is delivered.
\<close>

datatype fault = Deliver "nat list" | Lose_Request | Lose_Answer "nat list" | Cut_Stream "nat list" nat

record 'b link =
  ln_server :: "'b uploads"
  ln_faults :: "fault list"
  ln_progress :: "nat list"
  ln_entries :: "string option list"

fun pieces :: "nat list \<Rightarrow> 'b list \<Rightarrow> 'b list list" where
  "pieces [] bs = [bs]"
| "pieces (n # ns) bs = take n bs # pieces ns (drop n bs)"

lemma concat_pieces [simp]: "concat (pieces ns bs) = bs"
  by (induction ns bs rule: pieces.induct) simp_all

definition lost :: http_error where
  "lost = plain_error ''TypeError'' ''Failed to fetch''"

definition answer :: "string + 'r \<Rightarrow> http_error + 'r" where
  "answer r = (case r of Inl code \<Rightarrow> Inl (plain_error ''Error'' code) | Inr v \<Rightarrow> Inr v)"

definition exchange ::
  "(nat list \<times> nat option \<Rightarrow> 'b uploads \<Rightarrow> (string + 'r) \<times> 'b uploads) \<Rightarrow> 'b link \<Rightarrow> (http_error + 'r) \<times> 'b link" where
  "exchange op l =
     (case ln_faults l of
        [] \<Rightarrow> (let (r, u) = op ([], None) (ln_server l) in (answer r, l\<lparr>ln_server := u\<rparr>))
      | Deliver cuts # fs \<Rightarrow>
          (let (r, u) = op (cuts, None) (ln_server l) in (answer r, l\<lparr>ln_server := u, ln_faults := fs\<rparr>))
      | Lose_Request # fs \<Rightarrow> (Inl lost, l\<lparr>ln_faults := fs\<rparr>)
      | Lose_Answer cuts # fs \<Rightarrow>
          (let (r, u) = op (cuts, None) (ln_server l) in (Inl lost, l\<lparr>ln_server := u, ln_faults := fs\<rparr>))
      | Cut_Stream cuts n # fs \<Rightarrow>
          (let (r, u) = op (cuts, Some n) (ln_server l) in (Inl lost, l\<lparr>ln_server := u, ln_faults := fs\<rparr>)))"

definition net_list where
  "net_list validate ws = exchange (\<lambda>_ u. (let (r, u') = up_list validate ws u in (map_sum id (map wire) r, u')))"

definition net_create where
  "net_create uuid validate ws rq =
     exchange (\<lambda>_ u. (let (r, u') = up_create uuid validate ws rq u in (map_sum id wire r, u')))"

definition body :: "nat list \<times> nat option \<Rightarrow> 'b list \<Rightarrow> 'b list list \<times> bool" where
  "body how bs = (case snd how of
     None \<Rightarrow> (pieces (fst how) bs, False)
   | Some n \<Rightarrow> (pieces (fst how) (take n bs), True))"

definition net_chunk where
  "net_chunk validate ws i offset bs =
     exchange (\<lambda>how u. (let (r, u') = up_append validate ws i offset (body how bs) u in (map_sum id wire r, u')))"

definition net_complete where
  "net_complete validate commit keep ws i =
     exchange (\<lambda>_ u. (let (r, u') = up_finish validate commit keep ws i u in (map_sum id Some r, u')))"

definition net_progress :: "nat \<Rightarrow> 'b link \<Rightarrow> 'b link" where
  "net_progress n l = l\<lparr>ln_progress := ln_progress l @ [n]\<rparr>"

definition net_announce :: "string option \<Rightarrow> 'b link \<Rightarrow> 'b link" where
  "net_announce e l = l\<lparr>ln_entries := ln_entries l @ [e]\<rparr>"

text \<open>The effect of an exchange on the server is nothing, or the effect of the operation.\<close>

lemma exchange_cases:
  assumes "exchange op l = (r, l')"
  obtains (none) e where "r = Inl e" "ln_server l' = ln_server l"
  | (run) how v u where "op how (ln_server l) = (v, u)" "ln_server l' = u"
      "r = answer v \<and> snd how = None \<or> r = Inl lost"
proof (cases "ln_faults l")
  case Nil
  obtain v u where "op ([], None) (ln_server l) = (v, u)" by (cases "op ([], None) (ln_server l)")
  with Nil assms run [of "([], None)"] show thesis by (auto simp: exchange_def)
next
  case (Cons f fs)
  show thesis
  proof (cases f)
    case (Deliver cuts)
    obtain v u where "op (cuts, None) (ln_server l) = (v, u)" by (cases "op (cuts, None) (ln_server l)")
    with Cons Deliver assms run [of "(cuts, None)"] show thesis by (auto simp: exchange_def)
  next
    case Lose_Request
    with Cons assms none show thesis by (auto simp: exchange_def)
  next
    case (Lose_Answer cuts)
    obtain v u where "op (cuts, None) (ln_server l) = (v, u)" by (cases "op (cuts, None) (ln_server l)")
    with Cons Lose_Answer assms run [of "(cuts, None)"] show thesis by (auto simp: exchange_def)
  next
    case (Cut_Stream cuts n)
    obtain v u where "op (cuts, Some n) (ln_server l) = (v, u)" by (cases "op (cuts, Some n) (ln_server l)")
    with Cons Cut_Stream assms run [of "(cuts, Some n)"] show thesis by (auto simp: exchange_def)
  qed
qed

lemma answer_simps [simp]:
  "answer r = Inr v \<longleftrightarrow> r = Inr v" "(Inr v = answer r) \<longleftrightarrow> r = Inr v"
  by (cases r; auto simp: answer_def)+

lemma map_sum_Inr [simp]: "map_sum f g r = Inr v \<longleftrightarrow> (\<exists>w. r = Inr w \<and> v = g w)"
  by (cases r) auto

lemma server_update [simp]:
  "stored_in ws (ln_server (net_progress n l)) = stored_in ws (ln_server l)"
  "stored_in ws (ln_server (net_announce e l)) = stored_in ws (ln_server l)"
  "ln_server (net_progress n l) = ln_server l" "ln_server (net_announce e l) = ln_server l"
  "ln_faults (net_progress n l) = ln_faults l" "ln_faults (net_announce e l) = ln_faults l"
  by (simp_all add: net_progress_def net_announce_def)

lemma concat_body: "concat (fst (body how bs)) = (case snd how of None \<Rightarrow> bs | Some n \<Rightarrow> take n bs)"
  by (simp add: body_def split: option.split)

lemma append_broken: "\<not> (\<exists>n. fst (append_pieces offset row_size True vs added old) = Inr n)"
  by (induction vs arbitrary: added old) (auto simp: Let_def)

lemma up_append_broken:
  assumes "up_append validate ws i offset (vs, True) u = (Inr s, u')"
  shows False
  using assms append_broken [of offset _ vs 0]
  by (auto simp: up_append_def split: if_splits sum.splits option.splits prod.splits) (metis fst_conv)

lemma up_append_broken_stored:
  assumes "uploads_ok u" "up_append validate ws i offset (vs, True) u = (r, u')"
  shows "stored_in ws u' j = stored_in ws u j"
proof (cases "\<exists>s fd. jmap_get (up_dir u) i = Some (s, Some fd)")
  case True
  then obtain s fd where s: "jmap_get (up_dir u) i = Some (s, Some fd)" by blast
  show ?thesis
  proof (cases "up_get validate ws i u")
    case (Inl e)
    with assms show ?thesis by (auto simp: up_append_def split: if_splits)
  next
    case (Inr g)
    obtain p old where p: "append_pieces offset (ur_size g) True vs 0 fd = (p, old)"
      by (cases "append_pieces offset (ur_size g) True vs 0 fd")
    with append_broken [of offset "ur_size g" vs 0 fd] obtain e where e: "p = Inl e" by (cases p) auto
    have ok: "upload_ok i (s, Some fd)" using assms(1) s by (auto simp: uploads_ok_def)
    have g: "us_completed s = None \<Longrightarrow> g = s\<lparr>ur_offset := length fd\<rparr>"
      using Inr s by (auto simp: up_get_def split: if_splits option.splits)
    have "offset = ur_offset g \<Longrightarrow> us_completed s = None \<Longrightarrow> take offset old = fd"
      using append_pieces_law [of fd offset 0 "ur_size g" True vs p old] p g ok
      by (auto simp: upload_ok_def)
    then show ?thesis
      using assms(2) Inr s p e
      by (auto simp: up_append_def stored_in_set split: if_splits) (auto simp: stored_in_def)
  qed
next
  case False
  with assms show ?thesis
    by (auto simp: up_append_def split: if_splits sum.splits option.splits prod.splits)
qed

lemma row_of_request_id: "ur_id (row_of_request rq i) = i"
  by (simp add: row_of_request_def)

section \<open>The server keeps the client's contract\<close>

interpretation served: upload_service "net_list validate ws" "net_create uuid validate ws" "net_chunk validate ws"
    "net_complete validate commit keep ws" net_progress net_announce "\<lambda>l. uploads_ok (ln_server l)"
    "\<lambda>l. stored_in ws (ln_server l)" "\<lambda>l. up_commits (ln_server l)"
  for validate ws uuid commit keep
proof (unfold_locales, goal_cases)
  case (1 w i row bs)
  then show ?case by (rule stored_in_row)
next
  case (2 w rl w')
  from 2(2) show ?case
    unfolding net_list_def
  proof (cases rule: exchange_cases)
    case (run how v u)
    then obtain r0 where "up_list validate ws (ln_server w) = (r0, u)" "v = map_sum id (map wire) r0"
      by (auto split: prod.splits)
    with run up_list_law [OF 2(1) this(1)] show ?thesis by auto
  qed (use 2 in auto)
next
  case (3 w rq rc w')
  from 3(2) show ?case
    unfolding net_create_def
  proof (cases rule: exchange_cases)
    case (run how v u)
    then obtain r0 where "up_create uuid validate ws rq (ln_server w) = (r0, u)" "v = map_sum id wire r0"
      by (auto split: prod.splits)
    with run up_create_law [OF 3(1) this(1)] show ?thesis by (auto simp: row_of_request_id)
  qed (use 3 in auto)
next
  case (4 w i off bs rk w' row data)
  from 4(2) show ?case
    unfolding net_chunk_def
  proof (cases rule: exchange_cases)
    case (run how v u)
    obtain vs broken where b: "body how bs = (vs, broken)" by (cases "body how bs")
    from run(1) b obtain r0 where a: "up_append validate ws i off (vs, broken) (ln_server w) = (r0, u)"
      "v = map_sum id wire r0" by (auto split: prod.splits)
    note law = up_append_law [OF 4(1) a(1) 4(3)]
    show ?thesis
    proof (cases broken)
      case True
      then have "stored_in ws u j = stored_in ws (ln_server w) j" for j
        using up_append_broken_stored [OF 4(1), of validate ws i off vs r0 u] a(1) True by simp
      moreover have "snd how \<noteq> None" using b True by (auto simp: body_def split: option.splits)
      ultimately show ?thesis using run law by auto
    next
      case False
      then have "concat vs = bs" using b concat_body [of how bs] by (auto simp: body_def split: option.splits)
      with run law a(2) 4(4) show ?thesis by auto
    qed
  qed (use 4 in auto)
next
  case (5 w i rf w' row data)
  from 5(2) show ?case
    unfolding net_complete_def
  proof (cases rule: exchange_cases)
    case (run how v u)
    then obtain r0 where "up_finish validate commit keep ws i (ln_server w) = (r0, u)" "v = map_sum id Some r0"
      by (auto split: prod.splits)
    with run up_finish_law [OF 5(1) this(1) 5(3)] show ?thesis by auto
  qed (use 5 in auto)
qed simp_all

definition net_good ::
  "(string \<Rightarrow> string \<Rightarrow> string option) \<Rightarrow> (string \<Rightarrow> string \<Rightarrow> 'b list \<Rightarrow> string \<Rightarrow> string + string) \<Rightarrow> string \<Rightarrow>
    'b link \<Rightarrow> bool" where
  "net_good validate commit ws l \<longleftrightarrow> ln_faults l = [] \<and> (\<forall>p. validate ws p = None) \<and>
     (\<forall>p bs c. \<exists>e. commit ws p bs c = Inr e)"

definition net_room :: "(nat \<Rightarrow> string) \<Rightarrow> upload_request \<Rightarrow> 'b link \<Rightarrow> bool" where
  "net_room uuid rq l \<longleftrightarrow> rq_path rq \<noteq> [] \<and> length (rq_name rq) \<le> 255 \<and> rq_conflict rq \<in> {[], ''rename''} \<and>
     rq_size rq \<le> max_upload_bytes \<and>
     length (filter (\<lambda>(_, _, data). data \<noteq> None) (up_dir (ln_server l))) < 32 \<and>
     valid_id (uuid (up_ids (ln_server l))) \<and> uuid (up_ids (ln_server l)) \<notin> set (jkeys (up_dir (ln_server l)))"

lemma exchange_delivered:
  assumes "ln_faults l = []"
  shows "exchange op l = (answer (fst (op ([], None) (ln_server l))), l\<lparr>ln_server := snd (op ([], None) (ln_server l))\<rparr>)"
  using assms by (simp add: exchange_def split: prod.split)

lemma up_collect_map_Inr: "(\<And>x. x \<in> set xs \<Longrightarrow> \<exists>v. f x = Inr v) \<Longrightarrow> \<exists>vs. up_collect (map f xs) = Inr vs"
proof (induction xs)
  case (Cons x xs)
  then obtain v vs where "f x = Inr v" "up_collect (map f xs) = Inr vs" by fastforce
  then show ?case by simp
qed simp

lemma up_get_ok:
  assumes "uploads_ok u" "jmap_get (up_dir u) i = Some (s, data)" "us_workspace s = ws" "us_completed s = None"
    "\<And>p. validate ws p = None"
  shows "\<exists>bs. data = Some bs \<and> up_get validate ws i u = Inr (s\<lparr>ur_offset := length bs\<rparr>)"
proof -
  have "upload_ok i (s, data)" using assms(1,2) by (simp add: uploads_ok_def del: map_of_eq_Some_iff)
  with assms show ?thesis by (auto simp: upload_ok_def up_get_def)
qed

lemma up_list_ok:
  assumes "uploads_ok u" "\<And>p. validate ws p = None"
  shows "\<exists>rows. up_list validate ws u = (Inr rows, up_cleanup u)"
proof -
  let ?c = "up_cleanup u"
  have ok: "uploads_ok ?c" by (rule cleanup_shrinks(1) [OF assms(1)])
  define get where "get = (\<lambda>(i :: string, s :: upload_session, _ :: 'a list option). up_get validate ws (ur_id s) ?c)"
  define rows where "rows = filter (\<lambda>(i, s, _). us_workspace s = ws \<and> us_completed s = None) (up_dir ?c)"
  have "\<exists>v. get x = Inr v" if x: "x \<in> set rows" for x
  proof -
    obtain i s data where x': "x = (i, s, data)" by (cases x)
    have "jmap_get (up_dir ?c) i = Some (s, data)"
      using x x' ok by (auto simp: uploads_ok_def rows_def intro: map_of_is_SomeI)
    moreover from this have "ur_id s = i" using ok by (auto simp: uploads_ok_def upload_ok_def simp del: map_of_eq_Some_iff)
    ultimately show ?thesis
      using up_get_ok [where u = ?c and i = i and s = s and data = data and ws = ws and validate = validate]
        ok assms(2) x x' by (auto simp: rows_def get_def)
  qed
  then have "\<exists>vs. up_collect (map get rows) = Inr vs" by (rule up_collect_map_Inr)
  then show ?thesis unfolding get_def rows_def by (auto simp: up_list_def Let_def assms(2))
qed

interpretation served_well: reliable_service "net_list validate ws" "net_create uuid validate ws" "net_chunk validate ws"
    "net_complete validate commit keep ws" net_progress net_announce "\<lambda>l. uploads_ok (ln_server l)"
    "\<lambda>l. stored_in ws (ln_server l)" "\<lambda>l. up_commits (ln_server l)" "net_good validate commit ws" "net_room uuid"
  for validate ws uuid commit keep
proof (unfold_locales, goal_cases)
  case (1 w rq)
  let ?u = "ln_server w"
  have "\<exists>rows. up_list validate ws ?u = (Inr rows, up_cleanup ?u)"
    using up_list_ok [of ?u validate ws] 1 by (auto simp: net_good_def)
  then obtain rows where l: "up_list validate ws ?u = (Inr rows, up_cleanup ?u)" by blast
  have call: "net_list validate ws w = (Inr (map wire rows), w\<lparr>ln_server := up_cleanup ?u\<rparr>)"
    using 1 l by (simp add: net_list_def exchange_delivered net_good_def)
  have "net_room uuid rq w \<Longrightarrow> net_room uuid rq (w\<lparr>ln_server := up_cleanup ?u\<rparr>)"
    using cleanup_shrinks(3,6) [OF 1(1)] le_less_trans [OF cleanup_shrinks(7) [OF 1(1)]]
    by (auto simp: net_room_def)
  with call 1 show ?case by (auto simp: net_good_def)
next
  case (2 w rq)
  let ?u = "ln_server w"
  have c: "up_ids (up_cleanup ?u) = up_ids ?u" "set (jkeys (up_dir (up_cleanup ?u))) \<subseteq> set (jkeys (up_dir ?u))"
    "\<not> 32 \<le> length (filter (\<lambda>(_, _, data). data \<noteq> None) (up_dir (up_cleanup ?u)))"
    using cleanup_shrinks(3,6) [OF 2(1)] 2(3) le_less_trans [OF cleanup_shrinks(7) [OF 2(1)]]
    by (simp_all add: net_room_def not_le)
  have fresh: "jmap_get (up_dir (up_cleanup ?u)) (uuid (up_ids ?u)) = None"
    using c(2) 2(3) by (auto simp: net_room_def map_of_eq_None_iff)
  have v: "validate ws (rq_path rq) = None" using 2(2) by (simp add: net_good_def)
  have "\<exists>s u'. up_create uuid validate ws rq ?u = (Inr s, u')"
    using 2(3) c v fresh by (simp add: up_create_def Let_def net_room_def)
  with 2(2) show ?case by (auto simp: net_create_def exchange_delivered net_good_def)
next
  case (3 w i row data bs)
  let ?u = "ln_server w"
  obtain s where s: "jmap_get (up_dir ?u) i = Some (s, Some data)" "us_completed s = None" "us_workspace s = ws"
    "row = wire s\<lparr>ur_offset := length data\<rparr>"
    using 3(3) by (rule stored_inD)
  have "up_get validate ws i ?u = Inr (s\<lparr>ur_offset := length data\<rparr>)"
    using up_get_ok [OF 3(1) s(1,3,2)] 3(2) by (auto simp: net_good_def)
  moreover have "i \<notin> set (up_busy ?u)" using 3(1) by (simp add: uploads_ok_def)
  moreover have "append_pieces (length data) (ur_size s) False (pieces [] bs) 0 data = (Inr (length bs), data @ bs)"
    using append_pieces_ok [of data "length data" 0 "pieces [] bs" "ur_size s"] 3(4,5) s(4) by simp
  ultimately have "\<exists>r u'. up_append validate ws i (length data) (body ([], None) bs) ?u = (Inr r, u')"
    using s by (simp add: up_append_def body_def Let_def del: pieces.simps)
  then show ?case using 3(2) by (auto simp: net_chunk_def exchange_delivered net_good_def)
next
  case (4 w i row data)
  let ?u = "ln_server w"
  obtain s where s: "jmap_get (up_dir ?u) i = Some (s, Some data)" "us_completed s = None" "us_workspace s = ws"
    "row = wire s\<lparr>ur_offset := length data\<rparr>"
    using 4(3) by (rule stored_inD)
  have "up_get validate ws i ?u = Inr (s\<lparr>ur_offset := length data\<rparr>)"
    using up_get_ok [OF 4(1) s(1,3,2)] 4(2) by (auto simp: net_good_def)
  moreover have "i \<notin> set (up_busy ?u)" using 4(1) by (simp add: uploads_ok_def)
  moreover obtain e where "commit ws (ur_path s) data (us_conflict s) = Inr e"
    using 4(2) unfolding net_good_def by metis
  moreover have len: "length data = ur_size s" using 4(4) unfolding s(4) by simp
  ultimately have "\<exists>r u'. up_finish validate commit keep ws i ?u = (Inr r, u')"
    using s(1,2) len by (simp add: up_finish_def)
  then show ?case using 4(2) by (auto simp: net_complete_def exchange_delivered net_good_def)
qed (auto simp: net_good_def)

section \<open>Properties\<close>

text \<open>The client's \<open>uploadFile\<close> on the network, and a list of attempts one after the other.\<close>

definition net_upload where
  "net_upload uuid validate commit keep ws p resume_prefix conflict f =
     upload_file (net_list validate ws) (net_create uuid validate ws) (net_chunk validate ws)
       (net_complete validate commit keep ws) net_progress net_announce p resume_prefix conflict f"

fun net_attempts :: "nat \<Rightarrow> ('b link \<Rightarrow> ((http_error + string) \<times> 'b link) option) \<Rightarrow> 'b link \<Rightarrow> 'b link option" where
  "net_attempts 0 up l = Some l"
| "net_attempts (Suc n) up l = (case up l of None \<Rightarrow> None | Some (_, l') \<Rightarrow> net_attempts n up l')"

lemma net_attempts_faithful:
  assumes "uploads_ok (ln_server l)" "served.faithful ws p q f l"
  shows "\<exists>l' k. net_attempts n (net_upload uuid validate commit keep ws p q c f) l = Some l' \<and>
    uploads_ok (ln_server l') \<and> served.faithful ws p q f l' \<and> k \<le> n \<and>
    (\<exists>ds. length ds = k \<and> up_commits (ln_server l') = up_commits (ln_server l) @ map (\<lambda>d. (d, lf_bytes f)) ds)"
  using assms
proof (induction n arbitrary: l)
  case (Suc n)
  obtain r l1 where l1: "net_upload uuid validate commit keep ws p q c f l = Some (r, l1)"
    "uploads_ok (ln_server l1)" "served.faithful ws p q f l1"
    "\<exists>ds. length ds \<le> 1 \<and> up_commits (ln_server l1) = up_commits (ln_server l) @ map (\<lambda>d. (d, lf_bytes f)) ds"
    using served.upload_file_faithful [OF Suc.prems, of validate uuid commit keep c] unfolding net_upload_def
    by (metis (no_types, lifting) append.right_neutral le_numeral_extra(4) length_0_conv list.simps(8) list.simps(9) One_nat_def length_Cons zero_le_one list.size(3))
  then obtain ds where ds: "length ds \<le> 1" "up_commits (ln_server l1) = up_commits (ln_server l) @ map (\<lambda>d. (d, lf_bytes f)) ds"
    by blast
  obtain l' k es where "net_attempts n (net_upload uuid validate commit keep ws p q c f) l1 = Some l'"
    "uploads_ok (ln_server l')" "served.faithful ws p q f l'" "k \<le> n" "length es = k"
    "up_commits (ln_server l') = up_commits (ln_server l1) @ map (\<lambda>d. (d, lf_bytes f)) es"
    using Suc.IH [OF l1(2,3)] by blast
  with l1(1) ds show ?case
    by (intro exI [of _ l'] exI [of _ "length (ds @ es)"]) (auto intro: exI [of _ "ds @ es"])
qed auto

lemma served_faithful_empty: "stored_in ws u = (\<lambda>_. None) \<Longrightarrow> ln_server l = u \<Longrightarrow> served.faithful ws p q f l"
  by (simp add: served.faithful_def)


text \<open>An empty server behind a network that loses the first request, for the witnesses.\<close>

definition witness_link :: "fault list \<Rightarrow> nat link" where
  "witness_link fs = \<lparr>ln_server = \<lparr>up_dir = [], up_busy = [], up_commits = [], up_now = 0, up_ids = 0\<rparr>,
     ln_faults = fs, ln_progress = [], ln_entries = []\<rparr>"

definition witness_file :: "nat local_file" where
  "witness_file = \<lparr>lf_name = ''x'', lf_modified = 7, lf_bytes = [1, 2, 3]\<rparr>"

abbreviation witness_upload :: "nat link \<Rightarrow> ((http_error + string) \<times> nat link) option" where
  "witness_upload \<equiv> net_upload (\<lambda>_. replicate 36 (CHR ''a'')) (\<lambda>_ _. None) (\<lambda>_ p _ _. Inr p) True ''w'' ''x'' [] []
     witness_file"

lemma witness_link_ok: "uploads_ok (ln_server (witness_link fs))"
  "stored_in ws (ln_server (witness_link fs)) = (\<lambda>_. None)"
  by (auto simp: uploads_ok_def stored_in_def witness_link_def)

lemma witness_first_lost: "net_attempts 1 witness_upload (witness_link [Lose_Request]) = Some (witness_link [])"
  by (simp add: net_upload_def upload_file_def net_list_def exchange_def witness_link_def witness_file_def
      max_upload_bytes_def)

lemma witness_good: "net_good (\<lambda>_ _. None) (\<lambda>_ p _ _. Inr p) ''w'' (witness_link [])"
  "net_room (\<lambda>_. replicate 36 (CHR ''a'')) \<lparr>rq_path = ''x'', rq_name = lf_name witness_file,
     rq_size = lf_size witness_file, rq_modified = lf_modified witness_file, rq_conflict = []\<rparr> (witness_link [])"
  by (simp_all add: net_good_def net_room_def witness_link_def witness_file_def max_upload_bytes_def valid_id_def
      hex_char_def list_all_iff)




end
