(* ===== verification/Upload_Views.thy ===== *)
theory Upload_Views
  imports File_Uploads
begin

text \<open>
  The two components of \<^verbatim>\<open>features/files/uploads.js\<close>: \<open>Panel\<close>, the list of interrupted uploads, and
  \<open>Area\<close>, the drop area of a folder. Each record holds the component's states and refs and logs of
  what it started; the upload itself is \<open>upload_file\<close> of \<^verbatim>\<open>File_Uploads.thy\<close>, seen here only through
  its answers.
\<close>

section \<open>Interrupted uploads\<close>

datatype panel_call = List_Uploads | Start_Upload nat string string | Delete_Upload string

record panel =
  pn_rows :: "upload_row list"
  pn_progress :: "(string \<times> nat) list"
  pn_error :: string
  pn_active :: "string option"
  pn_control :: "nat option"
  pn_controllers :: nat
  pn_aborted :: "nat list"
  pn_live :: bool
  pn_calls :: "panel_call list"
  pn_changed :: nat

definition initial_panel :: panel where
  "initial_panel = \<lparr>pn_rows = [], pn_progress = [], pn_error = [], pn_active = None, pn_control = None,
     pn_controllers = 0, pn_aborted = [], pn_live = True, pn_calls = [List_Uploads], pn_changed = 0\<rparr>"

definition panel_call :: "panel_call \<Rightarrow> panel \<Rightarrow> panel" where
  "panel_call c s = s\<lparr>pn_calls := pn_calls s @ [c]\<rparr>"

definition panel_refresh :: "panel \<Rightarrow> panel" where
  "panel_refresh s = panel_call List_Uploads s"

definition panel_refresh_reply :: "(string \<Rightarrow> string) \<Rightarrow> http_error + upload_row list \<Rightarrow> panel \<Rightarrow> panel" where
  "panel_refresh_reply fe r s =
     (case r of
        Inr rows \<Rightarrow> s\<lparr>pn_rows := rows, pn_error := []\<rparr>
      | Inl err \<Rightarrow> s\<lparr>pn_error := fe (err_message err)\<rparr>)"

text \<open>The first list, its answer (a failure is swallowed), and the cleanup of the effect.\<close>

definition panel_mount_reply :: "http_error + upload_row list \<Rightarrow> panel \<Rightarrow> panel" where
  "panel_mount_reply r s =
     (case r of Inr rows \<Rightarrow> (if pn_live s then s\<lparr>pn_rows := rows\<rparr> else s) | Inl _ \<Rightarrow> s)"

definition panel_pause :: "panel \<Rightarrow> panel" where
  "panel_pause s = (case pn_control s of None \<Rightarrow> s | Some c \<Rightarrow> s\<lparr>pn_aborted := pn_aborted s @ [c]\<rparr>)"

definition panel_unmount :: "panel \<Rightarrow> panel" where
  "panel_unmount s = panel_pause (s\<lparr>pn_live := False\<rparr>)"

definition same_file :: "upload_row \<Rightarrow> 'b local_file \<Rightarrow> bool" where
  "same_file row f \<longleftrightarrow> lf_name f = ur_name row \<and> lf_size f = ur_size row \<and> lf_modified f = ur_modified row"

definition panel_resume :: "upload_row \<Rightarrow> 'b local_file option \<Rightarrow> panel \<Rightarrow> panel" where
  "panel_resume row chosen s =
     (case chosen of
        None \<Rightarrow> s
      | Some f \<Rightarrow>
          (if \<not> same_file row f then s\<lparr>pn_error := ''choose the same file as before''\<rparr>
           else panel_call (Start_Upload (pn_controllers s) (ur_id row) (ur_path row))
                  (s\<lparr>pn_control := Some (pn_controllers s), pn_controllers := Suc (pn_controllers s),
                     pn_active := Some (ur_id row), pn_error := []\<rparr>)))"

definition panel_progress :: "string \<Rightarrow> nat \<Rightarrow> panel \<Rightarrow> panel" where
  "panel_progress i bytes s = s\<lparr>pn_progress := jmap_set i bytes (pn_progress s)\<rparr>"

text \<open>The upload settles: the error is shown, and then, as \<open>finally\<close> demands, the list is refreshed.\<close>

definition panel_resume_reply :: "(string \<Rightarrow> string) \<Rightarrow> http_error + string \<Rightarrow> panel \<Rightarrow> panel" where
  "panel_resume_reply fe r s =
     (let s1 = (case r of
                  Inr _ \<Rightarrow> s\<lparr>pn_changed := Suc (pn_changed s)\<rparr>
                | Inl err \<Rightarrow> s\<lparr>pn_error := fe (err_message err)\<rparr>)
      in panel_refresh (s1\<lparr>pn_active := None, pn_control := None\<rparr>))"

definition panel_cancel :: "upload_row \<Rightarrow> panel \<Rightarrow> panel" where
  "panel_cancel row s = panel_call (Delete_Upload (ur_id row)) s"

definition panel_cancel_reply :: "(string \<Rightarrow> string) \<Rightarrow> http_error + unit \<Rightarrow> panel \<Rightarrow> panel" where
  "panel_cancel_reply fe r s =
     (case r of Inr _ \<Rightarrow> panel_refresh s | Inl err \<Rightarrow> s\<lparr>pn_error := fe (err_message err)\<rparr>)"

text \<open>\<open>Math.round\<close> of a hundredth, with a size of zero counted as one.\<close>

definition percent :: "nat \<Rightarrow> nat \<Rightarrow> nat" where
  "percent bytes whole = (let m = (if whole = 0 then 1 else whole) in (200 * bytes + m) div (2 * m))"

datatype panel_action = Panel_Refresh | Panel_Choose upload_row | Panel_Pause | Panel_Cancel upload_row

definition row_progress :: "panel \<Rightarrow> upload_row \<Rightarrow> nat" where
  "row_progress s row = (case jmap_get (pn_progress s) (ur_id row) of Some n \<Rightarrow> n | None \<Rightarrow> ur_offset row)"

definition panel_row :: "panel \<Rightarrow> upload_row \<Rightarrow> panel_action widget list" where
  "panel_row s row =
     [Shown (ur_name row),
      Shown (show_nat (percent (row_progress s row) (ur_size row)) @ ''%''),
      Press (''continue upload '' @ ur_name row) (pn_active s \<noteq> None) (Panel_Choose row),
      (if pn_active s = Some (ur_id row) then Press ''pause upload'' False Panel_Pause
       else Press ''cancel upload'' (pn_active s \<noteq> None) (Panel_Cancel row))]"

definition panel_view :: "panel \<Rightarrow> panel_action widget list" where
  "panel_view s =
     shown_if (pn_rows s \<noteq> [] \<or> truthy (pn_error s))
       ([Shown ''uploads to continue'', Shown (show_nat (length (pn_rows s))),
         Press ''refresh uploads'' False Panel_Refresh,
         Shown ''choose the original file again to continue; unfinished uploads are kept 7 days''] @
        alert_of (pn_error s) @ concat (map (panel_row s) (pn_rows s)))"

section \<open>The drop area\<close>

record upload_status =
  st_name :: string
  st_size :: nat
  st_bytes :: nat

record 'b area =
  ar_control :: bool
  ar_live :: bool
  ar_aborted :: bool
  ar_progress :: "upload_status option"
  ar_error :: string
  ar_dragging :: bool
  ar_batches :: "'b local_file list list"
  ar_changed :: nat

definition initial_area :: "'b area" where
  "initial_area = \<lparr>ar_control = False, ar_live = True, ar_aborted = False, ar_progress = None, ar_error = [],
     ar_dragging = False, ar_batches = [], ar_changed = 0\<rparr>"

definition area_add :: "'b local_file list \<Rightarrow> 'b area \<Rightarrow> 'b area" where
  "area_add fs s =
     (if ar_control s \<or> fs = [] then s
      else s\<lparr>ar_control := True, ar_aborted := False, ar_error := [], ar_batches := ar_batches s @ [fs]\<rparr>)"

definition area_progress :: "upload_status \<Rightarrow> 'b area \<Rightarrow> 'b area" where
  "area_progress p s = (if ar_live s then s\<lparr>ar_progress := Some p\<rparr> else s)"

definition area_done :: "string list \<Rightarrow> 'b area \<Rightarrow> 'b area" where
  "area_done failures s =
     (let s1 = (if ar_live s then s\<lparr>ar_error := join_with ''; '' failures, ar_changed := Suc (ar_changed s)\<rparr> else s)
      in s1\<lparr>ar_control := False, ar_progress := None\<rparr>)"

definition area_pause :: "'b area \<Rightarrow> 'b area" where
  "area_pause s = (if ar_control s then s\<lparr>ar_aborted := True\<rparr> else s)"

definition area_unmount :: "'b area \<Rightarrow> 'b area" where
  "area_unmount s = area_pause (s\<lparr>ar_live := False\<rparr>)"

text \<open>The drop effect shown is \<open>none\<close> while a batch runs.\<close>

definition area_over :: "bool \<Rightarrow> 'b area \<Rightarrow> 'b area \<times> string option" where
  "area_over has_files s =
     (if \<not> has_files then (s, None)
      else (s\<lparr>ar_dragging := True\<rparr>, Some (if ar_control s then ''none'' else ''copy'')))"

definition area_leave :: "bool \<Rightarrow> 'b area \<Rightarrow> 'b area" where
  "area_leave inside s = (if inside then s else s\<lparr>ar_dragging := False\<rparr>)"

definition area_drop :: "bool \<Rightarrow> 'b local_file list \<Rightarrow> 'b area \<Rightarrow> 'b area" where
  "area_drop has_files fs s = (if \<not> has_files then s else area_add fs (s\<lparr>ar_dragging := False\<rparr>))"

datatype area_action = Area_Choose | Area_Pause

definition area_view :: "'b area \<Rightarrow> area_action widget list" where
  "area_view s =
     [Press ''upload files'' (ar_progress s \<noteq> None) Area_Choose,
      Shown (if ar_dragging s then ''release to upload into this folder''
             else ''files can be dropped here, 5 GB each at most'')] @
     (case ar_progress s of
        None \<Rightarrow> []
      | Some p \<Rightarrow> [Shown (st_name p), Shown (show_nat (percent (st_bytes p) (st_size p))),
                   Press ''pause upload'' False Area_Pause]) @
     alert_of (ar_error s)"

section \<open>Runs\<close>

datatype 'b area_event =
    Add_Files "'b local_file list" | Batch_Progress upload_status | Batch_Done "string list" | Pause_Batch
  | Leave_Page | Drag_Over_Area bool | Drag_Leave_Area bool | Drop_Files bool "'b local_file list"

fun area_step :: "'b area_event \<Rightarrow> 'b area \<Rightarrow> 'b area" where
  "area_step (Add_Files fs) s = area_add fs s"
| "area_step (Batch_Progress p) s = (if ar_control s then area_progress p s else s)"
| "area_step (Batch_Done failures) s = (if ar_control s then area_done failures s else s)"
| "area_step Pause_Batch s = area_pause s"
| "area_step Leave_Page s = area_unmount s"
| "area_step (Drag_Over_Area b) s = fst (area_over b s)"
| "area_step (Drag_Leave_Area b) s = area_leave b s"
| "area_step (Drop_Files b fs) s = area_drop b fs s"

text \<open>Batches that have not settled yet; a batch makes progress and settles only while it runs.\<close>

definition area_wf :: "'b area \<Rightarrow> bool" where
  "area_wf s \<longleftrightarrow> (ar_progress s \<noteq> None \<longrightarrow> ar_control s) \<and> [] \<notin> set (ar_batches s)"

lemma area_wf_step: "area_wf s \<Longrightarrow> area_wf (area_step e s)"
  by (cases e) (auto simp: area_wf_def area_add_def area_progress_def area_done_def area_pause_def
      area_unmount_def area_over_def area_leave_def area_drop_def Let_def)

lemma area_wf_fold: "area_wf s \<Longrightarrow> area_wf (fold area_step es s)"
  by (induction es arbitrary: s) (auto intro: area_wf_step)

lemma area_wf_run: "area_wf (fold area_step es initial_area)"
  by (rule area_wf_fold) (simp add: area_wf_def initial_area_def)

section \<open>Properties\<close>

text \<open>Why an interrupted upload could not be continued is never seen: the error of a failed
  continuation is erased by the refresh that \<open>finally\<close> starts as soon as the list loads, and then
  the panel shows no alert at all.\<close>

lemma resume_error_erased:
  "pn_calls (panel_resume_reply fe (Inl err) s) = pn_calls s @ [List_Uploads] \<and>
   pn_error (panel_resume_reply fe (Inl err) s) = fe (err_message err) \<and>
   pn_error (panel_refresh_reply fe (Inr rows) (panel_resume_reply fe (Inl err) s)) = [] \<and>
   (\<forall>t. Alert t \<notin> set (panel_view (panel_refresh_reply fe (Inr rows) (panel_resume_reply fe (Inl err) s))))"
  by (auto simp: panel_resume_reply_def panel_refresh_reply_def panel_refresh_def panel_call_def Let_def
      panel_view_def alert_of_def panel_row_def)

text \<open>An upload continues only with the file it was started with, and only one at a time: whatever is
  chosen, a new upload starts exactly when name, size and modification time agree with the row,
  and while one runs no other row can be continued or cancelled.\<close>

lemma panel_resumes_same_file:
  "(pn_calls (panel_resume row chosen s) \<noteq> pn_calls s \<longleftrightarrow> (\<exists>f. chosen = Some f \<and> same_file row f)) \<and>
   (pn_active s \<noteq> None \<longrightarrow> \<not> can_press (panel_view s) (Panel_Choose r) \<and> \<not> can_press (panel_view s) (Panel_Cancel r))"
  by (auto simp: panel_resume_def panel_call_def panel_view_def panel_row_def split: option.split)

definition witness_row :: upload_row where
  "witness_row = \<lparr>ur_id = ''1'', ur_path = ''a/x'', ur_name = ''x'', ur_size = 2, ur_modified = 5, ur_offset = 1\<rparr>"

definition witness_local :: "nat local_file" where
  "witness_local = \<lparr>lf_name = ''x'', lf_modified = 5, lf_bytes = [1, 2]\<rparr>"

theorem panel_resumes_same_file_witness:
  "\<not> can_press (panel_view (panel_resume witness_row (Some witness_local) initial_panel)) (Panel_Cancel witness_row)"
proof -
  have "pn_active (panel_resume witness_row (Some witness_local) initial_panel) \<noteq> None"
    by (simp add: panel_resume_def same_file_def panel_call_def witness_row_def witness_local_def)
  then show ?thesis using panel_resumes_same_file by blast
qed

text \<open>The drop area runs one batch at a time and never an empty one; progress is shown only while a
  batch runs, so the upload button is usable again whenever none does.\<close>

lemma area_one_batch:
  "(ar_control (fold area_step es initial_area) \<longrightarrow>
      area_add fs (fold area_step es initial_area) = fold area_step es initial_area) \<and>
   [] \<notin> set (ar_batches (fold area_step es initial_area)) \<and>
   (\<not> ar_control (fold area_step es initial_area) \<longrightarrow>
      can_press (area_view (fold area_step es initial_area)) Area_Choose)"
  using area_wf_run [of es] by (auto simp: area_wf_def area_add_def area_view_def)

theorem area_one_batch_witness:
  "can_press (area_view (fold area_step [] (initial_area :: nat area))) Area_Choose"
  using area_one_batch [of "[] :: nat area_event list" "[]"] by (simp add: initial_area_def)

end
