(* ===== verification/File_Trash.thy ===== *)
theory File_Trash
  imports File_Paths
begin

text \<open>
  The recycle bin of a project, \<^verbatim>\<open>features/files/trash.js\<close> (\<open>createFileTrash\<close>, hook \<open>useFileTrash\<close>).

  \<open>trash_state\<close> holds the states and refs of the hook. A refresh is identified by its abort
  controller; \<open>tr_pending\<close> are the refreshes not answered yet, \<open>tr_control\<close> the newest and \<open>tr_aborted\<close> those
  aborted. \<open>tr_mutating\<close> is what the waiting \<open>mutate\<close> captured. \<open>tr_broken\<close> records that a state
  update read a field of null, which takes the component down. Times are milliseconds and \<open>date_text\<close>,
  the locale's date format, is a parameter of the view.
\<close>

section \<open>State\<close>

record trash_entry =
  te_id :: string
  te_name :: string
  te_kind :: string
  te_path :: string
  te_size :: nat
  te_legacy :: bool
  te_deleted :: int
  te_expires :: int

record trash_data =
  td_entries :: "trash_entry list"
  td_retention :: nat
  td_used :: nat
  td_limit :: nat
  td_project :: nat

datatype trash_kind = Restore | Delete_Forever

datatype trash_call = Trash_List nat | Trash_Restore string | Trash_Delete string

record trash_state =
  tr_data :: "trash_data option"
  tr_loading :: bool
  tr_busy :: bool
  tr_error :: string
  tr_notice :: string
  tr_menu :: "string option"
  tr_action :: "(trash_kind \<times> trash_entry) option"
  tr_live :: bool
  tr_control :: nat
  tr_aborted :: "nat list"
  tr_pending :: "nat list"
  tr_mutating :: "(trash_kind \<times> trash_entry) option"
  tr_calls :: "trash_call list"
  tr_broken :: bool

definition initial_trash :: trash_state where
  "initial_trash = \<lparr>tr_data = None, tr_loading = False, tr_busy = False, tr_error = [], tr_notice = [],
     tr_menu = None, tr_action = None, tr_live = False, tr_control = 0, tr_aborted = [], tr_pending = [],
     tr_mutating = None, tr_calls = [], tr_broken = False\<rparr>"

section \<open>Texts\<close>

definition storage_size :: "nat \<Rightarrow> string" where
  "storage_size n = (if 1024 ^ 3 \<le> n then fixed1 n (1024 ^ 3) @ '' GB'' else file_size n)"

definition day_ms :: int where
  "day_ms = 86400000"

definition expires_label :: "int \<Rightarrow> int \<Rightarrow> string" where
  "expires_label now value =
     (let left = value - now
      in if left \<le> 0 then ''waiting for cleanup''
         else if left < day_ms then ''cleaned up in less than 1 day''
         else ''cleaned up in '' @ show_nat (nat ((left + day_ms - 1) div day_ms)) @ '' days'')"

definition original_location :: "trash_entry \<Rightarrow> string" where
  "original_location e = (if te_legacy e then ''project root (old record)'' else te_path e)"

section \<open>Handlers\<close>

text \<open>\<open>refresh\<close>: the newest refresh aborts the one before it. Controllers are numbered from one.\<close>

definition trash_refresh :: "trash_state \<Rightarrow> trash_state" where
  "trash_refresh s =
     s\<lparr>tr_aborted := tr_aborted s @ [tr_control s], tr_control := Suc (tr_control s),
       tr_pending := tr_pending s @ [Suc (tr_control s)],
       tr_loading := True, tr_error := [], tr_calls := tr_calls s @ [Trash_List (Suc (tr_control s))]\<rparr>"

definition trash_refresh_reply ::
  "(string \<Rightarrow> string) \<Rightarrow> nat \<Rightarrow> http_error + trash_data \<Rightarrow> trash_state \<Rightarrow> trash_state" where
  "trash_refresh_reply fe k r s =
     (let s1 = s\<lparr>tr_pending := removeAll k (tr_pending s)\<rparr>
      in if k \<in> set (tr_aborted s) then s1
         else (case r of
                 Inr value \<Rightarrow> s1\<lparr>tr_data := Some value\<rparr>
               | Inl err \<Rightarrow> s1\<lparr>tr_error := fe (err_message err)\<rparr>)\<lparr>tr_loading := False\<rparr>)"

definition trash_enable :: "trash_state \<Rightarrow> trash_state" where
  "trash_enable s =
     trash_refresh (s\<lparr>tr_live := True, tr_data := None, tr_action := None, tr_menu := None, tr_notice := []\<rparr>)"

definition trash_disable :: "trash_state \<Rightarrow> trash_state" where
  "trash_disable s = s\<lparr>tr_live := False, tr_aborted := tr_aborted s @ [tr_control s]\<rparr>"

definition begin_action :: "trash_kind \<Rightarrow> trash_entry \<Rightarrow> trash_state \<Rightarrow> trash_state" where
  "begin_action kind e s = s\<lparr>tr_menu := None, tr_error := [], tr_notice := [], tr_action := Some (kind, e)\<rparr>"

definition trash_mutate :: "trash_state \<Rightarrow> trash_state" where
  "trash_mutate s =
     (if tr_busy s then s
      else case tr_action s of
        None \<Rightarrow> s\<lparr>tr_busy := True, tr_error := [], tr_broken := True\<rparr>
      | Some (kind, e) \<Rightarrow>
          s\<lparr>tr_busy := True, tr_error := [], tr_mutating := Some (kind, e),
            tr_calls := tr_calls s @ [case kind of Restore \<Rightarrow> Trash_Restore (te_id e)
                                                | Delete_Forever \<Rightarrow> Trash_Delete (te_id e)]\<rparr>)"

definition trash_error :: "(string \<Rightarrow> string) \<Rightarrow> http_error \<Rightarrow> string" where
  "trash_error fe err =
     (if err_message err = ''file_exists'' then ''a file of this name is at the original place''
      else if err_status err = Some 404 then ''already restored or cleaned up, refresh the recycle bin''
      else fe (err_message err))"

definition trash_mutate_reply ::
  "(string \<Rightarrow> string) \<Rightarrow> http_error + unit \<Rightarrow> trash_state \<Rightarrow> trash_state" where
  "trash_mutate_reply fe r s0 =
     (case tr_mutating s0 of
        None \<Rightarrow> s0
      | Some (kind, e) \<Rightarrow>
          (let s = s0\<lparr>tr_mutating := None\<rparr>
           in if \<not> tr_live s then s
              else (case r of
                      Inl err \<Rightarrow> s\<lparr>tr_error := trash_error fe err, tr_busy := False\<rparr>
                    | Inr _ \<Rightarrow>
                        (trash_refresh
                          (s\<lparr>tr_action := None,
                             tr_data := map_option (\<lambda>v. v\<lparr>td_entries := filter (\<lambda>row. te_id row \<noteq> te_id e)
                                                                       (td_entries v)\<rparr>) (tr_data s),
                             tr_broken := (tr_broken s \<or> tr_data s = None),
                             tr_notice := (case kind of Restore \<Rightarrow> ''restored '' | Delete_Forever \<Rightarrow> ''deleted '') @
                                          te_name e\<rparr>))\<lparr>tr_busy := False\<rparr>)))"

definition toggle_menu :: "string \<Rightarrow> trash_state \<Rightarrow> trash_state" where
  "toggle_menu i s = s\<lparr>tr_menu := (if tr_menu s = Some i then None else Some i)\<rparr>"

section \<open>What is shown\<close>

datatype trash_action =
  Trash_Refresh | Trash_Menu string | Trash_Begin trash_kind trash_entry | Trash_Cancel | Trash_Confirm

definition trash_form :: "trash_state \<Rightarrow> trash_action widget list" where
  "trash_form s =
     (case tr_action s of
        None \<Rightarrow> []
      | Some (kind, e) \<Rightarrow>
          [Shown (case kind of Restore \<Rightarrow> ''restore file'' | Delete_Forever \<Rightarrow> ''delete forever''),
           Shown ((case kind of Restore \<Rightarrow> ''restore '' | Delete_Forever \<Rightarrow> ''delete forever '') @ te_name e @
                  (if te_kind e = ''directory'' then '' and its contents'' else []) @
                  (case kind of
                     Restore \<Rightarrow> (if te_legacy e then '' to the project root?'' else '' to its place?'')
                   | Delete_Forever \<Rightarrow> ''? this cannot be undone''))] @
          shown_if (kind = Restore) [Shown (original_location e)] @
          [Press ''cancel'' (tr_busy s) Trash_Cancel,
           Press (if tr_busy s then ''working''
                  else case kind of Restore \<Rightarrow> ''confirm'' | Delete_Forever \<Rightarrow> ''delete forever'')
             (tr_busy s) Trash_Confirm])"

definition trash_row :: "(int \<Rightarrow> string) \<Rightarrow> int \<Rightarrow> trash_state \<Rightarrow> trash_entry \<Rightarrow> trash_action widget list" where
  "trash_row date_text now s e =
     [Press (''details of '' @ te_name e) (tr_busy s) (Trash_Menu (te_id e)),
      Shown (te_name e),
      Shown (if te_legacy e then ''old record, restored to the root'' else te_path e),
      Shown (storage_size (te_size e)),
      Press (''actions of '' @ te_name e) (tr_busy s) (Trash_Menu (te_id e)),
      Shown (date_text (te_deleted e) @ '' deleted''),
      Shown (expires_label now (te_expires e))] @
     shown_if (tr_menu s = Some (te_id e))
       [Press ''restore'' (tr_busy s) (Trash_Begin Restore e),
        Press ''delete forever'' (tr_busy s) (Trash_Begin Delete_Forever e)]"

definition retention_days :: "trash_state \<Rightarrow> nat" where
  "retention_days s =
     (case tr_data s of None \<Rightarrow> 7 | Some d \<Rightarrow> if td_retention d = 0 then 7 else td_retention d)"

definition trash_view :: "(int \<Rightarrow> string) \<Rightarrow> int \<Rightarrow> trash_state \<Rightarrow> trash_action widget list" where
  "trash_view date_text now s =
     [Shown ''file recovery'', Shown (''kept '' @ show_nat (retention_days s) @ '' days''),
      Shown (''deleted files are kept at most '' @ show_nat (retention_days s) @ '' days'')] @
     (case tr_data s of
        None \<Rightarrow> []
      | Some d \<Rightarrow> [Shown ''space shared by all members'',
                   Shown (storage_size (td_used d) @ '' / '' @ storage_size (td_limit d))]) @
     alert_of (tr_error s) @
     shown_if (truthy (tr_notice s)) [Shown (tr_notice s)] @
     trash_form s @
     (case tr_data s of
        None \<Rightarrow> []
      | Some d \<Rightarrow> [Shown (''this project, '' @ show_nat (length (td_entries d)) @ '' items''),
                   Shown (storage_size (td_project d))]) @
     (case tr_data s of
        None \<Rightarrow>
          (if truthy (tr_error s)
           then [Shown ''the recycle bin cannot be read now'', Press ''reload'' (tr_loading s) Trash_Refresh]
           else [Shown ''loading the recycle bin''])
      | Some d \<Rightarrow>
          (if td_entries d \<noteq> [] then concat (map (trash_row date_text now s) (td_entries d))
           else [Shown ''the recycle bin of this project is empty'',
                 Shown ''deleted files are kept here and can be restored'']))"

fun trash_perform :: "trash_action \<Rightarrow> trash_state \<Rightarrow> trash_state" where
  "trash_perform Trash_Refresh s = trash_refresh s"
| "trash_perform (Trash_Menu i) s = toggle_menu i s"
| "trash_perform (Trash_Begin kind e) s = begin_action kind e s"
| "trash_perform Trash_Cancel s = s\<lparr>tr_action := None\<rparr>"
| "trash_perform Trash_Confirm s = trash_mutate s"

section \<open>Reachable states\<close>

text \<open>
  The file manager opens and leaves the bin with a button that is disabled while \<open>tr_busy\<close>; focus, the
  timer and the change events refresh while the bin is open.
\<close>

inductive trash_reach :: "(string \<Rightarrow> string) \<Rightarrow> trash_state \<Rightarrow> bool" for fe where
  trash_start: "trash_reach fe initial_trash"
| trash_open: "trash_reach fe s \<Longrightarrow> \<not> tr_live s \<Longrightarrow> trash_reach fe (trash_enable s)"
| trash_leave: "trash_reach fe s \<Longrightarrow> tr_live s \<Longrightarrow> \<not> tr_busy s \<Longrightarrow> trash_reach fe (trash_disable s)"
| trash_tick: "trash_reach fe s \<Longrightarrow> tr_live s \<Longrightarrow> trash_reach fe (trash_refresh s)"
| trash_click: "trash_reach fe s \<Longrightarrow> tr_live s \<Longrightarrow> can_press (trash_view date_text now s) a \<Longrightarrow>
    trash_reach fe (trash_perform a s)"
| trash_answer: "trash_reach fe s \<Longrightarrow> k \<in> set (tr_pending s) \<Longrightarrow> trash_reach fe (trash_refresh_reply fe k r s)"
| trash_done: "trash_reach fe s \<Longrightarrow> trash_reach fe (trash_mutate_reply fe m s)"

lemmas trash_defs = trash_refresh_def trash_refresh_reply_def trash_enable_def trash_disable_def begin_action_def
  trash_mutate_def trash_mutate_reply_def toggle_menu_def

definition trash_calls_ok :: "trash_state \<Rightarrow> bool" where
  "trash_calls_ok s \<longleftrightarrow>
     (\<forall>k \<in> set (tr_pending s). k \<le> tr_control s) \<and> (\<forall>k \<in> set (tr_aborted s). k \<le> tr_control s) \<and>
     (tr_live s \<longrightarrow> tr_control s \<notin> set (tr_aborted s)) \<and>
     (tr_live s \<longrightarrow> tr_loading s \<longrightarrow> tr_control s \<in> set (tr_pending s)) \<and>
     (\<forall>k \<in> set (tr_pending s). k \<noteq> tr_control s \<longrightarrow> k \<in> set (tr_aborted s))"

definition trash_form_ok :: "trash_state \<Rightarrow> bool" where
  "trash_form_ok s \<longleftrightarrow>
     (tr_busy s \<longleftrightarrow> tr_mutating s \<noteq> None) \<and> (tr_busy s \<longrightarrow> tr_live s) \<and>
     (tr_action s \<noteq> None \<or> tr_mutating s \<noteq> None \<longrightarrow> tr_data s \<noteq> None) \<and> \<not> tr_broken s"

lemma calls_ok_frame:
  assumes "trash_calls_ok s" "tr_pending s' = tr_pending s" "tr_aborted s' = tr_aborted s"
    "tr_control s' = tr_control s" "tr_live s' = tr_live s" "tr_loading s' \<longrightarrow> tr_loading s"
  shows "trash_calls_ok s'"
  using assms by (simp add: trash_calls_ok_def)

lemma calls_ok_refresh:
  assumes "\<forall>k \<in> set (tr_pending s). k \<le> tr_control s" "\<forall>k \<in> set (tr_aborted s). k \<le> tr_control s"
    "\<forall>k \<in> set (tr_pending s). k \<noteq> tr_control s \<longrightarrow> k \<in> set (tr_aborted s)"
  shows "trash_calls_ok (trash_refresh s)"
proof -
  have "\<And>k. k \<in> set (tr_pending s) \<or> k \<in> set (tr_aborted s) \<Longrightarrow> k \<le> Suc (tr_control s)"
    using assms(1,2) le_SucI by blast
  moreover have "Suc (tr_control s) \<notin> set (tr_aborted s)" using assms(2) by fastforce
  ultimately show ?thesis using assms(3) by (auto simp: trash_calls_ok_def trash_refresh_def)
qed

lemma calls_ok_tick: "trash_calls_ok s \<Longrightarrow> trash_calls_ok (trash_refresh s)"
  by (rule calls_ok_refresh) (auto simp: trash_calls_ok_def)

lemma form_ok_refresh: "trash_form_ok (trash_refresh s) = trash_form_ok s"
  by (simp add: trash_form_ok_def trash_refresh_def)

lemma trash_confirm_shown: "can_press (trash_view date_text now s) Trash_Confirm \<Longrightarrow> tr_action s \<noteq> None"
  by (auto simp: trash_view_def trash_form_def trash_row_def split: option.splits if_splits)

lemma trash_begin_shown: "can_press (trash_view date_text now s) (Trash_Begin kind e) \<Longrightarrow> tr_data s \<noteq> None"
  by (auto simp: trash_view_def trash_form_def split: option.splits if_splits)

lemma calls_ok_perform: "trash_calls_ok s \<Longrightarrow> trash_calls_ok (trash_perform a s)"
proof (cases a)
  case Trash_Refresh
  then show "trash_calls_ok s \<Longrightarrow> ?thesis" by (simp add: calls_ok_tick)
qed (auto intro: calls_ok_frame simp: toggle_menu_def begin_action_def trash_mutate_def split: option.split trash_kind.split)

lemma form_ok_perform:
  assumes "trash_form_ok s" "tr_live s" "can_press (trash_view date_text now s) a"
  shows "trash_form_ok (trash_perform a s)"
proof (cases a)
  case (Trash_Begin kind e)
  with assms trash_begin_shown show ?thesis by (auto simp: trash_form_ok_def begin_action_def)
next
  case Trash_Confirm
  with assms have "tr_action s \<noteq> None" using trash_confirm_shown by simp
  with Trash_Confirm assms(1,2) show ?thesis by (auto simp: trash_form_ok_def trash_mutate_def)
next
  case Trash_Refresh
  with assms show ?thesis by (simp add: form_ok_refresh)
qed (use assms(1) in \<open>auto simp: trash_form_ok_def toggle_menu_def\<close>)

lemma mutate_reply_ok:
  assumes "trash_calls_ok s" "trash_form_ok s"
  shows "trash_calls_ok (trash_mutate_reply fe m s) \<and> trash_form_ok (trash_mutate_reply fe m s)"
proof (cases "tr_mutating s")
  case (Some x)
  obtain kind e where x: "x = (kind, e)" by (cases x)
  have live: "tr_live s" using assms(2) Some by (auto simp: trash_form_ok_def)
  obtain d where d: "tr_data s = Some d" using assms(2) Some by (auto simp: trash_form_ok_def)
  show ?thesis
  proof (cases m)
    case (Inl err)
    with Some x live d assms show ?thesis
      by (auto simp: trash_mutate_reply_def trash_calls_ok_def trash_form_ok_def)
  next
    case (Inr u)
    let ?r = "s\<lparr>tr_mutating := None, tr_action := None,
       tr_data := Some (d\<lparr>td_entries := filter (\<lambda>row. te_id row \<noteq> te_id e) (td_entries d)\<rparr>),
       tr_broken := tr_broken s, tr_notice := (case kind of Restore \<Rightarrow> ''restored '' | Delete_Forever \<Rightarrow> ''deleted '') @ te_name e\<rparr>"
    have eq: "trash_mutate_reply fe m s = (trash_refresh ?r)\<lparr>tr_busy := False\<rparr>"
      using Some x live d Inr by (simp add: trash_mutate_reply_def)
    have "trash_calls_ok (trash_refresh ?r)"
      by (rule calls_ok_refresh) (use assms(1) in \<open>auto simp: trash_calls_ok_def\<close>)
    then have "trash_calls_ok (trash_mutate_reply fe m s)" unfolding eq by (rule calls_ok_frame) simp_all
    moreover have "trash_form_ok (trash_mutate_reply fe m s)"
      using assms(2) unfolding eq by (simp add: trash_form_ok_def trash_refresh_def)
    ultimately show ?thesis by simp
  qed
qed (use assms in \<open>simp add: trash_mutate_reply_def\<close>)

lemma refresh_reply_ok:
  assumes "trash_calls_ok s" "trash_form_ok s"
  shows "trash_calls_ok (trash_refresh_reply fe k r s) \<and> trash_form_ok (trash_refresh_reply fe k r s)"
  using assms by (cases r) (auto simp: trash_refresh_reply_def trash_calls_ok_def trash_form_ok_def Let_def)

lemma trash_reach_ok: "trash_reach fe s \<Longrightarrow> trash_calls_ok s \<and> trash_form_ok s"
proof (induction rule: trash_reach.induct)
  case trash_start
  then show ?case by (simp add: trash_calls_ok_def trash_form_ok_def initial_trash_def)
next
  case (trash_open s)
  then have "trash_form_ok (trash_enable s)"
    by (auto simp: trash_enable_def form_ok_refresh) (auto simp: trash_form_ok_def)
  moreover have "trash_calls_ok (trash_enable s)"
    unfolding trash_enable_def by (rule calls_ok_refresh) (use trash_open in \<open>auto simp: trash_calls_ok_def\<close>)
  ultimately show ?case by simp
next
  case (trash_leave s)
  then show ?case by (auto simp: trash_calls_ok_def trash_form_ok_def trash_disable_def)
next
  case (trash_tick s)
  then show ?case by (simp add: form_ok_refresh calls_ok_tick)
qed (use calls_ok_perform form_ok_perform refresh_reply_ok mutate_reply_ok in blast)+

section \<open>Properties\<close>


definition witness_trash_entry :: trash_entry where
  "witness_trash_entry = \<lparr>te_id = ''1'', te_name = ''x'', te_kind = ''file'', te_path = ''a/x'', te_size = 3,
     te_legacy = False, te_deleted = 0, te_expires = 7\<rparr>"

definition witness_trash_data :: trash_data where
  "witness_trash_data = \<lparr>td_entries = [witness_trash_entry], td_retention = 7, td_used = 3, td_limit = 9, td_project = 3\<rparr>"

definition witness_trash :: trash_state where
  "witness_trash = begin_action Delete_Forever witness_trash_entry
     (trash_refresh_reply id 1 (Inr witness_trash_data) (trash_enable initial_trash))"

lemma witness_trash_reach: "trash_reach id (trash_mutate witness_trash)"
proof -
  let ?s1 = "trash_refresh_reply id 1 (Inr witness_trash_data) (trash_enable initial_trash)"
  have s1: "trash_reach id ?s1"
    by (intro trash_answer trash_open trash_start)
      (simp_all add: initial_trash_def trash_enable_def trash_refresh_def)
  let ?s2 = "toggle_menu ''1'' ?s1"
  have s2: "trash_reach id ?s2"
    using trash_click [OF s1, of "\<lambda>_. []" 0 "Trash_Menu ''1''"]
    by (simp add: trash_view_def trash_row_def trash_form_def witness_trash_data_def witness_trash_entry_def
        initial_trash_def trash_defs)
  have s3: "trash_reach id (begin_action Delete_Forever witness_trash_entry ?s2)"
    using trash_click [OF s2, of "\<lambda>_. []" 0 "Trash_Begin Delete_Forever witness_trash_entry"]
    by (simp add: trash_view_def trash_row_def trash_form_def witness_trash_data_def witness_trash_entry_def
        initial_trash_def trash_defs)
  have same: "begin_action Delete_Forever witness_trash_entry ?s2 = witness_trash"
    by (simp add: witness_trash_def begin_action_def toggle_menu_def)
  show ?thesis
    using trash_click [OF s3, of "\<lambda>_. []" 0 Trash_Confirm]
    by (simp add: same) (simp add: trash_view_def trash_row_def trash_form_def witness_trash_def
        witness_trash_data_def witness_trash_entry_def initial_trash_def trash_defs)
qed


text \<open>A deleted file does not come back: after a confirmed deletion or restore, whatever the refreshes sent
  before it answer and in whatever order, the entry is not in the list.\<close>

lemma trash_entry_gone:
  assumes "trash_reach fe s" "tr_mutating s = Some (kind, e)" "set (map fst replies) \<subseteq> set (tr_pending s)"
  shows "\<exists>d. tr_data (fold (\<lambda>(k, r). trash_refresh_reply fe k r) replies (trash_mutate_reply fe (Inr ()) s)) = Some d \<and>
    (\<forall>row \<in> set (td_entries d). te_id row \<noteq> te_id e)"
proof -
  have ok: "trash_calls_ok s" "trash_form_ok s" using trash_reach_ok [OF assms(1)] by auto
  have live: "tr_live s" using ok(2) assms(2) by (auto simp: trash_form_ok_def)
  obtain d where d: "tr_data s = Some d" using ok(2) assms(2) by (auto simp: trash_form_ok_def)
  let ?t = "trash_mutate_reply fe (Inr ()) s"
  have t: "tr_data ?t = Some (d\<lparr>td_entries := filter (\<lambda>row. te_id row \<noteq> te_id e) (td_entries d)\<rparr>)"
    "tr_aborted ?t = tr_aborted s @ [tr_control s]"
    using assms(2) live d by (simp_all add: trash_mutate_reply_def trash_refresh_def)
  have old: "k \<in> set (tr_aborted ?t)" if "k \<in> set (map fst replies)" for k
    using that assms(3) ok(1) by (auto simp: t trash_calls_ok_def)
  have "tr_data (fold (\<lambda>(k, r). trash_refresh_reply fe k r) rs u) = tr_data u"
    if "\<forall>k \<in> set (map fst rs). k \<in> set (tr_aborted u)" for rs u
    using that
  proof (induction rs arbitrary: u)
    case (Cons kr rs)
    obtain k r where kr: "kr = (k, r)" by (cases kr)
    have "trash_refresh_reply fe k r u = u\<lparr>tr_pending := removeAll k (tr_pending u)\<rparr>"
      using Cons.prems kr by (simp add: trash_refresh_reply_def Let_def)
    with Cons kr show ?case by simp
  qed simp
  from this [of replies ?t] old t(1) show ?thesis by auto
qed

theorem trash_entry_gone_witness:
  "\<exists>d. tr_data (trash_mutate_reply id (Inr ()) (trash_mutate witness_trash)) = Some d \<and>
    (\<forall>row \<in> set (td_entries d). te_id row \<noteq> te_id witness_trash_entry)"
proof -
  have "tr_mutating (trash_mutate witness_trash) = Some (Delete_Forever, witness_trash_entry)"
    by (simp add: witness_trash_def trash_defs initial_trash_def)
  from trash_entry_gone [OF witness_trash_reach this, of "[]"] show ?thesis by simp
qed

end
