(* ===== verification/Labels.thy ===== *)
theory Labels
  imports Resource_Loader Complex_Main
begin

text \<open>
  The texts of \<^verbatim>\<open>ui/labels.js\<close> and the quota panel \<^verbatim>\<open>features/quota/panel.js\<close>.

  The label tables are object literals, and \<open>table[key]\<close> also finds the members every object inherits:
  such a lookup is \<open>Inherited\<close>, a function and not a text. Usage in dollars is a rational number.
\<close>

section \<open>Tables\<close>

definition value_labels :: "(string \<times> string) list" where
  "value_labels =
    [(''builtin'', ''built in''),
     (''managed'', ''managed by the platform''),
     (''user'', ''added by the user''),
     (''market'', ''skill market''),
     (''ready'', ''ready''),
     (''healthy'', ''running well''),
     (''unknown'', ''unknown state''),
     (''disabled'', ''disabled''),
     (''unavailable'', ''unavailable''),
     (''none'', ''no authorization needed''),
     (''needs_auth'', ''needs authorization''),
     (''needs_review'', ''needs confirmation''),
     (''pending'', ''waiting''),
     (''queued'', ''queued''),
     (''running'', ''running''),
     (''completed'', ''completed''),
     (''failed'', ''failed''),
     (''cancelled'', ''cancelled''),
     (''independent_sessions'', ''independent sessions''),
     (''harness'', ''general engine''),
     (''codex'', ''Codex''),
     (''kimi'', ''Kimi''),
     (''acp'', ''ACP engine''),
     (''codex-native'', ''Codex native model''),
     (''harness-default'', ''general default model''),
     (''kimi-native'', ''Kimi native model''),
     (''team.updated'', ''team updated''),
     (''member.added'', ''member added''),
     (''task.queued'', ''task queued''),
     (''task.started'', ''task started''),
     (''task.completed'', ''task completed''),
     (''task.failed'', ''task failed''),
     (''task.cancelled'', ''task cancelled''),
     (''mail.received'', ''team message received'')]"

definition error_labels :: "(string \<times> string) list" where
  "error_labels =
    [(''session_close_failed'', ''the conversation cannot be deleted now''),
     (''engine_unavailable'', ''the chosen assistant is unavailable''),
     (''engine_start_failed'', ''the assistant did not start''),
     (''engine_turn_rejected'', ''the assistant did not accept this message''),
     (''quota_exceeded'', ''the quota is used up''),
     (''quota_usage_stale'', ''the usage service is unavailable''),
     (''quota_usage_pending'', ''the last usage is being settled''),
     (''quota_not_configured'', ''this model has no quota yet''),
     (''platform_quota_unconfigured'', ''the quota service is not configured''),
     (''engine_steer_rejected'', ''the added instruction was not accepted''),
     (''no_active_turn'', ''the task has ended, send a message''),
     (''queued_message_not_found'', ''this queued message was sent or removed''),
     (''session_input_pending'', ''the session is handling another instruction''),
     (''edit_stop_timeout'', ''the old task is still stopping''),
     (''fork_message_not_found'', ''this message was not found''),
     (''session_resume_failed'', ''the session could not be resumed''),
     (''workspace_not_found'', ''the chosen project does not exist''),
     (''invalid_session'', ''the session parameters are invalid''),
     (''unsupported_preset_tool_allowlist'', ''this engine cannot enforce the tool limits''),
     (''preset_workspace_required'', ''this assistant needs a project''),
     (''engine_permission_unavailable'', ''this engine cannot give this permission''),
     (''personal_task_already_deleted'', ''this personal task was deleted''),
     (''personal_task_retry_pending'', ''the operation was recorded and will go on''),
     (''content_required'', ''enter what to send''),
     (''invalid_move'', ''not into itself, a subfolder, or from a system folder''),
     (''ambiguous_file_reference'', ''this old path names several files''),
     (''move_not_pending'', ''this move was handled already''),
     (''move_not_completed'', ''this move is not complete yet''),
     (''destination_exists'', ''a file of this name exists''),
     (''workspace_directory_exists'', ''a folder of this name exists in the workspace''),
     (''invalid_workspace_name'', ''the project name is not allowed''),
     (''file_changed'', ''the file was changed by another operation''),
     (''unsupported_text_encoding'', ''only UTF-8 text can be edited online''),
     (''file_not_found'', ''the file does not exist any more''),
     (''invalid_relative_path'', ''the file name or path is invalid''),
     (''workspace_operation_failed'', ''the file operation failed''),
     (''request_too_large'', ''larger than 5 GB''),
     (''path_outside_workspace'', ''the path must lie in the project''),
     (''reparse_point_rejected'', ''a link out of the project cannot be used''),
     (''im_gateway_unavailable'', ''the message channel is off''),
     (''market_unavailable'', ''the market is unavailable''),
     (''market_version_exists'', ''this name and version is published already''),
     (''market_credentials_required'', ''enter the credentials needed''),
     (''market_source_not_found'', ''the chosen content does not exist any more''),
     (''market_builtin_dependency_unavailable'', ''a built in dependency is missing''),
     (''market_skill_dependency_missing'', ''a referenced skill does not exist''),
     (''market_mcp_dependency_missing'', ''a referenced MCP service does not exist''),
     (''market_mcp_url_contains_credentials'', ''the address contains a secret''),
     (''market_mcp_command_not_portable'', ''the MCP command is a local path''),
     (''market_publish_own_assistant_only'', ''publish your own assistants''),
     (''market_publish_own_skill_only'', ''built in skills are not published again''),
     (''market_skill_snapshot_unavailable'', ''the package of this skill is unavailable''),
     (''market_bundle_too_large'', ''the skill files are over 50 MB''),
     (''invalid_market_publish'', ''complete the content and a version like 1.0.0'')]"

definition reasoning_labels :: "(string \<times> string) list" where
  "reasoning_labels =
    [(''none'', ''none''),
     (''minimal'', ''minimal''),
     (''low'', ''low''),
     (''medium'', ''medium''),
     (''high'', ''high''),
     (''xhigh'', ''very high''),
     (''max'', ''maximal''),
     (''ultra'', ''very high''),
     (''off'', ''off''),
     (''thinking'', ''on''),
     (''on'', ''on'')]"

definition object_members :: "string list" where
  "object_members =
    [''constructor'', ''hasOwnProperty'', ''isPrototypeOf'', ''propertyIsEnumerable'', ''toLocaleString'',
     ''toString'', ''valueOf'', ''__proto__'', ''__defineGetter__'', ''__defineSetter__'',
     ''__lookupGetter__'', ''__lookupSetter__'']"

datatype js_text = Text_Of string | Inherited string

text \<open>\<open>table[key] || other\<close>\<close>

definition lookup_or :: "(string \<times> string) list \<Rightarrow> string \<Rightarrow> string \<Rightarrow> js_text" where
  "lookup_or table key other =
     (case jmap_get table key of
        Some t \<Rightarrow> (if truthy t then Text_Of t else Text_Of other)
      | None \<Rightarrow> (if key \<in> set object_members then Inherited key else Text_Of other))"

definition display_value :: "string \<Rightarrow> string \<Rightarrow> js_text" where
  "display_value v fallback = lookup_or value_labels v (js_or v fallback)"

definition display_model_name :: "string \<Rightarrow> string \<Rightarrow> js_text" where
  "display_model_name i display_name = lookup_or value_labels i (js_or display_name i)"

definition display_preset_name :: "string \<Rightarrow> string" where
  "display_preset_name n = (if n = ''General'' then ''DSH'' else n)"

definition upper_char :: "char \<Rightarrow> char" where
  "upper_char c = (let n = of_char c :: nat in if 97 \<le> n \<and> n \<le> 122 then char_of (n - 32) else c)"

text \<open>The pattern \<^verbatim>\<open>/^QA wa3acc-([a-z])$/i\<close> of a test project.\<close>

definition qa_letter :: "string \<Rightarrow> char option" where
  "qa_letter n =
     (if length n = 11 \<and> js_lower (take 10 n) = ''qa wa3acc-'' \<and>
         (let c = of_char (lower_char (n ! 10)) :: nat in 97 \<le> c \<and> c \<le> 122)
      then Some (n ! 10) else None)"

definition display_workspace_name :: "string \<Rightarrow> string" where
  "display_workspace_name n =
     (if n = ''Personal workspace'' then ''personal project''
      else case qa_letter n of Some c \<Rightarrow> ''test project '' @ [upper_char c] | None \<Rightarrow> n)"

definition display_session_title :: "string \<Rightarrow> string" where
  "display_session_title t = (if t = ''General'' then ''general session'' else t)"

text \<open>\<open>replace(/[*_`]/g, "")\<close>, then \<open>replace(/\s+/g, " ")\<close>, then \<open>trim\<close>\<close>

fun collapse_spaces :: "bool \<Rightarrow> string \<Rightarrow> string" where
  "collapse_spaces after [] = []"
| "collapse_spaces after (c # s) =
     (if js_space c then (if after then collapse_spaces True s else CHR '' '' # collapse_spaces True s)
      else c # collapse_spaces False s)"

definition plain_session_title :: "string \<Rightarrow> string" where
  "plain_session_title v =
     js_trim (collapse_spaces False (filter (\<lambda>c. c \<notin> {CHR ''*'', CHR ''_'', CHR 0x60}) v))"

definition reasoning_label :: "string \<Rightarrow> string \<Rightarrow> js_text" where
  "reasoning_label i n = lookup_or reasoning_labels i (js_or n i)"

section \<open>Error texts\<close>

fun lines_of :: "string \<Rightarrow> string list" where
  "lines_of [] = [[]]"
| "lines_of (c # s) =
     (if c = CHR 0x0A \<or> c = CHR 0x0D then [] # lines_of s
      else (case lines_of s of [] \<Rightarrow> [[c]] | l # ls \<Rightarrow> (c # l) # ls))"

text \<open>\<^verbatim>\<open>/high demand|overloaded|server.*busy/i\<close>; the dot does not match the end of a line.\<close>

definition server_busy :: "string \<Rightarrow> bool" where
  "server_busy l = list_ex (\<lambda>t. prefix ''server'' t \<and> sublist ''busy'' (drop 6 t)) (suffixes l)"

definition is_overloaded :: "string \<Rightarrow> bool" where
  "is_overloaded m =
     (let s = js_lower m
      in sublist ''high demand'' s \<or> sublist ''overloaded'' s \<or> list_ex server_busy (lines_of s))"

definition friendly_error :: "string \<Rightarrow> js_text" where
  "friendly_error m =
     (if is_overloaded m then Text_Of ''the model service is busy, try later or choose another model''
      else if prefix ''credential_needs_auth:codex'' m then Text_Of ''connect Codex in the settings first''
      else if prefix ''credential_needs_auth:kimi'' m then Text_Of ''connect Kimi in the settings first''
      else if prefix ''unsupported_preset_approval_policy:'' m
      then Text_Of ''this engine cannot enforce the approval policy''
      else if prefix ''market_runtime_'' m then Text_Of ''the installation or publication is not complete''
      else if prefix ''invalid_mcp_binding:'' m then Text_Of ''the bound MCP is not ready''
      else if prefix ''skill_dependency_unavailable:'' m then Text_Of ''a skill dependency is unavailable''
      else if prefix ''invalid_skill_binding:'' m then Text_Of ''the bound skill does not exist or is not ready''
      else lookup_or error_labels m (js_or m ''the operation failed, try later''))"

section \<open>The quota panel\<close>

record budget =
  bu_pool :: string
  bu_daily :: rat
  bu_daily_limit :: rat
  bu_weekly :: rat
  bu_weekly_limit :: rat

definition quota_remaining :: "rat \<Rightarrow> rat \<Rightarrow> int" where
  "quota_remaining used limit =
     (if 0 < limit then \<lfloor>max 0 (min 1 (1 - used / limit)) * 100 + 1 / 2\<rfloor> else 0)"

definition meter :: "string \<Rightarrow> rat \<Rightarrow> rat \<Rightarrow> 'a widget list" where
  "meter label used limit =
     [Shown label, Shown (show_nat (nat (quota_remaining used limit)) @ ''%'')]"

text \<open>\<open>Status\<close> shows the loading text or the error of the resource.\<close>

definition quota_view :: "budget res_state \<Rightarrow> 'a widget list" where
  "quota_view st =
     [Shown ''remaining quota''] @
     shown_if (rs_loading st) [Shown ''loading''] @ alert_of (rs_error st) @
     concat (map (\<lambda>b. Shown (if bu_pool b = ''codex'' then ''Codex / ChatGPT'' else ''Kimi'') #
                      meter ''left today'' (bu_daily b) (bu_daily_limit b) @
                      meter ''left this week'' (bu_weekly b) (bu_weekly_limit b)) (rs_rows st)) @
     [Shown ''DSH and Codex / ChatGPT share the quota'']"

section \<open>Lemmas\<close>

lemma quota_remaining_bounds: "0 \<le> quota_remaining used limit \<and> quota_remaining used limit \<le> 100"
proof -
  let ?x = "max 0 (min 1 (1 - used / limit)) * 100 + 1 / 2 :: rat"
  have "0 \<le> ?x" "?x < 101" by (auto simp: max_def min_def)
  then have "0 \<le> \<lfloor>?x\<rfloor>" "\<lfloor>?x\<rfloor> < 101" by (simp_all add: floor_less_iff)
  then show ?thesis by (simp add: quota_remaining_def)
qed

lemma quota_remaining_antimono: "used \<le> used' \<Longrightarrow> quota_remaining used' limit \<le> quota_remaining used limit"
proof -
  assume "used \<le> used'"
  then have "0 < limit \<Longrightarrow> 1 - used' / limit \<le> 1 - used / limit" by (simp add: divide_right_mono)
  then show ?thesis by (auto simp: quota_remaining_def intro!: floor_mono)
qed

lemma collapse_no_marks: "set (collapse_spaces b s) \<subseteq> insert (CHR '' '') (set s)"
  by (induction s arbitrary: b) auto

fun single_spaced :: "bool \<Rightarrow> string \<Rightarrow> bool" where
  "single_spaced after [] = True"
| "single_spaced after (c # s) =
     (if js_space c then \<not> after \<and> c = CHR '' '' \<and> single_spaced True s else single_spaced False s)"

lemma space_is_space [simp]: "js_space CHR '' ''"
  by (simp add: js_space_def)

lemma single_spaced_collapse: "single_spaced b (collapse_spaces b s)"
  by (induction s arbitrary: b) auto

lemma collapse_single: "single_spaced b s \<Longrightarrow> collapse_spaces b s = s"
  by (induction s arbitrary: b) (auto split: if_splits)

lemma single_spaced_weaken: "single_spaced b s \<Longrightarrow> single_spaced False s"
  by (cases s) (auto split: if_splits)

lemma single_spaced_suffix: "single_spaced b (xs @ ys) \<Longrightarrow> single_spaced False ys"
proof (induction xs arbitrary: b)
  case Nil
  then show ?case by (simp add: single_spaced_weaken)
qed (auto split: if_splits)

lemma single_spaced_prefix: "single_spaced b (xs @ ys) \<Longrightarrow> single_spaced b xs"
  by (induction xs arbitrary: b) (auto split: if_splits)

lemma single_spaced_trim: "single_spaced False s \<Longrightarrow> single_spaced False (js_trim s)"
  using js_trim_parts [of s] single_spaced_suffix single_spaced_prefix by metis

lemma plain_session_title_fixed:
  "plain_session_title (plain_session_title v) = plain_session_title v"
proof -
  let ?f = "filter (\<lambda>c. c \<notin> {CHR ''*'', CHR ''_'', CHR 0x60})"
  let ?p = "plain_session_title v"
  have "set ?p \<subseteq> insert (CHR '' '') (set (?f v))"
    unfolding plain_session_title_def using set_js_trim collapse_no_marks by blast
  then have "?f ?p = ?p" by (auto simp: filter_id_conv)
  moreover have "single_spaced False ?p"
    unfolding plain_session_title_def by (rule single_spaced_trim) (rule single_spaced_collapse)
  then have "collapse_spaces False ?p = ?p" by (rule collapse_single)
  ultimately have "plain_session_title ?p = js_trim ?p" by (simp add: plain_session_title_def)
  then show ?thesis by (simp add: plain_session_title_def)
qed

lemma error_labels_texts: "list_all (\<lambda>(k, t). truthy t \<and> k \<notin> set object_members) error_labels"
  by (simp add: error_labels_def object_members_def)

section \<open>Properties\<close>

text \<open>An error is never shown as an empty text, and the only errors not shown as a text are the twelve
  messages that name a member every object inherits: these find the member, a function.\<close>

lemma friendly_error_total:
  "friendly_error m \<noteq> Text_Of [] \<and> (friendly_error m = Inherited k \<longleftrightarrow> k = m \<and> m \<in> set object_members)"
proof (cases "m \<in> set object_members")
  case True
  then have "m = ''constructor'' \<or> m = ''hasOwnProperty'' \<or> m = ''isPrototypeOf'' \<or> m = ''propertyIsEnumerable'' \<or>
      m = ''toLocaleString'' \<or> m = ''toString'' \<or> m = ''valueOf'' \<or> m = ''__proto__'' \<or> m = ''__defineGetter__'' \<or>
      m = ''__defineSetter__'' \<or> m = ''__lookupGetter__'' \<or> m = ''__lookupSetter__''"
    by (simp add: object_members_def)
  moreover have "jmap_get error_labels m = None"
    using True error_labels_texts by (auto simp: map_of_eq_None_iff list_all_iff)
  ultimately have "friendly_error m = Inherited m"
    using True unfolding friendly_error_def
    by (elim disjE) (simp_all add: lookup_or_def is_overloaded_def js_lower_def lower_char_def sublist_code
        server_busy_def)
  with True show ?thesis by auto
next
  case False
  have "t \<noteq> []" if "jmap_get error_labels m = Some t" for t
    using map_of_SomeD [OF that] error_labels_texts by (auto simp: list_all_iff)
  with False show ?thesis
    by (auto simp: friendly_error_def lookup_or_def js_or_def split: option.split)
qed

text \<open>The title of a session is normalised once and for all: it has no marking characters, no double
  spaces and no outer space, so normalising it again changes nothing.\<close>

lemma plain_session_title_idem:
  "plain_session_title (plain_session_title v) = plain_session_title v"
  by (rule plain_session_title_fixed)

text \<open>The quota meter always shows a percentage between 0 and 100 and never rises as more is used,
  however large the usage, and whatever the limit is.\<close>

lemma quota_meter_bounds:
  "0 \<le> quota_remaining used limit \<and> quota_remaining used limit \<le> 100 \<and>
   quota_remaining (used + \<bar>extra\<bar>) limit \<le> quota_remaining used limit"
  using quota_remaining_bounds quota_remaining_antimono by simp

end
