(* ===== verification/Automations.thy ===== *)
theory Automations
  imports Labels Uri
begin

text \<open>
  Scheduled tasks, \<^verbatim>\<open>features/automations/automations.js\<close>: the editor form, the page with its list and run
  history, and the card that turns the result of a run into a skill (\<open>SkillSuggestion\<close>).

  A form is submitted as the record \<open>task_form\<close> of its \<open>FormData\<close> entries; a point in time is a number of
  milliseconds, \<open>None\<close> when the text of the field is no date. \<open>JSON.stringify\<close> writes a number that is not
  a number as null, so parsed numbers are options. \<open>fe\<close> is \<open>friendlyError\<close>.
\<close>

section \<open>Tasks and forms\<close>

datatype schedule =
    Once int
  | Interval "nat option"
  | Weekly "nat option list" "nat option" "nat option" string
  | Cron string string

record automation =
  au_id :: string
  au_version :: nat
  au_name :: string
  au_enabled :: bool
  au_schedule :: schedule
  au_preset :: string
  au_workspace :: string
  au_skill :: "string option"
  au_input :: string
  au_policy :: string
  au_notify :: bool
  au_target :: "string option"
  au_mode :: string
  au_conversation :: "string option"
  au_next_run :: "int option"

record preset =
  ps_id :: string
  ps_name :: string
  ps_engine :: string
  ps_enabled :: bool
  ps_catalog :: "string option"

record task_form =
  fm_name :: string
  fm_time :: "string option"
  fm_timezone :: "string option"
  fm_once :: "int option"
  fm_minutes :: string
  fm_days :: "string list"
  fm_expression :: string
  fm_enabled :: bool
  fm_input :: string
  fm_policy :: string
  fm_target :: "string option"
  fm_skill :: "string option"
  fm_conversation :: "string option"

record task_body =
  tb_version :: "nat option"
  tb_name :: string
  tb_enabled :: bool
  tb_schedule :: schedule
  tb_preset :: string
  tb_engine :: "string option"
  tb_catalog :: "string option"
  tb_workspace :: string
  tb_input :: string
  tb_policy :: string
  tb_notify :: bool
  tb_target :: "string option"
  tb_skill :: "string option"
  tb_mode :: string
  tb_conversation :: "string option"

text \<open>\<open>Number(text)\<close> on the texts a number or time field can hold: digits, or nothing, which is zero.\<close>

definition is_digit :: "char \<Rightarrow> bool" where
  "is_digit c = (let n = of_char c :: nat in 48 \<le> n \<and> n \<le> 57)"

definition js_number :: "string \<Rightarrow> nat option" where
  "js_number s =
     (if list_all is_digit s then Some (foldl (\<lambda>n c. 10 * n + (of_char c - 48)) 0 s) else None)"

text \<open>\<open>String(value || fallback)\<close> of a form entry that may be missing\<close>

definition entry_or :: "string option \<Rightarrow> string \<Rightarrow> string" where
  "entry_or v fallback = (case v of Some s \<Rightarrow> js_or s fallback | None \<Rightarrow> fallback)"

definition nonempty :: "string \<Rightarrow> string option" where
  "nonempty s = (if truthy s then Some s else None)"

text \<open>\<open>[hour, minute]\<close> of the time field: the second part is undefined when there is no colon.\<close>

definition parse_time :: "string \<Rightarrow> nat option \<times> nat option" where
  "parse_time s =
     (case map js_number (js_split CHR '':'' s) of
        h # m # _ \<Rightarrow> (h, m) | [h] \<Rightarrow> (h, None) | [] \<Rightarrow> (None, None))"

section \<open>Submitting the editor\<close>

record editor =
  ed_row :: "automation option"
  ed_kind :: string
  ed_mode :: string
  ed_preset :: string
  ed_workspace :: string
  ed_notify :: bool
  ed_error :: string
  ed_busy :: bool
  ed_sent :: "(string option \<times> task_body) list"
  ed_saved :: nat

definition kind_of :: "schedule \<Rightarrow> string" where
  "kind_of s = (case s of Once _ \<Rightarrow> ''once'' | Interval _ \<Rightarrow> ''interval'' | Weekly _ _ _ _ \<Rightarrow> ''weekly''
     | Cron _ _ \<Rightarrow> ''cron'')"

definition open_editor :: "automation option \<Rightarrow> editor" where
  "open_editor row =
     \<lparr>ed_row = row,
      ed_kind = (case row of None \<Rightarrow> ''interval'' | Some r \<Rightarrow> kind_of (au_schedule r)),
      ed_mode = (case row of None \<Rightarrow> ''new_conversation'' | Some r \<Rightarrow> js_or (au_mode r) ''new_conversation''),
      ed_preset = (case row of None \<Rightarrow> [] | Some r \<Rightarrow> au_preset r),
      ed_workspace = (case row of None \<Rightarrow> [] | Some r \<Rightarrow> au_workspace r),
      ed_notify = (case row of None \<Rightarrow> False | Some r \<Rightarrow> au_notify r),
      ed_error = [], ed_busy = False, ed_sent = [], ed_saved = 0\<rparr>"

definition find_preset :: "preset list \<Rightarrow> string \<Rightarrow> preset option" where
  "find_preset ps i = find (\<lambda>p. ps_id p = i) ps"

definition form_schedule :: "string \<Rightarrow> task_form \<Rightarrow> schedule" where
  "form_schedule kind f =
     (let tz = entry_or (fm_timezone f) ''UTC''; hm = parse_time (entry_or (fm_time f) ''09:00'')
      in if kind = ''once'' then Once (case fm_once f of Some t \<Rightarrow> t | None \<Rightarrow> 0)
         else if kind = ''interval'' then Interval (js_number (fm_minutes f))
         else if kind = ''weekly'' then Weekly (map js_number (fm_days f)) (fst hm) (snd hm) tz
         else Cron (js_trim (fm_expression f)) tz)"

text \<open>The checks of \<open>submit\<close>, in order; the first that fails is shown and nothing is sent.\<close>

definition form_problem :: "int \<Rightarrow> string \<Rightarrow> bool \<Rightarrow> task_form \<Rightarrow> string option" where
  "form_problem now kind notify f =
     (if kind = ''once'' \<and> (case fm_once f of None \<Rightarrow> True | Some t \<Rightarrow> fm_enabled f \<and> t \<le> now)
      then Some ''choose a time in the future''
      else if kind = ''weekly'' \<and> fm_days f = [] then Some ''choose at least one day''
      else if notify \<and> entry_or (fm_target f) [] = [] then Some ''choose the chat for the notification''
      else None)"

definition form_body :: "preset list \<Rightarrow> editor \<Rightarrow> task_form \<Rightarrow> task_body" where
  "form_body presets e f =
     (let p = find_preset presets (ed_preset e); engine = map_option ps_engine p
      in \<lparr>tb_version = map_option au_version (ed_row e), tb_name = js_trim (fm_name f),
          tb_enabled = fm_enabled f, tb_schedule = form_schedule (ed_kind e) f,
          tb_preset = ed_preset e, tb_engine = engine,
          tb_catalog = (if engine = Some ''acp'' then Option.bind p ps_catalog else None),
          tb_workspace = ed_workspace e, tb_input = fm_input f, tb_policy = fm_policy f,
          tb_notify = ed_notify e,
          tb_target = (if ed_notify e then Some (entry_or (fm_target f) []) else None),
          tb_skill = nonempty (entry_or (fm_skill f) []), tb_mode = ed_mode e,
          tb_conversation = (if ed_mode e = ''existing''
             then Some (case fm_conversation f of Some c \<Rightarrow> c | None \<Rightarrow> ''null'') else None)\<rparr>)"

definition editor_submit :: "preset list \<Rightarrow> int \<Rightarrow> task_form \<Rightarrow> editor \<Rightarrow> editor" where
  "editor_submit presets now f e =
     (case form_problem now (ed_kind e) (ed_notify e) f of
        Some problem \<Rightarrow> e\<lparr>ed_error := problem\<rparr>
      | None \<Rightarrow> e\<lparr>ed_busy := True, ed_error := [],
                  ed_sent := ed_sent e @ [(map_option au_id (ed_row e), form_body presets e f)]\<rparr>)"

definition editor_reply :: "(string \<Rightarrow> string) \<Rightarrow> http_error + unit \<Rightarrow> editor \<Rightarrow> editor" where
  "editor_reply fe r e =
     (case r of
        Inr _ \<Rightarrow> e\<lparr>ed_saved := Suc (ed_saved e), ed_busy := False\<rparr>
      | Inl err \<Rightarrow> e\<lparr>ed_error := fe (err_message err), ed_busy := False\<rparr>)"

section \<open>The fields of the editor\<close>

record named =
  nm_id :: string
  nm_name :: string
  nm_enabled :: bool

record chat_session =
  cs_id :: string
  cs_title :: "string option"
  cs_workspace :: string
  cs_engine :: string
  cs_parent :: "string option"

record chat_target =
  ct_id :: string
  ct_label :: string
  ct_connected :: bool

definition preset_options :: "preset list \<Rightarrow> string \<Rightarrow> (string \<times> string) list" where
  "preset_options ps chosen =
     ([], ''choose an assistant'') #
     map (\<lambda>p. (ps_id p, ps_name p)) (filter (\<lambda>p. ps_enabled p \<or> ps_id p = chosen) ps)"

definition workspace_options :: "named list \<Rightarrow> (string \<times> string) list" where
  "workspace_options ws = ([], ''choose a project'') # map (\<lambda>w. (nm_id w, nm_name w)) ws"

definition skill_options :: "named list \<Rightarrow> automation option \<Rightarrow> (string \<times> string) list" where
  "skill_options skills row =
     ([], ''no skill, a run may suggest one'') #
     map (\<lambda>k. (nm_id k, nm_name k))
       (filter (\<lambda>k. nm_enabled k \<or> Some (nm_id k) = Option.bind row au_skill) skills)"

definition session_options :: "chat_session list \<Rightarrow> string \<Rightarrow> string option \<Rightarrow> (string \<times> string) list" where
  "session_options sessions workspace engine =
     ([], ''choose a conversation of this project and engine'') #
     map (\<lambda>c. (cs_id c, entry_or (cs_title c) (cs_id c)))
       (filter (\<lambda>c. cs_workspace c = workspace \<and> Some (cs_engine c) = engine \<and>
                    (case cs_parent c of None \<Rightarrow> True | Some p \<Rightarrow> \<not> truthy p)) sessions)"

definition target_options :: "chat_target list \<Rightarrow> (string \<times> string) list" where
  "target_options ts =
     ([], ''choose the receiving chat'') # map (\<lambda>t. (ct_id t, ct_label t)) (filter ct_connected ts)"

text \<open>The entry of an uncontrolled select: its default if that is an option, else the first option.\<close>

definition select_default :: "(string \<times> string) list \<Rightarrow> string \<Rightarrow> string" where
  "select_default opts d = (if d \<in> set (map fst opts) then d else fst (hd opts))"

definition pad2 :: "nat \<Rightarrow> string" where
  "pad2 n = (if length (show_nat n) < 2 then CHR ''0'' # show_nat n else show_nat n)"

definition minute_ms :: int where
  "minute_ms = 60000"

text \<open>The form as the editor first shows it; \<open>zone\<close> is the browser's time zone, whose date field keeps minutes.\<close>

definition default_form ::
  "string \<Rightarrow> named list \<Rightarrow> chat_session list \<Rightarrow> chat_target list \<Rightarrow> string option \<Rightarrow> preset list \<Rightarrow>
    automation option \<Rightarrow> task_form" where
  "default_form zone skills sessions targets chosen presets row =
     (let s = map_option au_schedule row; e = open_editor row;
          engine = map_option ps_engine (find_preset presets (ed_preset e));
          weekly = (case s of Some (Weekly d h m z) \<Rightarrow> Some (d, h, m) | _ \<Rightarrow> None);
          tz = (case s of Some (Weekly d h m z) \<Rightarrow> z | Some (Cron x z) \<Rightarrow> z | _ \<Rightarrow> [])
      in \<lparr>fm_name = (case row of Some r \<Rightarrow> au_name r | None \<Rightarrow> []),
          fm_time = (if ed_kind e = ''weekly''
            then Some (pad2 (case weekly of Some (d, Some h, m) \<Rightarrow> h | _ \<Rightarrow> 9) @ '':'' @
                       pad2 (case weekly of Some (d, h, Some m) \<Rightarrow> m | _ \<Rightarrow> 0)) else None),
          fm_timezone = (if ed_kind e \<in> {''weekly'', ''cron''} then Some (js_or tz (js_or zone ''UTC'')) else None),
          fm_once = (case s of Some (Once t) \<Rightarrow> Some (t div minute_ms * minute_ms) | _ \<Rightarrow> None),
          fm_minutes = (case s of Some (Interval (Some n)) \<Rightarrow> show_nat (if n = 0 then 60 else n) | _ \<Rightarrow> ''60''),
          fm_days = map show_nat (filter (\<lambda>i. Some i \<in> set (case weekly of Some (d, h, m) \<Rightarrow> d | None \<Rightarrow> [Some 1])) [0..<7]),
          fm_expression = (case s of Some (Cron x z) \<Rightarrow> x | _ \<Rightarrow> []),
          fm_enabled = (case row of Some r \<Rightarrow> au_enabled r | None \<Rightarrow> True),
          fm_input = (case row of Some r \<Rightarrow> au_input r | None \<Rightarrow> []),
          fm_policy = select_default [(''always'', []), (''on_failure'', []), (''none'', [])]
            (case row of Some r \<Rightarrow> js_or (au_policy r) ''always'' | None \<Rightarrow> ''always''),
          fm_target = (if ed_notify e then Some (select_default (target_options targets)
              (entry_or (Option.bind row au_target) (entry_or chosen []))) else None),
          fm_skill = Some (select_default (skill_options skills row)
              (case Option.bind row au_skill of Some k \<Rightarrow> k | None \<Rightarrow> [])),
          fm_conversation = (if ed_mode e = ''existing'' then Some (select_default
              (session_options sessions (ed_workspace e) engine)
              (case Option.bind row au_conversation of Some c \<Rightarrow> c | None \<Rightarrow> [])) else None)\<rparr>)"

datatype editor_action = Submit_Editor | Cancel_Editor

text \<open>The labels, fields and buttons of the form, with the values of \<open>f\<close>.\<close>

definition schedule_fields :: "string \<Rightarrow> string \<Rightarrow> task_form \<Rightarrow> editor_action widget list" where
  "schedule_fields zone kind f =
     (if kind = ''once'' then [Field (''run at ('' @ zone @ '')'') (case fm_once f of Some _ \<Rightarrow> ''set'' | None \<Rightarrow> []) False]
      else if kind = ''interval'' then [Field ''interval in minutes'' (fm_minutes f) False]
      else Field ''time zone'' (entry_or (fm_timezone f) []) False #
        (if kind = ''cron'' then [Field ''cron expression'' (fm_expression f) False]
         else map (\<lambda>i. Field (''day '' @ show_nat i) (if show_nat i \<in> set (fm_days f) then ''on'' else []) False) [0..<7] @
              [Field ''run time'' (entry_or (fm_time f) []) False]))"

definition editor_view :: "string \<Rightarrow> chat_target list \<Rightarrow> task_form \<Rightarrow> editor \<Rightarrow> editor_action widget list" where
  "editor_view zone targets f e =
     [Shown (if ed_row e \<noteq> None then ''edit the task'' else ''new task''),
      Field ''task name'' (fm_name f) False, Field ''assistant'' (ed_preset e) False,
      Field ''project'' (ed_workspace e) False, Field ''skill'' (entry_or (fm_skill f) []) False,
      Field ''task content'' (fm_input f) False, Field ''frequency'' (ed_kind e) False] @
     schedule_fields zone (ed_kind e) f @
     [Field ''execution'' (ed_mode e) False] @
     shown_if (ed_mode e = ''existing'') [Field ''conversation'' (entry_or (fm_conversation f) []) False] @
     [Field ''notification'' (fm_policy f) False,
      Field ''message notification'' (if ed_notify e then ''on'' else []) False] @
     shown_if (ed_notify e) [Field ''notify chat'' (entry_or (fm_target f) []) False] @
     shown_if (ed_notify e \<and> targets = []) [Shown ''no chat yet, connect a message channel first''] @
     [Field ''enabled'' (if fm_enabled f then ''on'' else []) False] @
     alert_of (ed_error e) @
     [Press ''cancel'' (ed_busy e) Cancel_Editor,
      Press (if ed_busy e then ''saving'' else if ed_row e \<noteq> None then ''save'' else ''create'') (ed_busy e) Submit_Editor]"

section \<open>Numbers in forms\<close>

lemma of_char_digit: "n < 10 \<Longrightarrow> (of_char (char_of (48 + n) :: char) :: nat) = 48 + n"
  by simp

lemma show_nat_digits: "list_all is_digit (show_nat n)"
proof (induction n rule: show_nat.induct)
  case (1 n)
  have d: "m < 10 \<Longrightarrow> is_digit (char_of (48 + m))" for m :: nat by (simp add: is_digit_def)
  show ?case
    by (subst show_nat.simps) (use 1 d in \<open>auto simp: d\<close>)
qed

lemma digits_value: "foldl (\<lambda>n c. 10 * n + (of_char c - 48)) 0 (show_nat n) = n"
proof (induction n rule: show_nat.induct)
  case (1 n)
  show ?case by (subst show_nat.simps) (use 1 in auto)
qed

lemma js_number_show [simp]: "js_number (show_nat n) = Some n"
  by (simp add: js_number_def show_nat_digits digits_value)

lemma js_number_zero: "js_number (CHR ''0'' # s) = js_number s"
  by (simp add: js_number_def is_digit_def)

lemma js_number_pad2 [simp]: "js_number (pad2 n) = Some n"
  by (simp add: pad2_def js_number_zero)

lemma show_nat_not_Nil [simp]: "show_nat n \<noteq> []"
  by (subst show_nat.simps) simp

lemma digits_no_colon: "list_all is_digit s \<Longrightarrow> CHR '':'' \<notin> set s"
  by (auto simp: list_all_iff is_digit_def)

lemma pad2_digits: "list_all is_digit (pad2 n)"
  by (simp add: pad2_def show_nat_digits is_digit_def)

lemma parse_time_pad2: "parse_time (pad2 h @ '':'' @ pad2 m) = (Some h, Some m)"
  using digits_no_colon [OF pad2_digits] by (simp add: parse_time_def text_simps)

lemma pad2_not_Nil [simp]: "pad2 n \<noteq> []"
  by (simp add: pad2_def)

section \<open>An untouched form changes nothing\<close>

definition schedule_ok :: "schedule \<Rightarrow> bool" where
  "schedule_ok s = (case s of
      Once t \<Rightarrow> t mod minute_ms = 0
    | Interval n \<Rightarrow> (case n of Some k \<Rightarrow> 0 < k | None \<Rightarrow> False)
    | Weekly ds h m z \<Rightarrow> ds \<noteq> [] \<and> ds = map Some (filter (\<lambda>i. Some i \<in> set ds) [0..<7]) \<and>
        h \<noteq> None \<and> m \<noteq> None \<and> truthy z
    | Cron x z \<Rightarrow> js_trim x = x \<and> truthy z)"

definition row_body :: "automation \<Rightarrow> preset \<Rightarrow> task_body" where
  "row_body r p = \<lparr>tb_version = Some (au_version r), tb_name = au_name r, tb_enabled = au_enabled r,
     tb_schedule = au_schedule r, tb_preset = au_preset r, tb_engine = Some (ps_engine p),
     tb_catalog = (if ps_engine p = ''acp'' then ps_catalog p else None), tb_workspace = au_workspace r,
     tb_input = au_input r, tb_policy = au_policy r, tb_notify = au_notify r, tb_target = au_target r,
     tb_skill = au_skill r, tb_mode = au_mode r, tb_conversation = au_conversation r\<rparr>"

text \<open>A stored row whose references are all still offered by the form.\<close>

definition row_offered ::
  "named list \<Rightarrow> chat_session list \<Rightarrow> chat_target list \<Rightarrow> preset \<Rightarrow> automation \<Rightarrow> bool" where
  "row_offered skills sessions targets p r \<longleftrightarrow>
     schedule_ok (au_schedule r) \<and> js_trim (au_name r) = au_name r \<and> truthy (au_mode r) \<and>
     au_policy r \<in> {''always'', ''on_failure'', ''none''} \<and>
     (case au_skill r of None \<Rightarrow> True
      | Some k \<Rightarrow> truthy k \<and> k \<in> set (map fst (skill_options skills (Some r)))) \<and>
     (if au_notify r then (case au_target r of None \<Rightarrow> False
        | Some t \<Rightarrow> truthy t \<and> t \<in> set (map fst (target_options targets))) else au_target r = None) \<and>
     (if au_mode r = ''existing'' then (case au_conversation r of None \<Rightarrow> False
        | Some c \<Rightarrow> c \<in> set (map fst (session_options sessions (au_workspace r) (Some (ps_engine p)))))
      else au_conversation r = None)"

lemma form_schedule_default:
  assumes "schedule_ok (au_schedule r)"
  shows "form_schedule (kind_of (au_schedule r))
      (default_form zone skills sessions targets chosen presets (Some r)) = au_schedule r"
proof (cases "au_schedule r")
  case (Once t)
  then have "t div minute_ms * minute_ms = t"
    using assms by (simp add: schedule_ok_def) (metis mod_eq_0_iff_dvd dvd_div_mult_self)
  with Once show ?thesis
    by (simp add: kind_of_def form_schedule_def default_form_def open_editor_def Let_def)
next
  case (Interval n)
  with assms show ?thesis
    by (auto simp: schedule_ok_def kind_of_def form_schedule_def default_form_def open_editor_def Let_def split: option.splits)
next
  case (Weekly ds h m z)
  with assms obtain hh mm where hm: "h = Some hh" "m = Some mm"
    and ds: "ds = map Some (filter (\<lambda>i. Some i \<in> set ds) [0..<7])" and z: "truthy z"
    by (auto simp: schedule_ok_def)
  have "map js_number (map show_nat (filter (\<lambda>i. Some i \<in> set ds) [0..<7])) = ds"
    using ds by (simp add: comp_def)
  with Weekly hm z show ?thesis
    by (simp add: kind_of_def form_schedule_def default_form_def open_editor_def Let_def entry_or_def js_or_def
        parse_time_pad2 [simplified])
next
  case (Cron x z)
  with assms show ?thesis
    by (simp add: schedule_ok_def kind_of_def form_schedule_def default_form_def open_editor_def Let_def entry_or_def js_or_def)
qed

lemma select_default_in: "d \<in> set (map fst opts) \<Longrightarrow> select_default opts d = d"
  by (simp add: select_default_def)

lemma default_problem:
  assumes "row_offered skills sessions targets p r"
    and "\<And>t. au_schedule r = Once t \<Longrightarrow> au_enabled r \<Longrightarrow> now < t"
  shows "form_problem now (kind_of (au_schedule r)) (au_notify r)
      (default_form zone skills sessions targets chosen presets (Some r)) = None"
proof -
  have target: "au_notify r \<Longrightarrow> \<exists>t. au_target r = Some t \<and> truthy t \<and>
      select_default (target_options targets) t = t"
    using assms(1) by (auto simp: row_offered_def select_default_in split: option.splits)
  have once: "t div minute_ms * minute_ms = t" if "au_schedule r = Once t" for t
    using assms(1) that by (simp add: row_offered_def schedule_ok_def) (metis mod_eq_0_iff_dvd dvd_div_mult_self)
  have weekly: "\<exists>i\<in>{0..<7}. Some i \<in> set ds" if "au_schedule r = Weekly ds h m z" for ds h m z
  proof -
    have "ds \<noteq> []" "ds = map Some (filter (\<lambda>i. Some i \<in> set ds) [0..<7])"
      using assms(1) that by (simp_all add: row_offered_def schedule_ok_def)
    then have "filter (\<lambda>i. Some i \<in> set ds) [0..<7] \<noteq> []" by (metis list.simps(8))
    then show ?thesis by (auto simp: filter_empty_conv)
  qed
  show ?thesis
  proof (cases "au_schedule r")
    case (Once t)
    with once [OF Once] assms(2) target show ?thesis
      by (auto simp: form_problem_def kind_of_def default_form_def open_editor_def Let_def entry_or_def js_or_def
          dest!: target)
  next
    case (Weekly ds h m z)
    with weekly [OF Weekly] target show ?thesis
      by (auto simp: form_problem_def kind_of_def default_form_def open_editor_def Let_def entry_or_def js_or_def
          filter_empty_conv dest!: target)
  qed (use target in \<open>auto simp: form_problem_def kind_of_def default_form_def open_editor_def Let_def entry_or_def
      js_or_def dest!: target\<close>)
qed

lemma default_body:
  assumes "row_offered skills sessions targets p r" "find_preset presets (au_preset r) = Some p"
  shows "form_body presets (open_editor (Some r))
      (default_form zone skills sessions targets chosen presets (Some r)) = row_body r p"
proof -
  let ?f = "default_form zone skills sessions targets chosen presets (Some r)"
  let ?e = "open_editor (Some r)"
  have e: "ed_row ?e = Some r" "ed_kind ?e = kind_of (au_schedule r)" "ed_mode ?e = au_mode r"
    "ed_preset ?e = au_preset r" "ed_workspace ?e = au_workspace r" "ed_notify ?e = au_notify r"
    using assms(1) by (simp_all add: open_editor_def js_or_def row_offered_def)
  have s: "form_schedule (kind_of (au_schedule r)) ?f = au_schedule r"
    by (rule form_schedule_default) (use assms(1) in \<open>simp add: row_offered_def\<close>)
  have "truthy (au_policy r)" using assms(1) by (auto simp: row_offered_def)
  then have policy: "fm_policy ?f = au_policy r"
    using assms(1) by (auto simp: default_form_def Let_def select_default_def js_or_def row_offered_def)
  have target: "(if au_notify r then Some (entry_or (fm_target ?f) []) else None) = au_target r"
    using assms(1) by (auto simp: default_form_def Let_def e row_offered_def entry_or_def js_or_def select_default_in
        split: option.splits if_splits)
  have skill: "nonempty (entry_or (fm_skill ?f) []) = au_skill r"
    using assms(1)
    by (auto simp: default_form_def Let_def row_offered_def entry_or_def js_or_def nonempty_def select_default_in
        split: option.splits) (auto simp: select_default_def skill_options_def)
  have conv: "(if au_mode r = ''existing'' then Some (case fm_conversation ?f of Some c \<Rightarrow> c | None \<Rightarrow> ''null'') else None) =
      au_conversation r"
    using assms by (auto simp: default_form_def Let_def e row_offered_def select_default_in split: option.splits if_splits)
  have rest: "fm_name ?f = au_name r" "fm_enabled ?f = au_enabled r" "fm_input ?f = au_input r"
    by (simp_all add: default_form_def Let_def)
  have trim: "js_trim (au_name r) = au_name r" using assms(1) by (simp add: row_offered_def)
  show ?thesis
    by (simp add: form_body_def Let_def e s policy target skill conv rest trim assms(2) row_body_def)
qed

section \<open>The page\<close>

datatype editing = New_Task | No_Editor | Edit_Task automation

record task_run =
  ru_id :: string
  ru_status :: string
  ru_created :: int
  ru_not_before :: int
  ru_retries :: nat
  ru_session :: "string option"
  ru_error :: string
  ru_result :: string
  ru_suggestion :: "string option"

datatype page_call =
    Toggle_Task string nat bool | Run_Task string | Delete_Task string | Cancel_Run string string | Load_Runs string

record auto_page =
  ap_editing :: editing
  ap_revision :: nat
  ap_history :: "(string \<times> task_run list) list"
  ap_error :: string
  ap_busy :: bool
  ap_calls :: "page_call list"
  ap_refreshes :: nat

definition initial_auto_page :: auto_page where
  "initial_auto_page = \<lparr>ap_editing = New_Task, ap_revision = 0, ap_history = [], ap_error = [], ap_busy = False,
     ap_calls = [], ap_refreshes = 0\<rparr>"

definition page_action :: "page_call \<Rightarrow> auto_page \<Rightarrow> auto_page" where
  "page_action c s = s\<lparr>ap_busy := True, ap_error := [], ap_calls := ap_calls s @ [c]\<rparr>"

definition load_history :: "string \<Rightarrow> auto_page \<Rightarrow> auto_page" where
  "load_history i s = s\<lparr>ap_calls := ap_calls s @ [Load_Runs i]\<rparr>"

definition load_history_reply ::
  "(string \<Rightarrow> string) \<Rightarrow> string \<Rightarrow> http_error + task_run list \<Rightarrow> auto_page \<Rightarrow> auto_page" where
  "load_history_reply fe i r s =
     (case r of
        Inr rows \<Rightarrow> s\<lparr>ap_history := jmap_set i rows (ap_history s)\<rparr>
      | Inl err \<Rightarrow> s\<lparr>ap_error := fe (err_message err)\<rparr>)"

text \<open>After a run or a cancellation the history of the task is loaded, whether the call succeeded or not.\<close>

definition page_reply :: "(string \<Rightarrow> string) \<Rightarrow> page_call \<Rightarrow> http_error + unit \<Rightarrow> auto_page \<Rightarrow> auto_page" where
  "page_reply fe c r s =
     (let s1 = (case r of
                  Inr _ \<Rightarrow> s\<lparr>ap_refreshes := Suc (ap_refreshes s)\<rparr>
                | Inl err \<Rightarrow> s\<lparr>ap_error := fe (err_message err)\<rparr>)\<lparr>ap_busy := False\<rparr>
      in case c of
           Run_Task i \<Rightarrow> load_history i s1
         | Cancel_Run i _ \<Rightarrow> load_history i s1
         | _ \<Rightarrow> s1)"

text \<open>\<open>saved\<close> of the editor that was rendered while \<open>shown\<close> was being edited.\<close>

definition editor_saved :: "editing \<Rightarrow> auto_page \<Rightarrow> auto_page" where
  "editor_saved shown s =
     s\<lparr>ap_refreshes := Suc (ap_refreshes s),
       ap_editing := (case shown of Edit_Task _ \<Rightarrow> No_Editor | No_Editor \<Rightarrow> New_Task | New_Task \<Rightarrow> New_Task),
       ap_revision := Suc (ap_revision s)\<rparr>"

definition editor_key :: "auto_page \<Rightarrow> string option" where
  "editor_key s = (case ap_editing s of
      No_Editor \<Rightarrow> None
    | Edit_Task r \<Rightarrow> Some (js_or (au_id r) (''new-'' @ show_nat (ap_revision s)))
    | New_Task \<Rightarrow> Some (''new-'' @ show_nat (ap_revision s)))"

definition run_label :: "string \<Rightarrow> js_text" where
  "run_label st = lookup_or
     [(''pending'', ''waiting''), (''waiting'', ''waiting for the conversation''),
      (''skipped_busy'', ''skipped, the conversation stayed busy''), (''running'', ''running''),
      (''succeeded'', ''succeeded''), (''failed'', ''failed''), (''cancelled'', ''cancelled'')] st st"

definition label_widget :: "js_text \<Rightarrow> 'a widget list" where
  "label_widget t = (case t of Text_Of s \<Rightarrow> [Shown s] | Inherited _ \<Rightarrow> [])"

datatype page_click =
  Open_New | Edit_Row automation | Do_Call page_call | Ask_Delete automation | Show_History string | Open_Session string

definition run_view :: "(string \<Rightarrow> string) \<Rightarrow> (int \<Rightarrow> string) \<Rightarrow> auto_page \<Rightarrow> automation \<Rightarrow> task_run \<Rightarrow> page_click widget list" where
  "run_view fe date_text s row run =
     label_widget (run_label (ru_status run)) @ [Shown (date_text (ru_created run))] @
     shown_if (ru_status run = ''waiting'')
       [Shown (''the conversation is working, tried again '' @ date_text (ru_not_before run) @ '' ('' @
               show_nat (ru_retries run) @ ''/3)'')] @
     (case ru_session run of
        Some i \<Rightarrow> shown_if (truthy i) [Press ''open the conversation'' False (Open_Session (''/?frontend=dsh&session='' @ encode_uri i))]
      | None \<Rightarrow> []) @
     shown_if (truthy (ru_error run)) [Alert (fe (ru_error run))] @
     shown_if (truthy (ru_result run)) [Shown ''result'', Shown (ru_result run)] @
     shown_if (ru_status run \<in> {''pending'', ''waiting'', ''running''})
       [Press ''cancel the run'' (ap_busy s) (Do_Call (Cancel_Run (au_id row) (ru_id run)))]"

definition auto_row_view ::
  "(string \<Rightarrow> string) \<Rightarrow> (int \<Rightarrow> string) \<Rightarrow> auto_page \<Rightarrow> automation \<Rightarrow> page_click widget list" where
  "auto_row_view fe date_text s row =
     [Shown (au_name row), Shown (if au_enabled row then ''enabled'' else ''paused''),
      Shown (case au_next_run row of Some t \<Rightarrow> ''next run '' @ date_text t | None \<Rightarrow> ''no next run''),
      Press ''edit'' (ap_busy s) (Edit_Row row),
      Press (if au_enabled row then ''pause'' else ''enable'') (ap_busy s)
        (Do_Call (Toggle_Task (au_id row) (au_version row) (\<not> au_enabled row))),
      Press ''run now'' (ap_busy s) (Do_Call (Run_Task (au_id row))),
      Press ''history'' False (Show_History (au_id row)),
      Press ''delete'' (ap_busy s) (Ask_Delete row)] @
     (case jmap_get (ap_history s) (au_id row) of
        None \<Rightarrow> []
      | Some runs \<Rightarrow> (if runs = [] then [Shown ''no runs''] else concat (map (run_view fe date_text s row) runs)))"

definition auto_page_view ::
  "(string \<Rightarrow> string) \<Rightarrow> (int \<Rightarrow> string) \<Rightarrow> automation res_state \<Rightarrow> auto_page \<Rightarrow> page_click widget list" where
  "auto_page_view fe date_text st s =
     [Shown ''let daily work run by itself'', Shown ''once at a time, or by interval, week or cron''] @
     shown_if (ap_editing s = No_Editor) [Press ''new task'' False Open_New] @
     shown_if (rs_loading st) [Shown ''loading''] @ alert_of (rs_error st) @ alert_of (ap_error s) @
     concat (map (auto_row_view fe date_text s) (rs_rows st))"

text \<open>A click; \<open>confirmed\<close> is the answer of the confirmation dialog.\<close>

fun page_perform :: "bool \<Rightarrow> page_click \<Rightarrow> auto_page \<Rightarrow> auto_page" where
  "page_perform confirmed Open_New s = s\<lparr>ap_editing := New_Task\<rparr>"
| "page_perform confirmed (Edit_Row r) s = s\<lparr>ap_editing := Edit_Task r\<rparr>"
| "page_perform confirmed (Do_Call c) s = page_action c s"
| "page_perform confirmed (Ask_Delete r) s = (if confirmed then page_action (Delete_Task (au_id r)) s else s)"
| "page_perform confirmed (Show_History i) s = load_history i s"
| "page_perform confirmed (Open_Session u) s = s"

section \<open>The suggested skill of a run\<close>

datatype skill_call =
    Read_Suggestion string string
  | Import_Skill string string string
  | Bind_Skill string nat string

record suggestion =
  sg_text :: "string option"
  sg_name :: string
  sg_busy :: bool
  sg_error :: string
  sg_ignored :: bool
  sg_installed :: "string option"
  sg_calls :: "skill_call list"
  sg_saved :: nat

definition initial_suggestion :: "automation \<Rightarrow> suggestion" where
  "initial_suggestion row = \<lparr>sg_text = None, sg_name = au_name row @ '' workflow'', sg_busy = False, sg_error = [],
     sg_ignored = False, sg_installed = None, sg_calls = [], sg_saved = 0\<rparr>"

definition preview_start :: "string \<Rightarrow> string \<Rightarrow> suggestion \<Rightarrow> suggestion" where
  "preview_start workspace p s =
     s\<lparr>sg_busy := True, sg_error := [], sg_calls := sg_calls s @ [Read_Suggestion workspace p]\<rparr>"

definition preview_reply :: "(string \<Rightarrow> string) \<Rightarrow> http_error + string \<Rightarrow> suggestion \<Rightarrow> suggestion" where
  "preview_reply fe r s =
     (case r of
        Inr t \<Rightarrow> s\<lparr>sg_text := Some t, sg_busy := False\<rparr>
      | Inl err \<Rightarrow> s\<lparr>sg_error := fe (err_message err), sg_busy := False\<rparr>)"

definition bind_skill :: "automation \<Rightarrow> string \<Rightarrow> suggestion \<Rightarrow> suggestion" where
  "bind_skill row skill s = s\<lparr>sg_calls := sg_calls s @ [Bind_Skill (au_id row) (au_version row) skill]\<rparr>"

definition save_start :: "automation \<Rightarrow> suggestion \<Rightarrow> suggestion" where
  "save_start row s =
     (let s1 = s\<lparr>sg_busy := True, sg_error := []\<rparr>
      in case Option.bind (sg_installed s) nonempty of
           Some skill \<Rightarrow> bind_skill row skill s1
         | None \<Rightarrow> s1\<lparr>sg_calls := sg_calls s1 @
             [Import_Skill (sg_name s) (''from the workflow of the task '' @ au_name row)
                (case sg_text s of Some t \<Rightarrow> t | None \<Rightarrow> ''null'')]\<rparr>)"

text \<open>The answer of the import: whether it is ok, its error and its resource id.\<close>

definition import_reply ::
  "(string \<Rightarrow> string) \<Rightarrow> automation \<Rightarrow> http_error + (bool \<times> string \<times> string) \<Rightarrow> suggestion \<Rightarrow> suggestion" where
  "import_reply fe row r s =
     (case r of
        Inl err \<Rightarrow> s\<lparr>sg_error := fe (err_message err), sg_busy := False\<rparr>
      | Inr (ok, e, resource) \<Rightarrow>
          (if \<not> ok \<or> truthy e \<or> \<not> truthy resource
           then s\<lparr>sg_error := fe (js_or e ''the skill import failed''), sg_busy := False\<rparr>
           else bind_skill row resource (s\<lparr>sg_installed := Some resource\<rparr>)))"

definition bind_reply :: "(string \<Rightarrow> string) \<Rightarrow> http_error + unit \<Rightarrow> suggestion \<Rightarrow> suggestion" where
  "bind_reply fe r s =
     (case r of
        Inr _ \<Rightarrow> s\<lparr>sg_saved := Suc (sg_saved s), sg_busy := False\<rparr>
      | Inl err \<Rightarrow> s\<lparr>sg_error := fe (err_message err), sg_busy := False\<rparr>)"

datatype suggestion_action = Preview_Suggestion | Ignore_Suggestion | Save_Suggestion

definition suggestion_view :: "automation \<Rightarrow> suggestion \<Rightarrow> suggestion_action widget list" where
  "suggestion_view row s =
     shown_if (\<not> sg_ignored s \<and> Option.bind (au_skill row) nonempty = None)
       ([Shown ''this run made a skill suggestion'', Press ''preview'' (sg_busy s) Preview_Suggestion,
         Press ''ignore'' (sg_busy s) Ignore_Suggestion] @
        (case sg_text s of
           None \<Rightarrow> []
         | Some t \<Rightarrow>
             [Field ''suggested name'' (sg_name s) False, Field ''suggested content'' t False,
              Shown (if sg_installed s \<noteq> None then ''the skill is saved, refresh the task and bind it again''
                     else ''check the steps, the next run will use this skill''),
              Press ''save and bind'' (sg_busy s) Save_Suggestion]) @
        alert_of (sg_error s))"

datatype suggestion_event =
    Click_Suggestion suggestion_action
  | Type_Suggestion string string
  | Previewed "http_error + string"
  | Imported "http_error + (bool \<times> string \<times> string)"
  | Bound "http_error + unit"

text \<open>An answer is taken only while its request is the last one sent and unanswered.\<close>

definition awaits :: "(skill_call \<Rightarrow> bool) \<Rightarrow> suggestion \<Rightarrow> bool" where
  "awaits P s = (sg_busy s \<and> sg_calls s \<noteq> [] \<and> P (last (sg_calls s)))"

definition is_import :: "skill_call \<Rightarrow> bool" where
  "is_import c = (case c of Import_Skill _ _ _ \<Rightarrow> True | _ \<Rightarrow> False)"

definition is_bind :: "skill_call \<Rightarrow> bool" where
  "is_bind c = (case c of Bind_Skill _ _ _ \<Rightarrow> True | _ \<Rightarrow> False)"

fun suggestion_step :: "(string \<Rightarrow> string) \<Rightarrow> automation \<Rightarrow> string \<Rightarrow> suggestion_event \<Rightarrow> suggestion \<Rightarrow> suggestion" where
  "suggestion_step fe row path (Click_Suggestion a) s =
     (if \<not> can_press (suggestion_view row s) a then s
      else (case a of
              Preview_Suggestion \<Rightarrow> preview_start (au_workspace row) path s
            | Ignore_Suggestion \<Rightarrow> s\<lparr>sg_ignored := True\<rparr>
            | Save_Suggestion \<Rightarrow> save_start row s))"
| "suggestion_step fe row path (Type_Suggestion n t) s =
     (if sg_text s = None then s else s\<lparr>sg_name := n, sg_text := Some t\<rparr>)"
| "suggestion_step fe row path (Previewed r) s =
     (if awaits (\<lambda>c. \<not> is_import c \<and> \<not> is_bind c) s then preview_reply fe r s else s)"
| "suggestion_step fe row path (Imported r) s = (if awaits is_import s then import_reply fe row r s else s)"
| "suggestion_step fe row path (Bound r) s = (if awaits is_bind s then bind_reply fe r s else s)"

text \<open>Once a skill was imported no further import is sent.\<close>

definition import_count :: "suggestion \<Rightarrow> nat" where
  "import_count s = length (filter is_import (sg_calls s))"

definition suggestion_inv :: "suggestion \<Rightarrow> bool" where
  "suggestion_inv s \<longleftrightarrow> sg_installed s \<noteq> Some [] \<and> (sg_installed s \<noteq> None \<longrightarrow> \<not> awaits is_import s)"

lemmas suggestion_defs = preview_start_def preview_reply_def bind_skill_def save_start_def import_reply_def bind_reply_def
  awaits_def is_import_def is_bind_def import_count_def nonempty_def

lemma suggestion_step_inv:
  assumes "suggestion_inv s"
  shows "suggestion_inv (suggestion_step fe row path ev s) \<and>
    (sg_installed s \<noteq> None \<longrightarrow> sg_installed (suggestion_step fe row path ev s) = sg_installed s \<and>
       import_count (suggestion_step fe row path ev s) = import_count s)"
proof (cases ev)
  case (Click_Suggestion a)
  show ?thesis
  proof (cases "can_press (suggestion_view row s) a")
    case True
    then have idle: "a = Save_Suggestion \<or> a = Preview_Suggestion \<or> a = Ignore_Suggestion" by (cases a) auto
    show ?thesis
    proof (cases "sg_installed s")
      case None
      with assms Click_Suggestion True show ?thesis
        by (cases a) (auto simp: suggestion_inv_def suggestion_defs Let_def)
    next
      case (Some k)
      with assms Click_Suggestion True show ?thesis
        by (cases a) (auto simp: suggestion_inv_def suggestion_defs Let_def)
    qed
  qed (use assms Click_Suggestion in simp)
next
  case (Type_Suggestion n t)
  with assms show ?thesis by (auto simp: suggestion_inv_def suggestion_defs)
next
  case (Previewed r)
  with assms show ?thesis by (cases r) (auto simp: suggestion_inv_def suggestion_defs)
next
  case (Imported r)
  with assms show ?thesis by (cases r) (auto simp: suggestion_inv_def suggestion_defs split: prod.splits)
next
  case (Bound r)
  with assms show ?thesis by (cases r) (auto simp: suggestion_inv_def suggestion_defs)
qed

lemma suggestion_run_inv:
  assumes "suggestion_inv s"
  shows "suggestion_inv (fold (suggestion_step fe row path) evs s) \<and>
    (sg_installed s \<noteq> None \<longrightarrow> sg_installed (fold (suggestion_step fe row path) evs s) = sg_installed s \<and>
       import_count (fold (suggestion_step fe row path) evs s) = import_count s)"
  using assms
proof (induction evs arbitrary: s)
  case (Cons ev evs)
  from suggestion_step_inv [OF Cons.prems, of fe row path ev] Cons.IH [of "suggestion_step fe row path ev s"]
  show ?case by auto
qed simp

section \<open>Properties\<close>

text \<open>Saving an untouched task changes nothing: when everything the task refers to is still offered by the
  form, opening the editor on it and saving sends one update of this task whose fields, schedule
  included, are those of the task.\<close>

lemma untouched_task_saved:
  assumes "row_offered skills sessions targets p r" "find_preset presets (au_preset r) = Some p"
    and "\<forall>t. au_schedule r = Once t \<longrightarrow> au_enabled r \<longrightarrow> now < t"
  shows "ed_sent (editor_submit presets now
      (default_form zone skills sessions targets chosen presets (Some r)) (open_editor (Some r))) =
    [(Some (au_id r), row_body r p)]"
proof -
  have "form_problem now (ed_kind (open_editor (Some r))) (ed_notify (open_editor (Some r)))
      (default_form zone skills sessions targets chosen presets (Some r)) = None"
    using default_problem [OF assms(1)] assms(3) by (simp add: open_editor_def)
  then show ?thesis
    using default_body [OF assms(1,2)] by (simp add: editor_submit_def open_editor_def)
qed

definition witness_task :: automation where
  "witness_task = \<lparr>au_id = ''t1'', au_version = 3, au_name = ''report'', au_enabled = True,
     au_schedule = Weekly [Some 1, Some 5] (Some 9) (Some 30) ''UTC'', au_preset = ''p'', au_workspace = ''w'',
     au_skill = None, au_input = ''write it'', au_policy = ''always'', au_notify = False, au_target = None,
     au_mode = ''new_conversation'', au_conversation = None, au_next_run = None\<rparr>"

definition witness_preset :: preset where
  "witness_preset = \<lparr>ps_id = ''p'', ps_name = ''P'', ps_engine = ''codex'', ps_enabled = True, ps_catalog = None\<rparr>"

theorem untouched_task_saved_witness:
  "ed_sent (editor_submit [witness_preset] 0
      (default_form ''UTC'' [] [] [] None [witness_preset] (Some witness_task)) (open_editor (Some witness_task))) =
    [(Some ''t1'', row_body witness_task witness_preset)]"
proof -
  have "row_offered [] [] [] witness_preset witness_task"
    by (simp add: row_offered_def witness_task_def schedule_ok_def upt_conv_Cons js_trim_def js_space_def
        eval_nat_numeral)
  moreover have "find_preset [witness_preset] (au_preset witness_task) = Some witness_preset"
    by (simp add: find_preset_def witness_task_def witness_preset_def)
  moreover have "\<forall>t. au_schedule witness_task = Once t \<longrightarrow> au_enabled witness_task \<longrightarrow> 0 < t"
    by (simp add: witness_task_def)
  ultimately show ?thesis
    using untouched_task_saved [of "[]" "[]" "[]" witness_preset witness_task "[witness_preset]" 0 "''UTC''" None]
    by (simp add: witness_task_def)
qed

text \<open>The form refuses what cannot run: a task is sent exactly when a one-off time is valid, and in the
  future if the task is enabled, a weekly task has a day, and a message notification has a chat;
  what is sent names a conversation exactly when the task continues one.\<close>

lemma editor_sends_valid:
  "(ed_sent (editor_submit presets now f e) \<noteq> ed_sent e \<longleftrightarrow>
     (ed_kind e = ''once'' \<longrightarrow> (\<exists>t. fm_once f = Some t \<and> (fm_enabled f \<longrightarrow> now < t))) \<and>
     (ed_kind e = ''weekly'' \<longrightarrow> fm_days f \<noteq> []) \<and>
     (ed_notify e \<longrightarrow> entry_or (fm_target f) [] \<noteq> [])) \<and>
   (tb_conversation (form_body presets e f) \<noteq> None \<longleftrightarrow> ed_mode e = ''existing'') \<and>
   (tb_target (form_body presets e f) \<noteq> None \<longleftrightarrow> ed_notify e)"
  by (auto simp: editor_submit_def form_problem_def form_body_def Let_def not_less split: option.splits)

theorem editor_sends_valid_witness:
  "ed_sent (editor_submit [] 5 (default_form ''UTC'' [] [] [] None [] None\<lparr>fm_once := Some 5\<rparr>)
     (open_editor None\<lparr>ed_kind := ''once''\<rparr>)) = []"
  using editor_sends_valid [of "[]" 5 "default_form ''UTC'' [] [] [] None [] None\<lparr>fm_once := Some 5\<rparr>"
      "open_editor None\<lparr>ed_kind := ''once''\<rparr>"]
  by (simp add: default_form_def Let_def open_editor_def)

text \<open>A finished save closes another task's editor: while the save of one task is unanswered the edit
  buttons of the others are enabled, and when it is answered the editor opened meanwhile on
  another task is closed with whatever was typed into it.\<close>

lemma save_closes_other_editor:
  assumes "\<not> ap_busy s" "b \<in> set (rs_rows st)"
  shows "can_press (auto_page_view fe date_text st s) (Edit_Row b) \<and>
    ap_editing (page_perform c (Edit_Row b) s) = Edit_Task b \<and>
    ap_editing (editor_saved (Edit_Task a) (page_perform c (Edit_Row b) s)) = No_Editor \<and>
    editor_key (editor_saved (Edit_Task a) (page_perform c (Edit_Row b) s)) = None"
  using assms by (auto simp: auto_page_view_def auto_row_view_def editor_saved_def editor_key_def)

theorem save_closes_other_editor_witness:
  "can_press (auto_page_view id (\<lambda>_. []) \<lparr>rs_loading = False, rs_rows = [witness_task], rs_error = []\<rparr> initial_auto_page)
     (Edit_Row witness_task)"
  using save_closes_other_editor [of initial_auto_page witness_task
      "\<lparr>rs_loading = False, rs_rows = [witness_task], rs_error = []\<rparr>" id "\<lambda>_. []"]
  by (simp add: initial_auto_page_def)

text \<open>A suggested skill is imported once: from the moment an import succeeded, however often binding it
  fails and is tried again, no other import is sent.\<close>

lemma skill_imported_once:
  assumes "sg_installed (fold (suggestion_step fe row path) evs (initial_suggestion row)) \<noteq> None"
  shows "import_count (fold (suggestion_step fe row path) (evs @ more_evs) (initial_suggestion row)) =
    import_count (fold (suggestion_step fe row path) evs (initial_suggestion row))"
proof -
  have "suggestion_inv (initial_suggestion row)" by (simp add: suggestion_inv_def initial_suggestion_def)
  then have "suggestion_inv (fold (suggestion_step fe row path) evs (initial_suggestion row))"
    using suggestion_run_inv by blast
  from suggestion_run_inv [OF this, of fe row path more_evs] assms show ?thesis by simp
qed

definition witness_import :: "suggestion_event list" where
  "witness_import = [Click_Suggestion Preview_Suggestion, Previewed (Inr ''text''), Click_Suggestion Save_Suggestion,
     Imported (Inr (True, [], ''k''))]"

theorem skill_imported_once_witness:
  "import_count (fold (suggestion_step id witness_task ''p'')
     (witness_import @ [Bound (Inl (plain_error ''Error'' ''conflict'')), Click_Suggestion Save_Suggestion])
     (initial_suggestion witness_task)) =
   import_count (fold (suggestion_step id witness_task ''p'') witness_import (initial_suggestion witness_task))"
  by (rule skill_imported_once)
    (simp add: witness_import_def initial_suggestion_def suggestion_defs suggestion_view_def witness_task_def Let_def)

end
