(* ===== verification/Teams.thy ===== *)
theory Teams
  imports Automations "HOL-Library.Multiset"
begin

text \<open>
  The team page, \<^verbatim>\<open>features/teams/page.js\<close> (\<open>TeamsPage\<close>): creating teams, the member list, the pending team
  action with its form, the details of a team (tasks, messages, events, runs) with its event stream,
  and what is shown.

  Every change goes through \<open>mutate\<close> of \<^verbatim>\<open>platform/api.js\<close>: it clears the error, sends the call, then runs
  a refresh and reports whether the call succeeded. A call waiting for its answer carries what
  follows it (\<open>follow\<close>); \<open>tp_loading\<close> are the details being loaded, with the flag that the action form
  closes when they are there.
\<close>

section \<open>Data\<close>

record team_member =
  tm_id :: string
  tm_name :: string
  tm_role :: string
  tm_status :: string
  tm_session :: "string option"
  tm_preset :: string

record team =
  tg_id :: string
  tg_name :: string
  tg_version :: nat
  tg_mode :: string
  tg_members :: "team_member list"

record team_task =
  tt_id :: string
  tt_title :: string
  tt_status :: string
  tt_member :: string
  tt_result :: string
  tt_depends :: "string list"
  tt_error :: string
  tt_session :: string

record team_run =
  rn_run :: string
  rn_status :: string
  rn_input :: string
  rn_segment :: nat
  rn_dispatched :: nat
  rn_reason :: string
  rn_result :: string

record team_event =
  tv_id :: string
  tv_type :: string

record team_details =
  dt_tasks :: "team_task list"
  dt_messages :: "(string \<times> string) list"
  dt_events :: "team_event list"
  dt_runs :: "team_run list"

datatype team_kind = Member_Action | Run_Action | Task_Action | Mail_Action

datatype team_call =
    Create_Team string string string "string option" string "string option"
  | Start_Run string string string
  | Add_Member string string string string "string option"
  | Add_Task string string string
  | Send_Mail string string
  | Cancel_Task string string
  | Rename_Member string string string
  | Remove_Member string string
  | Reorder_Members string nat "string list"
  | Pause_Run string string
  | Resume_Run string string
  | Stop_Run string string

datatype follow = Then_List bool | Then_Details team bool

record team_page =
  tp_details :: "(string \<times> team_details) list"
  tp_selected :: "team option"
  tp_action :: "(team_kind \<times> team) option"
  tp_value :: string
  tp_operation :: string
  tp_engine :: string
  tp_preset :: string
  tp_target :: string
  tp_error :: string
  tp_calls :: "team_call list"
  tp_refreshes :: nat
  tp_loading :: "(team \<times> bool) list"

definition initial_team_page :: team_page where
  "initial_team_page = \<lparr>tp_details = [], tp_selected = None, tp_action = None, tp_value = [], tp_operation = [],
     tp_engine = ''codex'', tp_preset = [], tp_target = [], tp_error = [], tp_calls = [], tp_refreshes = 0,
     tp_loading = []\<rparr>"

section \<open>Calls and refreshes\<close>

definition team_call :: "team_call \<Rightarrow> team_page \<Rightarrow> team_page" where
  "team_call c s = s\<lparr>tp_error := [], tp_calls := tp_calls s @ [c]\<rparr>"

definition team_refresh :: "team_page \<Rightarrow> team_page" where
  "team_refresh s = s\<lparr>tp_refreshes := Suc (tp_refreshes s)\<rparr>"

definition load_details :: "team \<Rightarrow> bool \<Rightarrow> team_page \<Rightarrow> team_page" where
  "load_details t closes s = s\<lparr>tp_selected := Some t, tp_loading := tp_loading s @ [(t, closes)]\<rparr>"

definition close_form :: "bool \<Rightarrow> team_page \<Rightarrow> team_page" where
  "close_form closes s = (if closes then s\<lparr>tp_action := None\<rparr> else s)"

definition load_details_reply ::
  "team \<Rightarrow> bool \<Rightarrow> http_error + team_details \<Rightarrow> team_page \<Rightarrow> team_page" where
  "load_details_reply t closes r s =
     close_form closes
       (case r of
          Inr d \<Rightarrow> s\<lparr>tp_details := jmap_set (tg_id t) d (tp_details s)\<rparr>
        | Inl err \<Rightarrow> s\<lparr>tp_error := err_message err\<rparr>)"

definition team_reply :: "follow \<Rightarrow> http_error + unit \<Rightarrow> team_page \<Rightarrow> team_page" where
  "team_reply f r s =
     (case r of
        Inl err \<Rightarrow> s\<lparr>tp_error := err_message err\<rparr>
      | Inr _ \<Rightarrow> (case f of Then_List closes \<Rightarrow> close_form closes (team_refresh s)
                        | Then_Details t closes \<Rightarrow> load_details t closes s))"

text \<open>An event of the stream: reload, and append the event itself unless it is known. \<open>None\<close> does not parse.\<close>

definition add_event :: "string \<Rightarrow> team_event \<Rightarrow> (string \<times> team_details) list \<Rightarrow> (string \<times> team_details) list" where
  "add_event i ev m =
     (case jmap_get m i of
        None \<Rightarrow> m
      | Some d \<Rightarrow> (if tv_id ev \<in> tv_id ` set (dt_events d) then m
                  else jmap_set i (d\<lparr>dt_events := dt_events d @ [ev]\<rparr>) m))"

definition receive_event :: "team_event option \<Rightarrow> team_page \<Rightarrow> team_page" where
  "receive_event ev s =
     (case tp_selected s of
        None \<Rightarrow> s
      | Some t \<Rightarrow>
          (let s1 = load_details t False (team_refresh s)
           in case ev of None \<Rightarrow> s1 | Some e \<Rightarrow> s1\<lparr>tp_details := add_event (tg_id t) e (tp_details s1)\<rparr>))"

section \<open>Handlers\<close>

definition create_team :: "preset list \<Rightarrow> string \<Rightarrow> string \<Rightarrow> string \<Rightarrow> string \<Rightarrow> team_page \<Rightarrow> team_page" where
  "create_team presets name workspace lead_name preset s =
     (let p = find_preset presets preset; engine = map_option ps_engine p
      in team_call (Create_Team name workspace lead_name engine preset
           (if engine = Some ''acp'' then Option.bind p ps_catalog else None)) s)"

text \<open>\<open>random\<close> is the fresh operation id of 32 hexadecimal digits. A team always has its lead.\<close>

definition begin_team_action :: "string \<Rightarrow> team_kind \<Rightarrow> team \<Rightarrow> team_page \<Rightarrow> team_page option" where
  "begin_team_action random kind t s =
     (case tg_members t of
        [] \<Rightarrow> None
      | lead # _ \<Rightarrow> Some (s\<lparr>tp_action := Some (kind, t), tp_value := [], tp_operation := random,
                            tp_engine := ''codex'', tp_preset := tm_preset lead, tp_target := tm_id lead\<rparr>))"

definition action_call :: "preset list \<Rightarrow> team_kind \<Rightarrow> team \<Rightarrow> string \<Rightarrow> team_page \<Rightarrow> team_call" where
  "action_call presets kind t v s =
     (case kind of
        Run_Action \<Rightarrow> Start_Run (tg_id t) v (tp_operation s)
      | Member_Action \<Rightarrow> Add_Member (tg_id t) v (tp_engine s) (tp_preset s)
          (if tp_engine s = ''acp'' then Option.bind (find_preset presets (tp_preset s)) ps_catalog else None)
      | Task_Action \<Rightarrow> Add_Task (tg_id t) (tp_target s) v
      | Mail_Action \<Rightarrow> Send_Mail (tg_id t) v)"

definition action_follow :: "team_kind \<Rightarrow> team \<Rightarrow> follow" where
  "action_follow kind t = (if kind = Member_Action then Then_List True else Then_Details t True)"

definition submit_team_action :: "preset list \<Rightarrow> team_page \<Rightarrow> team_page \<times> follow option" where
  "submit_team_action presets s =
     (let v = js_trim (tp_value s)
      in case tp_action s of
           None \<Rightarrow> (s, None)
         | Some (kind, t) \<Rightarrow>
             (if \<not> truthy v then (s, None)
              else (team_call (action_call presets kind t v s) s, Some (action_follow kind t))))"

definition cancel_task :: "team \<Rightarrow> team_task \<Rightarrow> team_page \<Rightarrow> team_page \<times> follow option" where
  "cancel_task t task s = (team_call (Cancel_Task (tg_id t) (tt_id task)) s, Some (Then_Details t False))"

definition rename_member :: "team \<Rightarrow> team_member \<Rightarrow> string \<Rightarrow> team_page \<Rightarrow> team_page \<times> follow option" where
  "rename_member t m name s =
     (if truthy (js_trim name)
      then (team_call (Rename_Member (tg_id t) (tm_id m) (js_trim name)) s, Some (Then_List False)) else (s, None))"

definition remove_member :: "bool \<Rightarrow> team \<Rightarrow> team_member \<Rightarrow> team_page \<Rightarrow> team_page \<times> follow option" where
  "remove_member confirmed t m s =
     (if confirmed then (team_call (Remove_Member (tg_id t) (tm_id m)) s, Some (Then_List False)) else (s, None))"

definition swapped_ids :: "team \<Rightarrow> nat \<Rightarrow> string list" where
  "swapped_ids t i =
     (let ids = map tm_id (tg_members t) in ids[i - 1 := ids ! i, i := ids ! (i - 1)])"

definition move_member_up :: "team \<Rightarrow> nat \<Rightarrow> team_page \<Rightarrow> team_page \<times> follow option" where
  "move_member_up t i s =
     (team_call (Reorder_Members (tg_id t) (tg_version t) (swapped_ids t i)) s, Some (Then_List False))"

definition toggle_run :: "team \<Rightarrow> team_run \<Rightarrow> team_page \<Rightarrow> team_page \<times> follow option" where
  "toggle_run t r s =
     (team_call (if rn_status r = ''running'' then Pause_Run (tg_id t) (rn_run r) else Resume_Run (tg_id t) (rn_run r)) s,
      Some (Then_Details t False))"

definition stop_run :: "team \<Rightarrow> team_run \<Rightarrow> team_page \<Rightarrow> team_page \<times> follow option" where
  "stop_run t r s = (team_call (Stop_Run (tg_id t) (rn_run r)) s, Some (Then_Details t False))"

section \<open>What is shown\<close>

datatype team_click =
    Begin_Action team_kind team | Submit_Action | Close_Action | Load_Team team | Cancel_Team_Task team team_task
  | Rename_Click team team_member | Remove_Click team team_member | Up_Click team nat
  | Toggle_Run team team_run | Stop_Click team team_run | Visit string | Create_Click

definition session_link :: "string \<Rightarrow> string \<Rightarrow> team_click widget list" where
  "session_link text i = shown_if (truthy i) [Press text False (Visit (''/?frontend=dsh&session='' @ encode_uri i))]"

text \<open>\<open>activity\<close> is the state of the member's session, when that is loaded.\<close>

definition member_view :: "(string \<Rightarrow> string option) \<Rightarrow> team \<Rightarrow> nat \<Rightarrow> team_member \<Rightarrow> team_click widget list" where
  "member_view activity t i m =
     [Shown (tm_name m), Shown (if tm_role m = ''lead'' then ''lead'' else ''member'')] @
     label_widget (display_value (entry_or (Option.bind (tm_session m) activity) (tm_status m)) []) @
     session_link ''open the conversation'' (entry_or (tm_session m) []) @
     [Field ''member name'' (tm_name m) False, Press ''rename'' False (Rename_Click t m)] @
     shown_if (tm_role m \<noteq> ''lead'') [Press ''remove'' (tm_status m = ''running'') (Remove_Click t m)] @
     shown_if (1 < i) [Press ''move up'' False (Up_Click t i)]"

definition run_status_text :: "string \<Rightarrow> string" where
  "run_status_text st = entry_or (jmap_get
     [(''running'', ''the team is working''), (''paused'', ''paused''), (''paused_limit'', ''limit of this segment reached''),
      (''completed'', ''completed''), (''cancelled'', ''cancelled''), (''interrupted'', ''interrupted, waiting'')] st) []"

definition team_run_view :: "team \<Rightarrow> team_run \<Rightarrow> team_click widget list" where
  "team_run_view t r =
     [Shown (run_status_text (rn_status r)), Shown (rn_input r),
      Shown (''segment '' @ show_nat (rn_segment r) @ '', '' @ show_nat (rn_dispatched r) @ ''/64 turns'')] @
     shown_if (rn_status r = ''paused_limit'') [Shown ''going on starts a new segment''] @
     shown_if (rn_reason r = ''dependency_failed'') [Shown ''an earlier task failed, the later ones wait''] @
     shown_if (truthy (rn_result r)) [Shown (rn_result r)] @
     shown_if (rn_status r \<notin> {''completed'', ''cancelled''})
       [Press (if rn_status r = ''running'' then ''pause'' else ''go on'') False (Toggle_Run t r),
        Press ''cancel the run'' False (Stop_Click t r),
        Shown ''pausing stops later turns, cancelling also stops running ones'']"

definition team_task_view :: "(string \<Rightarrow> string) \<Rightarrow> team \<Rightarrow> team_details \<Rightarrow> team_task \<Rightarrow> team_click widget list" where
  "team_task_view fe t d k =
     Shown (tt_title k) # label_widget (display_value (tt_status k) []) @
     [Shown (''done by '' @ entry_or (map_option tm_name (find (\<lambda>m. tm_id m = tt_member k) (tg_members t)))
                          ''a removed member'')] @
     shown_if (truthy (tt_result k)) [Shown (tt_result k)] @
     shown_if (tt_depends k \<noteq> [])
       [Shown (''after '' @ join_with '', '' (map (\<lambda>i. entry_or (map_option tt_title (find (\<lambda>x. tt_id x = i) (dt_tasks d))) i)
                                              (tt_depends k)))] @
     shown_if (truthy (tt_error k)) [Alert (fe (tt_error k))] @
     session_link ''see the conversation'' (tt_session k) @
     [Press ''cancel the task'' (tt_status k \<notin> {''queued'', ''running''}) (Cancel_Team_Task t k)]"

definition team_details_view :: "(string \<Rightarrow> string) \<Rightarrow> team \<Rightarrow> team_details \<Rightarrow> team_click widget list" where
  "team_details_view fe t d =
     concat (map (team_run_view t) (dt_runs d)) @
     [Shown (show_nat (length (dt_tasks d)) @ '' tasks, '' @ show_nat (length (dt_messages d)) @ '' messages, '' @
             show_nat (length (dt_events d)) @ '' events'')] @
     concat (map (team_task_view fe t d) (dt_tasks d)) @
     map (\<lambda>m. Shown (snd m)) (dt_messages d) @
     concat (map (\<lambda>e. label_widget (display_value (tv_type e) [])) (dt_events d))"

definition team_view :: "(string \<Rightarrow> string) \<Rightarrow> (string \<Rightarrow> string option) \<Rightarrow> team_page \<Rightarrow> team \<Rightarrow> team_click widget list" where
  "team_view fe activity s t =
     Shown (tg_name t) # Shown (show_nat (length (tg_members t)) @ '' members'') #
     label_widget (display_value (tg_mode t) ''independent sessions'') @
     concat (map (\<lambda>i. member_view activity t i (tg_members t ! i)) [0..<length (tg_members t)]) @
     [Press ''add a member'' False (Begin_Action Member_Action t),
      Press ''give to the team'' False (Begin_Action Run_Action t),
      Press ''assign a task'' False (Begin_Action Task_Action t),
      Press ''messages and events'' False (Load_Team t),
      Press ''send a message'' False (Begin_Action Mail_Action t)] @
     (case jmap_get (tp_details s) (tg_id t) of None \<Rightarrow> [] | Some d \<Rightarrow> team_details_view fe t d)"

definition engine_options :: "(string \<times> string) list" where
  "engine_options = [(''harness'', ''general engine''), (''codex'', ''Codex''), (''kimi'', ''Kimi''), (''acp'', ''ACP engine'')]"

definition member_presets :: "preset list \<Rightarrow> team_page \<Rightarrow> (string \<times> string) list" where
  "member_presets presets s = ([], ''choose an assistant'') #
     map (\<lambda>p. (ps_id p, ps_name p)) (filter (\<lambda>p. ps_enabled p \<and> ps_engine p = tp_engine s) presets)"

definition choose_engine :: "string \<Rightarrow> team_page \<Rightarrow> team_page" where
  "choose_engine e s = s\<lparr>tp_engine := e, tp_preset := []\<rparr>"

definition team_form :: "team_page \<Rightarrow> team_click widget list" where
  "team_form s =
     (case tp_action s of
        None \<Rightarrow> []
      | Some (kind, t) \<Rightarrow>
          [Field (case kind of Member_Action \<Rightarrow> ''member name'' | Task_Action \<Rightarrow> ''task title''
                    | Mail_Action \<Rightarrow> ''message to the team'' | Run_Action \<Rightarrow> ''goal of the team'') (tp_value s) False,
           Press ''confirm'' False Submit_Action, Press ''cancel'' False Close_Action] @
          shown_if (kind = Task_Action) [Field ''member'' (tp_target s) False] @
          shown_if (kind = Member_Action)
            [Field ''engine'' (tp_engine s) False, Field ''assistant'' (tp_preset s) False])"

definition team_page_view ::
  "(string \<Rightarrow> string) \<Rightarrow> (string \<Rightarrow> string option) \<Rightarrow> team res_state \<Rightarrow> team_page \<Rightarrow> team_click widget list" where
  "team_page_view fe activity st s =
     [Field ''team name'' [] False, Field ''lead name'' [] False, Field ''project'' [] False, Field ''assistant'' [] False,
      Press ''create the team'' False Create_Click] @
     alert_of (tp_error s) @ shown_if (rs_loading st) [Shown ''loading''] @ alert_of (rs_error st) @
     concat (map (team_view fe activity s) (rs_rows st)) @ team_form s"

section \<open>Lemmas\<close>

lemma swapped_ids_mset:
  assumes "0 < i" "i < length (tg_members t)"
  shows "mset (swapped_ids t i) = mset (map tm_id (tg_members t))"
  using assms mset_swap [of i "map tm_id (tg_members t)" "i - 1"] by (simp add: swapped_ids_def Let_def)

lemma swapped_ids_nth:
  assumes "0 < i" "i < length (tg_members t)" "j < length (tg_members t)"
  shows "swapped_ids t i ! j = tm_id (tg_members t ! (if j = i then i - 1 else if j = i - 1 then i else j))"
  using assms by (auto simp: swapped_ids_def Let_def nth_list_update)

definition events_distinct :: "(string \<times> team_details) list \<Rightarrow> bool" where
  "events_distinct m \<longleftrightarrow> (\<forall>i d. jmap_get m i = Some d \<longrightarrow> distinct (map tv_id (dt_events d)))"

lemma add_event_distinct: "events_distinct m \<Longrightarrow> events_distinct (add_event i ev m)"
  by (auto simp: events_distinct_def add_event_def jmap_simps split: option.splits)

lemma add_event_again: "add_event i ev (add_event i ev m) = add_event i ev m"
  by (auto simp: add_event_def jmap_simps split: option.splits)

lemma events_distinct_set: "events_distinct m \<Longrightarrow> distinct (map tv_id (dt_events d)) \<Longrightarrow> events_distinct (jmap_set i d m)"
  by (auto simp: events_distinct_def jmap_simps)

text \<open>Runs of the page: the stream, the answers and the form, with the calls still waiting.\<close>

datatype team_page_event =
    Stream "team_event option"
  | Details_Answer team bool "http_error + team_details"
  | Call_Answer follow "http_error + unit"
  | Open_Details team
  | Type_Value string
  | Begin string team_kind team
  | Submit
  | Close

fun team_step :: "preset list \<Rightarrow> team_page_event \<Rightarrow> team_page \<Rightarrow> team_page" where
  "team_step presets (Stream ev) s = receive_event ev s"
| "team_step presets (Details_Answer t closes r) s = load_details_reply t closes r s"
| "team_step presets (Call_Answer f r) s = team_reply f r s"
| "team_step presets (Open_Details t) s = load_details t False s"
| "team_step presets (Type_Value v) s = s\<lparr>tp_value := v\<rparr>"
| "team_step presets (Begin random kind t) s =
     (case begin_team_action random kind t s of None \<Rightarrow> s | Some s' \<Rightarrow> s')"
| "team_step presets Submit s = fst (submit_team_action presets s)"
| "team_step presets Close s = s\<lparr>tp_action := None\<rparr>"

definition answers_distinct :: "team_page_event \<Rightarrow> bool" where
  "answers_distinct e = (case e of Details_Answer t c (Inr d) \<Rightarrow> distinct (map tv_id (dt_events d)) | _ \<Rightarrow> True)"

lemma team_step_details:
  assumes "events_distinct (tp_details s)" "answers_distinct e"
  shows "events_distinct (tp_details (team_step presets e s))"
proof (cases e)
  case (Stream ev)
  then show ?thesis
    using assms(1) by (auto simp: receive_event_def Let_def load_details_def team_refresh_def intro: add_event_distinct
        split: option.splits)
next
  case (Details_Answer t closes r)
  with assms show ?thesis
    by (cases r) (auto simp: load_details_reply_def close_form_def answers_distinct_def intro: events_distinct_set)
next
  case (Call_Answer f r)
  with assms show ?thesis
    by (cases r; cases f) (auto simp: team_reply_def close_form_def team_refresh_def load_details_def)
qed (use assms in \<open>auto simp: load_details_def begin_team_action_def submit_team_action_def team_call_def Let_def
      split: option.splits list.splits\<close>)

lemma events_distinct_run:
  assumes "events_distinct (tp_details s)" "\<And>e. e \<in> set es \<Longrightarrow> answers_distinct e"
  shows "events_distinct (tp_details (fold (team_step presets) es s))"
  using assms by (induction es arbitrary: s) (auto intro: team_step_details)

section \<open>Properties\<close>

text \<open>Moving a member up sends a permutation of the same members in which exactly this member and the one
  before it have changed places; as the button is offered only from the third member on, the lead
  stays first.\<close>

lemma move_up_permutes:
  assumes "can_press (team_view fe activity s t) (Up_Click t i)"
  shows "mset (swapped_ids t i) = mset (map tm_id (tg_members t)) \<and>
    hd (swapped_ids t i) = tm_id (hd (tg_members t)) \<and>
    swapped_ids t i ! (i - 1) = tm_id (tg_members t ! i) \<and> swapped_ids t i ! i = tm_id (tg_members t ! (i - 1)) \<and>
    tp_calls (fst (move_member_up t i s)) = tp_calls s @ [Reorder_Members (tg_id t) (tg_version t) (swapped_ids t i)]"
proof -
  have label: "\<not> can_press (label_widget x) a" for x and a :: team_click
    by (cases x) (simp_all add: label_widget_def)
  have link: "\<not> can_press (session_link x y) (Up_Click t i)" for x y by (simp add: session_link_def)
  have "\<not> can_press (team_details_view fe t d) (Up_Click t i)" for d
  proof -
    have "\<not> can_press (map (\<lambda>m. Shown (snd m)) ms) (Up_Click t i)" for ms :: "(string \<times> string) list"
      by (induction ms) auto
    then show ?thesis
      by (simp add: team_details_view_def team_run_view_def team_task_view_def label link)
  qed
  with assms have i: "1 < i" "i < length (tg_members t)"
    by (auto simp: team_view_def member_view_def label link split: option.splits)
  have len: "length (swapped_ids t i) = length (tg_members t)" by (simp add: swapped_ids_def Let_def)
  have "swapped_ids t i ! 0 = tm_id (tg_members t ! 0)" using swapped_ids_nth [of i t 0] i by (cases "tg_members t") auto
  then have "hd (swapped_ids t i) = tm_id (hd (tg_members t))"
    using i len by (metis hd_conv_nth length_0_conv less_zeroE)
  with i swapped_ids_mset [of i t] swapped_ids_nth [of i t i] swapped_ids_nth [of i t "i - 1"] show ?thesis
    by (simp add: move_member_up_def team_call_def)
qed

definition witness_team :: team where
  "witness_team = \<lparr>tg_id = ''g'', tg_name = ''G'', tg_version = 2, tg_mode = [], tg_members =
     map (\<lambda>i. \<lparr>tm_id = i, tm_name = i, tm_role = (if i = ''a'' then ''lead'' else ''member''), tm_status = ''idle'',
                 tm_session = None, tm_preset = ''p''\<rparr>) [''a'', ''b'', ''c'']\<rparr>"

theorem move_up_permutes_witness: "swapped_ids witness_team 2 ! 1 = ''c'' \<and> hd (swapped_ids witness_team 2) = ''a''"
proof -
  have "can_press (team_view id (\<lambda>_. None) initial_team_page witness_team) (Up_Click witness_team 2)"
    by (simp add: team_view_def member_view_def witness_team_def eval_nat_numeral upt_conv_Cons)
  from move_up_permutes [OF this] show ?thesis by (simp add: witness_team_def eval_nat_numeral)
qed

text \<open>No event of a team is listed twice: if the lists the server answers have distinct events, then
  however the stream repeats events and interleaves with reloads, clicks and answers, the events of
  every team stay distinct.\<close>

lemma team_events_distinct:
  assumes "\<And>e. e \<in> set es \<Longrightarrow> answers_distinct e"
    and "jmap_get (tp_details (fold (team_step presets) es initial_team_page)) i = Some d"
  shows "distinct (map tv_id (dt_events d))"
proof -
  have "events_distinct (tp_details initial_team_page)" by (simp add: events_distinct_def initial_team_page_def)
  from events_distinct_run [OF this assms(1), of es presets] assms(2) show ?thesis
    by (simp add: events_distinct_def)
qed

definition witness_stream :: "team_page_event list" where
  "witness_stream = [Open_Details witness_team,
     Details_Answer witness_team False (Inr \<lparr>dt_tasks = [], dt_messages = [], dt_events = [], dt_runs = []\<rparr>),
     Stream (Some \<lparr>tv_id = ''1'', tv_type = ''task.queued''\<rparr>), Stream (Some \<lparr>tv_id = ''1'', tv_type = ''task.queued''\<rparr>)]"

theorem team_events_distinct_witness:
  "\<exists>d. jmap_get (tp_details (fold (team_step []) witness_stream initial_team_page)) ''g'' = Some d \<and>
     map tv_id (dt_events d) = [''1''] \<and> distinct (map tv_id (dt_events d))"
proof -
  let ?d = "\<lparr>dt_tasks = [], dt_messages = [], dt_events = [\<lparr>tv_id = ''1'', tv_type = ''task.queued''\<rparr>], dt_runs = []\<rparr>"
  have "jmap_get (tp_details (fold (team_step []) witness_stream initial_team_page)) ''g'' = Some ?d"
    by (simp add: witness_stream_def initial_team_page_def load_details_def load_details_reply_def close_form_def
        receive_event_def Let_def team_refresh_def add_event_def jmap_simps witness_team_def)
  moreover from this have "distinct (map tv_id (dt_events ?d))"
    by (rule team_events_distinct [rotated]) (auto simp: witness_stream_def answers_distinct_def)
  ultimately show ?thesis by auto
qed

text \<open>Giving a goal to a team twice starts one run: while the form is open, every submission of the same
  text sends the same operation id, and a blank text sends nothing at all.\<close>

lemma team_run_repeats_operation:
  "(\<not> truthy (js_trim (tp_value s)) \<longrightarrow> fst (submit_team_action presets s) = s) \<and>
   (tp_action s = Some (Run_Action, t) \<and> truthy (js_trim (tp_value s)) \<longrightarrow>
      tp_calls (fst (submit_team_action presets (fst (submit_team_action presets s)))) =
        tp_calls s @ replicate 2 (Start_Run (tg_id t) (js_trim (tp_value s)) (tp_operation s)))"
  by (auto simp: submit_team_action_def Let_def team_call_def action_call_def numeral_2_eq_2 split: option.split)

theorem team_run_repeats_operation_witness:
  "tp_calls (fst (submit_team_action [] (fst (submit_team_action []
     (initial_team_page\<lparr>tp_action := Some (Run_Action, witness_team), tp_value := ''go'', tp_operation := ''7''\<rparr>))))) =
   replicate 2 (Start_Run ''g'' ''go'' ''7'')"
  using team_run_repeats_operation [of "initial_team_page\<lparr>tp_action := Some (Run_Action, witness_team),
      tp_value := ''go'', tp_operation := ''7''\<rparr>" "[]" witness_team]
  by (simp add: js_trim_def js_space_def initial_team_page_def witness_team_def)

text \<open>A finished action closes another action's form: when the form of one action is cancelled while its
  call is unanswered and the form of another action is opened, the answer of the first closes the
  second with what was typed into it.\<close>

lemma team_answer_closes_other_form:
  assumes "tp_action s = Some (Member_Action, t)" "truthy (js_trim (tp_value s))" "tg_members t' \<noteq> []"
    and "submit_team_action presets s = (s1, Some f)"
    and "begin_team_action random kind t' (s1\<lparr>tp_action := None\<rparr>) = Some s2"
  shows "tp_action (s2\<lparr>tp_value := text\<rparr>) = Some (kind, t') \<and>
    tp_action (team_reply f (Inr ()) (s2\<lparr>tp_value := text\<rparr>)) = None"
  using assms
  by (auto simp: submit_team_action_def Let_def action_follow_def begin_team_action_def team_reply_def close_form_def
      team_refresh_def split: list.splits)

theorem team_answer_closes_other_form_witness:
  "\<exists>s2. tp_action s2 = Some (Mail_Action, witness_team) \<and>
     tp_action (team_reply (Then_List True) (Inr ()) s2) = None"
proof -
  let ?s = "initial_team_page\<lparr>tp_action := Some (Member_Action, witness_team), tp_value := ''Ann''\<rparr>"
  obtain s1 where s1: "submit_team_action [] ?s = (s1, Some (Then_List True))"
    by (simp add: submit_team_action_def Let_def js_trim_def js_space_def action_follow_def)
  have m: "tg_members witness_team \<noteq> []" by (simp add: witness_team_def)
  obtain s2 where s2: "begin_team_action ''8'' Mail_Action witness_team (s1\<lparr>tp_action := None\<rparr>) = Some s2"
    by (simp add: begin_team_action_def witness_team_def)
  from team_answer_closes_other_form [OF _ _ m s1 s2, of witness_team "''hello''"] show ?thesis
    by (intro exI [of _ "s2\<lparr>tp_value := ''hello''\<rparr>"]) (simp add: js_trim_def js_space_def)
qed

end
