(* ===== verification/Shared_Composer.thy ===== *)
theory Shared_Composer
  imports Labels "HOL-Library.Sublist"
begin

text \<open>
  Writing in a shared discussion, \<^verbatim>\<open>features/collaboration/shared.js\<close>: \<open>reconcileSharedMentions\<close>, which
  moves the mentions of a text along with an edit, the error texts, and \<open>Composer\<close>, the message box
  with its mention list, attachments and sending.

  A position is an index into the text. \<open>co_sent\<close> logs the messages given to \<open>onSend\<close>; message ids are
  numbered by \<open>co_fresh\<close>. \<open>et\<close> is \<open>errorText\<close> as a text.
\<close>

section \<open>Mentions\<close>

record mention =
  mn_kind :: string
  mn_id :: string
  mn_label :: string
  mn_start :: nat
  mn_end :: nat

text \<open>The first loop: how long the two texts agree.\<close>

function edit_start :: "string \<Rightarrow> string \<Rightarrow> nat \<Rightarrow> nat" where
  "edit_start before after i =
     (if i < length before \<and> i < length after \<and> before ! i = after ! i
      then edit_start before after (Suc i) else i)"
  by pat_completeness auto
termination by (relation "measure (\<lambda>(before, after, i). length before - i)") auto

declare edit_start.simps [simp del]

text \<open>The second loop: back from both ends, not before \<open>start\<close>.\<close>

function edit_end :: "string \<Rightarrow> string \<Rightarrow> nat \<Rightarrow> nat \<Rightarrow> nat \<Rightarrow> nat \<times> nat" where
  "edit_end before after start e n =
     (if start < e \<and> start < n \<and> before ! (e - 1) = after ! (n - 1)
      then edit_end before after start (e - 1) (n - 1) else (e, n))"
  by pat_completeness auto
termination by (relation "measure (\<lambda>(before, after, start, e, n). e)") auto

declare edit_end.simps [simp del]

definition text_slice :: "string \<Rightarrow> nat \<Rightarrow> nat \<Rightarrow> string" where
  "text_slice s a b = take (b - a) (drop a s)"

definition spelled :: "string \<Rightarrow> mention \<Rightarrow> bool" where
  "spelled s m = (text_slice s (mn_start m) (mn_end m) = mn_label m)"

text \<open>A mention behind the edit moves by the change of length, which never takes it below zero there.\<close>

definition move_mention :: "nat \<Rightarrow> nat \<Rightarrow> nat \<Rightarrow> nat \<Rightarrow> mention \<Rightarrow> mention list" where
  "move_mention before_length after_length start e m =
     (if mn_end m \<le> start then [m]
      else if e \<le> mn_start m
      then [m\<lparr>mn_start := mn_start m + after_length - before_length,
              mn_end := mn_end m + after_length - before_length\<rparr>]
      else [])"

definition reconcile_mentions :: "string \<Rightarrow> string \<Rightarrow> mention list \<Rightarrow> mention list" where
  "reconcile_mentions before after mentions =
     (let start = edit_start before after 0;
          e = fst (edit_end before after start (length before) (length after))
      in filter (spelled after) (concat (map (move_mention (length before) (length after) start e) mentions)))"

subsection \<open>Lemmas\<close>

lemma edit_start_props:
  assumes "i \<le> length before" "i \<le> length after" "take i before = take i after"
  shows "i \<le> edit_start before after i \<and> edit_start before after i \<le> length before \<and>
    edit_start before after i \<le> length after \<and>
    take (edit_start before after i) before = take (edit_start before after i) after"
  using assms
proof (induction before after i rule: edit_start.induct)
  case (1 before after i)
  show ?case
  proof (cases "i < length before \<and> i < length after \<and> before ! i = after ! i")
    case True
    then have "take (Suc i) before = take (Suc i) after" using 1 by (simp add: take_Suc_conv_app_nth)
    with 1 True show ?thesis by (subst (1 2 3 4 5) edit_start.simps) auto
  next
    case False
    then show ?thesis using 1 by (subst (1 2 3 4 5) edit_start.simps) auto
  qed
qed

lemma edit_end_props:
  assumes "start \<le> e" "start \<le> n" "e \<le> length before" "n \<le> length after"
    "drop e before = drop n after" "edit_end before after start e n = (e', n')"
  shows "start \<le> e' \<and> e' \<le> e \<and> start \<le> n' \<and> n' \<le> n \<and> drop e' before = drop n' after \<and> n + e' = e + n'"
  using assms
proof (induction before after start e n rule: edit_end.induct)
  case (1 before after start e n)
  show ?case
  proof (cases "start < e \<and> start < n \<and> before ! (e - 1) = after ! (n - 1)")
    case True
    have d: "drop (e - 1) before = drop (n - 1) after"
      using True "1.prems" Cons_nth_drop_Suc [of "e - 1" before] Cons_nth_drop_Suc [of "n - 1" after] by auto
    have step: "edit_end before after start (e - 1) (n - 1) = (e', n')"
      using "1.prems"(6) True by (simp add: edit_end.simps [of before after start e n])
    have "start \<le> e' \<and> e' \<le> e - 1 \<and> start \<le> n' \<and> n' \<le> n - 1 \<and> drop e' before = drop n' after \<and>
        n - 1 + e' = e - 1 + n'"
      by (rule "1.IH" [OF True _ _ _ _ d step]) (use True "1.prems" in auto)
    with True show ?thesis by linarith
  next
    case False
    then have "edit_end before after start e n = (e, n)" by (subst edit_end.simps) (simp only: if_False)
    then show ?thesis using "1.prems" by simp
  qed
qed

text \<open>The two loops split both texts into a common start, the edit and a common end.\<close>

lemma edit_split:
  assumes "start = edit_start before after 0"
    "(e, n) = edit_end before after start (length before) (length after)"
  shows "start \<le> e" "start \<le> n" "e \<le> length before" "n \<le> length after"
    "take start before = take start after" "drop e before = drop n after"
    "length after + e = length before + n"
proof -
  have s: "start \<le> length before" "start \<le> length after" "take start before = take start after"
    using edit_start_props [of 0 before after] assms(1) by auto
  from edit_end_props [OF s(1,2) le_refl le_refl _ assms(2) [symmetric]]
  show "start \<le> e" "start \<le> n" "e \<le> length before" "n \<le> length after" "drop e before = drop n after"
    "length after + e = length before + n" by auto
  show "take start before = take start after" by (rule s(3))
qed

lemma text_slice_take: "b \<le> k \<Longrightarrow> text_slice (take k s) a b = text_slice s a b"
  by (simp add: text_slice_def drop_take min_def)

lemma text_slice_prefix:
  assumes "take k s = take k t" "b \<le> k"
  shows "text_slice s a b = text_slice t a b"
  using assms text_slice_take by metis

lemma text_slice_suffix:
  assumes "drop e s = drop n t" "e \<le> a"
  shows "text_slice s a b = text_slice t (a + n - e) (b + n - e)"
proof -
  have "drop a s = drop (a - e) (drop e s)" using assms(2) by simp
  also have "\<dots> = drop (a + n - e) t" using assms by (simp add: add.commute)
  finally show ?thesis using assms(2) by (cases "b \<le> a") (auto simp: text_slice_def)
qed

lemma move_mention_spelled:
  assumes "start = edit_start before after 0"
    "(e, n) = edit_end before after start (length before) (length after)"
    and "spelled before m" "x \<in> set (move_mention (length before) (length after) start e m)"
  shows "spelled after x"
proof -
  note split = edit_split [OF assms(1,2)]
  show ?thesis
  proof (cases "mn_end m \<le> start")
    case True
    with assms(3,4) text_slice_prefix [OF split(5) True] show ?thesis
      by (auto simp: move_mention_def spelled_def)
  next
    case False
    with assms(4) have x: "e \<le> mn_start m" "x = m\<lparr>mn_start := mn_start m + length after - length before,
        mn_end := mn_end m + length after - length before\<rparr>"
      by (auto simp: move_mention_def split: if_splits)
    have "mn_start m + length after - length before = mn_start m + n - e"
      "mn_end m + length after - length before = mn_end m + n - e" using split(7) by linarith+
    with assms(3) x text_slice_suffix [OF split(6) x(1), of "mn_end m"] show ?thesis
      by (simp add: spelled_def)
  qed
qed

text \<open>For mentions that were spelled before, the final filter drops nothing.\<close>

lemma reconcile_valid:
  assumes "\<forall>m \<in> set mentions. spelled before m"
    and "start = edit_start before after 0"
    and "(e, n) = edit_end before after start (length before) (length after)"
  shows "reconcile_mentions before after mentions =
    concat (map (move_mention (length before) (length after) start e) mentions)"
proof -
  have fst: "fst (edit_end before after start (length before) (length after)) = e" using assms(3) by (metis fst_conv)
  have "\<forall>x \<in> set (concat (map (move_mention (length before) (length after) start e) mentions)). spelled after x"
    using move_mention_spelled [OF assms(2,3)] assms(1) by auto
  then show ?thesis
    unfolding reconcile_mentions_def Let_def assms(2) [symmetric] fst by (rule filter_True)
qed

definition apart :: "mention list \<Rightarrow> bool" where
  "apart ms \<longleftrightarrow> sorted_wrt (\<lambda>a b. mn_end a \<le> mn_start b \<or> mn_end b \<le> mn_start a) ms"

lemma apart_filter: "apart ms \<Longrightarrow> apart (filter P ms)"
  unfolding apart_def by (rule sorted_wrt_filter)

lemma move_mention_apart:
  assumes "mn_end a \<le> mn_start b \<or> mn_end b \<le> mn_start a" "mn_start a < mn_end a" "mn_start b < mn_end b"
    and "start \<le> e" "start \<le> n" "al + e = bl + n"
    and "x \<in> set (move_mention bl al start e a)" "y \<in> set (move_mention bl al start e b)"
  shows "mn_end x \<le> mn_start y \<or> mn_end y \<le> mn_start x"
  using assms by (auto simp: move_mention_def split: if_splits)

lemma reconcile_apart:
  assumes "apart ms" "\<forall>m \<in> set ms. mn_start m < mn_end m"
  shows "apart (reconcile_mentions before after ms)"
proof -
  define start where "start = edit_start before after 0"
  obtain e n where en: "(e, n) = edit_end before after start (length before) (length after)" by (metis surj_pair)
  note split = edit_split [OF start_def en]
  let ?mv = "move_mention (length before) (length after) start e"
  have single: "sorted_wrt R (?mv m)" for R m by (simp add: move_mention_def)
  have "apart (concat (map ?mv ms))"
    using assms
  proof (induction ms)
    case (Cons m ms)
    have "\<forall>x \<in> set (?mv m). \<forall>y \<in> set (concat (map ?mv ms)). mn_end x \<le> mn_start y \<or> mn_end y \<le> mn_start x"
    proof (intro ballI)
      fix x y assume x: "x \<in> set (?mv m)" and "y \<in> set (concat (map ?mv ms))"
      then obtain b where b: "b \<in> set ms" "y \<in> set (?mv b)" by auto
      have "mn_end m \<le> mn_start b \<or> mn_end b \<le> mn_start m" using Cons.prems(1) b(1) by (auto simp: apart_def)
      from move_mention_apart [OF this _ _ split(1,2,7) x b(2)] Cons.prems(2) b(1)
      show "mn_end x \<le> mn_start y \<or> mn_end y \<le> mn_start x" by simp
    qed
    moreover have "apart (concat (map ?mv ms))" using Cons by (simp add: apart_def)
    ultimately show ?case using single by (simp add: apart_def sorted_wrt_append)
  qed (simp add: apart_def)
  then have "apart (filter (spelled after) (concat (map ?mv ms)))" by (rule apart_filter)
  moreover have "fst (edit_end before after start (length before) (length after)) = e" using en by (metis fst_conv)
  ultimately show ?thesis by (simp add: reconcile_mentions_def Let_def start_def [symmetric])
qed

subsection \<open>The edit as a common start and a common end\<close>

lemma longest_common_prefix_empty:
  "longest_common_prefix [] ys = []" "longest_common_prefix xs [] = []"
  by simp (cases xs; simp)

lemma edit_start_lcp:
  "edit_start before after i = i + length (longest_common_prefix (drop i before) (drop i after))"
proof (induction before after i rule: edit_start.induct)
  case (1 before after i)
  show ?case
  proof (cases "i < length before \<and> i < length after")
    case True
    then have "drop i before = before ! i # drop (Suc i) before" "drop i after = after ! i # drop (Suc i) after"
      by (simp_all add: Cons_nth_drop_Suc)
    then show ?thesis using 1 True by (subst edit_start.simps) simp
  next
    case False
    then have "drop i before = [] \<or> drop i after = []" by auto
    then show ?thesis using False by (subst edit_start.simps) (auto simp: longest_common_prefix_empty)
  qed
qed

lemma rev_segment_Cons:
  "start < e \<Longrightarrow> e \<le> length s \<Longrightarrow> rev (drop start (take e s)) = s ! (e - 1) # rev (drop start (take (e - 1) s))"
  by (cases e) (auto simp: take_Suc_conv_app_nth)

lemma edit_end_lcp:
  assumes "start \<le> e" "start \<le> n" "e \<le> length before" "n \<le> length after"
  shows "fst (edit_end before after start e n) =
    e - length (longest_common_prefix (rev (drop start (take e before))) (rev (drop start (take n after))))"
  using assms
proof (induction before after start e n rule: edit_end.induct)
  case (1 before after start e n)
  show ?case
  proof (cases "start < e \<and> start < n")
    case True
    then show ?thesis
      using 1 rev_segment_Cons [of start e before] rev_segment_Cons [of start n after]
      by (subst edit_end.simps) (auto split: if_splits)
  next
    case False
    then have "drop start (take e before) = [] \<or> drop start (take n after) = []" by auto
    then show ?thesis using False by (subst edit_end.simps) (auto simp: longest_common_prefix_empty)
  qed
qed

text \<open>What is meant: the two texts share a longest common start and behind it a longest common end; the
mentions inside these two parts survive, those of the end shifted by the growth of the text.\<close>

definition surviving_mentions :: "string \<Rightarrow> string \<Rightarrow> mention list \<Rightarrow> mention list" where
  "surviving_mentions before after ms =
     (let p = length (longest_common_prefix before after);
          q = length (longest_common_prefix (rev (drop p before)) (rev (drop p after)));
          grown = \<lambda>i. nat (int i + (int (length after) - int (length before)))
      in map (\<lambda>m. if mn_end m \<le> p then m
                  else m\<lparr>mn_start := grown (mn_start m), mn_end := grown (mn_end m)\<rparr>)
           (filter (\<lambda>m. mn_end m \<le> p \<or> length before - q \<le> mn_start m) ms))"

lemma concat_move_mentions:
  "concat (map (move_mention bl al start e) ms) =
   map (\<lambda>m. if mn_end m \<le> start then m
            else m\<lparr>mn_start := nat (int (mn_start m) + (int al - int bl)), mn_end := nat (int (mn_end m) + (int al - int bl))\<rparr>)
     (filter (\<lambda>m. mn_end m \<le> start \<or> e \<le> mn_start m) ms)"
  by (induction ms) (auto simp: move_mention_def nat_diff_distrib' intro: arg_cong2 [where f = "\<lambda>a b. _\<lparr>mn_start := a, mn_end := b\<rparr>"])

lemma reconcile_eq_surviving:
  assumes "list_all (spelled before) ms"
  shows "reconcile_mentions before after ms = surviving_mentions before after ms"
proof -
  let ?start = "edit_start before after 0"
  obtain e n where en: "(e, n) = edit_end before after ?start (length before) (length after)"
    by (metis surj_pair)
  note split = edit_split [OF refl en]
  have start: "?start = length (longest_common_prefix before after)"
    using edit_start_lcp [of before after 0] by simp
  have "fst (edit_end before after ?start (length before) (length after)) = length before -
      length (longest_common_prefix (rev (drop ?start before)) (rev (drop ?start after)))"
    using edit_end_lcp [of ?start "length before" "length after" before after] split(1-4) by simp
  then have e: "e = length before - length (longest_common_prefix (rev (drop ?start before)) (rev (drop ?start after)))"
    using en by (metis fst_conv)
  have "reconcile_mentions before after ms = concat (map (move_mention (length before) (length after) ?start e) ms)"
    by (rule reconcile_valid [OF _ refl en]) (use assms in \<open>simp add: list_all_iff\<close>)
  then show ?thesis by (simp only: surviving_mentions_def Let_def concat_move_mentions e start)
qed

text \<open>C39. Moving mentions along with an edit agrees with its specification: for mentions that are spelled in the
old text, \<open>reconcileSharedMentions\<close>, whose two loops compare characters from both ends, keeps exactly the
mentions inside the longest common start or the longest common end of both texts, the latter shifted by
the growth of the text, and its final filter on the spelling drops none of them.\<close>

theorem reconcile_is_surviving:
  "list_all (spelled before) ms \<Longrightarrow> reconcile_mentions before after ms = surviving_mentions before after ms"
  by (rule reconcile_eq_surviving)

theorem reconcile_is_surviving_witness:
  "let m = \<lparr>mn_kind = ''member'', mn_id = ''7'', mn_label = ''@Bo'', mn_start = 3, mn_end = 6\<rparr>
   in reconcile_mentions ''hi @Bo'' ''hello @Bo'' [m] = surviving_mentions ''hi @Bo'' ''hello @Bo'' [m] \<and>
      surviving_mentions ''hi @Bo'' ''hello @Bo'' [m] = [m\<lparr>mn_start := 6, mn_end := 9\<rparr>]"
  using reconcile_is_surviving [of "''hi @Bo''"
      "[\<lparr>mn_kind = ''member'', mn_id = ''7'', mn_label = ''@Bo'', mn_start = 3, mn_end = 6\<rparr>]" "''hello @Bo''"]
  by (simp add: spelled_def text_slice_def surviving_mentions_def Let_def)

section \<open>Error texts\<close>

definition shared_error_labels :: "(string \<times> string) list" where
  "shared_error_labels =
    [(''shared_invite_already_pending'', ''the invitation was sent and waits for an answer''),
     (''shared_member_already_exists'', ''this employee is a member already''),
     (''invite_target_not_found'', ''this account cannot be invited''),
     (''shared_project_forbidden'', ''you have no access to this project any more''),
     (''shared_project_not_found'', ''the project does not exist or you are no member''),
     (''shared_project_busy'', ''the project is being prepared or moved''),
     (''shared_invite_expired'', ''the invitation has expired''),
     (''shared_invite_link_revoked'', ''the invitation link was revoked''),
     (''shared_invite_link_exhausted'', ''the invitation link was used''),
     (''shared_invite_link_not_found'', ''the invitation link is invalid or expired''),
     (''shared_run_busy'', ''the assistant is working, call it again later''),
     (''shared_assistant_locked'', ''the assistant cannot be exchanged, invite another one''),
     (''shared_assistant_catalog_unavailable'', ''the list of assistants is unavailable''),
     (''invalid_shared_runtime'', ''choose a model and level this assistant supports''),
     (''shared_assistant_not_joined'', ''invite this assistant to the project first''),
     (''shared_assistant_unavailable'', ''this assistant is unavailable''),
     (''shared_context_too_large'', ''the discussion is too long for the assistant''),
     (''shared_context_unavailable'', ''the message was sent but the context cannot be read''),
     (''shared_runtime_not_authorized'', ''the chosen model is not authorized''),
     (''shared_turn_unavailable'', ''the assistant is unavailable for now''),
     (''shared_storage_exceeded'', ''the shared space is used up''),
     (''invalid_shared_mention'', ''the mentioned one has changed, choose again''),
     (''shared_project_conflict'', ''the project has changed, refresh and try again'')]"

definition shared_error_text :: "string \<Rightarrow> js_text" where
  "shared_error_text m =
     (case jmap_get shared_error_labels m of
        Some t \<Rightarrow> Text_Of t
      | None \<Rightarrow> (if m \<in> set object_members then Inherited m else friendly_error m))"

section \<open>The message box\<close>

record candidate =
  ca_kind :: string
  ca_id :: string
  ca_name :: string
  ca_detail :: string

record shared_agent =
  sa_id :: string
  sa_name :: string
  sa_backend :: string

record shared_member =
  sm_id :: string
  sm_display :: string
  sm_username :: string
  sm_role :: string

record outgoing =
  og_body :: string
  og_mentions :: "(string \<times> string) list"
  og_attachments :: "string list"
  og_id :: nat

record composer =
  co_body :: string
  co_mentions :: "mention list"
  co_caret :: nat
  co_choice :: nat
  co_busy :: bool
  co_uploading :: bool
  co_attachments :: "string list"
  co_error :: string
  co_notice :: string
  co_message :: "nat option"
  co_fresh :: nat
  co_sent :: "outgoing list"
  co_batches :: "string list list"

definition initial_composer :: "string \<Rightarrow> composer" where
  "initial_composer text = \<lparr>co_body = text, co_mentions = [], co_caret = length text, co_choice = 0, co_busy = False,
     co_uploading = False, co_attachments = [], co_error = [], co_notice = [], co_message = None, co_fresh = 0,
     co_sent = [], co_batches = []\<rparr>"

text \<open>The pattern \<^verbatim>\<open>/(^|\s)@([^\s@]*)$/u\<close> on the text before the caret, giving its second group.\<close>

definition mention_query :: "string \<Rightarrow> string option" where
  "mention_query s =
     (let word = takeWhile (\<lambda>c. \<not> js_space c \<and> c \<noteq> CHR ''@'') (rev s); rest = drop (length word) (rev s)
      in case rest of
           [] \<Rightarrow> None
         | c # before \<Rightarrow>
             (if c = CHR ''@'' \<and> (case before of [] \<Rightarrow> True | b # _ \<Rightarrow> js_space b) then Some (rev word) else None))"

definition current_query :: "composer \<Rightarrow> string option" where
  "current_query s = mention_query (take (co_caret s) (co_body s))"

definition member_name :: "shared_member \<Rightarrow> string" where
  "member_name m = js_or (sm_display m) (sm_username m)"

definition mention_candidates :: "shared_agent list \<Rightarrow> shared_member list \<Rightarrow> composer \<Rightarrow> candidate list" where
  "mention_candidates agents members s =
     (case current_query s of
        None \<Rightarrow> []
      | Some q \<Rightarrow>
          filter (\<lambda>c. sublist (js_lower q) (js_lower (ca_name c @ '' '' @ ca_detail c)))
            (map (\<lambda>a. \<lparr>ca_kind = ''assistant'', ca_id = sa_id a, ca_name = sa_name a,
                        ca_detail = sa_backend a @ '', assistant member''\<rparr>) agents @
             map (\<lambda>m. \<lparr>ca_kind = ''member'', ca_id = sm_id m, ca_name = member_name m,
                        ca_detail = ''project member''\<rparr>) members))"

definition select_candidate :: "candidate \<Rightarrow> composer \<Rightarrow> composer" where
  "select_candidate c s =
     (case current_query s of
        None \<Rightarrow> s
      | Some q \<Rightarrow>
          (let start = co_caret s - length q - 1; label = CHR ''@'' # ca_name c;
               text = take start (co_body s) @ label @ '' '' @ drop (co_caret s) (co_body s)
           in s\<lparr>co_mentions := reconcile_mentions (co_body s) text (co_mentions s) @
                  [\<lparr>mn_kind = ca_kind c, mn_id = ca_id c, mn_label = label, mn_start = start,
                    mn_end = start + length label\<rparr>],
                co_body := text, co_caret := start + length label + 1, co_message := None\<rparr>))"

definition change_text :: "string \<Rightarrow> nat \<Rightarrow> composer \<Rightarrow> composer" where
  "change_text text caret s =
     s\<lparr>co_mentions := reconcile_mentions (co_body s) text (co_mentions s), co_body := text, co_caret := caret,
       co_choice := 0, co_message := None\<rparr>"

definition paste_text :: "bool \<Rightarrow> nat \<Rightarrow> nat \<Rightarrow> composer \<Rightarrow> composer" where
  "paste_text has_files a b s =
     (if has_files then s
      else s\<lparr>co_mentions := filter (\<lambda>m. mn_end m \<le> a \<or> b \<le> mn_start m) (co_mentions s), co_message := None\<rparr>)"

definition remove_attachment :: "string \<Rightarrow> composer \<Rightarrow> composer" where
  "remove_attachment p s =
     (if co_busy s then s
      else s\<lparr>co_attachments := filter (\<lambda>a. a \<noteq> p) (co_attachments s), co_message := None\<rparr>)"

text \<open>Uploading; \<open>None\<close> as project is a discussion that has none yet. Attachments are a set in order.\<close>

definition attach_files :: "string option \<Rightarrow> string list \<Rightarrow> composer \<Rightarrow> composer" where
  "attach_files project names s =
     (if project = None \<or> co_busy s \<or> co_uploading s \<or> names = [] then s
      else s\<lparr>co_uploading := True, co_error := [], co_batches := co_batches s @ [names]\<rparr>)"

definition attach_uploaded :: "string \<Rightarrow> composer \<Rightarrow> composer" where
  "attach_uploaded p s =
     s\<lparr>co_attachments := (if p \<in> set (co_attachments s) then co_attachments s else co_attachments s @ [p]),
       co_message := None\<rparr>"

definition attach_done :: "string list \<Rightarrow> composer \<Rightarrow> composer" where
  "attach_done failures s = s\<lparr>co_error := join_with ''; '' failures, co_uploading := False\<rparr>"

definition selected_mentions :: "composer \<Rightarrow> (string \<times> string) list" where
  "selected_mentions s = map (\<lambda>m. (mn_kind m, mn_id m)) (filter (spelled (co_body s)) (co_mentions s))"

definition unknown_agent :: "shared_agent list \<Rightarrow> (string \<times> string) list \<Rightarrow> bool" where
  "unknown_agent agents ms = (\<exists>(k, i) \<in> set ms. k = ''assistant'' \<and> i \<notin> sa_id ` set agents)"

definition send_message :: "(string \<Rightarrow> string) \<Rightarrow> shared_agent list \<Rightarrow> composer \<Rightarrow> composer" where
  "send_message et agents s =
     (if js_trim (co_body s) = [] \<or> co_busy s \<or> co_uploading s then s
      else (let i = (case co_message s of Some k \<Rightarrow> k | None \<Rightarrow> co_fresh s);
                s1 = s\<lparr>co_error := [], co_notice := [], co_message := Some i,
                       co_fresh := (if co_message s = None then Suc (co_fresh s) else co_fresh s)\<rparr>
            in if unknown_agent agents (selected_mentions s)
               then s1\<lparr>co_error := et ''invite this assistant to the project first, then mention it''\<rparr>
               else s1\<lparr>co_busy := True,
                       co_sent := co_sent s1 @ [\<lparr>og_body = co_body s, og_mentions = selected_mentions s,
                          og_attachments = co_attachments s, og_id = i\<rparr>]\<rparr>))"

record send_value =
  sv_assistants :: "(string \<times> string \<times> string) list"
  sv_status :: string
  sv_reason :: string

definition sent_notice :: "(string \<Rightarrow> string) \<Rightarrow> shared_agent list \<Rightarrow> send_value \<Rightarrow> string" where
  "sent_notice et agents v =
     (let declined = filter (\<lambda>(i, st, r). st \<noteq> ''started'') (sv_assistants v)
      in if declined \<noteq> []
         then ''the message was sent. '' @ join_with ''; '' (map (\<lambda>(i, st, r).
                (case find (\<lambda>a. sa_id a = i) agents of Some a \<Rightarrow> js_or (sa_name a) ''assistant'' | None \<Rightarrow> ''assistant'') @
                '': '' @ et r) declined)
         else if sv_status v \<in> {''busy'', ''blocked''}
         then ''the message was sent. '' @ et (js_or (sv_reason v) ''shared_turn_unavailable'')
         else if sv_status v = ''already_sent'' then ''the message was sent, nothing was repeated''
         else [])"

definition send_reply ::
  "(string \<Rightarrow> string) \<Rightarrow> shared_agent list \<Rightarrow> http_error + send_value \<Rightarrow> composer \<Rightarrow> composer" where
  "send_reply et agents r s =
     (case r of
        Inl err \<Rightarrow> s\<lparr>co_error := et (err_message err), co_busy := False\<rparr>
      | Inr v \<Rightarrow> s\<lparr>co_body := [], co_mentions := [], co_attachments := [], co_caret := 0, co_message := None,
                   co_notice := js_or (sent_notice et agents v) (co_notice s), co_busy := False\<rparr>)"

datatype composer_key = Arrow_Up | Arrow_Down | Enter_Key bool | Tab_Key | Other_Key

definition press_key ::
  "(string \<Rightarrow> string) \<Rightarrow> shared_agent list \<Rightarrow> shared_member list \<Rightarrow> composer_key \<Rightarrow> composer \<Rightarrow> composer" where
  "press_key et agents members k s =
     (let cs = mention_candidates agents members s; n = length cs
      in if cs \<noteq> [] \<and> k \<noteq> Other_Key
         then (case k of
                 Arrow_Up \<Rightarrow> s\<lparr>co_choice := (co_choice s + n - 1) mod n\<rparr>
               | Arrow_Down \<Rightarrow> s\<lparr>co_choice := (co_choice s + n + 1) mod n\<rparr>
               | _ \<Rightarrow> select_candidate (cs ! min (co_choice s) (n - 1)) s)
         else if k = Enter_Key False then send_message et agents s
         else s)"

datatype composer_action =
  Pick_Candidate candidate | Remove_Attachment string | Add_Files | Send_Click

definition file_name :: "string \<Rightarrow> string" where
  "file_name p = last (js_split CHR ''/'' p)"

definition composer_view ::
  "bool \<Rightarrow> bool \<Rightarrow> shared_agent list \<Rightarrow> shared_member list \<Rightarrow> composer \<Rightarrow> composer_action widget list" where
  "composer_view has_project has_assistant agents members s =
     alert_of (co_error s) @ shown_if (truthy (co_notice s)) [Shown (co_notice s)] @
     map (\<lambda>c. Press (ca_name c @ (if ca_kind c = ''assistant'' then '', asks it for this message only''
                                   else '', reminds this colleague'')) False (Pick_Candidate c))
       (mention_candidates agents members s) @
     concat (map (\<lambda>p. [Shown (file_name p), Press (''remove '' @ file_name p) (co_busy s) (Remove_Attachment p)])
       (co_attachments s)) @
     [Field ''message'' (co_body s) (co_busy s)] @
     shown_if has_project [Press ''add files'' (co_busy s \<or> co_uploading s) Add_Files] @
     [Shown (if co_uploading s then ''uploading'' else if has_assistant then ''assistants act only when mentioned''
             else ''discuss with the members''),
      Press ''send'' (co_busy s \<or> co_uploading s \<or> js_trim (co_body s) = []) Send_Click]"

section \<open>Runs\<close>

datatype composer_event =
    Change_Text string nat
  | Move_Caret nat
  | Paste bool nat nat
  | Key composer_key
  | Pick candidate
  | Attach "string option" "string list"
  | Uploaded_File string
  | Upload_Done "string list"
  | Detach string
  | Send
  | Sent "http_error + send_value"

text \<open>The text field is disabled while a message is being sent; an answer comes only then. The browser keeps the
caret within the text.\<close>

fun composer_step ::
  "(string \<Rightarrow> string) \<Rightarrow> shared_agent list \<Rightarrow> shared_member list \<Rightarrow> composer_event \<Rightarrow> composer \<Rightarrow> composer" where
  "composer_step et agents members (Change_Text t c) s = (if co_busy s then s else change_text t (min c (length t)) s)"
| "composer_step et agents members (Move_Caret c) s = s\<lparr>co_caret := min c (length (co_body s))\<rparr>"
| "composer_step et agents members (Paste f a b) s = (if co_busy s then s else paste_text f a b s)"
| "composer_step et agents members (Key k) s = (if co_busy s then s else press_key et agents members k s)"
| "composer_step et agents members (Pick c) s = select_candidate c s"
| "composer_step et agents members (Attach p ns) s = attach_files p ns s"
| "composer_step et agents members (Uploaded_File p) s = (if co_uploading s then attach_uploaded p s else s)"
| "composer_step et agents members (Upload_Done fs) s = (if co_uploading s then attach_done fs s else s)"
| "composer_step et agents members (Detach p) s = remove_attachment p s"
| "composer_step et agents members Send s = send_message et agents s"
| "composer_step et agents members (Sent r) s = (if co_busy s then send_reply et agents r s else s)"

definition composer_run where
  "composer_run et agents members es s = fold (composer_step et agents members) es s"

subsection \<open>A mention stays spelled\<close>

definition mentions_spelled :: "composer \<Rightarrow> bool" where
  "mentions_spelled s =
     ((\<forall>m \<in> set (co_mentions s). spelled (co_body s) m) \<and> co_caret s \<le> length (co_body s))"

lemma reconcile_spelled: "m \<in> set (reconcile_mentions before after ms) \<Longrightarrow> spelled after m"
  by (simp add: reconcile_mentions_def Let_def)

lemma mention_query_length:
  assumes "mention_query t = Some q"
  shows "length q < length t"
proof -
  let ?w = "takeWhile (\<lambda>c. \<not> js_space c \<and> c \<noteq> CHR ''@'') (rev t)"
  have "q = rev ?w" "drop (length ?w) (rev t) \<noteq> []"
    using assms by (auto simp: mention_query_def Let_def split: list.splits if_splits)
  then show ?thesis by (simp add: not_le)
qed

lemma query_start:
  assumes "current_query s = Some q" "co_caret s \<le> length (co_body s)"
  shows "length q < co_caret s"
  using mention_query_length [of "take (co_caret s) (co_body s)" q] assms by (simp add: current_query_def)

lemma inserted_label:
  assumes "start < caret" "caret \<le> length body"
  shows "text_slice (take start body @ label @ rest) start (start + length label) = label"
  using assms by (simp add: text_slice_def)

lemma mentions_spelled_frame:
  "mentions_spelled s \<Longrightarrow> co_body s' = co_body s \<Longrightarrow> co_caret s' = co_caret s \<Longrightarrow>
   set (co_mentions s') \<subseteq> set (co_mentions s) \<Longrightarrow> mentions_spelled s'"
  by (auto simp: mentions_spelled_def)

lemma mentions_spelled_select:
  assumes "mentions_spelled s"
  shows "mentions_spelled (select_candidate c s)"
proof (cases "current_query s")
  case (Some q)
  then have "length q < co_caret s" "co_caret s \<le> length (co_body s)"
    using assms query_start [OF Some] by (simp_all add: mentions_spelled_def)
  then have "text_slice (take (co_caret s - length q - 1) (co_body s) @ (CHR ''@'' # ca_name c) @ '' '' @
       drop (co_caret s) (co_body s)) (co_caret s - length q - 1)
       (co_caret s - length q - 1 + length (CHR ''@'' # ca_name c)) = CHR ''@'' # ca_name c"
    by (intro inserted_label) auto
  with Some \<open>co_caret s \<le> length (co_body s)\<close> show ?thesis
    using reconcile_spelled
    by (auto simp: select_candidate_def mentions_spelled_def Let_def spelled_def)
qed (use assms in \<open>simp add: select_candidate_def\<close>)

lemma mentions_spelled_send: "mentions_spelled s \<Longrightarrow> mentions_spelled (send_message et agents s)"
  by (erule mentions_spelled_frame) (auto simp: send_message_def Let_def)

lemma mentions_spelled_step: "mentions_spelled s \<Longrightarrow> mentions_spelled (composer_step et agents members e s)"
proof (cases e)
  case (Change_Text t c)
  then show "mentions_spelled s \<Longrightarrow> ?thesis"
    using reconcile_spelled by (auto simp: change_text_def mentions_spelled_def)
next
  case (Key k)
  then show "mentions_spelled s \<Longrightarrow> ?thesis"
    using mentions_spelled_select mentions_spelled_send
    by (auto simp: press_key_def Let_def intro: mentions_spelled_frame split: composer_key.split)
next
  case (Sent r)
  then show "mentions_spelled s \<Longrightarrow> ?thesis"
    by (cases r) (auto simp: send_reply_def mentions_spelled_def)
next
  case (Move_Caret c)
  then show "mentions_spelled s \<Longrightarrow> ?thesis" by (auto simp: mentions_spelled_def)
qed (auto intro: mentions_spelled_select mentions_spelled_send mentions_spelled_frame
      simp: paste_text_def attach_files_def attach_uploaded_def attach_done_def remove_attachment_def)

lemma composer_invariant:
  assumes "P s" "\<And>e s. P s \<Longrightarrow> P (composer_step et agents members e s)"
  shows "P (composer_run et agents members es s)"
  using assms(1) unfolding composer_run_def by (induction es arbitrary: s) (auto intro: assms(2))

text \<open>In every run of the message box, every mention it keeps still spells its label in the text at its
position, so the filter of \<open>send\<close> drops none: exactly the mentions shown in the text are sent.\<close>

lemma kept_mentions_spelled:
  "let s = composer_run et agents members es (initial_composer t)
   in list_all (spelled (co_body s)) (co_mentions s) \<and>
      selected_mentions s = map (\<lambda>m. (mn_kind m, mn_id m)) (co_mentions s)"
proof -
  have "mentions_spelled (composer_run et agents members es (initial_composer t))"
  by (rule composer_invariant [where P = mentions_spelled])
      (simp_all add: mentions_spelled_step, simp add: mentions_spelled_def initial_composer_def)
  then show ?thesis by (simp add: Let_def selected_mentions_def mentions_spelled_def list_all_iff)
qed

subsection \<open>Message ids\<close>

text \<open>What is sent under an id, without the id.\<close>

definition message_content :: "composer \<Rightarrow> string \<times> (string \<times> string) list \<times> string list" where
  "message_content s = (co_body s, selected_mentions s, co_attachments s)"

definition sent_content :: "outgoing \<Rightarrow> string \<times> (string \<times> string) list \<times> string list" where
  "sent_content g = (og_body g, og_mentions g, og_attachments g)"

definition one_content :: "outgoing list \<Rightarrow> bool" where
  "one_content gs = (\<forall>g \<in> set gs. \<forall>h \<in> set gs. og_id g = og_id h \<longrightarrow> sent_content g = sent_content h)"

definition ids_identify :: "composer \<Rightarrow> bool" where
  "ids_identify s \<longleftrightarrow>
     list_all (\<lambda>g. og_id g < co_fresh s) (co_sent s) \<and>
     (case co_message s of None \<Rightarrow> True
      | Some k \<Rightarrow> k < co_fresh s \<and> (\<forall>g \<in> set (co_sent s). og_id g = k \<longrightarrow> sent_content g = message_content s)) \<and>
     one_content (co_sent s)"

lemma one_content_snoc:
  assumes "one_content gs" and g: "\<And>h. h \<in> set gs \<Longrightarrow> og_id h = og_id g \<Longrightarrow> sent_content h = sent_content g"
  shows "one_content (gs @ [g])"
  unfolding one_content_def
proof (intro ballI impI)
  fix a b assume "a \<in> set (gs @ [g])" "b \<in> set (gs @ [g])" and same: "og_id a = og_id b"
  then consider "a \<in> set gs" "b \<in> set gs" | "a \<in> set gs" "b = g" | "a = g" "b \<in> set gs" | "a = g" "b = g"
    by auto
  then show "sent_content a = sent_content b"
  proof cases
    case 1
    then show ?thesis using assms(1) same unfolding one_content_def by blast
  next
    case 2
    then show ?thesis using g [of a] same by (simp only:)
  next
    case 3
    then show ?thesis using g [of b] same by (simp only:)
  qed simp
qed

lemma ids_identify_reset:
  "ids_identify s \<Longrightarrow> co_sent s' = co_sent s \<Longrightarrow> co_fresh s' = co_fresh s \<Longrightarrow> co_message s' = None \<Longrightarrow> ids_identify s'"
  by (simp add: ids_identify_def)

lemma ids_identify_frame:
  "ids_identify s \<Longrightarrow> co_sent s' = co_sent s \<Longrightarrow> co_fresh s' = co_fresh s \<Longrightarrow> co_message s' = co_message s \<Longrightarrow>
   message_content s' = message_content s \<Longrightarrow> ids_identify s'"
  by (simp add: ids_identify_def split: option.splits)

lemma ids_identify_select: "ids_identify s \<Longrightarrow> ids_identify (select_candidate c s)"
  by (cases "current_query s") (auto simp: select_candidate_def Let_def intro: ids_identify_reset)

lemma message_content_send:
  "message_content (send_message et agents s) = message_content s"
  by (simp add: message_content_def selected_mentions_def send_message_def Let_def)

text \<open>Taking the id for the current text, a new one or the kept one.\<close>

lemma ids_identify_take_id:
  assumes "ids_identify s" "i = (case co_message s of Some k \<Rightarrow> k | None \<Rightarrow> co_fresh s)"
    and "co_sent s' = co_sent s" "co_message s' = Some i" "message_content s' = message_content s"
    and "co_fresh s' = (if co_message s = None then Suc (co_fresh s) else co_fresh s)"
  shows "ids_identify s'"
proof (cases "co_message s")
  case None
  then have "og_id g < i" "og_id g \<noteq> i" if "g \<in> set (co_sent s)" for g
    using assms(1,2) that by (auto simp: ids_identify_def list_all_iff)
  then show ?thesis using None assms by (auto simp: ids_identify_def list_all_iff less_Suc_eq)
qed (use assms in \<open>auto simp: ids_identify_def\<close>)

lemma ids_identify_log:
  assumes "ids_identify s" "co_message s = Some (og_id g)" "sent_content g = message_content s"
    and "co_sent s' = co_sent s @ [g]" "co_message s' = co_message s" "message_content s' = message_content s"
    and "co_fresh s' = co_fresh s"
  shows "ids_identify s'"
proof -
  have old: "sent_content h = sent_content g" if "h \<in> set (co_sent s)" "og_id h = og_id g" for h
    using assms(1-3) that by (simp add: ids_identify_def)
  have "one_content (co_sent s @ [g])"
    using assms(1) old by (intro one_content_snoc) (simp_all add: ids_identify_def)
  then show ?thesis using assms by (auto simp: ids_identify_def)
qed

lemma ids_identify_send:
  assumes "ids_identify s"
  shows "ids_identify (send_message et agents s)"
proof -
  define i where "i = (case co_message s of Some k \<Rightarrow> k | None \<Rightarrow> co_fresh s)"
  define t where "t = s\<lparr>co_error := [], co_notice := [], co_message := Some i,
      co_fresh := (if co_message s = None then Suc (co_fresh s) else co_fresh s)\<rparr>"
  define g where "g = \<lparr>og_body = co_body s, og_mentions = selected_mentions s,
      og_attachments = co_attachments s, og_id = i\<rparr>"
  have content: "message_content t = message_content s" "sent_content g = message_content s"
    by (simp_all add: t_def g_def message_content_def sent_content_def selected_mentions_def)
  have t: "ids_identify t"
    by (rule ids_identify_take_id [OF assms i_def]) (simp_all add: content(1), simp_all add: t_def)
  have frame: "ids_identify (t\<lparr>co_error := x\<rparr>)" for x
    by (rule ids_identify_frame [OF t]) (simp_all add: message_content_def selected_mentions_def)
  have "co_message t = Some (og_id g)" by (simp add: t_def g_def)
  then have log: "ids_identify (t\<lparr>co_busy := True, co_sent := co_sent t @ [g]\<rparr>)"
    by (rule ids_identify_log [OF t])
      (simp_all add: content, simp add: message_content_def selected_mentions_def t_def)
  show ?thesis
    using assms frame log
    by (simp add: send_message_def Let_def i_def [symmetric] t_def [symmetric] g_def [symmetric])
qed

lemma ids_identify_key:
  assumes "ids_identify s"
  shows "ids_identify (press_key et agents members k s)"
proof -
  have choice: "ids_identify (s\<lparr>co_choice := n\<rparr>)" for n
    by (rule ids_identify_frame [OF assms]) (simp_all add: message_content_def selected_mentions_def)
  then show ?thesis
    using ids_identify_select [OF assms] ids_identify_send [OF assms] assms
    by (auto simp: press_key_def Let_def split: composer_key.split)
qed

lemma ids_identify_step: "ids_identify s \<Longrightarrow> ids_identify (composer_step et agents members e s)"
proof (cases e)
  case (Sent r)
  then show "ids_identify s \<Longrightarrow> ?thesis"
    by (cases r) (auto simp: send_reply_def message_content_def selected_mentions_def
        intro: ids_identify_reset ids_identify_frame)
qed (auto simp: change_text_def paste_text_def attach_files_def attach_uploaded_def attach_done_def
      remove_attachment_def message_content_def selected_mentions_def
      intro: ids_identify_key ids_identify_send ids_identify_select ids_identify_reset ids_identify_frame)

text \<open>C38. Sending is safe to repeat: however a user edits, mentions, attaches, presses keys and sends, and whatever
answers come, two requests with the same client message id carry the same text, the same mentions and the
same attachments. So a request repeated after a lost answer is a true repetition, and a changed message
never travels under the id of an earlier one.\<close>

theorem message_id_identifies_content:
  "one_content (co_sent (composer_run et agents members es (initial_composer t)))"
proof -
  have "ids_identify (composer_run et agents members es (initial_composer t))"
    by (rule composer_invariant [where P = ids_identify])
      (simp_all add: ids_identify_step, simp add: ids_identify_def initial_composer_def one_content_def)
  then show ?thesis by (simp add: ids_identify_def)
qed

text \<open>A failed request keeps the text and its id, so pressing send again repeats it under the same id.\<close>

text \<open>Retrying a failed message: when the request is answered with an error, the text, the mentions and the
attachments stay, the message box shows the error, and sending again gives the server exactly the same
request once more, with the same client message id.\<close>

lemma failed_send_repeats:
  assumes "js_trim (co_body s) \<noteq> []" "\<not> co_busy s" "\<not> co_uploading s"
    and "\<not> unknown_agent agents (selected_mentions s)"
  shows "let s1 = send_message et agents s; s2 = send_reply et agents (Inl err) s1; s3 = send_message et agents s2
         in co_error s2 = et (err_message err) \<and> co_sent s1 \<noteq> [] \<and> co_sent s3 = co_sent s1 @ [last (co_sent s1)]"
  using assms by (simp add: send_message_def send_reply_def Let_def selected_mentions_def)

theorem failed_send_repeats_witness:
  "let s = composer_run id [] [] [Change_Text ''hello'' 5] (initial_composer []);
       s1 = send_message id [] s; s2 = send_reply id [] (Inl \<lparr>err_status = None, err_name = ''AbortError'', err_message = ''timeout''\<rparr>) s1;
       s3 = send_message id [] s2
   in co_error s2 = ''timeout'' \<and> co_sent s1 \<noteq> [] \<and> co_sent s3 = co_sent s1 @ [last (co_sent s1)]"
proof -
  let ?s = "composer_run id [] [] [Change_Text ''hello'' 5] (initial_composer [])"
  have "co_body ?s = ''hello''" "\<not> co_busy ?s" "\<not> co_uploading ?s" "selected_mentions ?s = []"
    by code_simp+
  moreover have "js_trim ''hello'' \<noteq> []" by code_simp
  ultimately show ?thesis
    using failed_send_repeats [of ?s "[]" id "\<lparr>err_status = None, err_name = ''AbortError'', err_message = ''timeout''\<rparr>"]
    by (simp add: unknown_agent_def Let_def)
qed

subsection \<open>A mention exchanged for a longer one\<close>

text \<open>C40. Exchanging a mention keeps the old one: the user picks Ann, moves the caret back behind the name,
where the list opens again, and picks Anna instead. The text then shows Anna only, but the old mention
lies before the edit and still spells its label, so it is kept and both are sent: both assistants are
called, although one was taken back.\<close>

theorem exchanged_mention_kept:
  "let agents = [\<lparr>sa_id = ''17'', sa_name = ''Ann'', sa_backend = b\<rparr>, \<lparr>sa_id = ''18'', sa_name = ''Anna'', sa_backend = b\<rparr>];
       ann = \<lparr>ca_kind = ''assistant'', ca_id = ''17'', ca_name = ''Ann'', ca_detail = b @ '', assistant member''\<rparr>;
       anna = \<lparr>ca_kind = ''assistant'', ca_id = ''18'', ca_name = ''Anna'', ca_detail = b @ '', assistant member''\<rparr>;
       s = composer_run et agents members [Change_Text ''@'' 1, Pick ann, Move_Caret 4, Pick anna] (initial_composer [])
   in co_body s = ''@Anna  '' \<and> selected_mentions s = [(''assistant'', ''17''), (''assistant'', ''18'')]"
proof -
  let ?m = "\<lparr>mn_kind = ''assistant'', mn_id = ''17'', mn_label = ''@Ann'', mn_start = 0, mn_end = Suc (Suc (Suc (Suc 0)))\<rparr>"
  have q: "mention_query ''@'' = Some []" "mention_query ''@Ann'' = Some ''Ann''" by code_simp+
  have r: "reconcile_mentions x y [] = []" for x y by (simp add: reconcile_mentions_def Let_def)
  have "reconcile_mentions ''@Ann '' ''@Anna  '' [?m] = [?m]"
    by (subst reconcile_eq_surviving) (simp_all add: spelled_def text_slice_def surviving_mentions_def Let_def)
  with q r show ?thesis
    by (simp add: composer_run_def initial_composer_def change_text_def select_candidate_def current_query_def
        selected_mentions_def spelled_def text_slice_def)
qed

end
