(* ===== verification/Contracts.thy ===== *)
theory Contracts
  imports Prelude
begin

text \<open>
  What the stores of the workspace service share: the engines of \<^verbatim>\<open>contracts/src/engine.ts\<close>, the pattern of
  operation ids, the text fields of the schemas, and the sequencing of methods that change a store and may throw.
\<close>

section \<open>Schemas\<close>

definition engine_ids :: "string list" where
  "engine_ids = [''harness'', ''codex'', ''kimi'', ''acp'']"

text \<open>\<open>schema.parse(value)\<close> on a value of the right shape.\<close>

definition parse_with :: "('v \<Rightarrow> bool) \<Rightarrow> 'v \<Rightarrow> string + 'v" where
  "parse_with valid v = (if valid v then Inr v else Inl ''ZodError'')"

text \<open>The pattern \<^verbatim>\<open>/^[A-Za-z0-9_:@.-]{1,200}$/\<close>.\<close>

definition operation_char :: "char \<Rightarrow> bool" where
  "operation_char c =
     (let n = of_char c :: nat
      in (48 \<le> n \<and> n \<le> 58) \<or> (64 \<le> n \<and> n \<le> 90) \<or> (97 \<le> n \<and> n \<le> 122) \<or> n \<in> {45, 46, 95})"

definition operation_id_ok :: "string \<Rightarrow> bool" where
  "operation_id_ok i \<longleftrightarrow> 1 \<le> length i \<and> length i \<le> 200 \<and> list_all operation_char i"

text \<open>A field \<open>z.string().trim().min(1).max(n)\<close>: the parsed text is trimmed.\<close>

definition parse_text :: "nat \<Rightarrow> string \<Rightarrow> string option" where
  "parse_text n t = (let u = js_trim t in if u = [] \<or> n < length u then None else Some u)"

definition text_ok :: "nat \<Rightarrow> string \<Rightarrow> bool" where
  "text_ok n t \<longleftrightarrow> t \<noteq> [] \<and> length t \<le> n \<and> js_trim t = t"

lemma parse_text_ok: "parse_text n t = Some u \<Longrightarrow> text_ok n u"
  by (auto simp: parse_text_def text_ok_def Let_def split: if_splits)

lemma parse_text_id: "text_ok n t \<Longrightarrow> parse_text n t = Some t"
  by (simp add: parse_text_def text_ok_def)

text \<open>\<open>[...new Set(xs)]\<close>\<close>

definition js_set :: "'v list \<Rightarrow> 'v list" where
  "js_set xs = rev (remdups (rev xs))"

lemma set_js_set [simp]: "set (js_set xs) = set xs" "distinct (js_set xs)"
  by (simp_all add: js_set_def)

section \<open>Methods that throw\<close>

text \<open>
  A method takes the state and gives its result or the error it throws, and the state it leaves: what was
  changed before a throw stays changed.
\<close>

type_synonym ('s, 'a) act = "'s \<Rightarrow> (string + 'a) \<times> 's"

definition act_return :: "'a \<Rightarrow> ('s, 'a) act" where
  "act_return a = (\<lambda>s. (Inr a, s))"

definition act_fail :: "string \<Rightarrow> ('s, 'a) act" where
  "act_fail e = (\<lambda>s. (Inl e, s))"

definition act_bind :: "('s, 'a) act \<Rightarrow> ('a \<Rightarrow> ('s, 'b) act) \<Rightarrow> ('s, 'b) act" where
  "act_bind m f = (\<lambda>s. case m s of (Inl e, t) \<Rightarrow> (Inl e, t) | (Inr a, t) \<Rightarrow> f a t)"

definition act_seq :: "('s, 'a) act \<Rightarrow> ('s, 'b) act \<Rightarrow> ('s, 'b) act" where
  "act_seq m n = act_bind m (\<lambda>_. n)"

definition act_get :: "('s \<Rightarrow> ('s, 'a) act) \<Rightarrow> ('s, 'a) act" where
  "act_get f = (\<lambda>s. f s s)"

definition act_do :: "('s \<Rightarrow> 's) \<Rightarrow> ('s, unit) act" where
  "act_do g = (\<lambda>s. (Inr (), g s))"

definition act_check :: "string \<Rightarrow> bool \<Rightarrow> ('s, unit) act" where
  "act_check e b = (if b then act_return () else act_fail e)"

definition act_need :: "string \<Rightarrow> 'a option \<Rightarrow> ('s, 'a) act" where
  "act_need e x = (case x of None \<Rightarrow> act_fail e | Some a \<Rightarrow> act_return a)"

fun act_each :: "('a \<Rightarrow> ('s, unit) act) \<Rightarrow> 'a list \<Rightarrow> ('s, unit) act" where
  "act_each f [] = act_return ()"
| "act_each f (x # xs) = act_seq (f x) (act_each f xs)"

text \<open>
  What holds after a method, \<open>Q\<close> of a result and the state it leaves, \<open>E\<close> of an error and the state it leaves.
\<close>

definition leaves :: "('s, 'a) act \<Rightarrow> 's \<Rightarrow> ('a \<Rightarrow> 's \<Rightarrow> bool) \<Rightarrow> ('s \<Rightarrow> bool) \<Rightarrow> bool" where
  "leaves m s Q E = (case m s of (Inl e, t) \<Rightarrow> E t | (Inr a, t) \<Rightarrow> Q a t)"

lemma leaves_pure [simp]:
  "leaves (act_return a) s Q E = Q a s" "leaves (act_fail e) s P E = E s"
  "leaves (act_need e x) s R E = (case x of None \<Rightarrow> E s | Some a \<Rightarrow> R a s)"
  by (simp_all add: leaves_def act_return_def act_fail_def act_need_def split: option.split)

lemma leaves_unit [simp]:
  "leaves (act_do g) s Q E = Q () (g s)" "leaves (act_check e b) s Q E = (if b then Q () s else E s)"
  by (simp_all add: leaves_def act_do_def act_check_def act_return_def act_fail_def)

lemma leaves_bind [simp]: "leaves (act_bind m f) s Q E = leaves m s (\<lambda>a t. leaves (f a) t Q E) E"
  by (simp add: leaves_def act_bind_def split: prod.split sum.split)

lemma leaves_seq [simp]: "leaves (act_seq m n) s Q E = leaves m s (\<lambda>_ t. leaves n t Q E) E"
  by (simp add: act_seq_def)

lemma leaves_get [simp]: "leaves (act_get h) s Q E = leaves (h s) s Q E"
  by (simp add: leaves_def act_get_def)

lemma leaves_mono:
  "leaves m s Q E \<Longrightarrow> (\<And>a t. Q a t \<Longrightarrow> Q' a t) \<Longrightarrow> (\<And>t. E t \<Longrightarrow> E' t) \<Longrightarrow> leaves m s Q' E'"
  by (auto simp: leaves_def split: prod.splits sum.splits)

lemma leaves_conj:
  "leaves m s Q E \<Longrightarrow> leaves m s Q' E' \<Longrightarrow> leaves m s (\<lambda>a t. Q a t \<and> Q' a t) (\<lambda>t. E t \<and> E' t)"
  by (auto simp: leaves_def split: prod.splits sum.splits)

lemma leaves_each:
  assumes "P s" "\<And>x t. x \<in> set xs \<Longrightarrow> P t \<Longrightarrow> leaves (f x) t (\<lambda>_. P) E"
  shows "leaves (act_each f xs) s (\<lambda>_. P) E"
  using assms
proof (induction xs arbitrary: s)
  case (Cons x xs)
  have "leaves (f x) s (\<lambda>_. P) E" using Cons.prems by simp
  then have "leaves (f x) s (\<lambda>_ t. leaves (act_each f xs) t (\<lambda>_. P) E) E"
    by (rule leaves_mono) (use Cons in auto)
  then show ?case by simp
qed simp

lemma leaves_result: "leaves m s Q E \<Longrightarrow> m s = (Inr a, t) \<Longrightarrow> Q a t"
  by (simp add: leaves_def)

lemma leaves_state: "leaves m s (\<lambda>_. P) P \<Longrightarrow> P (snd (m s))"
  by (auto simp: leaves_def split: prod.splits sum.splits)

end
