(* ===== verification/Automation_Store.thy ===== *)
theory Automation_Store
  imports Automations Contracts "HOL-Library.Char_ord" "HOL-Library.List_Lexorder"
begin

text \<open>
  The scheduled tasks on the server, \<^verbatim>\<open>harness-bundle/src/automation-store.ts\<close> and the schemas of
  \<^verbatim>\<open>contracts/src/automation.ts\<close>: \<open>nextScheduleTime\<close> and the class \<open>AutomationStore\<close>.

  Dates are milliseconds since 1970 as \<open>nat\<close>; the code keeps them as ISO texts, which compare as the
  dates do. \<open>sto_disk\<close> is the content of \<^verbatim>\<open>automations.json\<close>: the store writes a temporary file and
  renames it, so the file is always a whole document. The \<open>n\<close>th \<open>randomUUID()\<close> is \<open>uuid n\<close>. A method
  that throws leaves the changes it made before in the maps, as the code does.

  The time zone database and the package \<^verbatim>\<open>croner\<close> are parameters: \<open>cal_local z t\<close> is the weekday, hour
  and minute of \<open>t\<close> in the zone \<open>z\<close> (\<open>None\<close> for a zone \<open>Intl\<close> does not know), and \<open>cal_cron e z t\<close> is
  \<open>new Cron(e, {timezone: z}).nextRun(t)\<close>, with \<open>None\<close> for \<open>null\<close>.
\<close>

section \<open>Schedules\<close>

datatype sched =
    S_Once nat
  | S_Interval nat
  | S_Weekly "nat list" nat nat string
  | S_Cron string string

record calendar =
  cal_local :: "string \<Rightarrow> nat \<Rightarrow> (nat \<times> nat \<times> nat) option"
  cal_cron :: "string \<Rightarrow> string \<Rightarrow> nat \<Rightarrow> string + nat option"

text \<open>What \<open>nextRun(after)\<close> documents: the next run is after the given date.\<close>

definition cron_later :: "calendar \<Rightarrow> bool" where
  "cron_later cal = (\<forall>e z t u. cal_cron cal e z t = Inr (Some u) \<longrightarrow> t < u)"

fun sched_valid :: "sched \<Rightarrow> bool" where
  "sched_valid (S_Once t) = True"
| "sched_valid (S_Interval n) = (1 \<le> n \<and> n \<le> 525600)"
| "sched_valid (S_Weekly days h m z) =
     (list_all (\<lambda>d. d \<le> 6) days \<and> days \<noteq> [] \<and> h \<le> 23 \<and> m \<le> 59 \<and> 1 \<le> length z \<and> length z \<le> 100)"
| "sched_valid (S_Cron e z) = (length e \<le> 200 \<and> 1 \<le> length z \<and> length z \<le> 100)"

definition one_minute :: nat where
  "one_minute = 60000"

text \<open>The search over at most \<open>n\<close> minutes; the code tries 8 days and one minute.\<close>

fun weekly_search :: "calendar \<Rightarrow> nat list \<Rightarrow> nat \<Rightarrow> nat \<Rightarrow> string \<Rightarrow> nat \<Rightarrow> nat \<Rightarrow> nat option" where
  "weekly_search cal days h m z v 0 = None"
| "weekly_search cal days h m z v (Suc n) =
     (if (case cal_local cal z v of Some (d, h', m') \<Rightarrow> d \<in> set days \<and> h' = h \<and> m' = m | None \<Rightarrow> False)
      then Some v else weekly_search cal days h m z (v + one_minute) n)"

definition weekly_minutes :: nat where
  "weekly_minutes = 8 * 24 * 60 + 1"

definition next_schedule_time :: "calendar \<Rightarrow> sched \<Rightarrow> nat \<Rightarrow> string + nat" where
  "next_schedule_time cal schedule after =
     (if \<not> sched_valid schedule then Inl ''ZodError''
      else case schedule of
        S_Once t \<Rightarrow> (if t \<le> after then Inl ''automation_once_time_in_past'' else Inr t)
      | S_Interval n \<Rightarrow> Inr (after + n * one_minute)
      | S_Cron e z \<Rightarrow>
          (if js_trim e = [] then Inl ''automation_schedule_manual_only''
           else case cal_cron cal e z after of
                  Inl err \<Rightarrow> Inl err
                | Inr None \<Rightarrow> Inl ''automation_schedule_has_no_next_run''
                | Inr (Some t) \<Rightarrow> Inr t)
      | S_Weekly days h m z \<Rightarrow>
          (if cal_local cal z after = None then Inl ''Invalid time zone specified''
           else case weekly_search cal days h m z (after - after mod one_minute + one_minute) weekly_minutes of
                  Some t \<Rightarrow> Inr t
                | None \<Rightarrow> Inl ''automation_schedule_has_no_next_run''))"

section \<open>Definitions and runs\<close>

datatype notify_policy = Notify_None | Notify_Failure | Notify_Always

datatype execution_mode = New_Conversation | Existing_Conversation

record auto_input =
  ad_name :: string
  ad_enabled :: bool
  ad_schedule :: sched
  ad_preset :: string
  ad_engine :: string
  ad_acp :: "string option"
  ad_workspace :: string
  ad_input :: string
  ad_policy :: notify_policy
  ad_message :: bool
  ad_target :: "string option"
  ad_mode :: execution_mode
  ad_conversation :: "string option"
  ad_skill :: "string option"

record auto_def = auto_input +
  ad_id :: string
  ad_version :: nat
  ad_next :: "nat option"
  ad_last :: "nat option"
  ad_created :: nat
  ad_updated :: nat

datatype run_trigger = Scheduled | Manual

datatype run_status = Pending | Waiting | Running | Succeeded | Failed | Cancelled | Skipped_Busy

record auto_run =
  rn_id :: string
  rn_auto :: string
  rn_def :: auto_def
  rn_trigger :: run_trigger
  rn_for :: nat
  rn_status :: run_status
  rn_not_before :: "nat option"
  rn_busy :: nat
  rn_wait_reason :: "string option"
  rn_submitted :: "nat option"
  rn_turn :: "string option"
  rn_attempt :: nat
  rn_session :: "string option"
  rn_result :: "string option"
  rn_suggestion :: "string option"
  rn_error :: "string option"
  rn_created :: nat
  rn_started :: "nat option"
  rn_finished :: "nat option"

definition input_valid :: "'a auto_input_scheme \<Rightarrow> bool" where
  "input_valid d \<longleftrightarrow> 1 \<le> length (ad_name d) \<and> length (ad_name d) \<le> 200 \<and> sched_valid (ad_schedule d) \<and>
     ad_preset d \<noteq> [] \<and> ad_engine d \<in> set engine_ids \<and> ad_acp d \<noteq> Some [] \<and> ad_workspace d \<noteq> [] \<and>
     1 \<le> length (ad_input d) \<and> length (ad_input d) \<le> 64 * 1024 \<and> ad_target d \<noteq> Some [] \<and>
     ad_conversation d \<noteq> Some [] \<and> ad_skill d \<noteq> Some []"

definition def_valid :: "auto_def \<Rightarrow> bool" where
  "def_valid d \<longleftrightarrow> input_valid d \<and> ad_id d \<noteq> [] \<and> 0 < ad_version d"

definition run_valid :: "auto_run \<Rightarrow> bool" where
  "run_valid r \<longleftrightarrow> rn_id r \<noteq> [] \<and> rn_auto r \<noteq> [] \<and> def_valid (rn_def r) \<and> rn_session r \<noteq> Some []"

definition notification_ok :: "'a auto_input_scheme \<Rightarrow> bool" where
  "notification_ok d \<longleftrightarrow> \<not> (ad_message d \<and> ad_target d = None)"

section \<open>The store\<close>

record 'r auto_document =
  doc_defs :: "auto_def list"
  doc_runs :: "auto_run list"
  doc_reconciled :: "string list"
  doc_ops :: "(string \<times> string \<times> 'r) list"

record 'r auto_store =
  sto_defs :: "(string \<times> auto_def) list"
  sto_runs :: "(string \<times> auto_run) list"
  sto_reconciled :: "string list"
  sto_ops :: "(string \<times> string \<times> 'r) list"
  sto_batch :: bool
  sto_drawn :: nat
  sto_disk :: "'r auto_document option"

definition auto_document_of :: "'r auto_store \<Rightarrow> 'r auto_document" where
  "auto_document_of s = \<lparr>doc_defs = map snd (sto_defs s), doc_runs = map snd (sto_runs s),
     doc_reconciled = sort (sto_reconciled s), doc_ops = sto_ops s\<rparr>"

definition auto_save :: "'r auto_store \<Rightarrow> 'r auto_store" where
  "auto_save s = (if sto_batch s then s else s\<lparr>sto_disk := Some (auto_document_of s)\<rparr>)"

text \<open>The constructor. A run that was running when the process ended has failed.\<close>

definition recover_run :: "nat \<Rightarrow> auto_run \<Rightarrow> auto_run" where
  "recover_run now r =
     (if rn_status r = Running
      then r\<lparr>rn_status := Failed, rn_error := Some ''runtime_restarted'', rn_finished := Some now\<rparr> else r)"

definition document_valid :: "'r auto_document \<Rightarrow> bool" where
  "document_valid d \<longleftrightarrow> list_all def_valid (doc_defs d) \<and> list_all run_valid (doc_runs d) \<and>
     list_all (\<lambda>i. i \<noteq> []) (doc_reconciled d)"

definition empty_store :: "nat \<Rightarrow> 'r auto_document option \<Rightarrow> 'r auto_store" where
  "empty_store drawn disk = \<lparr>sto_defs = [], sto_runs = [], sto_reconciled = [], sto_ops = [], sto_batch = False,
     sto_drawn = drawn, sto_disk = disk\<rparr>"

definition open_store :: "nat \<Rightarrow> nat \<Rightarrow> 'r auto_document option \<Rightarrow> string + 'r auto_store" where
  "open_store now drawn disk =
     (case disk of
        None \<Rightarrow> Inr (empty_store drawn disk)
      | Some d \<Rightarrow>
          (if \<not> document_valid d then Inl ''ZodError''
           else (let s = (empty_store drawn disk)\<lparr>
                       sto_defs := fold (\<lambda>v. jmap_set (ad_id v) v) (doc_defs d) [],
                       sto_ops := fold (\<lambda>v. jmap_set (fst v) (snd v)) (doc_ops d) [],
                       sto_runs := fold (\<lambda>v. jmap_set (rn_id v) (recover_run now v)) (doc_runs d) [],
                       sto_reconciled := rev (remdups (rev (doc_reconciled d)))\<rparr>
                 in Inr (if \<exists>v \<in> set (doc_runs d). rn_status v = Running then auto_save s else s))))"

definition auto_list :: "'r auto_store \<Rightarrow> auto_def list" where
  "auto_list s = sort_key ad_created (map snd (sto_defs s))"

definition required :: "string \<Rightarrow> 'r auto_store \<Rightarrow> string + auto_def" where
  "required i s = (case jmap_get (sto_defs s) i of None \<Rightarrow> Inl ''automation_not_found'' | Some d \<Rightarrow> Inr d)"

definition required_run :: "string \<Rightarrow> 'r auto_store \<Rightarrow> string + auto_run" where
  "required_run i s = (case jmap_get (sto_runs s) i of None \<Rightarrow> Inl ''automation_run_not_found'' | Some r \<Rightarrow> Inr r)"

definition put_def :: "auto_def \<Rightarrow> 'r auto_store \<Rightarrow> 'r auto_store" where
  "put_def d s = s\<lparr>sto_defs := jmap_set (ad_id d) d (sto_defs s)\<rparr>"

definition put_run :: "auto_run \<Rightarrow> 'r auto_store \<Rightarrow> 'r auto_store" where
  "put_run r s = s\<lparr>sto_runs := jmap_set (rn_id r) r (sto_runs s)\<rparr>"

definition active_status :: "run_status \<Rightarrow> bool" where
  "active_status st \<longleftrightarrow> st \<in> {Pending, Waiting, Running}"

subsection \<open>Changing definitions\<close>

definition definition_id :: "string \<Rightarrow> string" where
  "definition_id u = ''automation-'' @ u"

definition manual_run_id :: "string \<Rightarrow> string" where
  "manual_run_id u = ''automation-run-'' @ u"

definition auto_create ::
  "(nat \<Rightarrow> string) \<Rightarrow> calendar \<Rightarrow> nat \<Rightarrow> auto_input \<Rightarrow> 'r auto_store \<Rightarrow> (string + auto_def) \<times> 'r auto_store" where
  "auto_create uuid cal now input s =
     (if \<not> input_valid input then (Inl ''ZodError'', s)
      else (let i = definition_id (uuid (sto_drawn s)); s1 = s\<lparr>sto_drawn := Suc (sto_drawn s)\<rparr>
            in case (if ad_enabled input then map_sum id Some (next_schedule_time cal (ad_schedule input) now) else Inr None) of
                 Inl e \<Rightarrow> (Inl e, s1)
               | Inr next_run \<Rightarrow>
                   (let d = auto_input.extend (auto_input.truncate input)
                          (auto_def.fields i 1 next_run None now now)
                    in if \<not> notification_ok d then (Inl ''automation_notification_target_required'', s1)
                       else (Inr d, auto_save (put_def d s1)))))"

text \<open>The body of an update; an absent field is \<open>None\<close>, a \<open>null\<close> is \<open>Some None\<close>.\<close>

record auto_patch =
  pa_name :: "string option"
  pa_enabled :: "bool option"
  pa_schedule :: "sched option"
  pa_preset :: "string option"
  pa_engine :: "string option"
  pa_acp :: "string option"
  pa_workspace :: "string option"
  pa_input :: "string option"
  pa_policy :: "notify_policy option"
  pa_message :: "bool option"
  pa_target :: "string option option"
  pa_mode :: "execution_mode option"
  pa_conversation :: "string option option"
  pa_skill :: "string option option"

definition given :: "'v option \<Rightarrow> 'v \<Rightarrow> 'v" where
  "given a v = (case a of Some w \<Rightarrow> w | None \<Rightarrow> v)"

definition apply_patch :: "auto_patch \<Rightarrow> auto_def \<Rightarrow> auto_def" where
  "apply_patch p d = d\<lparr>ad_name := given (pa_name p) (ad_name d), ad_enabled := given (pa_enabled p) (ad_enabled d),
     ad_schedule := given (pa_schedule p) (ad_schedule d), ad_preset := given (pa_preset p) (ad_preset d),
     ad_engine := given (pa_engine p) (ad_engine d),
     ad_acp := (case pa_acp p of None \<Rightarrow> ad_acp d | Some a \<Rightarrow> Some a),
     ad_workspace := given (pa_workspace p) (ad_workspace d), ad_input := given (pa_input p) (ad_input d),
     ad_policy := given (pa_policy p) (ad_policy d), ad_message := given (pa_message p) (ad_message d),
     ad_target := given (pa_target p) (ad_target d), ad_mode := given (pa_mode p) (ad_mode d),
     ad_conversation := given (pa_conversation p) (ad_conversation d), ad_skill := given (pa_skill p) (ad_skill d)\<rparr>"

text \<open>The partial schema checks the given fields; as the stored fields are valid, that is the check of the result.\<close>

definition patch_valid :: "auto_patch \<Rightarrow> bool" where
  "patch_valid p \<longleftrightarrow>
     (case pa_name p of Some n \<Rightarrow> 1 \<le> length n \<and> length n \<le> 200 | None \<Rightarrow> True) \<and>
     (case pa_schedule p of Some c \<Rightarrow> sched_valid c | None \<Rightarrow> True) \<and> pa_preset p \<noteq> Some [] \<and>
     (case pa_engine p of Some e \<Rightarrow> e \<in> set engine_ids | None \<Rightarrow> True) \<and> pa_acp p \<noteq> Some [] \<and>
     pa_workspace p \<noteq> Some [] \<and>
     (case pa_input p of Some i \<Rightarrow> 1 \<le> length i \<and> length i \<le> 64 * 1024 | None \<Rightarrow> True) \<and>
     pa_target p \<noteq> Some (Some []) \<and> pa_conversation p \<noteq> Some (Some []) \<and> pa_skill p \<noteq> Some (Some [])"

definition cancel_scheduled :: "nat \<Rightarrow> string \<Rightarrow> auto_run \<Rightarrow> auto_run" where
  "cancel_scheduled now i r =
     (if rn_auto r = i \<and> rn_status r \<in> {Waiting, Pending} \<and> rn_trigger r = Scheduled
      then r\<lparr>rn_status := Cancelled, rn_finished := Some now\<rparr> else r)"

text \<open>The part of \<open>update\<close> that computes the new definition and may throw.\<close>

definition updated_def :: "calendar \<Rightarrow> nat \<Rightarrow> auto_patch \<Rightarrow> auto_def \<Rightarrow> string + auto_def" where
  "updated_def cal now p d =
     (if \<not> patch_valid p then Inl ''ZodError''
      else (let enabled = given (pa_enabled p) (ad_enabled d); schedule = given (pa_schedule p) (ad_schedule d)
            in case (if \<not> enabled then Inr None
                     else if \<not> ad_enabled d \<or> pa_schedule p \<noteq> None
                     then map_sum id Some (next_schedule_time cal schedule now)
                     else Inr (ad_next d)) of
                 Inl e \<Rightarrow> Inl e
               | Inr next_run \<Rightarrow>
                   (case parse_with def_valid ((apply_patch p d)\<lparr>ad_version := ad_version d + 1, ad_next := next_run, ad_updated := now\<rparr>) of
                      Inl e \<Rightarrow> Inl e
                    | Inr d' \<Rightarrow> (if \<not> notification_ok d' then Inl ''automation_notification_target_required'' else Inr d'))))"

definition auto_update ::
  "calendar \<Rightarrow> nat \<Rightarrow> string \<Rightarrow> nat \<Rightarrow> auto_patch \<Rightarrow> 'r auto_store \<Rightarrow> (string + auto_def) \<times> 'r auto_store" where
  "auto_update cal now i expected p s =
     (case required i s of
        Inl e \<Rightarrow> (Inl e, s)
      | Inr d \<Rightarrow>
          (if ad_version d \<noteq> expected then (Inl ''automation_version_conflict'', s)
           else case updated_def cal now p d of
                  Inl e \<Rightarrow> (Inl e, s)
                | Inr d' \<Rightarrow>
                    (let s1 = s\<lparr>sto_defs := jmap_set i d' (sto_defs s)\<rparr>
                     in (Inr d', auto_save (if pa_enabled p = Some False
                           then s1\<lparr>sto_runs := map (map_prod id (cancel_scheduled now i)) (sto_runs s1)\<rparr>
                           else s1)))))"

definition auto_delete :: "string \<Rightarrow> 'r auto_store \<Rightarrow> (string + unit) \<times> 'r auto_store" where
  "auto_delete i s =
     (case required i s of
        Inl e \<Rightarrow> (Inl e, s)
      | Inr d \<Rightarrow>
          (if \<exists>r \<in> set (map snd (sto_runs s)). rn_auto r = i \<and> active_status (rn_status r)
           then (Inl ''automation_has_active_run'', s)
           else (Inr (), auto_save (s\<lparr>sto_defs := jmap_delete i (sto_defs s),
                   sto_runs := filter (\<lambda>(k, r). rn_auto r \<noteq> i) (sto_runs s)\<rparr>))))"

definition auto_history :: "string \<Rightarrow> 'r auto_store \<Rightarrow> string + auto_run list" where
  "auto_history i s =
     (case required i s of
        Inl e \<Rightarrow> Inl e
      | Inr d \<Rightarrow> Inr (sort_key (\<lambda>r. - int (rn_created r)) (filter (\<lambda>r. rn_auto r = i) (map snd (sto_runs s)))))"

subsection \<open>Runs\<close>

definition fresh_run :: "string \<Rightarrow> auto_def \<Rightarrow> run_trigger \<Rightarrow> nat \<Rightarrow> nat \<Rightarrow> auto_run" where
  "fresh_run i d trigger at_time now = \<lparr>rn_id = i, rn_auto = ad_id d, rn_def = d, rn_trigger = trigger, rn_for = at_time,
     rn_status = Pending, rn_not_before = None, rn_busy = 0, rn_wait_reason = None, rn_submitted = None, rn_turn = None,
     rn_attempt = 0, rn_session = None, rn_result = None, rn_suggestion = None, rn_error = None, rn_created = now,
     rn_started = None, rn_finished = None\<rparr>"

text \<open>Several methods end the same way: the new value is parsed, stored and saved.\<close>

definition store_parsed :: "auto_run \<Rightarrow> 'r auto_store \<Rightarrow> (string + auto_run) \<times> 'r auto_store" where
  "store_parsed r s =
     (case parse_with run_valid r of Inl e \<Rightarrow> (Inl e, s) | Inr r' \<Rightarrow> (Inr r', auto_save (put_run r' s)))"

definition run_now ::
  "(nat \<Rightarrow> string) \<Rightarrow> nat \<Rightarrow> string \<Rightarrow> 'r auto_store \<Rightarrow> (string + auto_run) \<times> 'r auto_store" where
  "run_now uuid now i s =
     (case required i s of
        Inl e \<Rightarrow> (Inl e, s)
      | Inr d \<Rightarrow> store_parsed (fresh_run (manual_run_id (uuid (sto_drawn s))) d Manual now now)
                   (s\<lparr>sto_drawn := Suc (sto_drawn s)\<rparr>))"

definition scheduled_run_id :: "string \<Rightarrow> nat \<Rightarrow> string" where
  "scheduled_run_id i t = ''automation-run-'' @ i @ ''-'' @ show_nat t"

definition is_due :: "nat \<Rightarrow> auto_def \<Rightarrow> bool" where
  "is_due now d = (ad_enabled d \<and> (case ad_next d of None \<Rightarrow> False | Some t \<Rightarrow> t \<le> now))"

definition is_once :: "sched \<Rightarrow> bool" where
  "is_once c = (case c of S_Once t \<Rightarrow> True | _ \<Rightarrow> False)"

text \<open>One due definition: its occurrence becomes a run unless it is one already, then the definition moves on.\<close>

definition add_occurrence :: "nat \<Rightarrow> auto_def \<Rightarrow> 'r auto_store \<Rightarrow> string + 'r auto_store" where
  "add_occurrence now d s =
     (let t = the (ad_next d); i = scheduled_run_id (ad_id d) t
      in if jmap_get (sto_runs s) i \<noteq> None then Inr s
         else map_sum id (\<lambda>r. put_run r s) (parse_with run_valid (fresh_run i d Scheduled t now)))"

definition move_on :: "calendar \<Rightarrow> nat \<Rightarrow> auto_def \<Rightarrow> string + auto_def" where
  "move_on cal now d =
     map_sum id (\<lambda>n. d\<lparr>ad_version := ad_version d + 1, ad_last := ad_next d,
         ad_enabled := (if is_once (ad_schedule d) then False else ad_enabled d), ad_next := n, ad_updated := now\<rparr>)
       (if is_once (ad_schedule d) then Inr None else map_sum id Some (next_schedule_time cal (ad_schedule d) now))"

fun claim_due :: "calendar \<Rightarrow> nat \<Rightarrow> auto_def list \<Rightarrow> bool \<Rightarrow> 'r auto_store \<Rightarrow> (string + bool) \<times> 'r auto_store" where
  "claim_due cal now [] changed s = (Inr changed, s)"
| "claim_due cal now (d # ds) changed s =
     (if \<not> is_due now d then claim_due cal now ds changed s
      else case add_occurrence now d s of
             Inl e \<Rightarrow> (Inl e, s)
           | Inr s1 \<Rightarrow> (case move_on cal now d of
                          Inl e \<Rightarrow> (Inl e, s1)
                        | Inr d' \<Rightarrow> claim_due cal now ds True (put_def d' s1)))"

definition runnable :: "nat \<Rightarrow> auto_run \<Rightarrow> bool" where
  "runnable now r \<longleftrightarrow> rn_status r = Pending \<or>
     (rn_status r = Waiting \<and> (case rn_not_before r of None \<Rightarrow> False | Some t \<Rightarrow> t \<le> now))"

definition claim_runnable :: "calendar \<Rightarrow> nat \<Rightarrow> 'r auto_store \<Rightarrow> (string + auto_run list) \<times> 'r auto_store" where
  "claim_runnable cal now s =
     (case claim_due cal now (map snd (sto_defs s)) False s of
        (Inl e, s1) \<Rightarrow> (Inl e, s1)
      | (Inr changed, s1) \<Rightarrow>
          (let s2 = (if changed then auto_save s1 else s1)
           in (Inr (sort_key rn_created (filter (runnable now) (map snd (sto_runs s2)))), s2)))"

definition begin_run :: "nat \<Rightarrow> string \<Rightarrow> 'r auto_store \<Rightarrow> (string + auto_run) \<times> 'r auto_store" where
  "begin_run now i s =
     (case required_run i s of
        Inl e \<Rightarrow> (Inl e, s)
      | Inr r \<Rightarrow>
          (if rn_status r \<noteq> Pending \<and> rn_status r \<noteq> Waiting then (Inl ''automation_run_not_pending'', s)
           else store_parsed (r\<lparr>rn_status := Running, rn_attempt := rn_attempt r + 1, rn_started := Some now,
                  rn_error := None, rn_not_before := None\<rparr>) s))"

definition bind_session :: "string \<Rightarrow> string \<Rightarrow> 'r auto_store \<Rightarrow> (string + unit) \<times> 'r auto_store" where
  "bind_session i session s =
     (case required_run i s of
        Inl e \<Rightarrow> (Inl e, s)
      | Inr r \<Rightarrow> (if rn_status r \<noteq> Running then (Inr (), s)
                  else map_prod (map_sum id (\<lambda>_. ())) id (store_parsed (r\<lparr>rn_session := Some session\<rparr>) s)))"

definition submitted :: "nat \<Rightarrow> string \<Rightarrow> string \<Rightarrow> 'r auto_store \<Rightarrow> (string + unit) \<times> 'r auto_store" where
  "submitted now i turn s =
     (case required_run i s of
        Inl e \<Rightarrow> (Inl e, s)
      | Inr r \<Rightarrow> (if rn_status r \<noteq> Running then (Inr (), s)
                  else (Inr (), auto_save (put_run (r\<lparr>rn_turn := Some turn, rn_submitted := Some now\<rparr>) s))))"

definition busy_retries :: nat where
  "busy_retries = 3"

definition defer_busy :: "nat \<Rightarrow> string \<Rightarrow> 'r auto_store \<Rightarrow> (string + auto_run) \<times> 'r auto_store" where
  "defer_busy now i s =
     (case required_run i s of
        Inl e \<Rightarrow> (Inl e, s)
      | Inr r \<Rightarrow>
          (if rn_status r = Cancelled then (Inr r, s)
           else if rn_status r \<noteq> Running \<or> rn_submitted r \<noteq> None then (Inl ''automation_run_not_retryable'', s)
           else (let exhausted = busy_retries \<le> rn_busy r;
                     r' = r\<lparr>rn_status := (if exhausted then Skipped_Busy else Waiting),
                            rn_attempt := rn_attempt r - 1,
                            rn_busy := rn_busy r + (if exhausted then 0 else 1),
                            rn_not_before := (if exhausted then None else Some (now + 30000)),
                            rn_wait_reason := Some ''session_busy'',
                            rn_error := (if exhausted then Some ''automation_session_busy_after_retries'' else None),
                            rn_started := None,
                            rn_finished := (if exhausted then Some now else None)\<rparr>
                 in (Inr r', auto_save (put_run r' s)))))"

definition next_wake_at :: "'r auto_store \<Rightarrow> nat option" where
  "next_wake_at s =
     (case sort (concat (map (\<lambda>d. if ad_enabled d then (case ad_next d of Some t \<Rightarrow> [t] | None \<Rightarrow> []) else []) (auto_list s)) @
                 concat (map (\<lambda>r. if rn_status r = Waiting then (case rn_not_before r of Some t \<Rightarrow> [t] | None \<Rightarrow> []) else [])
                   (map snd (sto_runs s)))) of
        [] \<Rightarrow> None | t # _ \<Rightarrow> Some t)"

definition interrupted :: "auto_run \<Rightarrow> bool" where
  "interrupted r \<longleftrightarrow> rn_status r = Failed \<and> rn_error r = Some ''runtime_restarted''"

definition interrupted_executions :: "'r auto_store \<Rightarrow> (string \<times> auto_def) list" where
  "interrupted_executions s =
     map (\<lambda>r. (rn_id r, rn_def r))
       (sort_key rn_created (filter (\<lambda>r. interrupted r \<and> rn_id r \<notin> set (sto_reconciled s)) (map snd (sto_runs s))))"

definition acknowledge_interrupted :: "string \<Rightarrow> 'r auto_store \<Rightarrow> (string + unit) \<times> 'r auto_store" where
  "acknowledge_interrupted i s =
     (case required_run i s of
        Inl e \<Rightarrow> (Inl e, s)
      | Inr r \<Rightarrow>
          (if \<not> interrupted r then (Inl ''automation_run_not_interrupted'', s)
           else (Inr (), auto_save (if i \<in> set (sto_reconciled s) then s
                   else s\<lparr>sto_reconciled := sto_reconciled s @ [i]\<rparr>))))"

datatype run_outcome =
    Run_Succeeded string "string option" "string option"
  | Run_Failed string "string option"

fun outcome_run :: "run_outcome \<Rightarrow> auto_run \<Rightarrow> auto_run" where
  "outcome_run (Run_Succeeded session result path) r =
     r\<lparr>rn_status := Succeeded, rn_session := Some session, rn_result := result, rn_suggestion := path, rn_error := None\<rparr>"
| "outcome_run (Run_Failed err session) r =
     r\<lparr>rn_status := Failed, rn_session := (case session of Some i \<Rightarrow> Some i | None \<Rightarrow> rn_session r), rn_result := None,
       rn_suggestion := None, rn_error := Some err\<rparr>"

definition finish_run :: "nat \<Rightarrow> string \<Rightarrow> run_outcome \<Rightarrow> 'r auto_store \<Rightarrow> (string + auto_run) \<times> 'r auto_store" where
  "finish_run now i outcome s =
     (case required_run i s of
        Inl e \<Rightarrow> (Inl e, s)
      | Inr r \<Rightarrow>
          (if rn_status r = Cancelled then (Inr r, s)
           else if rn_status r \<noteq> Running then (Inl ''automation_run_not_running'', s)
           else store_parsed ((outcome_run outcome r)\<lparr>rn_finished := Some now\<rparr>) s))"

definition cancel_run :: "nat \<Rightarrow> string \<Rightarrow> string \<Rightarrow> 'r auto_store \<Rightarrow> (string + auto_run) \<times> 'r auto_store" where
  "cancel_run now auto i s =
     (case required_run i s of
        Inl e \<Rightarrow> (Inl e, s)
      | Inr r \<Rightarrow>
          (if rn_auto r \<noteq> auto then (Inl ''automation_run_not_found'', s)
           else if \<not> active_status (rn_status r) then (Inl ''automation_run_not_cancellable'', s)
           else store_parsed (r\<lparr>rn_status := Cancelled, rn_finished := Some now\<rparr>) s))"

subsection \<open>Operations given an id\<close>

definition auto_operation ::
  "string \<Rightarrow> string \<Rightarrow> ('r auto_store \<Rightarrow> (string + 'r) \<times> 'r auto_store) \<Rightarrow> 'r auto_store \<Rightarrow> (string + 'r) \<times> 'r auto_store" where
  "auto_operation i encoded perform s =
     (if \<not> operation_id_ok i then (Inl ''invalid_operation_id'', s)
      else case jmap_get (sto_ops s) i of
        Some (inp, res) \<Rightarrow> (if inp \<noteq> encoded then Inl ''operation_id_conflict'' else Inr res, s)
      | None \<Rightarrow>
          (case perform (s\<lparr>sto_batch := True\<rparr>) of
             (Inr v, s1) \<Rightarrow> (Inr v, auto_save (s1\<lparr>sto_ops := jmap_set i (encoded, v) (sto_ops s1), sto_batch := False\<rparr>))
           | (Inl e, s1) \<Rightarrow> (Inl e, s1\<lparr>sto_defs := sto_defs s, sto_runs := sto_runs s,
                               sto_ops := jmap_delete i (sto_ops s1), sto_batch := False\<rparr>)))"

section \<open>What the store keeps true\<close>

definition status_ok :: "auto_run \<Rightarrow> bool" where
  "status_ok r \<longleftrightarrow> rn_busy r \<le> busy_retries \<and>
     (case rn_status r of
        Pending \<Rightarrow> rn_attempt r = 0 \<and> rn_busy r = 0 \<and> rn_finished r = None
      | Waiting \<Rightarrow> rn_attempt r = 0 \<and> 1 \<le> rn_busy r \<and> rn_not_before r \<noteq> None \<and> rn_finished r = None
      | Running \<Rightarrow> rn_attempt r = 1 \<and> rn_started r \<noteq> None \<and> rn_finished r = None
      | _ \<Rightarrow> rn_attempt r \<le> 1 \<and> rn_finished r \<noteq> None)"

definition def_ok :: "(nat \<Rightarrow> string) \<Rightarrow> nat \<Rightarrow> auto_def \<Rightarrow> bool" where
  "def_ok uuid n d \<longleftrightarrow> def_valid d \<and> notification_ok d \<and> (ad_enabled d \<longleftrightarrow> ad_next d \<noteq> None) \<and>
     (\<exists>k < n. ad_id d = definition_id (uuid k))"

definition run_ok :: "(nat \<Rightarrow> string) \<Rightarrow> nat \<Rightarrow> auto_run \<Rightarrow> bool" where
  "run_ok uuid n r \<longleftrightarrow> run_valid r \<and> status_ok r \<and> def_ok uuid n (rn_def r) \<and> rn_auto r = ad_id (rn_def r) \<and>
     (case rn_trigger r of
        Scheduled \<Rightarrow> rn_id r = scheduled_run_id (rn_auto r) (rn_for r)
      | Manual \<Rightarrow> (\<exists>k < n. rn_id r = manual_run_id (uuid k)))"

definition maps_ok ::
  "(nat \<Rightarrow> string) \<Rightarrow> nat \<Rightarrow> (string \<times> auto_def) list \<Rightarrow> (string \<times> auto_run) list \<Rightarrow> bool" where
  "maps_ok uuid n defs runs \<longleftrightarrow> keyed ad_id defs \<and> keyed rn_id runs \<and>
     (\<forall>d \<in> set (map snd defs). def_ok uuid n d) \<and>
     (\<forall>r \<in> set (map snd runs). run_ok uuid n r \<and> rn_auto r \<in> set (jkeys defs))"

definition document_ok :: "(nat \<Rightarrow> string) \<Rightarrow> nat \<Rightarrow> 'r auto_document \<Rightarrow> bool" where
  "document_ok uuid n d \<longleftrightarrow>
     (\<exists>defs runs. maps_ok uuid n defs runs \<and> doc_defs d = map snd defs \<and> doc_runs d = map snd runs) \<and>
     list_all (\<lambda>i. i \<noteq> []) (doc_reconciled d) \<and> distinct (jkeys (doc_ops d))"

definition disk_ok :: "(nat \<Rightarrow> string) \<Rightarrow> nat \<Rightarrow> 'r auto_document option \<Rightarrow> bool" where
  "disk_ok uuid n disk \<longleftrightarrow> (\<forall>d. disk = Some d \<longrightarrow> document_ok uuid n d)"

definition store_ok :: "(nat \<Rightarrow> string) \<Rightarrow> 'r auto_store \<Rightarrow> bool" where
  "store_ok uuid s \<longleftrightarrow> maps_ok uuid (sto_drawn s) (sto_defs s) (sto_runs s) \<and>
     list_all (\<lambda>i. i \<noteq> []) (sto_reconciled s) \<and> distinct (jkeys (sto_ops s)) \<and>
     disk_ok uuid (sto_drawn s) (sto_disk s)"

lemma def_ok_mono: "def_ok uuid n d \<Longrightarrow> n \<le> m \<Longrightarrow> def_ok uuid m d"
  unfolding def_ok_def by (metis order_less_le_trans)

lemma run_ok_mono: "run_ok uuid n r \<Longrightarrow> n \<le> m \<Longrightarrow> run_ok uuid m r"
  unfolding run_ok_def using def_ok_mono [of uuid n "rn_def r" m]
  by (cases "rn_trigger r") (auto intro: order_less_le_trans)

lemma maps_ok_mono: "maps_ok uuid n defs runs \<Longrightarrow> n \<le> m \<Longrightarrow> maps_ok uuid m defs runs"
  unfolding maps_ok_def by (meson def_ok_mono run_ok_mono)

lemma document_ok_mono: "document_ok uuid n d \<Longrightarrow> n \<le> m \<Longrightarrow> document_ok uuid m d"
  unfolding document_ok_def by (meson maps_ok_mono)

lemma store_ok_draw: "store_ok uuid s \<Longrightarrow> store_ok uuid (s\<lparr>sto_drawn := Suc (sto_drawn s)\<rparr>)"
  by (auto simp: store_ok_def disk_ok_def intro: maps_ok_mono document_ok_mono)

lemma store_ok_batch: "store_ok uuid (s\<lparr>sto_batch := b\<rparr>) = store_ok uuid s"
  by (simp add: store_ok_def)

lemma store_ok_save: "store_ok uuid s \<Longrightarrow> store_ok uuid (auto_save s)"
  by (auto simp: store_ok_def auto_save_def auto_document_of_def disk_ok_def document_ok_def list_all_iff)

lemma maps_ok_put_def:
  assumes "maps_ok uuid n defs runs" "def_ok uuid n d" "k = ad_id d"
  shows "maps_ok uuid n (jmap_set k d defs) runs"
proof -
  have "keyed ad_id (jmap_set k d defs)" by (rule keyed_set) (use assms in \<open>simp_all add: maps_ok_def\<close>)
  moreover have "\<forall>x \<in> set (map snd (jmap_set k d defs)). def_ok uuid n x"
    using assms values_set [of k d defs] unfolding maps_ok_def by blast
  moreover have "set (jkeys defs) \<subseteq> set (jkeys (jmap_set k d defs))" by (simp add: jkeys_set_set subset_insertI del: set_map)
  ultimately show ?thesis using assms(1) unfolding maps_ok_def by blast
qed

lemma maps_ok_put_run:
  assumes "maps_ok uuid n defs runs" "run_ok uuid n r" "rn_auto r \<in> set (jkeys defs)" "k = rn_id r"
  shows "maps_ok uuid n defs (jmap_set k r runs)"
proof -
  have "keyed rn_id (jmap_set k r runs)" by (rule keyed_set) (use assms in \<open>simp_all add: maps_ok_def\<close>)
  moreover have "\<forall>x \<in> set (map snd (jmap_set k r runs)). run_ok uuid n x \<and> rn_auto x \<in> set (jkeys defs)"
    using assms values_set [of k r runs] unfolding maps_ok_def by blast
  ultimately show ?thesis using assms(1) unfolding maps_ok_def by blast
qed

lemma store_ok_put_def: "store_ok uuid s \<Longrightarrow> def_ok uuid (sto_drawn s) d \<Longrightarrow> store_ok uuid (put_def d s)"
  by (simp add: store_ok_def put_def_def maps_ok_put_def)

lemma store_ok_put_run:
  "store_ok uuid s \<Longrightarrow> run_ok uuid (sto_drawn s) r \<Longrightarrow> rn_auto r \<in> set (jkeys (sto_defs s)) \<Longrightarrow> store_ok uuid (put_run r s)"
  by (simp add: store_ok_def put_run_def maps_ok_put_run)

lemma store_defs: "store_ok uuid s \<Longrightarrow> (k, d) \<in> set (sto_defs s) \<Longrightarrow> def_ok uuid (sto_drawn s) d \<and> ad_id d = k"
  unfolding store_ok_def maps_ok_def keyed_def by force

lemma store_runs:
  "store_ok uuid s \<Longrightarrow> (k, r) \<in> set (sto_runs s) \<Longrightarrow>
   run_ok uuid (sto_drawn s) r \<and> rn_id r = k \<and> rn_auto r \<in> set (jkeys (sto_defs s))"
  unfolding store_ok_def maps_ok_def keyed_def by force

lemma required_ok:
  assumes "store_ok uuid s" "required i s = Inr d"
  shows "def_ok uuid (sto_drawn s) d" "ad_id d = i" "jmap_get (sto_defs s) i = Some d"
proof -
  show get: "jmap_get (sto_defs s) i = Some d" using assms(2) by (auto simp: required_def split: option.splits)
  show "def_ok uuid (sto_drawn s) d" "ad_id d = i" using store_defs [OF assms(1) map_of_SomeD [OF get]] by simp_all
qed

lemma required_run_ok:
  assumes "store_ok uuid s" "required_run i s = Inr r"
  shows "run_ok uuid (sto_drawn s) r" "rn_id r = i" "rn_auto r \<in> set (jkeys (sto_defs s))" "jmap_get (sto_runs s) i = Some r"
proof -
  show get: "jmap_get (sto_runs s) i = Some r" using assms(2) by (auto simp: required_run_def split: option.splits)
  show "run_ok uuid (sto_drawn s) r" "rn_id r = i" "rn_auto r \<in> set (jkeys (sto_defs s))"
    using store_runs [OF assms(1) map_of_SomeD [OF get]] by simp_all
qed

text \<open>A changed run stays well formed when only its progress changes.\<close>

lemma store_parsed_ok:
  assumes "store_ok uuid s" "run_valid r \<Longrightarrow> run_ok uuid (sto_drawn s) r" "rn_auto r \<in> set (jkeys (sto_defs s))"
  shows "store_ok uuid (snd (store_parsed r s))"
  using assms by (simp add: store_parsed_def parse_with_def store_ok_save store_ok_put_run del: set_map)

subsection \<open>Every method keeps it\<close>

lemma next_time_enabled: "map_sum id Some x = Inr n \<Longrightarrow> n \<noteq> None"
  by (cases x) auto

lemma create_ok: "store_ok uuid s \<Longrightarrow> store_ok uuid (snd (auto_create uuid cal now input s))"
  unfolding auto_create_def Let_def
  by (auto split: sum.splits simp: store_ok_draw def_ok_def def_valid_def input_valid_def notification_ok_def
      definition_id_def auto_input.defs auto_def.defs
      intro!: store_ok_save store_ok_put_def exI [of _ "sto_drawn s"] dest: next_time_enabled)

lemma updated_def_ok:
  assumes "updated_def cal now p d = Inr d'" "def_ok uuid k d"
  shows "def_ok uuid k d'" "ad_id d' = ad_id d"
proof -
  obtain n where d': "d' = (apply_patch p d)\<lparr>ad_version := ad_version d + 1, ad_next := n, ad_updated := now\<rparr>"
    and valid: "def_valid d'" "notification_ok d'"
    and n: "(if \<not> given (pa_enabled p) (ad_enabled d) then Inr None
      else if \<not> ad_enabled d \<or> pa_schedule p \<noteq> None
      then map_sum id Some (next_schedule_time cal (given (pa_schedule p) (ad_schedule d)) now) else Inr (ad_next d)) = Inr n"
    using assms(1) by (auto simp: updated_def_def Let_def parse_with_def split: sum.splits if_splits)
  have "given (pa_enabled p) (ad_enabled d) \<longleftrightarrow> n \<noteq> None"
    using n assms(2) by (auto simp: def_ok_def split: if_splits dest: next_time_enabled)
  then show "def_ok uuid k d'" "ad_id d' = ad_id d"
    using d' valid assms(2) by (simp_all add: def_ok_def apply_patch_def)
qed

lemma cancel_scheduled_ok: "run_ok uuid n r \<Longrightarrow> run_ok uuid n (cancel_scheduled now i r)"
  by (auto simp: cancel_scheduled_def run_ok_def run_valid_def status_ok_def split: run_trigger.splits run_status.splits)

lemma cancel_scheduled_simps [simp]:
  "rn_id (cancel_scheduled now i r) = rn_id r" "rn_auto (cancel_scheduled now i r) = rn_auto r"
  by (simp_all add: cancel_scheduled_def)

lemma maps_ok_cancel_scheduled:
  "maps_ok uuid n defs runs \<Longrightarrow> maps_ok uuid n defs (map (map_prod id (cancel_scheduled now i)) runs)"
  by (auto simp: maps_ok_def keyed_def cancel_scheduled_ok)

lemma update_ok:
  assumes "store_ok uuid s"
  shows "store_ok uuid (snd (auto_update cal now i v p s))"
proof (cases "required i s")
  case (Inl e)
  then show ?thesis using assms by (simp add: auto_update_def)
next
  case (Inr d)
  note d = required_ok [OF assms Inr]
  show ?thesis
  proof (cases "updated_def cal now p d")
    case (Inl e)
    then show ?thesis using assms Inr by (simp add: auto_update_def)
  next
    case new: (Inr d')
    note d' = updated_def_ok [OF new d(1)]
    have put: "store_ok uuid (s\<lparr>sto_defs := jmap_set i d' (sto_defs s)\<rparr>)"
      using store_ok_put_def [OF assms d'(1)] d(2) d'(2) by (simp add: put_def_def)
    then have "store_ok uuid (s\<lparr>sto_defs := jmap_set i d' (sto_defs s),
        sto_runs := map (map_prod id (cancel_scheduled now i)) (sto_runs s)\<rparr>)"
      using maps_ok_cancel_scheduled by (simp add: store_ok_def)
    with put show ?thesis using assms Inr new by (simp add: auto_update_def Let_def store_ok_save)
  qed
qed

lemma delete_ok:
  assumes "store_ok uuid s"
  shows "store_ok uuid (snd (auto_delete i s))"
proof -
  have "maps_ok uuid (sto_drawn s) (jmap_delete i (sto_defs s)) (filter (\<lambda>(k, r). rn_auto r \<noteq> i) (sto_runs s))"
    using assms by (force simp: store_ok_def maps_ok_def keyed_filter jmap_delete_filter)
  then have "store_ok uuid (s\<lparr>sto_defs := jmap_delete i (sto_defs s),
      sto_runs := filter (\<lambda>(k, r). rn_auto r \<noteq> i) (sto_runs s)\<rparr>)"
    using assms by (simp add: store_ok_def)
  with assms show ?thesis by (auto simp: auto_delete_def store_ok_save split: sum.split)
qed

lemma fresh_run_ok:
  assumes "def_ok uuid n d"
    and "trigger = Scheduled \<Longrightarrow> i = scheduled_run_id (ad_id d) t" "trigger = Manual \<Longrightarrow> \<exists>k < n. i = manual_run_id (uuid k)"
    and "run_valid (fresh_run i d trigger t now)"
  shows "run_ok uuid n (fresh_run i d trigger t now)"
  using assms by (auto simp: run_ok_def fresh_run_def status_ok_def split: run_trigger.split)

lemma run_now_ok:
  assumes "store_ok uuid s"
  shows "store_ok uuid (snd (run_now uuid now i s))"
proof (cases "required i s")
  case (Inr d)
  let ?s = "s\<lparr>sto_drawn := Suc (sto_drawn s)\<rparr>" and ?r = "fresh_run (manual_run_id (uuid (sto_drawn s))) d Manual now now"
  note d = required_ok [OF assms Inr]
  have "def_ok uuid (Suc (sto_drawn s)) d" by (rule def_ok_mono [OF d(1)]) simp
  then have "run_valid ?r \<Longrightarrow> run_ok uuid (sto_drawn ?s) ?r" by (intro fresh_run_ok) auto
  moreover have "rn_auto ?r \<in> set (jkeys (sto_defs ?s))"
    using map_of_SomeD [OF d(3)] d(2) by (force simp: fresh_run_def)
  ultimately have "store_ok uuid (snd (store_parsed ?r ?s))"
    by (rule store_parsed_ok [OF store_ok_draw [OF assms]])
  with Inr show ?thesis by (simp add: run_now_def)
qed (simp add: run_now_def assms)

text \<open>The methods on one run.\<close>

lemma run_step_ok:
  assumes "store_ok uuid s" "required_run i s = Inr r"
    and "rn_id r' = rn_id r" "rn_auto r' = rn_auto r" "rn_def r' = rn_def r" "rn_trigger r' = rn_trigger r" "rn_for r' = rn_for r"
    and "status_ok r \<Longrightarrow> status_ok r'"
  shows "store_ok uuid (snd (store_parsed r' s))"
    and "rn_session r' \<noteq> Some [] \<Longrightarrow> store_ok uuid (put_run r' s)"
proof -
  note r = required_run_ok [OF assms(1,2)]
  have ok: "run_ok uuid (sto_drawn s) r'" if "run_valid r'"
    using r(1) that assms(3-) unfolding run_ok_def by (cases "rn_trigger r") simp_all
  show "store_ok uuid (snd (store_parsed r' s))"
    by (rule store_parsed_ok [OF assms(1) ok]) (use r(3) assms(4) in simp_all)
  assume "rn_session r' \<noteq> Some []"
  then have "run_valid r'" using r(1) assms(3-5) unfolding run_ok_def run_valid_def by metis
  then show "store_ok uuid (put_run r' s)"
    by (intro store_ok_put_run [OF assms(1) ok]) (use r(3) assms(4) in simp_all)
qed

lemma begin_ok: "store_ok uuid s \<Longrightarrow> store_ok uuid (snd (begin_run now i s))"
  by (auto simp: begin_run_def split: sum.split intro!: run_step_ok(1))
    (auto simp: status_ok_def)

lemma bind_ok: "store_ok uuid s \<Longrightarrow> store_ok uuid (snd (bind_session i session s))"
  by (auto simp: bind_session_def split: sum.split intro!: run_step_ok(1))
    (auto simp: status_ok_def)

lemma finish_ok: "store_ok uuid s \<Longrightarrow> store_ok uuid (snd (finish_run now i outcome s))"
  by (cases outcome; auto simp: finish_run_def split: sum.split intro!: run_step_ok(1))
    (auto simp: status_ok_def)

lemma cancel_ok: "store_ok uuid s \<Longrightarrow> store_ok uuid (snd (cancel_run now auto i s))"
  by (auto simp: cancel_run_def split: sum.split intro!: run_step_ok(1))
    (auto simp: status_ok_def split: run_status.splits)

lemma submitted_ok: "store_ok uuid s \<Longrightarrow> store_ok uuid (snd (submitted now i turn s))"
  by (auto simp: submitted_def split: sum.split intro!: store_ok_save run_step_ok(2))
    (auto simp: status_ok_def dest!: required_run_ok(1) simp: run_ok_def run_valid_def)

lemma defer_ok: "store_ok uuid s \<Longrightarrow> store_ok uuid (snd (defer_busy now i s))"
  by (auto simp: defer_busy_def Let_def split: sum.split intro!: store_ok_save run_step_ok(2))
    (auto simp: status_ok_def busy_retries_def dest!: required_run_ok(1) simp: run_ok_def run_valid_def)

lemma required_run_id: "store_ok uuid s \<Longrightarrow> required_run i s = Inr r \<Longrightarrow> i \<noteq> []"
  using required_run_ok(1,2) by (fastforce simp: run_ok_def run_valid_def)

lemma acknowledge_ok: "store_ok uuid s \<Longrightarrow> store_ok uuid (snd (acknowledge_interrupted i s))"
  by (auto simp: acknowledge_interrupted_def split: sum.split intro!: store_ok_save)
    (frule (1) required_run_id, simp add: store_ok_def)

lemma add_occurrence_ok:
  assumes "store_ok uuid s" "add_occurrence now d s = Inr s'" "def_ok uuid (sto_drawn s) d" "ad_id d \<in> set (jkeys (sto_defs s))"
  shows "store_ok uuid s'" "sto_defs s' = sto_defs s" "sto_drawn s' = sto_drawn s"
proof -
  let ?r = "fresh_run (scheduled_run_id (ad_id d) (the (ad_next d))) d Scheduled (the (ad_next d)) now"
  have s': "s' = s \<or> (run_valid ?r \<and> s' = put_run ?r s)"
    using assms(2) by (auto simp: add_occurrence_def Let_def parse_with_def split: if_splits)
  moreover have "store_ok uuid (put_run ?r s)" if "run_valid ?r"
    using assms(3,4) that
    by (intro store_ok_put_run [OF assms(1)] fresh_run_ok) (simp_all add: fresh_run_def)
  ultimately show "store_ok uuid s'" using assms(1) by auto
  show "sto_defs s' = sto_defs s" "sto_drawn s' = sto_drawn s" using s' by (auto simp: put_run_def)
qed

lemma move_on_ok:
  assumes "move_on cal now d = Inr d'" "def_ok uuid n d" "is_due now d"
  shows "def_ok uuid n d'" "ad_id d' = ad_id d"
proof -
  let ?next = "if is_once (ad_schedule d) then Inr None else map_sum id Some (next_schedule_time cal (ad_schedule d) now)"
  obtain m where m: "?next = Inr m" and d': "d' = d\<lparr>ad_version := ad_version d + 1, ad_last := ad_next d,
      ad_enabled := (if is_once (ad_schedule d) then False else ad_enabled d), ad_next := m, ad_updated := now\<rparr>"
    using assms(1) unfolding move_on_def by (cases ?next) auto
  have "m \<noteq> None \<longleftrightarrow> \<not> is_once (ad_schedule d)" using m by (auto split: if_splits dest: next_time_enabled)
  then show "def_ok uuid n d'" "ad_id d' = ad_id d"
    using assms(2,3) by (simp_all add: d' def_ok_def def_valid_def input_valid_def notification_ok_def is_due_def)
qed

lemma claim_due_ok:
  assumes "store_ok uuid s" "\<And>d. d \<in> set ds \<Longrightarrow> def_ok uuid (sto_drawn s) d \<and> ad_id d \<in> set (jkeys (sto_defs s))"
  shows "store_ok uuid (snd (claim_due cal now ds changed s))"
  using assms
proof (induction ds arbitrary: changed s)
  case (Cons d ds)
  show ?case
  proof (cases "is_due now d")
    case False
    with Cons show ?thesis by simp
  next
    case due: True
    show ?thesis
    proof (cases "add_occurrence now d s")
      case (Inl e)
      with due Cons.prems(1) show ?thesis by simp
    next
      case s1: (Inr s1)
      note ok = add_occurrence_ok [OF Cons.prems(1) s1]
      have d: "def_ok uuid (sto_drawn s) d" "ad_id d \<in> set (jkeys (sto_defs s))" using Cons.prems(2) by auto
      show ?thesis
      proof (cases "move_on cal now d")
        case (Inl e)
        with due s1 ok(1) d show ?thesis by simp
      next
        case d': (Inr d')
        note m = move_on_ok [OF d' d(1) due]
        have "store_ok uuid (put_def d' s1)"
          by (rule store_ok_put_def [OF ok(1)]) (use d m ok(3) in simp_all)
        moreover have "def_ok uuid (sto_drawn (put_def d' s1)) x \<and> ad_id x \<in> set (jkeys (sto_defs (put_def d' s1)))"
          if "x \<in> set ds" for x
          using Cons.prems(2) [of x] that ok(2,3) d by (simp add: put_def_def jkeys_set_set del: set_map)
        ultimately show ?thesis using due s1 d' Cons.IH by simp
      qed
    qed
  qed
qed simp

lemma stored_defs: "store_ok uuid s \<Longrightarrow> d \<in> set (map snd (sto_defs s)) \<Longrightarrow>
    def_ok uuid (sto_drawn s) d \<and> ad_id d \<in> set (jkeys (sto_defs s))"
  using store_defs by force

lemma claim_ok:
  assumes "store_ok uuid s"
  shows "store_ok uuid (snd (claim_runnable cal now s))"
proof -
  have "store_ok uuid (snd (claim_due cal now (map snd (sto_defs s)) False s))"
    by (rule claim_due_ok [OF assms stored_defs [OF assms]])
  then show ?thesis by (auto simp: claim_runnable_def Let_def store_ok_save split: prod.splits sum.splits)
qed

lemma operation_ok:
  assumes "store_ok uuid s"
    and "\<And>t. store_ok uuid t \<Longrightarrow> store_ok uuid (snd (perform t)) \<and> sto_drawn t \<le> sto_drawn (snd (perform t))"
  shows "store_ok uuid (snd (auto_operation i encoded perform s))"
proof -
  have p: "store_ok uuid (snd (perform (s\<lparr>sto_batch := True\<rparr>)))"
    "sto_drawn s \<le> sto_drawn (snd (perform (s\<lparr>sto_batch := True\<rparr>)))"
    using assms(2) [of "s\<lparr>sto_batch := True\<rparr>"] assms(1) by (simp_all add: store_ok_batch)
  have success: "store_ok uuid (auto_save (t\<lparr>sto_ops := jmap_set i v (sto_ops t), sto_batch := False\<rparr>))"
    if "store_ok uuid t" for t v
    by (rule store_ok_save) (use that in \<open>simp add: store_ok_def\<close>)
  have failure: "store_ok uuid (t\<lparr>sto_defs := sto_defs s, sto_runs := sto_runs s,
      sto_ops := jmap_delete i (sto_ops t), sto_batch := False\<rparr>)"
    if "store_ok uuid t" "sto_drawn s \<le> sto_drawn t" for t
    using that assms(1) maps_ok_mono by (auto simp: store_ok_def)
  show ?thesis
    using p success failure assms(1)
    by (auto simp: auto_operation_def split: option.split prod.splits sum.split)
qed

text \<open>Reading a document back.\<close>

lemma recover_run_ok: "run_ok uuid n r \<Longrightarrow> run_ok uuid n (recover_run now r)"
  by (auto simp: recover_run_def run_ok_def run_valid_def status_ok_def split: run_trigger.splits)

lemma recover_run_simps [simp]: "rn_id (recover_run now r) = rn_id r" "rn_auto (recover_run now r) = rn_auto r"
  by (simp_all add: recover_run_def)

lemma maps_ok_recover: "maps_ok uuid n defs runs \<Longrightarrow> maps_ok uuid n defs (map (map_prod id (recover_run now)) runs)"
  by (auto simp: maps_ok_def keyed_def recover_run_ok)

lemma document_ok_valid: "document_ok uuid n d \<Longrightarrow> document_valid d"
  by (auto simp: document_ok_def document_valid_def maps_ok_def list_all_iff def_ok_def run_ok_def)

lemma open_ok:
  assumes "disk_ok uuid n disk"
  shows "\<exists>s. open_store now n disk = Inr s \<and> store_ok uuid s \<and> sto_drawn s = n"
proof (cases disk)
  case None
  then show ?thesis by (simp add: open_store_def empty_store_def store_ok_def maps_ok_def keyed_def disk_ok_def)
next
  case (Some d)
  then have d: "document_ok uuid n d" using assms by (simp add: disk_ok_def)
  then obtain defs runs where m: "maps_ok uuid n defs runs" "doc_defs d = map snd defs" "doc_runs d = map snd runs"
    by (auto simp: document_ok_def)
  have defs: "fold (\<lambda>v. jmap_set (ad_id v) v) (doc_defs d) [] = defs"
    using keyed_fold [of ad_id defs id] m by (simp add: maps_ok_def prod.map_id0)
  have runs: "fold (\<lambda>v. jmap_set (rn_id v) (recover_run now v)) (doc_runs d) [] = map (map_prod id (recover_run now)) runs"
    using keyed_fold [of rn_id runs "recover_run now"] m by (simp add: maps_ok_def)
  have ops: "distinct (jkeys (fold (\<lambda>v. jmap_set (fst v) (snd v)) (doc_ops d) []))"
    using fold_put_keyed [of fst "doc_ops d" "[]" snd] d by (simp add: document_ok_def comp_def)
  let ?s = "(empty_store n disk)\<lparr>sto_defs := defs, sto_ops := fold (\<lambda>v. jmap_set (fst v) (snd v)) (doc_ops d) [],
      sto_runs := map (map_prod id (recover_run now)) runs, sto_reconciled := rev (remdups (rev (doc_reconciled d)))\<rparr>"
  have s: "store_ok uuid ?s"
    using maps_ok_recover [OF m(1)] ops d assms by (simp add: store_ok_def empty_store_def document_ok_def list_all_iff)
  have "open_store now n disk = Inr (if \<exists>v \<in> set (doc_runs d). rn_status v = Running then auto_save ?s else ?s)"
    using Some document_ok_valid [OF d] defs runs by (simp add: open_store_def Let_def)
  with s store_ok_save [OF s] show ?thesis by (simp add: auto_save_def empty_store_def)
qed

section \<open>Runs of the store\<close>

text \<open>The two changes the session tools make under an operation id (\<^verbatim>\<open>session-tools.ts\<close>).\<close>

datatype tool_change = Tool_Create auto_input | Tool_Update string nat auto_patch

fun tool_perform ::
  "(nat \<Rightarrow> string) \<Rightarrow> calendar \<Rightarrow> nat \<Rightarrow> tool_change \<Rightarrow> auto_def auto_store \<Rightarrow> (string + auto_def) \<times> auto_def auto_store" where
  "tool_perform uuid cal now (Tool_Create input) = auto_create uuid cal now input"
| "tool_perform uuid cal now (Tool_Update i v p) = auto_update cal now i v p"

datatype auto_event =
    Do_Create auto_input
  | Do_Update string nat auto_patch
  | Do_Delete string
  | Do_Tool string string tool_change
  | Do_Run string
  | Do_Claim
  | Do_Begin string
  | Do_Bind string string
  | Do_Submit string string
  | Do_Defer string
  | Do_Finish string run_outcome
  | Do_Cancel string string
  | Do_Acknowledge string
  | Do_Restart

fun auto_step ::
  "(nat \<Rightarrow> string) \<Rightarrow> calendar \<Rightarrow> nat \<times> auto_event \<Rightarrow> auto_def auto_store \<Rightarrow> auto_def auto_store" where
  "auto_step uuid cal (now, Do_Create input) s = snd (auto_create uuid cal now input s)"
| "auto_step uuid cal (now, Do_Update i v p) s = snd (auto_update cal now i v p s)"
| "auto_step uuid cal (now, Do_Delete i) s = snd (auto_delete i s)"
| "auto_step uuid cal (now, Do_Tool i encoded t) s = snd (auto_operation i encoded (tool_perform uuid cal now t) s)"
| "auto_step uuid cal (now, Do_Run i) s = snd (run_now uuid now i s)"
| "auto_step uuid cal (now, Do_Claim) s = snd (claim_runnable cal now s)"
| "auto_step uuid cal (now, Do_Begin i) s = snd (begin_run now i s)"
| "auto_step uuid cal (now, Do_Bind i session) s = snd (bind_session i session s)"
| "auto_step uuid cal (now, Do_Submit i turn) s = snd (submitted now i turn s)"
| "auto_step uuid cal (now, Do_Defer i) s = snd (defer_busy now i s)"
| "auto_step uuid cal (now, Do_Finish i outcome) s = snd (finish_run now i outcome s)"
| "auto_step uuid cal (now, Do_Cancel a i) s = snd (cancel_run now a i s)"
| "auto_step uuid cal (now, Do_Acknowledge i) s = snd (acknowledge_interrupted i s)"
| "auto_step uuid cal (now, Do_Restart) s =
     (case open_store now (sto_drawn s) (sto_disk s) of Inl e \<Rightarrow> s | Inr s' \<Rightarrow> s')"

definition auto_history_of ::
  "(nat \<Rightarrow> string) \<Rightarrow> calendar \<Rightarrow> (nat \<times> auto_event) list \<Rightarrow> auto_def auto_store" where
  "auto_history_of uuid cal es = fold (auto_step uuid cal) es (empty_store 0 None)"

lemma history_snoc: "auto_history_of uuid cal (es @ [e]) = auto_step uuid cal e (auto_history_of uuid cal es)"
  by (simp add: auto_history_of_def)

lemma auto_save_simps [simp]:
  "sto_defs (auto_save s) = sto_defs s" "sto_runs (auto_save s) = sto_runs s" "sto_ops (auto_save s) = sto_ops s"
  "sto_drawn (auto_save s) = sto_drawn s" "sto_batch (auto_save s) = sto_batch s"
  "sto_reconciled (auto_save s) = sto_reconciled s"
  by (simp_all add: auto_save_def)

lemma tool_draws: "sto_drawn s \<le> sto_drawn (snd (tool_perform uuid cal now t s))"
  by (cases t) (auto simp: auto_create_def auto_update_def put_def_def Let_def split: sum.split)

lemma tool_ok: "store_ok uuid s \<Longrightarrow> store_ok uuid (snd (tool_perform uuid cal now t s))"
  by (cases t) (simp_all add: create_ok update_ok)

lemma auto_step_ok: "store_ok uuid s \<Longrightarrow> store_ok uuid (auto_step uuid cal e s)"
proof (cases e)
  case (Pair now ev)
  show "store_ok uuid s \<Longrightarrow> ?thesis"
  proof (cases ev)
    case Do_Restart
    assume s: "store_ok uuid s"
    then have "disk_ok uuid (sto_drawn s) (sto_disk s)" by (simp add: store_ok_def)
    then obtain s' where "open_store now (sto_drawn s) (sto_disk s) = Inr s'" "store_ok uuid s'"
      using open_ok by blast
    then show ?thesis using Pair Do_Restart by simp
  qed (use Pair in \<open>auto simp: create_ok update_ok delete_ok run_now_ok claim_ok begin_ok bind_ok submitted_ok defer_ok
        finish_ok cancel_ok acknowledge_ok intro!: operation_ok tool_ok tool_draws\<close>)
qed

lemma history_ok: "store_ok uuid (auto_history_of uuid cal es)"
proof (induction es rule: rev_induct)
  case Nil
  show ?case by (simp add: auto_history_of_def store_ok_def empty_store_def maps_ok_def keyed_def disk_ok_def)
qed (simp add: history_snoc auto_step_ok)

text \<open>C19. Whatever is done with the store, in any order and at any times, errors and restarts included: every task
and every run keeps its schema and its place in its life cycle, every run belongs to a task that exists, a
task has a next date exactly while it is enabled, and the file on the disk can always be read again, so the
next start of the process never fails on it.\<close>

theorem automations_well_formed:
  "let s = auto_history_of uuid cal es
   in list_all (\<lambda>(k, d). ad_id d = k \<and> def_valid d \<and> notification_ok d \<and> (ad_enabled d \<longleftrightarrow> ad_next d \<noteq> None)) (sto_defs s) \<and>
      list_all (\<lambda>(k, r). rn_id r = k \<and> run_valid r \<and> status_ok r \<and> rn_auto r \<in> set (jkeys (sto_defs s))) (sto_runs s) \<and>
      distinct (jkeys (sto_defs s)) \<and> distinct (jkeys (sto_runs s)) \<and>
      (\<exists>s'. open_store now (sto_drawn s) (sto_disk s) = Inr s')"
proof -
  have ok: "store_ok uuid (auto_history_of uuid cal es)" by (rule history_ok)
  then have disk: "disk_ok uuid (sto_drawn (auto_history_of uuid cal es)) (sto_disk (auto_history_of uuid cal es))"
    by (simp add: store_ok_def)
  let ?s = "auto_history_of uuid cal es"
  have "distinct (jkeys (sto_defs ?s))" "distinct (jkeys (sto_runs ?s))"
    using ok by (simp_all add: store_ok_def maps_ok_def keyed_def)
  moreover have "list_all (\<lambda>(k, d). ad_id d = k \<and> def_valid d \<and> notification_ok d \<and> (ad_enabled d \<longleftrightarrow> ad_next d \<noteq> None)) (sto_defs ?s)"
    using store_defs [OF ok] by (auto simp: list_all_iff def_ok_def)
  moreover have "list_all (\<lambda>(k, r). rn_id r = k \<and> run_valid r \<and> status_ok r \<and> rn_auto r \<in> set (jkeys (sto_defs ?s))) (sto_runs ?s)"
    using store_runs [OF ok] by (auto simp: list_all_iff run_ok_def)
  moreover have "\<exists>s'. open_store now (sto_drawn ?s) (sto_disk ?s) = Inr s'"
    using open_ok [OF disk] by blast
  ultimately show ?thesis by (simp only: Let_def simp_thms)
qed

subsection \<open>A finished run is final\<close>

text \<open>Random ids are drawn once and do not look like the id of a task.\<close>

definition uuid_ok :: "(nat \<Rightarrow> string) \<Rightarrow> bool" where
  "uuid_ok uuid \<longleftrightarrow> inj uuid \<and> (\<forall>n. take 11 (uuid n) \<noteq> ''automation-'')"

lemma manual_run_id_inj [simp]: "manual_run_id a = manual_run_id b \<longleftrightarrow> a = b"
  by (simp add: manual_run_id_def)

lemma manual_not_scheduled: "uuid_ok uuid \<Longrightarrow> manual_run_id (uuid n) \<noteq> scheduled_run_id (definition_id u) t"
proof
  assume "uuid_ok uuid" "manual_run_id (uuid n) = scheduled_run_id (definition_id u) t"
  then have "take 11 (uuid n) = ''automation-''"
    by (simp add: manual_run_id_def scheduled_run_id_def definition_id_def)
  then show False using \<open>uuid_ok uuid\<close> by (simp add: uuid_ok_def)
qed

lemma fresh_manual_id:
  assumes "store_ok uuid s" "uuid_ok uuid"
  shows "jmap_get (sto_runs s) (manual_run_id (uuid (sto_drawn s))) = None"
proof (rule ccontr)
  assume "jmap_get (sto_runs s) (manual_run_id (uuid (sto_drawn s))) \<noteq> None"
  then obtain r where "(manual_run_id (uuid (sto_drawn s)), r) \<in> set (sto_runs s)"
    by (auto dest: map_of_SomeD)
  then have r: "run_ok uuid (sto_drawn s) r" "rn_id r = manual_run_id (uuid (sto_drawn s))"
    using store_runs [OF assms(1)] by blast+
  show False
  proof (cases "rn_trigger r")
    case Scheduled
    with r obtain k where "manual_run_id (uuid (sto_drawn s)) = scheduled_run_id (definition_id (uuid k)) (rn_for r)"
      by (auto simp: run_ok_def def_ok_def)
    with manual_not_scheduled [OF assms(2)] show False by blast
  next
    case Manual
    with r obtain k where "k < sto_drawn s" "uuid k = uuid (sto_drawn s)" by (auto simp: run_ok_def)
    with assms(2) show False by (auto simp: uuid_ok_def dest: injD)
  qed
qed

text \<open>A run is kept by a change of the store when its record stays as it is.\<close>

definition keeps :: "'r auto_store \<Rightarrow> 'r auto_store \<Rightarrow> string \<Rightarrow> bool" where
  "keeps s s' i \<longleftrightarrow> jmap_get (sto_runs s') i = jmap_get (sto_runs s) i"

lemma run_keeps_refl [simp]: "keeps s s i" by (simp add: keeps_def)

lemma keeps_save [simp]: "keeps s (auto_save s') i = keeps s s' i" by (simp add: keeps_def)

lemma keeps_put: "rn_id r \<noteq> i \<Longrightarrow> keeps s (put_run r s) i"
  by (simp add: keeps_def put_run_def jmap_get_set)

lemma keeps_store_parsed: "rn_id r \<noteq> i \<Longrightarrow> keeps s (snd (store_parsed r s)) i"
  by (auto simp: store_parsed_def parse_with_def keeps_put)

lemma claim_due_keeps: "jmap_get (sto_runs s) i = Some r \<Longrightarrow> keeps s (snd (claim_due cal now ds changed s)) i"
proof (induction ds arbitrary: changed s)
  case (Cons d ds)
  have kept: "jmap_get (sto_runs s1) i = Some r" if "add_occurrence now d s = Inr s1" for s1
    using that Cons.prems
    by (auto simp: add_occurrence_def Let_def parse_with_def put_run_def fresh_run_def jmap_get_set split: if_splits)
  have "jmap_get (sto_runs (put_def d' s1)) i = Some r" if "add_occurrence now d s = Inr s1" for s1 d'
    using kept [OF that] by (simp add: put_def_def)
  with Cons kept show ?case by (auto simp: keeps_def split: sum.split)
qed simp

lemma claim_runs: "sto_runs (snd (claim_runnable cal now s)) = sto_runs (snd (claim_due cal now (map snd (sto_defs s)) False s))"
  by (simp add: claim_runnable_def Let_def split: prod.split sum.split)

lemma map_of_filter_values: "jmap_get m i = Some r \<Longrightarrow> P r \<Longrightarrow> jmap_get (filter (\<lambda>(k, x). P x) m) i = Some r"
  by (induction m) (auto split: if_splits)

lemma update_final:
  assumes "jmap_get (sto_runs s) i = Some r" "\<not> active_status (rn_status r)"
  shows "keeps s (snd (auto_update cal now a v p s)) i"
proof -
  have "jmap_get (map (map_prod id (cancel_scheduled now a)) (sto_runs s)) i = Some (cancel_scheduled now a r)"
    using assms(1) map_of_map_values [of "cancel_scheduled now a" "sto_runs s"] by simp
  moreover have "cancel_scheduled now a r = r" using assms(2) by (auto simp: cancel_scheduled_def active_status_def)
  ultimately show ?thesis using assms(1) by (auto simp: auto_update_def keeps_def Let_def split: sum.split)
qed

lemma final_step:
  assumes "store_ok uuid s" "uuid_ok uuid" "jmap_get (sto_runs s) i = Some r" "\<not> active_status (rn_status r)"
    and "ev \<noteq> Do_Restart" "ev \<noteq> Do_Delete (rn_auto r)"
  shows "keeps s (auto_step uuid cal (now, ev) s) i"
proof -
  have id: "rn_id r = i" using store_runs [OF assms(1) map_of_SomeD [OF assms(3)]] by simp
  have status: "rn_status r \<noteq> Pending" "rn_status r \<noteq> Waiting" "rn_status r \<noteq> Running"
    using assms(4) by (auto simp: active_status_def)
  have other: "rn_id x \<noteq> i" if "required_run j s = Inr x" "rn_status x = Pending \<or> rn_status x = Waiting \<or> rn_status x = Running" for j x
    using required_run_ok(2) [OF assms(1) that(1)] that assms(3) status by (auto simp: required_run_def)
  show ?thesis
  proof (cases ev)
    case (Do_Create input)
    then show ?thesis by (auto simp: auto_create_def Let_def keeps_def put_def_def split: sum.split)
  next
    case (Do_Update a v p)
    then show ?thesis using update_final [OF assms(3,4)] by simp
  next
    case (Do_Delete a)
    then have "rn_auto r \<noteq> a" using assms(6) by auto
    then have "jmap_get (filter (\<lambda>(k, x). rn_auto x \<noteq> a) (sto_runs s)) i = Some r"
      using map_of_filter_values [OF assms(3), of "\<lambda>x. rn_auto x \<noteq> a"] by simp
    then show ?thesis using Do_Delete assms(3) by (auto simp: auto_delete_def keeps_def split: sum.split)
  next
    case (Do_Tool k encoded t)
    have "keeps s (snd (tool_perform uuid cal now t (s\<lparr>sto_batch := True\<rparr>))) i"
      using update_final [of "s\<lparr>sto_batch := True\<rparr>" i r] assms(3,4)
      by (cases t) (auto simp: auto_create_def Let_def keeps_def put_def_def split: sum.split)
    then show ?thesis using Do_Tool assms(3)
      by (auto simp: auto_operation_def keeps_def split: option.split prod.split sum.split)
  next
    case (Do_Run a)
    have "manual_run_id (uuid (sto_drawn s)) \<noteq> i" using fresh_manual_id [OF assms(1,2)] assms(3) by auto
    then have "keeps (s\<lparr>sto_drawn := Suc (sto_drawn s)\<rparr>) (snd (store_parsed (fresh_run (manual_run_id (uuid (sto_drawn s))) d Manual now now)
        (s\<lparr>sto_drawn := Suc (sto_drawn s)\<rparr>))) i" for d
      by (intro keeps_store_parsed) (simp add: fresh_run_def)
    then show ?thesis using Do_Run by (auto simp: run_now_def keeps_def split: sum.split)
  next
    case Do_Claim
    then show ?thesis using claim_due_keeps [OF assms(3)] by (simp add: keeps_def claim_runs)
  next
    case (Do_Begin j)
    then show ?thesis using other [of j]
      by (cases "required_run j s") (auto simp: begin_run_def intro!: keeps_store_parsed)
  next
    case (Do_Bind j session)
    then show ?thesis using other [of j]
      by (cases "required_run j s") (auto simp: bind_session_def intro!: keeps_store_parsed)
  next
    case (Do_Submit j turn)
    then show ?thesis using other [of j]
      by (cases "required_run j s") (auto simp: submitted_def intro!: keeps_put)
  next
    case (Do_Defer j)
    then show ?thesis using other [of j]
      by (cases "required_run j s") (auto simp: defer_busy_def Let_def intro!: keeps_put)
  next
    case (Do_Finish j outcome)
    have "rn_id (outcome_run outcome x) = rn_id x" for x by (cases outcome) simp_all
    then show ?thesis using Do_Finish other [of j]
      by (cases "required_run j s") (auto simp: finish_run_def intro!: keeps_store_parsed)
  next
    case (Do_Cancel a j)
    then show ?thesis using other [of j]
      by (cases "required_run j s") (auto simp: cancel_run_def active_status_def intro!: keeps_store_parsed)
  next
    case (Do_Acknowledge j)
    then show ?thesis by (auto simp: acknowledge_interrupted_def keeps_def split: sum.split)
  qed (use assms in auto)
qed

text \<open>C22. A run that has ended is final: once it has succeeded, failed, been skipped or cancelled, no sequence of
later calls, of tasks changed, runs claimed, late answers of the engine or cancellations, changes anything
of its record; it only goes when its task is deleted.\<close>

theorem finished_run_is_final:
  assumes "uuid_ok uuid" "jmap_get (sto_runs (auto_history_of uuid cal es)) i = Some r" "\<not> active_status (rn_status r)"
    and "\<And>now ev. (now, ev) \<in> set later \<Longrightarrow> ev \<noteq> Do_Restart \<and> ev \<noteq> Do_Delete (rn_auto r)"
  shows "jmap_get (sto_runs (auto_history_of uuid cal (es @ later))) i = Some r"
  using assms(4)
proof (induction later rule: rev_induct)
  case Nil
  show ?case using assms(2) by simp
next
  case (snoc e later)
  obtain now ev where e: "e = (now, ev)" by (cases e)
  have "jmap_get (sto_runs (auto_history_of uuid cal (es @ later))) i = Some r"
    by (rule snoc.IH) (use snoc.prems in auto)
  from final_step [OF history_ok assms(1) this assms(3), of ev cal now] snoc.prems [of now ev]
  show ?case
    using \<open>jmap_get (sto_runs (auto_history_of uuid cal (es @ later))) i = Some r\<close>
    by (simp add: e keeps_def history_snoc flip: append_assoc)
qed

subsection \<open>Claiming what is due\<close>

lemma weekly_search_later: "weekly_search cal days h m z v n = Some t \<Longrightarrow> v \<le> t"
  by (induction n arbitrary: v) (fastforce split: if_splits)+

lemma next_schedule_later:
  assumes "next_schedule_time cal c now = Inr t" "cron_later cal"
  shows "now < t"
proof (cases c)
  case (S_Once u)
  with assms show ?thesis by (auto simp: next_schedule_time_def split: if_splits)
next
  case (S_Interval n)
  with assms show ?thesis by (auto simp: next_schedule_time_def one_minute_def split: if_splits)
next
  case (S_Weekly days h m z)
  with assms have "now - now mod one_minute + one_minute \<le> t"
    by (auto simp: next_schedule_time_def split: if_splits option.splits dest!: weekly_search_later)
  moreover have "now < now - now mod one_minute + one_minute"
    using mod_less_divisor [of one_minute now] by (simp add: one_minute_def)
  ultimately show ?thesis by linarith
next
  case (S_Cron e z)
  with assms show ?thesis
    by (auto simp: next_schedule_time_def cron_later_def split: if_splits sum.splits option.splits)
qed

lemma moved_not_due:
  assumes "move_on cal now d = Inr d'" "cron_later cal"
  shows "\<not> is_due t d' \<or> now < t" "\<not> is_due now d'"
proof -
  obtain m where m: "(if is_once (ad_schedule d) then Inr None else map_sum id Some (next_schedule_time cal (ad_schedule d) now)) = Inr m"
    and d': "ad_next d' = m"
    using assms(1) unfolding move_on_def
    by (cases "if is_once (ad_schedule d) then Inr None else map_sum id Some (next_schedule_time cal (ad_schedule d) now)") auto
  have later: "now < u" if "m = Some u" for u
    using m that next_schedule_later [OF _ assms(2)]
    by (cases "next_schedule_time cal (ad_schedule d) now") (auto split: if_splits)
  show "\<not> is_due t d' \<or> now < t" using d' later by (auto simp: is_due_def split: option.splits dest: order_less_le_trans)
  show "\<not> is_due now d'" using d' later by (auto simp: is_due_def split: option.splits dest: order_less_le_trans)
qed

text \<open>What the loop over the definitions does when it ends.\<close>

definition occurrence :: "auto_def \<Rightarrow> string" where
  "occurrence d = scheduled_run_id (ad_id d) (the (ad_next d))"

lemma add_occurrence_runs:
  assumes "add_occurrence now d s = Inr s1"
  shows "sto_defs s1 = sto_defs s" "jmap_get (sto_runs s1) (occurrence d) \<noteq> None"
    "jmap_get (sto_runs s1) i \<noteq> jmap_get (sto_runs s) i \<Longrightarrow>
      i = occurrence d \<and> jmap_get (sto_runs s) i = None \<and>
      jmap_get (sto_runs s1) i = Some (fresh_run i d Scheduled (the (ad_next d)) now)"
  using assms
  by (auto simp: add_occurrence_def occurrence_def Let_def parse_with_def put_run_def fresh_run_def jmap_get_set split: if_splits)

lemma claim_due_Cons:
  assumes "claim_due cal now (d # ds) changed s = (Inr c, s')"
  obtains (skip) "\<not> is_due now d" "claim_due cal now ds changed s = (Inr c, s')"
  | (claim) s1 d' where "is_due now d" "add_occurrence now d s = Inr s1" "move_on cal now d = Inr d'"
      "claim_due cal now ds True (put_def d' s1) = (Inr c, s')"
  using assms by (cases "is_due now d") (auto split: sum.splits)

lemma claim_due_claims:
  assumes "claim_due cal now ds changed s = (Inr c, s')" "d \<in> set ds" "is_due now d"
  shows "jmap_get (sto_runs s') (occurrence d) \<noteq> None"
  using assms
proof (induction ds arbitrary: changed s)
  case (Cons x ds)
  from Cons.prems(1) show ?case
  proof (cases rule: claim_due_Cons)
    case (claim s1 d')
    have "jmap_get (sto_runs s') (occurrence x) \<noteq> None"
      using add_occurrence_runs(2) [OF claim(2)] claim_due_keeps [of "put_def d' s1" "occurrence x" _ cal now ds True] claim(4)
      by (auto simp: put_def_def keeps_def)
    then show ?thesis using Cons.IH [OF claim(4)] Cons.prems by auto
  qed (use Cons in auto)
qed simp

lemma claim_due_adds:
  assumes "claim_due cal now ds changed s = (Inr c, s')" "jmap_get (sto_runs s') i \<noteq> jmap_get (sto_runs s) i"
  shows "\<exists>d \<in> set ds. is_due now d \<and> i = occurrence d \<and> jmap_get (sto_runs s) i = None \<and>
    jmap_get (sto_runs s') i = Some (fresh_run i d Scheduled (the (ad_next d)) now)"
  using assms
proof (induction ds arbitrary: changed s)
  case (Cons x ds)
  from Cons.prems(1) show ?case
  proof (cases rule: claim_due_Cons)
    case (claim s1 d')
    show ?thesis
    proof (cases "jmap_get (sto_runs s1) i = jmap_get (sto_runs s) i")
      case True
      then show ?thesis using Cons.IH [OF claim(4)] Cons.prems(2) by (auto simp: put_def_def)
    next
      case False
      note new = add_occurrence_runs(3) [OF claim(2) False]
      then have "jmap_get (sto_runs s') i = jmap_get (sto_runs s1) i"
        using claim_due_keeps [of "put_def d' s1" i _ cal now ds True] claim(4) by (auto simp: put_def_def keeps_def)
      with new claim(1) show ?thesis by auto
    qed
  qed (use Cons in auto)
qed simp

lemma move_on_id: "move_on cal now d = Inr d' \<Longrightarrow> ad_id d' = ad_id d"
  by (cases "if is_once (ad_schedule d) then Inr None else map_sum id Some (next_schedule_time cal (ad_schedule d) now)")
    (auto simp: move_on_def)

lemma claim_due_moves:
  assumes "claim_due cal now ds changed s = (Inr c, s')" "cron_later cal" "jmap_get (sto_defs s') k = Some v" "is_due now v"
  shows "jmap_get (sto_defs s) k = Some v \<and> (\<forall>d \<in> set ds. ad_id d = k \<longrightarrow> \<not> is_due now d)"
  using assms
proof (induction ds arbitrary: changed s)
  case (Cons x ds)
  from Cons.prems(1) show ?case
  proof (cases rule: claim_due_Cons)
    case (claim s1 d')
    have "jmap_get (sto_defs (put_def d' s1)) k = Some v \<and> (\<forall>d \<in> set ds. ad_id d = k \<longrightarrow> \<not> is_due now d)"
      by (rule Cons.IH [OF claim(4)]) (use Cons.prems in auto)
    moreover have "ad_id d' = ad_id x" "\<not> is_due now d'"
      using move_on_id [OF claim(3)] moved_not_due(2) [OF claim(3) assms(2)] by auto
    ultimately show ?thesis using Cons.prems(4) add_occurrence_runs(1) [OF claim(2)]
      by (auto simp: put_def_def jmap_get_set split: if_splits)
  qed (use Cons in auto)
qed simp

lemma claim_due_nothing: "(\<And>d. d \<in> set ds \<Longrightarrow> \<not> is_due now d) \<Longrightarrow> claim_due cal now ds changed s = (Inr changed, s)"
  by (induction ds) auto


section \<open>A calendar to try the store with\<close>

text \<open>One zone without summer time; \<^verbatim>\<open>croner\<close> takes a single date as a pattern too, which has no next run after it.\<close>

definition plain_calendar :: calendar where
  "plain_calendar = \<lparr>cal_local = (\<lambda>z t. Some ((t div 86400000 + 4) mod 7, t div 3600000 mod 24, t div one_minute mod 60)),
     cal_cron = (\<lambda>e z t. Inr (if e = ''1970-01-02T00:00:00'' then (if t < 86400000 then Some 86400000 else None)
                              else Some (t - t mod one_minute + one_minute)))\<rparr>"

definition plain_uuid :: "nat \<Rightarrow> string" where
  "plain_uuid n = CHR ''u'' # show_nat n"

definition plain_input :: "sched \<Rightarrow> auto_input" where
  "plain_input c = \<lparr>ad_name = ''report'', ad_enabled = True, ad_schedule = c, ad_preset = ''p1'', ad_engine = ''codex'',
     ad_acp = None, ad_workspace = ''w1'', ad_input = ''write the report'', ad_policy = Notify_Always, ad_message = False,
     ad_target = None, ad_mode = New_Conversation, ad_conversation = None, ad_skill = None\<rparr>"

lemma plain_later: "cron_later plain_calendar"
proof -
  have "t < t - t mod one_minute + one_minute" for t :: nat
    using mod_less_divisor [of one_minute t] by (simp add: one_minute_def)
  then show ?thesis by (auto simp: cron_later_def plain_calendar_def)
qed

lemma show_nat_inj: "show_nat a = show_nat b \<Longrightarrow> a = b"
  by (metis digits_value)

lemma plain_uuid_ok: "uuid_ok plain_uuid"
  by (auto simp: uuid_ok_def plain_uuid_def inj_def dest: show_nat_inj)

lemma plain_uuids: "plain_uuid 0 = ''u0''" "plain_uuid (Suc 0) = ''u1''"
  by code_simp+

lemmas store_steps = auto_history_of_def empty_store_def auto_create_def run_now_def begin_run_def finish_run_def cancel_run_def
  claim_runnable_def add_occurrence_def move_on_def store_parsed_def parse_with_def put_def_def put_run_def auto_save_def
  required_def required_run_def plain_input_def plain_calendar_def plain_uuids input_valid_def engine_ids_def
  next_schedule_time_def one_minute_def definition_id_def manual_run_id_def scheduled_run_id_def fresh_run_def
  auto_input.defs auto_def.defs notification_ok_def is_due_def is_once_def run_valid_def def_valid_def runnable_def
  active_status_def occurrence_def auto_document_of_def Let_def

theorem finished_run_is_final_witness:
  "map_option rn_status (jmap_get (sto_runs (auto_history_of plain_uuid plain_calendar
      ([(0, Do_Create (plain_input (S_Interval 5))), (0, Do_Run ''automation-u0''), (1, Do_Begin ''automation-run-u1''),
        (2, Do_Finish ''automation-run-u1'' (Run_Succeeded ''s1'' None None))] @
       [(3, Do_Cancel ''automation-u0'' ''automation-run-u1''), (400000, Do_Claim)]))) ''automation-run-u1'') = Some Succeeded"
proof -
  let ?es = "[(0, Do_Create (plain_input (S_Interval 5))), (0, Do_Run ''automation-u0''), (1, Do_Begin ''automation-run-u1''),
         (2, Do_Finish ''automation-run-u1'' (Run_Succeeded ''s1'' None None))]"
  have "map_option rn_status (jmap_get (sto_runs (auto_history_of plain_uuid plain_calendar ?es)) ''automation-run-u1'') =
      Some Succeeded"
    by (simp add: store_steps)
  then obtain r where r: "jmap_get (sto_runs (auto_history_of plain_uuid plain_calendar ?es)) ''automation-run-u1'' = Some r"
    "rn_status r = Succeeded" by blast
  have "jmap_get (sto_runs (auto_history_of plain_uuid plain_calendar
      (?es @ [(3, Do_Cancel ''automation-u0'' ''automation-run-u1''), (400000, Do_Claim)]))) ''automation-run-u1'' = Some r"
    by (rule finished_run_is_final [OF plain_uuid_ok r(1)]) (use r(2) in \<open>auto simp: active_status_def\<close>)
  with r(2) show ?thesis by (simp only: option.map)
qed


section \<open>Restarts and repeated operations\<close>

definition ops_saved :: "'r auto_store \<Rightarrow> bool" where
  "ops_saved s \<longleftrightarrow> \<not> sto_batch s \<and> sto_ops s = (case sto_disk s of None \<Rightarrow> [] | Some d \<Rightarrow> doc_ops d)"

lemma ops_saved_save: "\<not> sto_batch s \<Longrightarrow> ops_saved (auto_save s)"
  by (simp add: ops_saved_def auto_save_def auto_document_of_def)

lemma ops_saved_frame:
  "ops_saved s \<Longrightarrow> sto_ops s' = sto_ops s \<Longrightarrow> sto_batch s' = sto_batch s \<Longrightarrow> sto_disk s' = sto_disk s \<Longrightarrow> ops_saved s'"
  by (simp add: ops_saved_def)

text \<open>A call that changes no operation and no flag, and that saves or leaves the disk alone.\<close>

definition plain_call :: "'r auto_store \<Rightarrow> 'r auto_store \<Rightarrow> bool" where
  "plain_call s s' \<longleftrightarrow> sto_ops s' = sto_ops s \<and> sto_batch s' = sto_batch s \<and>
     (sto_disk s' = sto_disk s \<or> \<not> sto_batch s \<and> sto_disk s' = Some (auto_document_of s'))"

lemma plain_call_ops_saved: "plain_call s s' \<Longrightarrow> ops_saved s \<Longrightarrow> ops_saved s'"
  by (auto simp: plain_call_def ops_saved_def auto_document_of_def)

lemma plain_call_refl [simp]: "plain_call s s"
  by (simp add: plain_call_def)

lemma auto_document_of_disk [simp]: "auto_document_of (s\<lparr>sto_disk := x\<rparr>) = auto_document_of s"
  by (simp add: auto_document_of_def)

lemma plain_call_save: "sto_ops s' = sto_ops s \<Longrightarrow> sto_batch s' = sto_batch s \<Longrightarrow> sto_disk s' = sto_disk s \<Longrightarrow> plain_call s (auto_save s')"
  by (auto simp: plain_call_def auto_save_def)

lemma plain_call_memory: "sto_ops s' = sto_ops s \<Longrightarrow> sto_batch s' = sto_batch s \<Longrightarrow> sto_disk s' = sto_disk s \<Longrightarrow> plain_call s s'"
  by (simp add: plain_call_def)

lemma plain_call_parsed: "sto_ops s' = sto_ops s \<Longrightarrow> sto_batch s' = sto_batch s \<Longrightarrow> sto_disk s' = sto_disk s \<Longrightarrow>
    plain_call s (snd (store_parsed r s'))"
  by (auto simp: store_parsed_def put_run_def intro!: plain_call_save intro: plain_call_memory split: sum.split)

lemmas plain_calls = plain_call_save plain_call_parsed

lemma claim_due_memory:
  "sto_ops (snd (claim_due cal now ds changed s)) = sto_ops s \<and> sto_batch (snd (claim_due cal now ds changed s)) = sto_batch s \<and>
   sto_disk (snd (claim_due cal now ds changed s)) = sto_disk s"
proof (induction ds arbitrary: changed s)
  case (Cons d ds)
  have "sto_ops s1 = sto_ops s \<and> sto_batch s1 = sto_batch s \<and> sto_disk s1 = sto_disk s"
    if "add_occurrence now d s = Inr s1" for s1
    using that by (auto simp: add_occurrence_def Let_def parse_with_def put_run_def split: if_splits)
  with Cons show ?case by (auto simp: put_def_def split: sum.split)
qed simp

lemma tool_plain: "plain_call s (snd (tool_perform uuid cal now t s))"
  by (cases t) (auto simp: auto_create_def auto_update_def put_def_def Let_def split: sum.split intro!: plain_calls intro: plain_call_memory)

lemma claim_plain: "plain_call s (snd (claim_runnable cal now s))"
  using claim_due_memory [of cal now "map snd (sto_defs s)" False s]
  by (cases "claim_due cal now (map snd (sto_defs s)) False s")
    (auto simp: claim_runnable_def Let_def split: sum.split intro!: plain_calls intro: plain_call_memory)

lemma step_plain:
  assumes "\<And>i encoded t. ev \<noteq> Do_Tool i encoded t" "ev \<noteq> Do_Restart"
  shows "plain_call s (auto_step uuid cal (now, ev) s)"
proof (cases ev)
  case (Do_Create input)
  then show ?thesis using tool_plain [of s uuid cal now "Tool_Create input"] by simp
next
  case (Do_Update i v p)
  then show ?thesis using tool_plain [of s uuid cal now "Tool_Update i v p"] by simp
next
  case Do_Claim
  then show ?thesis using claim_plain by simp
qed (use assms in \<open>auto simp: auto_delete_def run_now_def begin_run_def bind_session_def submitted_def defer_busy_def
      finish_run_def cancel_run_def acknowledge_interrupted_def Let_def put_run_def split: sum.split intro!: plain_calls intro: plain_call_memory\<close>)

lemma open_ops:
  assumes "store_ok uuid s" "ops_saved s" "open_store now n (sto_disk s) = Inr s'"
  shows "sto_ops s' = sto_ops s \<and> ops_saved s'"
proof (cases "sto_disk s")
  case None
  then show ?thesis using assms by (auto simp: open_store_def empty_store_def ops_saved_def)
next
  case (Some d)
  have "distinct (jkeys (doc_ops d))" using assms(1) Some by (simp add: store_ok_def disk_ok_def document_ok_def)
  then have ops: "fold (\<lambda>v. jmap_set (fst v) (snd v)) (doc_ops d) [] = doc_ops d"
    using fold_put_keyed [of fst "doc_ops d" "[]" snd] by simp
  have "doc_ops d = sto_ops s" using assms(2) Some by (simp add: ops_saved_def)
  with ops show ?thesis using assms(3) Some
    by (auto simp: open_store_def Let_def ops_saved_def auto_save_def auto_document_of_def empty_store_def split: if_splits)
qed

lemma operation_saved:
  assumes "ops_saved s" "\<And>t. plain_call t (snd (perform t))"
  shows "ops_saved (snd (auto_operation i encoded perform s))"
proof -
  have p: "plain_call (s\<lparr>sto_batch := True\<rparr>) (snd (perform (s\<lparr>sto_batch := True\<rparr>)))" by (rule assms(2))
  have "\<not> sto_batch (t\<lparr>sto_ops := x, sto_batch := False\<rparr>)" for t x by simp
  note saved = ops_saved_save [OF this]
  show ?thesis
  proof (cases "jmap_get (sto_ops s) i")
    case None
    then have "i \<notin> set (jkeys (sto_ops s))" by (simp add: map_of_eq_None_iff)
    then show ?thesis using None p assms(1) saved
      by (cases "perform (s\<lparr>sto_batch := True\<rparr>)")
        (auto simp: auto_operation_def plain_call_def ops_saved_def split: sum.split)
  qed (use assms(1) in \<open>auto simp: auto_operation_def\<close>)
qed

lemma step_ops_saved:
  assumes "store_ok uuid s" "ops_saved s"
  shows "ops_saved (auto_step uuid cal e s)"
proof (cases e)
  case (Pair now ev)
  consider (tool) i encoded t where "ev = Do_Tool i encoded t" | (restart) "ev = Do_Restart"
    | (plain) "\<And>i encoded t. ev \<noteq> Do_Tool i encoded t" "ev \<noteq> Do_Restart"
    by blast
  then show ?thesis
  proof cases
    case tool
    then show ?thesis using Pair operation_saved [OF assms(2), of "tool_perform uuid cal now t"] tool_plain by simp
  next
    case restart
    then show ?thesis using Pair assms open_ops [OF assms] by (auto split: sum.split)
  next
    case plain
    then show ?thesis using Pair plain_call_ops_saved [OF step_plain [OF plain] assms(2)] by simp
  qed
qed

lemma history_ops_saved: "ops_saved (auto_history_of uuid cal es)"
proof (induction es rule: rev_induct)
  case Nil
  show ?case by (simp add: auto_history_of_def ops_saved_def empty_store_def)
qed (simp add: history_snoc step_ops_saved history_ok)

lemma operation_keeps_result:
  assumes "jmap_get (sto_ops s) i = Some x" "\<And>t. plain_call t (snd (perform t))"
  shows "jmap_get (sto_ops (snd (auto_operation j encoded perform s))) i = Some x"
proof (cases "jmap_get (sto_ops s) j")
  case None
  with assms(1) have "i \<noteq> j" by auto
  have "sto_ops (snd (perform (s\<lparr>sto_batch := True\<rparr>))) = sto_ops s"
    using assms(2) [of "s\<lparr>sto_batch := True\<rparr>"] by (simp add: plain_call_def)
  then show ?thesis using None assms(1) \<open>i \<noteq> j\<close>
    by (cases "perform (s\<lparr>sto_batch := True\<rparr>)") (auto simp: auto_operation_def jmap_get_set jmap_get_delete split: sum.split)
qed (use assms(1) in \<open>auto simp: auto_operation_def\<close>)

lemma step_keeps_result:
  assumes "store_ok uuid s" "ops_saved s" "jmap_get (sto_ops s) i = Some x"
  shows "jmap_get (sto_ops (auto_step uuid cal e s)) i = Some x"
proof (cases e)
  case (Pair now ev)
  consider (tool) j encoded t where "ev = Do_Tool j encoded t" | (restart) "ev = Do_Restart"
    | (plain) "\<And>j encoded t. ev \<noteq> Do_Tool j encoded t" "ev \<noteq> Do_Restart"
    by blast
  then show ?thesis
  proof cases
    case tool
    then show ?thesis using Pair operation_keeps_result [OF assms(3)] tool_plain by simp
  next
    case restart
    then show ?thesis using Pair assms(3) open_ops [OF assms(1,2)] by (auto split: sum.split)
  next
    case plain
    then show ?thesis using Pair assms(3) step_plain [OF plain, of s uuid cal now] by (simp add: plain_call_def)
  qed
qed

text \<open>C24. An assistant's change is made once: when a call under an operation id has succeeded, the same call again, after
anything else happened and after any restarts, returns the first result and changes nothing, and the id
with other contents is refused; and a call that fails leaves every task and run, the recorded operations
and the disk as they were.\<close>

theorem operation_made_once:
  "let s = auto_history_of uuid cal es; (v, s1) = auto_operation i encoded (tool_perform uuid cal now t) s;
       s2 = auto_history_of uuid cal (es @ (now, Do_Tool i encoded t) # later)
   in case v of
        Inr d \<Rightarrow> auto_operation i encoded perform s2 = (Inr d, s2) \<and>
          (encoded' = encoded \<or> auto_operation i encoded' perform s2 = (Inl ''operation_id_conflict'', s2))
      | Inl e \<Rightarrow> sto_defs s1 = sto_defs s \<and> sto_runs s1 = sto_runs s \<and> sto_ops s1 = sto_ops s \<and> sto_disk s1 = sto_disk s"
proof -
  let ?s = "auto_history_of uuid cal es" and ?p = "tool_perform uuid cal now t"
  obtain v s1 where r: "auto_operation i encoded ?p ?s = (v, s1)" by (cases "auto_operation i encoded ?p ?s")
  obtain w t1 where p: "?p (?s\<lparr>sto_batch := True\<rparr>) = (w, t1)" by (cases "?p (?s\<lparr>sto_batch := True\<rparr>)")
  have plain: "plain_call (?s\<lparr>sto_batch := True\<rparr>) t1"
    using tool_plain [of "?s\<lparr>sto_batch := True\<rparr>" uuid cal now t] p by simp
  have s1: "s1 = auto_history_of uuid cal (es @ [(now, Do_Tool i encoded t)])" using r by (simp add: history_snoc)
  show ?thesis
  proof (cases v)
    case (Inl e)
    have "jmap_delete i (sto_ops ?s) = sto_ops ?s" if "jmap_get (sto_ops ?s) i = None"
      using that by (simp add: map_of_eq_None_iff)
    then show ?thesis using r p plain Inl
      by (auto simp: auto_operation_def plain_call_def split: if_splits option.splits sum.splits)
  next
    case (Inr d)
    have valid: "operation_id_ok i" using r Inr by (auto simp: auto_operation_def split: if_splits)
    have "jmap_get (sto_ops s1) i = Some (encoded, d)"
      using r p Inr by (auto simp: auto_operation_def jmap_get_set split: if_splits option.splits sum.splits)
    then have "jmap_get (sto_ops (auto_history_of uuid cal (es @ (now, Do_Tool i encoded t) # later))) i = Some (encoded, d)"
    proof (induction later rule: rev_induct)
      case Nil
      then show ?case by (simp add: s1)
    next
      case (snoc e later)
      then show ?case
        using step_keeps_result [OF history_ok history_ops_saved, of uuid cal "es @ (now, Do_Tool i encoded t) # later" i "(encoded, d)" cal e]
          history_snoc [of uuid cal "es @ (now, Do_Tool i encoded t) # later" e] by simp
    qed
    with valid have "auto_operation i encoded perform (auto_history_of uuid cal (es @ (now, Do_Tool i encoded t) # later)) =
        (Inr d, auto_history_of uuid cal (es @ (now, Do_Tool i encoded t) # later))"
      "encoded' \<noteq> encoded \<Longrightarrow> auto_operation i encoded' perform (auto_history_of uuid cal (es @ (now, Do_Tool i encoded t) # later)) =
        (Inl ''operation_id_conflict'', auto_history_of uuid cal (es @ (now, Do_Tool i encoded t) # later))"
      by (auto simp: auto_operation_def)
    then show ?thesis unfolding Let_def r case_prod_conv Inr sum.case by blast
  qed
qed

text \<open>C25. A restart loses nothing that was saved: opening the file just written gives back the same tasks, the same
runs and the same recorded operations, except that a run that was running has failed with the reason
\<open>runtime_restarted\<close>; each such run is handed to the recovery until it is acknowledged.\<close>

theorem restart_restores:
  "let s = auto_save (auto_history_of uuid cal es)
   in case open_store now (sto_drawn s) (sto_disk s) of
        Inl e \<Rightarrow> False
      | Inr s' \<Rightarrow> sto_defs s' = sto_defs s \<and> sto_runs s' = map (map_prod id (recover_run now)) (sto_runs s) \<and>
          sto_ops s' = sto_ops s \<and> set (sto_reconciled s') = set (sto_reconciled s) \<and>
          list_all (\<lambda>(i, r). (i, rn_def r) \<in> set (interrupted_executions s'))
            (filter (\<lambda>(i, r). rn_status r = Running \<and> i \<notin> set (sto_reconciled s)) (sto_runs s))"
proof -
  let ?s = "auto_save (auto_history_of uuid cal es)"
  have ok: "store_ok uuid ?s" by (rule store_ok_save [OF history_ok])
  have "\<not> sto_batch (auto_history_of uuid cal es)" using history_ops_saved by (simp add: ops_saved_def)
  then have disk: "sto_disk ?s = Some (auto_document_of ?s)" by (simp add: auto_save_def)
  have "document_ok uuid (sto_drawn ?s) (auto_document_of ?s)"
    using ok disk by (simp add: store_ok_def disk_ok_def)
  then have valid: "document_valid (auto_document_of ?s)" by (rule document_ok_valid)
  have k: "keyed ad_id (sto_defs ?s)" "keyed rn_id (sto_runs ?s)" "distinct (jkeys (sto_ops ?s))"
    using ok by (simp_all add: store_ok_def maps_ok_def)
  have maps: "fold (\<lambda>v. jmap_set (ad_id v) v) (map snd (sto_defs ?s)) [] = sto_defs ?s"
    "fold (\<lambda>v. jmap_set (rn_id v) (recover_run now v)) (map snd (sto_runs ?s)) [] = map (map_prod id (recover_run now)) (sto_runs ?s)"
    "fold (\<lambda>v. jmap_set (fst v) (snd v)) (sto_ops ?s) [] = sto_ops ?s"
    using keyed_fold [OF k(1), of id] keyed_fold [OF k(2), of "recover_run now"] fold_put_keyed [of fst "sto_ops ?s" "[]" snd] k(3)
    by (simp_all add: prod.map_id0)
  obtain s' where s': "open_store now (sto_drawn ?s) (sto_disk ?s) = Inr s'"
    and eq: "sto_defs s' = sto_defs ?s" "sto_runs s' = map (map_prod id (recover_run now)) (sto_runs ?s)"
      "sto_ops s' = sto_ops ?s" "set (sto_reconciled s') = set (sto_reconciled ?s)"
    using valid maps unfolding open_store_def disk
    by (simp add: Let_def auto_document_of_def [of ?s] empty_store_def)
  have "(i, rn_def r) \<in> set (interrupted_executions s')"
    if "(i, r) \<in> set (sto_runs ?s)" "rn_status r = Running" "i \<notin> set (sto_reconciled ?s)" for i r
  proof -
    have id: "rn_id r = i" using store_runs [OF ok that(1)] by simp
    have "recover_run now r \<in> set (map snd (sto_runs s'))" using that(1) eq(2) by force
    moreover have "interrupted (recover_run now r) \<and> rn_id (recover_run now r) \<notin> set (sto_reconciled s')"
      using that(2,3) eq(4) id by (simp add: interrupted_def recover_run_def)
    moreover have "(i, rn_def r) = (\<lambda>x. (rn_id x, rn_def x)) (recover_run now r)"
      using id by (simp add: recover_run_def)
    ultimately show ?thesis unfolding interrupted_executions_def set_map set_sort set_filter by blast
  qed
  then show ?thesis using s' eq by (auto simp: Let_def list_all_iff)
qed

section \<open>A schedule that has run out\<close>

lemma claim_due_fails:
  assumes "d \<in> set ds" "is_due now d" "isl (move_on cal now d)"
  shows "isl (fst (claim_due cal now ds changed s))"
proof (rule ccontr)
  assume "\<not> isl (fst (claim_due cal now ds changed s))"
  then obtain c s' where "claim_due cal now ds changed s = (Inr c, s')"
    by (cases "fst (claim_due cal now ds changed s)"; cases "claim_due cal now ds changed s") auto
  with assms show False
  proof (induction ds arbitrary: changed s)
    case (Cons x ds)
    from Cons.prems(4) show ?case
    proof (cases rule: claim_due_Cons)
      case skip
      then show ?thesis using Cons.IH Cons.prems by (metis set_ConsD)
    next
      case (claim s1 d')
      then have "x \<noteq> d" using Cons.prems(3) by (metis sum.disc(2))
      then show ?thesis using Cons.IH Cons.prems claim(4) by (metis set_ConsD)
    qed
  qed simp
qed

lemma claim_due_keeps_def:
  fixes s :: "'r auto_store"
  assumes "jmap_get (sto_defs s) (ad_id d) = Some d" "isl (move_on cal now d)"
    and "\<And>x. x \<in> set ds \<Longrightarrow> ad_id x = ad_id d \<Longrightarrow> x = d"
  shows "jmap_get (sto_defs (snd (claim_due cal now ds changed s))) (ad_id d) = Some d"
  using assms
proof (induction ds arbitrary: changed s)
  case (Cons x ds)
  have IH: "jmap_get (sto_defs (snd (claim_due cal now ds b u))) (ad_id d) = Some d"
    if "jmap_get (sto_defs u) (ad_id d) = Some d" for b and u :: "'r auto_store"
    by (rule Cons.IH [OF that Cons.prems(2)]) (rule Cons.prems(3), simp_all)
  show ?case
  proof (cases "is_due now x")
    case False
    then show ?thesis using IH [OF Cons.prems(1)] by simp
  next
    case due: True
    show ?thesis
    proof (cases "add_occurrence now x s")
      case (Inl e)
      then show ?thesis using due Cons.prems(1) by simp
    next
      case s1: (Inr s1)
      have same: "jmap_get (sto_defs s1) (ad_id d) = Some d"
        using add_occurrence_runs(1) [OF s1] Cons.prems(1) by simp
      show ?thesis
      proof (cases "move_on cal now x")
        case (Inl e)
        then show ?thesis using due s1 same by simp
      next
        case x': (Inr x')
        then have "x \<noteq> d" using Cons.prems(2) by (metis sum.disc(2))
        then have "ad_id x \<noteq> ad_id d" using Cons.prems(3) [of x] by auto
        then have "jmap_get (sto_defs (put_def x' s1)) (ad_id d) = Some d"
          using same move_on_id [OF x'] by (simp add: put_def_def jmap_get_set)
        then show ?thesis using IH due s1 x' by simp
      qed
    qed
  qed
qed simp

text \<open>C26. One task stops all: a task that is due and whose schedule has no date any more (a pattern with a single
date, or for some days a weekly minute that summer time skips) makes every claim fail as long as that holds,
for all tasks: the dates of the others are not returned as runs, although the failures of one run are
isolated from the others.\<close>

theorem spent_schedule_blocks_claims:
  assumes "s = auto_history_of uuid cal es" "jmap_get (sto_defs s) i = Some d" "is_due now d"
    and "\<And>t. now \<le> t \<Longrightarrow> t \<le> last_time \<Longrightarrow> isl (next_schedule_time cal (ad_schedule d) t)" "\<not> is_once (ad_schedule d)"
    and "list_all (\<lambda>t. now \<le> t \<and> t \<le> last_time) ts" "now \<le> last_time"
  shows "isl (fst (claim_runnable cal last_time (fold (\<lambda>t s. snd (claim_runnable cal t s)) ts s)))"
proof -
  have moved: "isl (move_on cal t d)" if "now \<le> t" "t \<le> last_time" for t
    using assms(4) [OF that] assms(5) by (auto simp: move_on_def isl_def)
  have due: "is_due t d" if "now \<le> t" for t
    using assms(3) that by (auto simp: is_due_def split: option.splits)
  have fails: "isl (fst (claim_runnable cal t u))" "jmap_get (sto_defs (snd (claim_runnable cal t u))) i = Some d"
    if u: "store_ok uuid u" "jmap_get (sto_defs u) i = Some d" and t: "now \<le> t" "t \<le> last_time" for t u
  proof -
    let ?r = "claim_due cal t (map snd (sto_defs u)) False u"
    have mem: "d \<in> set (map snd (sto_defs u))" using map_of_SomeD [OF u(2)] by force
    have id: "ad_id d = i" using store_defs [OF u(1) map_of_SomeD [OF u(2)]] by simp
    have only: "x = d" if "x \<in> set (map snd (sto_defs u))" "ad_id x = ad_id d" for x
      using keyed_get_value [OF _ that(1), of ad_id] u that(2) id by (simp add: store_ok_def maps_ok_def)
    have "isl (fst ?r)" by (rule claim_due_fails [OF mem due [OF t(1)] moved [OF t]])
    then show "isl (fst (claim_runnable cal t u))"
      by (cases ?r) (auto simp: claim_runnable_def isl_def)
    have "jmap_get (sto_defs (snd ?r)) (ad_id d) = Some d"
      by (rule claim_due_keeps_def [OF _ moved [OF t] only]) (use u(2) id in simp)
    then show "jmap_get (sto_defs (snd (claim_runnable cal t u))) i = Some d"
      using id by (cases ?r) (auto simp: claim_runnable_def Let_def split: sum.split)
  qed
  have "store_ok uuid (fold (\<lambda>t s. snd (claim_runnable cal t s)) ts u) \<and>
      jmap_get (sto_defs (fold (\<lambda>t s. snd (claim_runnable cal t s)) ts u)) i = Some d"
    if "store_ok uuid u" "jmap_get (sto_defs u) i = Some d" for u
    using that assms(6)
  proof (induction ts arbitrary: u)
    case (Cons t ts)
    show ?case unfolding fold_Cons comp_def
      by (rule Cons.IH) (use Cons.prems claim_ok fails(2) in auto)
  qed simp
  then show ?thesis using fails(1) assms(1,2,7) history_ok by blast
qed

theorem spent_schedule_blocks_claims_witness:
  "let s = auto_history_of plain_uuid plain_calendar
         [(0, Do_Create (plain_input (S_Cron ''1970-01-02T00:00:00'' ''UTC''))), (1, Do_Create (plain_input (S_Interval 5)))]
   in map (is_due 86400000) (auto_list s) = [True, True] \<and>
      isl (fst (claim_runnable plain_calendar 90000000 (fold (\<lambda>t s. snd (claim_runnable plain_calendar t s)) [86400000] s)))"
proof -
  let ?s = "auto_history_of plain_uuid plain_calendar
         [(0, Do_Create (plain_input (S_Cron ''1970-01-02T00:00:00'' ''UTC''))), (1, Do_Create (plain_input (S_Interval 5)))]"
  have "map_option (\<lambda>d. (is_due 86400000 d, ad_schedule d)) (jmap_get (sto_defs ?s) ''automation-u0'') =
      Some (True, S_Cron ''1970-01-02T00:00:00'' ''UTC'')" "map (is_due 86400000) (auto_list ?s) = [True, True]"
    by (simp_all add: store_steps js_trim_def js_space_def auto_list_def)
  then obtain d where d: "jmap_get (sto_defs ?s) ''automation-u0'' = Some d" "is_due 86400000 d"
    "ad_schedule d = S_Cron ''1970-01-02T00:00:00'' ''UTC''" and due: "map (is_due 86400000) (auto_list ?s) = [True, True]"
    by auto
  have "isl (next_schedule_time plain_calendar (ad_schedule d) t)" if "86400000 \<le> t" for t
    using that by (simp add: d(3) next_schedule_time_def plain_calendar_def)
  then have "isl (fst (claim_runnable plain_calendar 90000000 (fold (\<lambda>t s. snd (claim_runnable plain_calendar t s)) [86400000] ?s)))"
    by (intro spent_schedule_blocks_claims [OF refl d(1,2)]) (simp_all add: d(3) is_once_def)
  with due show ?thesis unfolding Let_def by blast
qed

end
