(* ===== verification/Automation_Scheduler.thy ===== *)
theory Automation_Scheduler
  imports Automation_Store
begin

text \<open>
  The scheduler of the tasks, class \<open>AutomationScheduler\<close> of \<^verbatim>\<open>harness-bundle/src/automation-store.ts\<close>. A tick
  first recovers the runs a restart interrupted, then claims the runs and gives them to the runner one
  after the other. The handlers are split at their awaits; \<open>phase\<close> is the await a tick is at. Between two
  steps of the tick the routes and session tools may change the store.

  The runner and the notifier are outside: \<open>sch_executed\<close> logs the ids of the runs given to \<open>execute\<close>,
  \<open>sch_reconciled\<close> those given to \<open>reconcileInterrupted\<close> (which both runners define), \<open>sch_cancelled\<close> those
  given to \<open>cancel\<close>, and \<open>sch_notes\<close> the notifications published.
\<close>

section \<open>Ticks\<close>

datatype phase =
    Resting
  | Recovering string "(string \<times> auto_def) list"
  | Executing string "auto_run list"

record run_note =
  nt_run :: string
  nt_title :: string
  nt_message :: string
  nt_link :: string

record scheduler =
  sch_store :: "auto_def auto_store"
  sch_phase :: phase
  sch_stopped :: bool
  sch_recovered :: bool
  sch_executed :: "string list"
  sch_reconciled :: "string list"
  sch_cancelled :: "string list"
  sch_notes :: "run_note list"

definition initial_scheduler :: "auto_def auto_store \<Rightarrow> scheduler" where
  "initial_scheduler st = \<lparr>sch_store = st, sch_phase = Resting, sch_stopped = False, sch_recovered = False,
     sch_executed = [], sch_reconciled = [], sch_cancelled = [], sch_notes = []\<rparr>"

definition notify_terminal :: "auto_run \<Rightarrow> scheduler \<Rightarrow> scheduler" where
  "notify_terminal r s =
     (if rn_status r \<notin> {Succeeded, Failed, Skipped_Busy} then s
      else if ad_policy (rn_def r) = Notify_None \<or> (ad_policy (rn_def r) = Notify_Failure \<and> rn_status r = Succeeded) then s
      else (let name = ad_name (rn_def r)
            in s\<lparr>sch_notes := sch_notes s @ [\<lparr>nt_run = rn_id r,
                 nt_title = (if rn_status r \<noteq> Succeeded then ''Automation failed'' else ''Automation completed''),
                 nt_message = (if rn_status r \<noteq> Succeeded
                   then ''Automation '' @ name @ '' failed: '' @ (case rn_error r of Some e \<Rightarrow> e | None \<Rightarrow> ''unknown error'')
                   else ''Automation '' @ name @ '' finished successfully.''),
                 nt_link = ''/scheduled/'' @ rn_auto r\<rparr>]\<rparr>))"

text \<open>The loop over the claimed runs, up to the await of \<open>execute\<close>; the tick ends after the last one.\<close>

fun run_claimed :: "nat \<Rightarrow> auto_run list \<Rightarrow> scheduler \<Rightarrow> scheduler" where
  "run_claimed now [] s = s\<lparr>sch_phase := Resting\<rparr>"
| "run_claimed now (p # ps) s =
     (if sch_stopped s then s\<lparr>sch_phase := Resting\<rparr>
      else case begin_run now (rn_id p) (sch_store s) of
             (Inl e, st) \<Rightarrow> run_claimed now ps (s\<lparr>sch_store := st\<rparr>)
           | (Inr r, st) \<Rightarrow> s\<lparr>sch_store := st, sch_phase := Executing (rn_id r) ps,
                               sch_executed := sch_executed s @ [rn_id r]\<rparr>)"

definition claim_and_run :: "calendar \<Rightarrow> nat \<Rightarrow> scheduler \<Rightarrow> scheduler" where
  "claim_and_run cal now s =
     (if sch_stopped s then s\<lparr>sch_phase := Resting\<rparr>
      else case claim_runnable cal now (sch_store s) of
             (Inl e, st) \<Rightarrow> s\<lparr>sch_store := st, sch_phase := Resting\<rparr>
           | (Inr rs, st) \<Rightarrow> run_claimed now rs (s\<lparr>sch_store := st\<rparr>))"

definition recover_next :: "calendar \<Rightarrow> nat \<Rightarrow> (string \<times> auto_def) list \<Rightarrow> scheduler \<Rightarrow> scheduler" where
  "recover_next cal now requests s =
     (case requests of
        [] \<Rightarrow> claim_and_run cal now (s\<lparr>sch_recovered := True\<rparr>)
      | (i, d) # rest \<Rightarrow>
          (if sch_stopped s then s\<lparr>sch_phase := Resting\<rparr>
           else s\<lparr>sch_phase := Recovering i rest, sch_reconciled := sch_reconciled s @ [i]\<rparr>))"

definition tick :: "calendar \<Rightarrow> nat \<Rightarrow> scheduler \<Rightarrow> scheduler" where
  "tick cal now s =
     (if sch_stopped s \<or> sch_phase s \<noteq> Resting then s
      else if sch_recovered s then claim_and_run cal now s
      else recover_next cal now (interrupted_executions (sch_store s)) s)"

definition recovery_reply :: "calendar \<Rightarrow> nat \<Rightarrow> string + unit \<Rightarrow> scheduler \<Rightarrow> scheduler" where
  "recovery_reply cal now answer s =
     (case sch_phase s of
        Recovering i rest \<Rightarrow>
          (case answer of
             Inl e \<Rightarrow> s\<lparr>sch_phase := Resting\<rparr>
           | Inr _ \<Rightarrow>
               (case acknowledge_interrupted i (sch_store s) of
                  (Inl e, st) \<Rightarrow> s\<lparr>sch_store := st, sch_phase := Resting\<rparr>
                | (Inr _, st) \<Rightarrow> recover_next cal now rest (s\<lparr>sch_store := st\<rparr>)))
      | _ \<Rightarrow> s)"

datatype execution = Exec_Done string "string option" "string option" | Exec_Busy | Exec_Failed string

text \<open>A result that cannot be stored fails the run; a failure that cannot be stored is given up.\<close>

definition store_failure :: "nat \<Rightarrow> string \<Rightarrow> string \<Rightarrow> scheduler \<Rightarrow> scheduler" where
  "store_failure now i err s =
     (case finish_run now i (Run_Failed err None) (sch_store s) of
        (Inl e, st) \<Rightarrow> s\<lparr>sch_store := st\<rparr>
      | (Inr r, st) \<Rightarrow> notify_terminal r (s\<lparr>sch_store := st\<rparr>))"

definition store_execution :: "nat \<Rightarrow> string \<Rightarrow> execution \<Rightarrow> scheduler \<Rightarrow> scheduler" where
  "store_execution now i x s =
     (case x of
        Exec_Done session result path \<Rightarrow>
          (case finish_run now i (Run_Succeeded session result path) (sch_store s) of
             (Inl e, st) \<Rightarrow> store_failure now i e (s\<lparr>sch_store := st\<rparr>)
           | (Inr r, st) \<Rightarrow> notify_terminal r (s\<lparr>sch_store := st\<rparr>))
      | Exec_Busy \<Rightarrow>
          (case defer_busy now i (sch_store s) of
             (Inl e, st) \<Rightarrow> s\<lparr>sch_store := st\<rparr>
           | (Inr r, st) \<Rightarrow> notify_terminal r (s\<lparr>sch_store := st\<rparr>))
      | Exec_Failed err \<Rightarrow> store_failure now i err s)"

definition execution_reply :: "nat \<Rightarrow> execution \<Rightarrow> scheduler \<Rightarrow> scheduler" where
  "execution_reply now x s =
     (case sch_phase s of
        Executing i rest \<Rightarrow> run_claimed now rest (store_execution now i x s)
      | _ \<Rightarrow> s)"

definition scheduler_cancel :: "nat \<Rightarrow> string \<Rightarrow> string \<Rightarrow> scheduler \<Rightarrow> scheduler" where
  "scheduler_cancel now auto i s =
     (case cancel_run now auto i (sch_store s) of
        (Inl e, st) \<Rightarrow> s\<lparr>sch_store := st\<rparr>
      | (Inr r, st) \<Rightarrow> s\<lparr>sch_store := st, sch_cancelled := sch_cancelled s @ [i]\<rparr>)"

definition scheduler_stop :: "scheduler \<Rightarrow> scheduler" where
  "scheduler_stop s =
     (if sch_stopped s then s
      else s\<lparr>sch_stopped := True,
             sch_cancelled := sch_cancelled s @ (case sch_phase s of Executing i rest \<Rightarrow> [i] | _ \<Rightarrow> [])\<rparr>)"

section \<open>What may happen\<close>

text \<open>The calls of the routes and tools.\<close>

fun outside_call :: "auto_event \<Rightarrow> bool" where
  "outside_call (Do_Create input) = True"
| "outside_call (Do_Update i v p) = True"
| "outside_call (Do_Delete i) = True"
| "outside_call (Do_Tool i encoded t) = True"
| "outside_call (Do_Run i) = True"
| "outside_call _ = False"

text \<open>
  The steps. The runner tells of the session and the turn of the run it executes, and it answers with busy
  only for a run it did not submit: \<open>SessionBusyError\<close> is \<^verbatim>\<open>an admission result: no engine request or
  quota reservation occurred\<close> (\<^verbatim>\<open>execution-admission.ts\<close>).
\<close>

definition unsubmitted :: "string \<Rightarrow> auto_def auto_store \<Rightarrow> bool" where
  "unsubmitted i st = (case jmap_get (sto_runs st) i of None \<Rightarrow> True | Some r \<Rightarrow> rn_submitted r = None)"

inductive sched_step :: "(nat \<Rightarrow> string) \<Rightarrow> calendar \<Rightarrow> scheduler \<Rightarrow> scheduler \<Rightarrow> bool"
  for uuid cal where
  Step_Tick: "sched_step uuid cal s (tick cal now s)"
| Step_Recovered: "sched_step uuid cal s (recovery_reply cal now answer s)"
| Step_Executed: "x \<noteq> Exec_Busy \<or> (case sch_phase s of Executing i rest \<Rightarrow> unsubmitted i (sch_store s) | _ \<Rightarrow> True) \<Longrightarrow>
    sched_step uuid cal s (execution_reply now x s)"
| Step_Session: "sch_phase s = Executing i rest \<Longrightarrow>
    sched_step uuid cal s (s\<lparr>sch_store := snd (bind_session i session (sch_store s))\<rparr>)"
| Step_Submitted: "sch_phase s = Executing i rest \<Longrightarrow>
    sched_step uuid cal s (s\<lparr>sch_store := snd (submitted now i turn (sch_store s))\<rparr>)"
| Step_Cancel: "sched_step uuid cal s (scheduler_cancel now auto i s)"
| Step_Stop: "sched_step uuid cal s (scheduler_stop s)"
| Step_Outside: "outside_call ev \<Longrightarrow> sched_step uuid cal s (s\<lparr>sch_store := auto_step uuid cal (now, ev) (sch_store s)\<rparr>)"

text \<open>A process starts on a store just opened; its runs are those the last process left.\<close>

inductive sched_reach :: "(nat \<Rightarrow> string) \<Rightarrow> calendar \<Rightarrow> scheduler \<Rightarrow> bool" for uuid cal where
  Reach_Start: "sched_reach uuid cal (initial_scheduler (auto_step uuid cal (now, Do_Restart) (auto_history_of uuid cal es)))"
| Reach_Step: "sched_reach uuid cal s \<Longrightarrow> sched_step uuid cal s s' \<Longrightarrow> sched_reach uuid cal s'"

section \<open>Run ids are never used again\<close>

lemma show_nat_no_dash: "CHR ''-'' \<notin> set (show_nat n)"
  using show_nat_digits [of n] by (auto simp: list_all_iff is_digit_def)

lemma append_dash_inj:
  "xs @ CHR ''-'' # ds = ys @ CHR ''-'' # es \<Longrightarrow> CHR ''-'' \<notin> set ds \<Longrightarrow> CHR ''-'' \<notin> set es \<Longrightarrow> xs = ys"
  by (auto simp: append_eq_append_conv2 append_eq_Cons_conv Cons_eq_append_conv)

lemma scheduled_run_id_inj:
  assumes "scheduled_run_id a t = scheduled_run_id b u"
  shows "a = b"
proof -
  from assms have "a @ CHR ''-'' # show_nat t = b @ CHR ''-'' # show_nat u" by (simp add: scheduled_run_id_def)
  then show ?thesis by (rule append_dash_inj) (simp_all add: show_nat_no_dash)
qed

definition dead :: "(nat \<Rightarrow> string) \<Rightarrow> auto_def auto_store \<Rightarrow> string \<Rightarrow> bool" where
  "dead uuid st i \<longleftrightarrow> jmap_get (sto_runs st) i = None \<and>
     ((\<exists>k < sto_drawn st. i = manual_run_id (uuid k)) \<or>
      (\<exists>k < sto_drawn st. \<exists>t. i = scheduled_run_id (definition_id (uuid k)) t \<and> definition_id (uuid k) \<notin> set (jkeys (sto_defs st))))"

text \<open>What a call from outside may do to the run of an id.\<close>

definition run_change :: "(nat \<Rightarrow> string) \<Rightarrow> auto_def auto_store \<Rightarrow> auto_def auto_store \<Rightarrow> string \<Rightarrow> bool" where
  "run_change uuid st st' i \<longleftrightarrow> (dead uuid st i \<longrightarrow> dead uuid st' i) \<and>
     (case (jmap_get (sto_runs st) i, jmap_get (sto_runs st') i) of
        (None, None) \<Rightarrow> True
      | (None, Some r') \<Rightarrow> rn_status r' = Pending \<and> rn_busy r' = 0
      | (Some r, None) \<Rightarrow> dead uuid st' i
      | (Some r, Some r') \<Rightarrow> rn_busy r' = rn_busy r \<and>
          (rn_status r' = rn_status r \<or> (active_status (rn_status r) \<and> rn_status r' = Cancelled)))"

lemma dead_mono:
  assumes "dead uuid st i" "jmap_get (sto_runs st') i = None" "sto_drawn st \<le> sto_drawn st'"
    and "\<And>k. k < sto_drawn st \<Longrightarrow> definition_id (uuid k) \<in> set (jkeys (sto_defs st')) \<Longrightarrow> definition_id (uuid k) \<in> set (jkeys (sto_defs st))"
  shows "dead uuid st' i"
proof -
  consider k where "k < sto_drawn st" "i = manual_run_id (uuid k)"
    | k t where "k < sto_drawn st" "i = scheduled_run_id (definition_id (uuid k)) t" "definition_id (uuid k) \<notin> set (jkeys (sto_defs st))"
    using assms(1) unfolding dead_def by blast
  then show ?thesis
  proof cases
    case (1 k)
    then have "k < sto_drawn st'" using assms(3) by simp
    then show ?thesis unfolding dead_def using 1(2) assms(2) by blast
  next
    case (2 k t)
    then have "k < sto_drawn st'" "definition_id (uuid k) \<notin> set (jkeys (sto_defs st'))" using assms(3,4) by auto
    then show ?thesis unfolding dead_def using 2(2) assms(2) by blast
  qed
qed

lemma run_change_same:
  assumes "jmap_get (sto_runs st') i = jmap_get (sto_runs st) i" "sto_drawn st \<le> sto_drawn st'"
    and "\<And>k. k < sto_drawn st \<Longrightarrow> definition_id (uuid k) \<in> set (jkeys (sto_defs st')) \<Longrightarrow> definition_id (uuid k) \<in> set (jkeys (sto_defs st))"
  shows "run_change uuid st st' i"
proof -
  have "dead uuid st i \<longrightarrow> dead uuid st' i"
    using dead_mono [OF _ _ assms(2,3)] assms(1) by (auto simp: dead_def [of uuid st])
  then show ?thesis using assms(1) by (simp add: run_change_def split: option.split)
qed

lemma run_change_refl [simp]: "run_change uuid st st i"
  by (rule run_change_same) simp_all

lemma dead_frame [simp]:
  "dead uuid (st\<lparr>sto_batch := b\<rparr>) i = dead uuid st i" "dead uuid (auto_save st) i = dead uuid st i"
  "dead uuid (st\<lparr>sto_ops := ops\<rparr>) i = dead uuid st i"
  by (simp_all add: dead_def)

lemma run_change_frame [simp]:
  "run_change uuid (st\<lparr>sto_batch := b\<rparr>) st' i = run_change uuid st st' i"
  "run_change uuid st (auto_save st') i = run_change uuid st st' i"
  "run_change uuid st (st'\<lparr>sto_ops := ops\<rparr>) i = run_change uuid st st' i"
  "run_change uuid st (st'\<lparr>sto_batch := b\<rparr>) i = run_change uuid st st' i"
  by (simp_all add: run_change_def split: option.split)

lemma definition_id_inj: "uuid_ok uuid \<Longrightarrow> definition_id (uuid k) = definition_id (uuid n) \<longleftrightarrow> k = n"
  by (auto simp: definition_id_def uuid_ok_def dest: injD)

lemma create_change:
  assumes "uuid_ok uuid"
  shows "run_change uuid st (snd (auto_create uuid cal now input st)) i"
proof (rule run_change_same)
  fix k assume k: "k < sto_drawn st" "definition_id (uuid k) \<in> set (jkeys (sto_defs (snd (auto_create uuid cal now input st))))"
  have "set (jkeys (sto_defs (snd (auto_create uuid cal now input st)))) \<subseteq>
      insert (definition_id (uuid (sto_drawn st))) (set (jkeys (sto_defs st)))"
    by (auto simp: auto_create_def Let_def put_def_def auto_input.defs auto_def.defs jkeys_set_set split: sum.split simp del: set_map)
  then show "definition_id (uuid k) \<in> set (jkeys (sto_defs st))"
    using k definition_id_inj [OF assms, of k "sto_drawn st"] by auto
qed (auto simp: auto_create_def Let_def put_def_def split: sum.split)

lemma jkeys_set_known: "k \<in> set (jkeys m) \<Longrightarrow> set (jkeys (jmap_set k v m)) = set (jkeys m)"
  by (simp add: jkeys_set_set insert_absorb del: set_map)

lemma required_key: "required i st = Inr d \<Longrightarrow> i \<in> set (jkeys (sto_defs st))"
  by (force simp: required_def dest: map_of_SomeD split: option.splits)

lemma update_change: "run_change uuid st (snd (auto_update cal now a v p st)) i"
proof (cases "required a st")
  case (Inr d)
  show ?thesis
  proof (cases "ad_version d = v \<and> pa_enabled p = Some False \<and> \<not> isl (updated_def cal now p d)")
    case False
    then have "sto_runs (snd (auto_update cal now a v p st)) = sto_runs st"
      by (auto simp: auto_update_def Inr Let_def isl_def split: sum.split)
    then show ?thesis
      by (intro run_change_same)
        (auto simp: auto_update_def Inr Let_def jkeys_set_known [OF required_key [OF Inr]] split: sum.splits if_splits simp del: set_map)
  next
    case True
    then obtain d' where d': "updated_def cal now p d = Inr d'" by (auto simp: isl_def) (metis sum.exhaust)
    let ?st = "snd (auto_update cal now a v p st)"
    have st: "sto_runs ?st = map (map_prod id (cancel_scheduled now a)) (sto_runs st)" "sto_drawn ?st = sto_drawn st"
      "set (jkeys (sto_defs ?st)) = set (jkeys (sto_defs st))"
      using True d' jkeys_set_known [OF required_key [OF Inr]] by (simp_all add: auto_update_def Inr Let_def del: set_map)
    have get: "jmap_get (sto_runs ?st) i = map_option (cancel_scheduled now a) (jmap_get (sto_runs st) i)"
      by (simp add: st(1) map_of_map_values)
    then have "dead uuid st i = dead uuid ?st i" unfolding dead_def st(2,3) by simp
    then show ?thesis using get
      by (auto simp: run_change_def cancel_scheduled_def active_status_def split: option.split)
  qed
qed (simp add: auto_update_def)

lemma delete_change:
  assumes "store_ok uuid st"
  shows "run_change uuid st (snd (auto_delete a st)) i"
proof (cases "isl (fst (auto_delete a st))")
  case True
  then have "snd (auto_delete a st) = st" by (auto simp: auto_delete_def split: sum.splits if_splits)
  then show ?thesis by simp
next
  case False
  let ?st = "snd (auto_delete a st)"
  have st: "sto_runs ?st = filter (\<lambda>(k, r). rn_auto r \<noteq> a) (sto_runs st)" "sto_drawn ?st = sto_drawn st"
    "set (jkeys (sto_defs ?st)) = set (jkeys (sto_defs st)) - {a}"
    using False by (auto simp: auto_delete_def jkeys_delete split: sum.splits if_splits simp del: set_map)
  show ?thesis
  proof (cases "jmap_get (sto_runs st) i")
    case None
    then have "jmap_get (sto_runs ?st) i = None" by (auto simp: st(1) map_of_eq_None_iff)
    then show ?thesis using None by (intro run_change_same) (auto simp: st simp del: set_map)
  next
    case (Some r)
    show ?thesis
    proof (cases "rn_auto r = a")
      case False
      then have "jmap_get (sto_runs ?st) i = Some r" using map_of_filter_values [OF Some] by (simp add: st(1))
      then show ?thesis using Some by (intro run_change_same) (auto simp: st simp del: set_map)
    next
      case True
      have r: "run_ok uuid (sto_drawn st) r" "rn_id r = i"
        using store_runs [OF assms map_of_SomeD [OF Some]] by auto
      have "distinct (jkeys (sto_runs st))" using assms by (simp add: store_ok_def maps_ok_def keyed_def)
      then have "r' = r" if "(i, r') \<in> set (sto_runs st)" for r'
        using eq_key_imp_eq_value [OF _ that map_of_SomeD [OF Some]] by simp
      then have "i \<notin> set (jkeys (sto_runs ?st))" using True by (auto simp: st(1))
      then have gone: "jmap_get (sto_runs ?st) i = None" by (simp add: map_of_eq_None_iff)
      have "dead uuid ?st i"
      proof (cases "rn_trigger r")
        case Scheduled
        with r obtain k where k: "k < sto_drawn st" "rn_auto r = definition_id (uuid k)" "i = scheduled_run_id (definition_id (uuid k)) (rn_for r)"
          by (auto simp: run_ok_def def_ok_def)
        then have "definition_id (uuid k) \<notin> set (jkeys (sto_defs st)) - {a}" using True by simp
        with k gone show ?thesis unfolding dead_def st(2,3) by blast
      next
        case Manual
        with r show ?thesis unfolding dead_def st(2,3) using gone by (auto simp: run_ok_def)
      qed
      then show ?thesis using Some gone by (simp add: run_change_def dead_def [of uuid st])
    qed
  qed
qed

lemma tool_change:
  assumes "uuid_ok uuid"
  shows "run_change uuid st (snd (tool_perform uuid cal now t st)) i"
  using create_change [OF assms] update_change by (cases t) auto

lemma operation_change:
  assumes "uuid_ok uuid"
  shows "run_change uuid st (snd (auto_operation j encoded (tool_perform uuid cal now t) st)) i"
proof -
  let ?p = "tool_perform uuid cal now t (st\<lparr>sto_batch := True\<rparr>)"
  have change: "run_change uuid st (snd ?p) i"
    using tool_change [OF assms, of "st\<lparr>sto_batch := True\<rparr>" cal now t i] by simp
  have failed: "run_change uuid st (s1\<lparr>sto_defs := sto_defs st, sto_runs := sto_runs st, sto_ops := x, sto_batch := False\<rparr>) i"
    if "sto_drawn st \<le> sto_drawn s1" for s1 x
    by (rule run_change_same) (use that in simp_all)
  have "sto_drawn st \<le> sto_drawn (snd ?p)" using tool_draws [of "st\<lparr>sto_batch := True\<rparr>"] by simp
  then show ?thesis using change failed
    by (cases ?p) (auto simp: auto_operation_def split: option.split sum.split)
qed

lemma add_fresh_change:
  assumes "\<not> dead uuid st (rn_id r)" "jmap_get (sto_runs st) (rn_id r) = None" "rn_status r = Pending" "rn_busy r = 0"
    and "sto_runs st' = jmap_set (rn_id r) r (sto_runs st)" "sto_drawn st \<le> sto_drawn st'" "sto_defs st' = sto_defs st"
  shows "run_change uuid st st' i"
proof (cases "i = rn_id r")
  case True
  then show ?thesis using assms by (simp add: run_change_def jmap_get_set)
next
  case False
  then show ?thesis using assms by (intro run_change_same) (simp_all add: jmap_get_set)
qed

lemma run_now_change:
  assumes "store_ok uuid st" "uuid_ok uuid"
  shows "run_change uuid st (snd (run_now uuid now a st)) i"
proof (cases "required a st")
  case (Inr d)
  let ?r = "fresh_run (manual_run_id (uuid (sto_drawn st))) d Manual now now"
  have "\<not> dead uuid st (manual_run_id (uuid (sto_drawn st)))"
    using manual_not_scheduled [OF assms(2)] assms(2) by (auto simp: dead_def uuid_ok_def dest: injD)
  then have "run_change uuid st (put_run ?r (st\<lparr>sto_drawn := Suc (sto_drawn st)\<rparr>)) i"
    using fresh_manual_id [OF assms] by (intro add_fresh_change [of uuid st ?r]) (simp_all add: fresh_run_def put_run_def)
  moreover have "run_change uuid st (st\<lparr>sto_drawn := Suc (sto_drawn st)\<rparr>) i" by (rule run_change_same) simp_all
  ultimately show ?thesis by (auto simp: run_now_def Inr store_parsed_def parse_with_def)
qed (simp add: run_now_def)

lemma scheduled_not_dead:
  assumes "uuid_ok uuid" "ad_id d \<in> set (jkeys (sto_defs st))" "def_ok uuid (sto_drawn st) d"
  shows "\<not> dead uuid st (scheduled_run_id (ad_id d) t)"
proof -
  obtain k where k: "ad_id d = definition_id (uuid k)" using assms(3) by (auto simp: def_ok_def)
  then show ?thesis using assms(1,2) manual_not_scheduled [OF assms(1)] scheduled_run_id_inj
    unfolding dead_def by metis
qed

lemma run_change_trans:
  assumes "run_change uuid st st1 i" "run_change uuid st1 st2 i"
    and "\<And>r. jmap_get (sto_runs st1) i = Some r \<Longrightarrow> jmap_get (sto_runs st2) i = Some r"
  shows "run_change uuid st st2 i"
proof (cases "jmap_get (sto_runs st1) i")
  case None
  then show ?thesis using assms(1,2)
    by (cases "jmap_get (sto_runs st) i"; cases "jmap_get (sto_runs st2) i") (auto simp: run_change_def dead_def [of uuid st] dead_def [of uuid st2])
next
  case (Some r)
  then show ?thesis using assms(1,2) assms(3) [OF Some]
    by (cases "jmap_get (sto_runs st) i") (auto simp: run_change_def)
qed

lemma add_occurrence_change:
  assumes "uuid_ok uuid" "ad_id d \<in> set (jkeys (sto_defs st))" "def_ok uuid (sto_drawn st) d" "add_occurrence now d st = Inr st'"
  shows "run_change uuid st st' i"
proof (cases "jmap_get (sto_runs st) (occurrence d)")
  case (Some r)
  then have "st' = st" using assms(4) by (auto simp: add_occurrence_def occurrence_def Let_def)
  then show ?thesis by simp
next
  case None
  let ?r = "fresh_run (occurrence d) d Scheduled (the (ad_next d)) now"
  have st': "st' = put_run ?r st"
    using assms(4) None by (auto simp: add_occurrence_def occurrence_def Let_def parse_with_def split: if_splits)
  have "\<not> dead uuid st (occurrence d)" using scheduled_not_dead [OF assms(1-3)] by (simp add: occurrence_def)
  with None show ?thesis unfolding st'
    by (intro add_fresh_change [of uuid st ?r]) (simp_all add: fresh_run_def put_run_def)
qed

lemma put_known_change:
  assumes "ad_id d \<in> set (jkeys (sto_defs st))"
  shows "run_change uuid st (put_def d st) i"
  by (rule run_change_same) (use assms in \<open>simp_all add: put_def_def jkeys_set_known del: set_map\<close>)

lemma claim_due_change:
  assumes "uuid_ok uuid" "store_ok uuid st"
    and "\<And>d. d \<in> set ds \<Longrightarrow> def_ok uuid (sto_drawn st) d \<and> ad_id d \<in> set (jkeys (sto_defs st))"
  shows "run_change uuid st (snd (claim_due cal now ds changed st)) i"
  using assms(2,3)
proof (induction ds arbitrary: changed st)
  case (Cons d ds)
  have d: "def_ok uuid (sto_drawn st) d" "ad_id d \<in> set (jkeys (sto_defs st))" using Cons.prems(2) by auto
  show ?case
  proof (cases "is_due now d")
    case False
    then show ?thesis using Cons by simp
  next
    case due: True
    show ?thesis
    proof (cases "add_occurrence now d st")
      case (Inl e)
      then show ?thesis using due by simp
    next
      case s1: (Inr s1)
      note ok = add_occurrence_ok [OF Cons.prems(1) s1 d]
      have c1: "run_change uuid st s1 i" by (rule add_occurrence_change [OF assms(1) d(2,1) s1])
      show ?thesis
      proof (cases "move_on cal now d")
        case (Inl e)
        then show ?thesis using due s1 c1 by simp
      next
        case d': (Inr d')
        note m = move_on_ok [OF d' d(1) due]
        have key: "ad_id d' \<in> set (jkeys (sto_defs s1))" using d(2) ok(2) m(2) by simp
        have put: "store_ok uuid (put_def d' s1)" by (rule store_ok_put_def [OF ok(1)]) (use m ok(3) in simp)
        have "run_change uuid (put_def d' s1) (snd (claim_due cal now ds True (put_def d' s1))) i"
          by (rule Cons.IH [OF put])
            (use Cons.prems(2) ok(2,3) in \<open>auto simp: put_def_def jkeys_set_set simp del: set_map\<close>)
        moreover have "run_change uuid st (put_def d' s1) i"
          by (rule run_change_trans [OF c1 put_known_change [OF key]]) (simp add: put_def_def)
        moreover have "jmap_get (sto_runs (snd (claim_due cal now ds True (put_def d' s1)))) i = Some r"
          if "jmap_get (sto_runs (put_def d' s1)) i = Some r" for r
          using claim_due_keeps [OF that] that by (simp add: keeps_def)
        ultimately have "run_change uuid st (snd (claim_due cal now ds True (put_def d' s1))) i"
          by (blast intro: run_change_trans)
        then show ?thesis using due s1 d' by simp
      qed
    qed
  qed
qed simp

section \<open>The invariant of the scheduler\<close>

definition exec_bound :: "auto_run option \<Rightarrow> nat" where
  "exec_bound x = (case x of None \<Rightarrow> busy_retries + 1
     | Some r \<Rightarrow> rn_busy r + (if rn_status r = Pending \<or> rn_status r = Waiting then 0 else 1))"

definition note_bound :: "auto_run option \<Rightarrow> nat" where
  "note_bound x = (case x of None \<Rightarrow> 1 | Some r \<Rightarrow> (if active_status (rn_status r) then 0 else 1))"

definition log_ok :: "(nat \<Rightarrow> string) \<Rightarrow> auto_def auto_store \<Rightarrow> string list \<Rightarrow> string list \<Rightarrow> string \<Rightarrow> bool" where
  "log_ok uuid st executed noted i \<longleftrightarrow>
     count_list executed i \<le> exec_bound (jmap_get (sto_runs st) i) \<and>
     count_list noted i \<le> note_bound (jmap_get (sto_runs st) i) \<and>
     (jmap_get (sto_runs st) i = None \<and> \<not> dead uuid st i \<longrightarrow> i \<notin> set executed \<and> i \<notin> set noted)"

definition running_only :: "auto_def auto_store \<Rightarrow> phase \<Rightarrow> bool" where
  "running_only st ph \<longleftrightarrow>
     (\<forall>i r. jmap_get (sto_runs st) i = Some r \<and> rn_status r = Running \<longrightarrow> (\<exists>rest. ph = Executing i rest))"

definition sched_inv :: "(nat \<Rightarrow> string) \<Rightarrow> scheduler \<Rightarrow> bool" where
  "sched_inv uuid s \<longleftrightarrow> store_ok uuid (sch_store s) \<and> running_only (sch_store s) (sch_phase s) \<and>
     (\<forall>i. log_ok uuid (sch_store s) (sch_executed s) (map nt_run (sch_notes s)) i)"

lemma stored_run: "store_ok uuid st \<Longrightarrow> jmap_get (sto_runs st) i = Some r \<Longrightarrow> run_ok uuid (sto_drawn st) r \<and> rn_id r = i"
  using store_runs map_of_SomeD by fast

lemma stored_busy: "store_ok uuid st \<Longrightarrow> jmap_get (sto_runs st) i = Some r \<Longrightarrow> rn_busy r \<le> busy_retries"
  using stored_run by (fastforce simp: run_ok_def status_ok_def)

lemma log_ok_change:
  assumes "log_ok uuid st ex nt i" "run_change uuid st st' i" "store_ok uuid st"
  shows "log_ok uuid st' ex nt i"
proof (cases "jmap_get (sto_runs st) i")
  case None
  then show ?thesis using assms(1,2)
    by (cases "jmap_get (sto_runs st') i")
      (auto simp: log_ok_def run_change_def dead_def [of uuid st'] count_list_0_iff)
next
  case (Some r)
  then have "rn_busy r \<le> busy_retries" using stored_busy [OF assms(3)] by blast
  then show ?thesis using Some assms(1,2)
    by (cases "jmap_get (sto_runs st') i")
      (auto simp: log_ok_def run_change_def exec_bound_def note_bound_def active_status_def split: if_splits)
qed

lemma running_only_change:
  assumes "running_only st ph" "\<And>i. run_change uuid st st' i"
  shows "running_only st' ph"
  unfolding running_only_def
proof (intro allI impI, elim conjE)
  fix i r assume r: "jmap_get (sto_runs st') i = Some r" "rn_status r = Running"
  show "\<exists>rest. ph = Executing i rest"
  proof (cases "jmap_get (sto_runs st) i")
    case None
    then show ?thesis using assms(2) [of i] r by (simp add: run_change_def)
  next
    case (Some x)
    then have "rn_status x = Running" using assms(2) [of i] r by (simp add: run_change_def)
    then show ?thesis using assms(1) Some by (auto simp: running_only_def)
  qed
qed

lemma inv_change:
  assumes "sched_inv uuid s" "\<And>i. run_change uuid (sch_store s) st i" "store_ok uuid st"
  shows "sched_inv uuid (s\<lparr>sch_store := st\<rparr>)"
proof -
  have "running_only st (sch_phase s)"
    by (rule running_only_change [OF _ assms(2)]) (use assms(1) in \<open>simp add: sched_inv_def\<close>)
  moreover have "log_ok uuid st (sch_executed s) (map nt_run (sch_notes s)) i" for i
    by (rule log_ok_change [OF _ assms(2)]) (use assms(1) in \<open>simp_all add: sched_inv_def\<close>)
  ultimately show ?thesis using assms(3) by (simp add: sched_inv_def)
qed

text \<open>One run replaced by a later state of itself.\<close>

definition run_put :: "auto_def auto_store \<Rightarrow> auto_def auto_store \<Rightarrow> auto_run \<Rightarrow> auto_run \<Rightarrow> bool" where
  "run_put st st' r r' \<longleftrightarrow> jmap_get (sto_runs st) (rn_id r) = Some r \<and> rn_id r' = rn_id r \<and>
     (\<forall>i. jmap_get (sto_runs st') i = (if i = rn_id r then Some r' else jmap_get (sto_runs st) i)) \<and>
     sto_drawn st' = sto_drawn st \<and> sto_defs st' = sto_defs st"

lemma run_put_put: "jmap_get (sto_runs st) (rn_id r) = Some r \<Longrightarrow> rn_id r' = rn_id r \<Longrightarrow> run_put st (auto_save (put_run r' st)) r r'"
  by (simp add: run_put_def put_run_def jmap_get_set)

lemma run_put_other:
  assumes "run_put st st' r r'" "i \<noteq> rn_id r"
  shows "jmap_get (sto_runs st') i = jmap_get (sto_runs st) i" "dead uuid st' i = dead uuid st i"
  using assms by (simp_all add: run_put_def dead_def)

lemma run_put_log:
  assumes "run_put st st' r r'" "log_ok uuid st ex nt i"
    and "i = rn_id r \<Longrightarrow> count_list ex' i \<le> exec_bound (Some r') \<and> count_list nt' i \<le> note_bound (Some r')"
    and "i \<noteq> rn_id r \<Longrightarrow> count_list ex' i = count_list ex i \<and> count_list nt' i = count_list nt i"
  shows "log_ok uuid st' ex' nt' i"
proof (cases "i = rn_id r")
  case True
  then show ?thesis using assms(1,3) by (simp add: log_ok_def run_put_def)
next
  case False
  then show ?thesis using assms(2,4) run_put_other [OF assms(1) False]
    by (simp add: log_ok_def) (metis count_list_0_iff)
qed

lemma run_put_running: "running_only st ph \<Longrightarrow> run_put st st' r r' \<Longrightarrow> rn_status r' \<noteq> Running \<Longrightarrow> running_only st' ph"
  by (auto simp: running_only_def run_put_def split: if_splits)

text \<open>Beginning, finishing and deferring a run.\<close>

lemma begin_cases:
  assumes "store_ok uuid st"
  obtains (failed) e where "begin_run now i st = (Inl e, st)"
  | (begun) r r' st' where "begin_run now i st = (Inr r', st')" "run_put st st' r r'" "rn_id r = i"
      "rn_status r = Pending \<or> rn_status r = Waiting" "rn_status r' = Running" "rn_busy r' = rn_busy r"
proof (cases "required_run i st")
  case (Inl e)
  then show thesis using failed by (simp add: begin_run_def)
next
  case (Inr r)
  note r = required_run_ok [OF assms Inr]
  let ?r = "r\<lparr>rn_status := Running, rn_attempt := rn_attempt r + 1, rn_started := Some now, rn_error := None, rn_not_before := None\<rparr>"
  consider "rn_status r = Pending \<or> rn_status r = Waiting" "run_valid ?r"
    | "rn_status r = Pending \<or> rn_status r = Waiting" "\<not> run_valid ?r" | "\<not> (rn_status r = Pending \<or> rn_status r = Waiting)"
    by blast
  then show thesis
  proof cases
    case 1
    then have "begin_run now i st = (Inr ?r, auto_save (put_run ?r st))"
      by (auto simp: begin_run_def Inr store_parsed_def parse_with_def)
    moreover have "run_put st (auto_save (put_run ?r st)) r ?r" by (rule run_put_put) (use r in simp_all)
    ultimately show thesis using begun 1 r(2) by simp
  next
    case 2
    then have "begin_run now i st = (Inl ''ZodError'', st)"
      by (auto simp: begin_run_def Inr store_parsed_def parse_with_def)
    then show thesis by (rule failed)
  next
    case 3
    then show thesis using failed by (simp add: begin_run_def Inr)
  qed
qed

lemma finish_cases:
  assumes "store_ok uuid st"
  obtains (failed) e where "finish_run now i x st = (Inl e, st)"
      "\<And>r err. jmap_get (sto_runs st) i = Some r \<Longrightarrow> rn_status r = Running \<Longrightarrow> x \<noteq> Run_Failed err None"
  | (cancelled) r where "finish_run now i x st = (Inr r, st)" "rn_status r = Cancelled" "jmap_get (sto_runs st) i = Some r"
  | (finished) r r' st' where "finish_run now i x st = (Inr r', st')" "run_put st st' r r'" "rn_id r = i"
      "rn_status r = Running" "rn_status r' = Succeeded \<or> rn_status r' = Failed" "rn_busy r' = rn_busy r"
proof (cases "required_run i st")
  case (Inl e)
  then show thesis using failed by (auto simp: finish_run_def required_run_def split: option.splits)
next
  case (Inr r)
  note r = required_run_ok [OF assms Inr]
  let ?r = "(outcome_run x r)\<lparr>rn_finished := Some now\<rparr>"
  have x: "rn_id ?r = rn_id r" "rn_status ?r = Succeeded \<or> rn_status ?r = Failed" "rn_busy ?r = rn_busy r"
    by (cases x; simp)+
  consider "rn_status r = Cancelled" | "rn_status r \<noteq> Cancelled" "rn_status r \<noteq> Running"
    | "rn_status r = Running" "run_valid ?r" | "rn_status r = Running" "\<not> run_valid ?r"
    by blast
  then show thesis
  proof cases
    case 1
    then show thesis using cancelled r(4) by (simp add: finish_run_def Inr)
  next
    case 2
    show thesis
      by (rule failed [of "''automation_run_not_running''"]) (use 2 r(4) in \<open>auto simp: finish_run_def Inr\<close>)
  next
    case 3
    then have "finish_run now i x st = (Inr ?r, auto_save (put_run ?r st))"
      by (simp add: finish_run_def Inr store_parsed_def parse_with_def)
    moreover have "run_put st (auto_save (put_run ?r st)) r ?r" by (rule run_put_put) (use r x in simp_all)
    ultimately show thesis using finished 3 r(2) x by blast
  next
    case 4
    have "x \<noteq> Run_Failed err None" for err
      using 4(2) r(1) by (auto simp: run_valid_def run_ok_def)
    then show thesis
      by (intro failed [of "''ZodError''"]) (use 4 in \<open>simp_all add: finish_run_def Inr store_parsed_def parse_with_def\<close>)
  qed
qed

lemma defer_cases:
  assumes "store_ok uuid st" "unsubmitted i st"
  obtains (failed) e where "defer_busy now i st = (Inl e, st)"
      "\<And>r. jmap_get (sto_runs st) i = Some r \<Longrightarrow> rn_status r \<noteq> Running"
  | (cancelled) r where "defer_busy now i st = (Inr r, st)" "rn_status r = Cancelled" "jmap_get (sto_runs st) i = Some r"
  | (waiting) r r' st' where "defer_busy now i st = (Inr r', st')" "run_put st st' r r'" "rn_id r = i"
      "rn_status r = Running" "rn_status r' = Waiting" "rn_busy r' = rn_busy r + 1"
  | (skipped) r r' st' where "defer_busy now i st = (Inr r', st')" "run_put st st' r r'" "rn_id r = i"
      "rn_status r = Running" "rn_status r' = Skipped_Busy" "rn_busy r' = rn_busy r"
proof (cases "required_run i st")
  case (Inl e)
  then show thesis using failed by (auto simp: defer_busy_def required_run_def split: option.splits)
next
  case (Inr r)
  note r = required_run_ok [OF assms(1) Inr]
  have free: "rn_submitted r = None" using assms(2) r(4) by (simp add: unsubmitted_def)
  consider "rn_status r = Cancelled" | "rn_status r \<noteq> Cancelled" "rn_status r \<noteq> Running" | "rn_status r = Running"
    by blast
  then show thesis
  proof cases
    case 1
    then show thesis using cancelled r(4) by (simp add: defer_busy_def Inr)
  next
    case 2
    show thesis
      by (rule failed [of "''automation_run_not_retryable''"]) (use 2 r(4) in \<open>auto simp: defer_busy_def Inr\<close>)
  next
    case 3
    show thesis
    proof (cases "busy_retries \<le> rn_busy r")
      case True
      then obtain r' where r': "defer_busy now i st = (Inr r', auto_save (put_run r' st))"
        "rn_id r' = rn_id r" "rn_status r' = Skipped_Busy" "rn_busy r' = rn_busy r"
        using 3 free by (simp add: defer_busy_def Inr Let_def)
      show thesis
        by (rule skipped [OF r'(1) run_put_put]) (use r r' 3 in simp_all)
    next
      case False
      then obtain r' where r': "defer_busy now i st = (Inr r', auto_save (put_run r' st))"
        "rn_id r' = rn_id r" "rn_status r' = Waiting" "rn_busy r' = rn_busy r + 1"
        using 3 free by (simp add: defer_busy_def Inr Let_def)
      show thesis
        by (rule waiting [OF r'(1) run_put_put]) (use r r' 3 in simp_all)
    qed
  qed
qed

text \<open>A tick between two executions: no run is running.\<close>

definition idle_inv :: "(nat \<Rightarrow> string) \<Rightarrow> scheduler \<Rightarrow> bool" where
  "idle_inv uuid s \<longleftrightarrow> sched_inv uuid (s\<lparr>sch_phase := Resting\<rparr>)"

lemma idle_inv_cong:
  "idle_inv uuid s \<Longrightarrow> sch_store s' = sch_store s \<Longrightarrow> sch_executed s' = sch_executed s \<Longrightarrow> sch_notes s' = sch_notes s \<Longrightarrow> idle_inv uuid s'"
  by (simp add: idle_inv_def sched_inv_def)

lemma idle_inv_rest: "idle_inv uuid s \<Longrightarrow> sched_inv uuid (s\<lparr>sch_phase := ph\<rparr>)"
  by (auto simp: idle_inv_def sched_inv_def running_only_def)

lemma inv_idle: "sched_inv uuid s \<Longrightarrow> (\<And>i rest. sch_phase s \<noteq> Executing i rest) \<Longrightarrow> idle_inv uuid s"
  by (auto simp: idle_inv_def sched_inv_def running_only_def)

lemma idle_change:
  assumes "idle_inv uuid s" "\<And>i. run_change uuid (sch_store s) st i" "store_ok uuid st"
  shows "idle_inv uuid (s\<lparr>sch_store := st\<rparr>)"
  using inv_change [of uuid "s\<lparr>sch_phase := Resting\<rparr>" st] assms by (simp add: idle_inv_def sched_inv_def)

lemma run_claimed_inv: "idle_inv uuid s \<Longrightarrow> sched_inv uuid (run_claimed now ps s)"
proof (induction now ps s rule: run_claimed.induct)
  case (2 now p ps s)
  show ?case
  proof (cases "sch_stopped s")
    case True
    then show ?thesis using idle_inv_rest [OF 2(2)] by simp
  next
    case False
    have ok: "store_ok uuid (sch_store s)" using 2(2) by (simp add: idle_inv_def sched_inv_def)
    from ok show ?thesis
    proof (cases rule: begin_cases [where now = now and i = "rn_id p"])
      case (failed e)
      then show ?thesis using False 2(1) [OF False failed [symmetric] refl] idle_inv_cong [OF 2(2)] by simp
    next
      case (begun r r' st')
      have "store_ok uuid st'" using begin_ok [OF ok, of now "rn_id p"] begun(1) by simp
      moreover have "running_only st' (Executing (rn_id r') ps)"
        using 2(2) begun(2) by (auto simp: idle_inv_def sched_inv_def running_only_def run_put_def split: if_splits)
      moreover have "log_ok uuid st' (sch_executed s @ [rn_id r']) (map nt_run (sch_notes s)) i" for i
      proof (rule run_put_log [OF begun(2)])
        show log: "log_ok uuid (sch_store s) (sch_executed s) (map nt_run (sch_notes s)) i"
          using 2(2) by (simp add: idle_inv_def sched_inv_def)
        show "i = rn_id r \<Longrightarrow> count_list (sch_executed s @ [rn_id r']) i \<le> exec_bound (Some r') \<and>
            count_list (map nt_run (sch_notes s)) i \<le> note_bound (Some r')"
          using log begun(2,4-6) by (auto simp: log_ok_def run_put_def exec_bound_def note_bound_def active_status_def)
        show "i \<noteq> rn_id r \<Longrightarrow> count_list (sch_executed s @ [rn_id r']) i = count_list (sch_executed s) i \<and>
            count_list (map nt_run (sch_notes s)) i = count_list (map nt_run (sch_notes s)) i"
          using begun(2) by (simp add: run_put_def)
      qed
      ultimately show ?thesis using False begun(1) by (simp add: sched_inv_def)
    qed
  qed
qed (simp add: idle_inv_rest)

lemma claim_change:
  assumes "uuid_ok uuid" "store_ok uuid st"
  shows "run_change uuid st (snd (claim_runnable cal now st)) i"
proof -
  have "run_change uuid st (snd (claim_due cal now (map snd (sto_defs st)) False st)) i"
    by (rule claim_due_change [OF assms stored_defs [OF assms(2)]])
  then show ?thesis
    by (cases "claim_due cal now (map snd (sto_defs st)) False st") (auto simp: claim_runnable_def Let_def split: sum.split)
qed

lemma acknowledge_change: "run_change uuid st (snd (acknowledge_interrupted j st)) i"
proof -
  have "run_change uuid st (st\<lparr>sto_reconciled := x\<rparr>) i" for x by (rule run_change_same) simp_all
  then show ?thesis by (auto simp: acknowledge_interrupted_def split: sum.split)
qed

lemma run_put_change:
  assumes "run_put st st' r r'" "rn_busy r' = rn_busy r"
    "rn_status r' = rn_status r \<or> (active_status (rn_status r) \<and> rn_status r' = Cancelled)"
  shows "run_change uuid st st' i"
proof (cases "i = rn_id r")
  case True
  then show ?thesis using assms by (auto simp: run_change_def run_put_def dead_def [of uuid st])
next
  case False
  then show ?thesis using assms(1) by (intro run_change_same) (simp_all add: run_put_def)
qed

lemma stored_put_change:
  assumes "required_run j st = Inr r" "store_ok uuid st" "rn_id r' = rn_id r" "rn_busy r' = rn_busy r"
    "rn_status r' = rn_status r \<or> (active_status (rn_status r) \<and> rn_status r' = Cancelled)"
  shows "run_change uuid st (auto_save (put_run r' st)) i" "run_change uuid st (snd (store_parsed r' st)) i"
proof -
  have "run_put st (auto_save (put_run r' st)) r r'"
    by (rule run_put_put) (use required_run_ok [OF assms(2,1)] assms(3) in simp_all)
  then show "run_change uuid st (auto_save (put_run r' st)) i" by (rule run_put_change [OF _ assms(4,5)])
  then show "run_change uuid st (snd (store_parsed r' st)) i" by (auto simp: store_parsed_def parse_with_def)
qed

lemma bind_change: "store_ok uuid st \<Longrightarrow> run_change uuid st (snd (bind_session j session st)) i"
  by (auto simp: bind_session_def split: sum.split intro!: stored_put_change(2))

lemma submitted_change: "store_ok uuid st \<Longrightarrow> run_change uuid st (snd (submitted now j turn st)) i"
  by (cases "required_run j st") (auto simp: submitted_def dest: stored_put_change(1) [of j st _ uuid "_\<lparr>rn_turn := _, rn_submitted := _\<rparr>"]
      simp del: run_change_frame(2))

lemma cancel_change: "store_ok uuid st \<Longrightarrow> run_change uuid st (snd (cancel_run now auto j st)) i"
  by (auto simp: cancel_run_def split: sum.split intro!: stored_put_change(2))

lemma outside_change:
  assumes "uuid_ok uuid" "store_ok uuid st" "outside_call ev"
  shows "run_change uuid st (auto_step uuid cal (now, ev) st) i"
  using assms(3) create_change [OF assms(1)] update_change delete_change [OF assms(2)] operation_change [OF assms(1)]
    run_now_change [OF assms(2,1)]
  by (cases ev) auto

lemma notify_simps [simp]:
  "sch_store (notify_terminal r s) = sch_store s" "sch_executed (notify_terminal r s) = sch_executed s"
  "sch_phase (notify_terminal r s) = sch_phase s"
  by (simp_all add: notify_terminal_def Let_def)

lemma notify_count:
  "count_list (map nt_run (sch_notes (notify_terminal r s))) i \<le>
     count_list (map nt_run (sch_notes s)) i + (if i = rn_id r \<and> rn_status r \<in> {Succeeded, Failed, Skipped_Busy} then 1 else 0)"
  "i \<noteq> rn_id r \<Longrightarrow> count_list (map nt_run (sch_notes (notify_terminal r s))) i = count_list (map nt_run (sch_notes s)) i"
  by (auto simp: notify_terminal_def Let_def)

text \<open>The executed run leaves the status running, whatever the runner answers.\<close>

lemma executed_inv:
  assumes "sched_inv uuid s" "run_put (sch_store s) st' r r'" "rn_status r = Running" "rn_status r' \<noteq> Running" "store_ok uuid st'"
    and "sch_phase s = Executing (rn_id r) rest" "exec_bound (Some r) \<le> exec_bound (Some r')"
    and "rn_status r' \<in> {Succeeded, Failed, Skipped_Busy, Waiting}"
  shows "idle_inv uuid (notify_terminal r' (s\<lparr>sch_store := st'\<rparr>))"
proof -
  have "jmap_get (sto_runs st') i = Some x \<longrightarrow> rn_status x \<noteq> Running" for i x
    using assms(1,2,4,6) by (auto simp: sched_inv_def running_only_def run_put_def split: if_splits)
  moreover have "log_ok uuid st' (sch_executed s) (map nt_run (sch_notes (notify_terminal r' (s\<lparr>sch_store := st'\<rparr>)))) i" for i
  proof (rule run_put_log [OF assms(2)])
    show log: "log_ok uuid (sch_store s) (sch_executed s) (map nt_run (sch_notes s)) i"
      using assms(1) by (simp add: sched_inv_def)
    have id: "rn_id r' = rn_id r" using assms(2) by (simp add: run_put_def)
    {
      assume i: "i = rn_id r"
      have r: "jmap_get (sto_runs (sch_store s)) i = Some r" using assms(2) i by (simp add: run_put_def)
      have "count_list (sch_executed s) i \<le> exec_bound (Some r')" using log r assms(7) by (simp add: log_ok_def)
      moreover have "count_list (map nt_run (sch_notes s)) i = 0"
        using log r assms(3) by (simp add: log_ok_def note_bound_def active_status_def)
      ultimately show "count_list (sch_executed s) i \<le> exec_bound (Some r') \<and>
          count_list (map nt_run (sch_notes (notify_terminal r' (s\<lparr>sch_store := st'\<rparr>)))) i \<le> note_bound (Some r')"
        using notify_count(1) [of r' "s\<lparr>sch_store := st'\<rparr>" i] assms(8)
        by (auto simp: note_bound_def active_status_def split: if_splits)
    }
    show "i \<noteq> rn_id r \<Longrightarrow> count_list (sch_executed s) i = count_list (sch_executed s) i \<and>
        count_list (map nt_run (sch_notes (notify_terminal r' (s\<lparr>sch_store := st'\<rparr>)))) i = count_list (map nt_run (sch_notes s)) i"
      using notify_count(2) [of i r' "s\<lparr>sch_store := st'\<rparr>"] id by simp
  qed
  ultimately show ?thesis using assms(5) by (simp add: idle_inv_def sched_inv_def running_only_def)
qed

lemma not_running_idle:
  assumes "sched_inv uuid s" "sch_phase s = Executing i rest"
    and "\<And>r. jmap_get (sto_runs (sch_store s)) i = Some r \<Longrightarrow> rn_status r \<noteq> Running"
  shows "idle_inv uuid s"
  using assms by (auto simp: idle_inv_def sched_inv_def running_only_def)

lemma cancelled_silent: "rn_status r = Cancelled \<Longrightarrow> notify_terminal r s = s"
  by (simp add: notify_terminal_def)

lemma store_failure_inv:
  assumes "sched_inv uuid s" "sch_phase s = Executing i rest"
  shows "idle_inv uuid (store_failure now i err s)"
proof -
  have ok: "store_ok uuid (sch_store s)" using assms(1) by (simp add: sched_inv_def)
  from ok show ?thesis
  proof (cases rule: finish_cases [where now = now and i = i and x = "Run_Failed err None"])
    case (failed e)
    then show ?thesis using not_running_idle [OF assms] by (auto simp: store_failure_def)
  next
    case (cancelled r)
    then show ?thesis using not_running_idle [OF assms] by (simp add: store_failure_def cancelled_silent)
  next
    case (finished r r' st')
    have "store_ok uuid st'" using finish_ok [OF ok, of now i "Run_Failed err None"] finished(1) by simp
    then have "idle_inv uuid (notify_terminal r' (s\<lparr>sch_store := st'\<rparr>))"
      using finished assms by (intro executed_inv [OF assms(1), of st' r]) (auto simp: exec_bound_def)
    then show ?thesis by (simp add: store_failure_def finished(1))
  qed
qed

lemma store_execution_inv:
  assumes "sched_inv uuid s" "sch_phase s = Executing i rest" "x = Exec_Busy \<Longrightarrow> unsubmitted i (sch_store s)"
  shows "idle_inv uuid (store_execution now i x s)"
proof (cases x)
  case (Exec_Done session result path)
  have ok: "store_ok uuid (sch_store s)" using assms(1) by (simp add: sched_inv_def)
  from ok show ?thesis
  proof (cases rule: finish_cases [where now = now and i = i and x = "Run_Succeeded session result path"])
    case (failed e)
    then show ?thesis using store_failure_inv [OF assms(1,2)] by (simp add: store_execution_def Exec_Done)
  next
    case (cancelled r)
    then show ?thesis using not_running_idle [OF assms(1,2)] by (simp add: store_execution_def Exec_Done cancelled_silent)
  next
    case (finished r r' st')
    have "store_ok uuid st'" using finish_ok [OF ok, of now i "Run_Succeeded session result path"] finished(1) by simp
    then have "idle_inv uuid (notify_terminal r' (s\<lparr>sch_store := st'\<rparr>))"
      using finished assms by (intro executed_inv [OF assms(1), of st' r]) (auto simp: exec_bound_def)
    then show ?thesis by (simp add: store_execution_def Exec_Done finished(1))
  qed
next
  case Exec_Busy
  have ok: "store_ok uuid (sch_store s)" using assms(1) by (simp add: sched_inv_def)
  from ok assms(3) [OF Exec_Busy] show ?thesis
  proof (cases rule: defer_cases [where now = now])
    case (failed e)
    then show ?thesis using not_running_idle [OF assms(1,2)] by (auto simp: store_execution_def Exec_Busy)
  next
    case (cancelled r)
    then show ?thesis using not_running_idle [OF assms(1,2)] by (simp add: store_execution_def Exec_Busy cancelled_silent)
  next
    case (waiting r r' st')
    have "store_ok uuid st'" using defer_ok [OF ok, of now i] waiting(1) by simp
    then have "idle_inv uuid (notify_terminal r' (s\<lparr>sch_store := st'\<rparr>))"
      using waiting assms by (intro executed_inv [OF assms(1), of st' r]) (auto simp: exec_bound_def)
    then show ?thesis by (simp add: store_execution_def Exec_Busy waiting(1))
  next
    case (skipped r r' st')
    have "store_ok uuid st'" using defer_ok [OF ok, of now i] skipped(1) by simp
    then have "idle_inv uuid (notify_terminal r' (s\<lparr>sch_store := st'\<rparr>))"
      using skipped assms by (intro executed_inv [OF assms(1), of st' r]) (auto simp: exec_bound_def)
    then show ?thesis by (simp add: store_execution_def Exec_Busy skipped(1))
  qed
next
  case (Exec_Failed err)
  then show ?thesis using store_failure_inv [OF assms(1,2)] by (simp add: store_execution_def)
qed

lemma claim_and_run_inv:
  assumes "uuid_ok uuid" "idle_inv uuid s"
  shows "sched_inv uuid (claim_and_run cal now s)"
proof -
  have ok: "store_ok uuid (sch_store s)" using assms(2) by (simp add: idle_inv_def sched_inv_def)
  have idle: "idle_inv uuid (s\<lparr>sch_store := snd (claim_runnable cal now (sch_store s))\<rparr>)"
    by (rule idle_change [OF assms(2) claim_change [OF assms(1) ok] claim_ok [OF ok]])
  have sum: "x = Inl (projl x) \<or> x = Inr (projr x)" for x :: "string + auto_run list" by (cases x) auto
  show ?thesis
    using idle idle_inv_rest [OF assms(2)] idle_inv_rest [OF idle] run_claimed_inv
    by (cases "claim_runnable cal now (sch_store s)"; cases "fst (claim_runnable cal now (sch_store s))")
      (simp_all add: claim_and_run_def)
qed

lemma recover_next_inv:
  assumes "uuid_ok uuid" "idle_inv uuid s"
  shows "sched_inv uuid (recover_next cal now requests s)"
proof (cases requests)
  case Nil
  have "idle_inv uuid (s\<lparr>sch_recovered := True\<rparr>)" by (rule idle_inv_cong [OF assms(2)]) simp_all
  then show ?thesis using Nil claim_and_run_inv [OF assms(1)] by (simp add: recover_next_def)
next
  case (Cons q rest)
  obtain i d where q: "q = (i, d)" by (cases q)
  have "idle_inv uuid (s\<lparr>sch_reconciled := sch_reconciled s @ [i]\<rparr>)" by (rule idle_inv_cong [OF assms(2)]) simp_all
  from idle_inv_rest [OF this, of "Recovering i rest"] idle_inv_rest [OF assms(2), of Resting] show ?thesis
    by (auto simp: recover_next_def Cons q sched_inv_def)
qed

lemma recovery_reply_inv:
  assumes "uuid_ok uuid" "sched_inv uuid s"
  shows "sched_inv uuid (recovery_reply cal now answer s)"
proof (cases "sch_phase s")
  case (Recovering i rest)
  have idle: "idle_inv uuid s" by (rule inv_idle [OF assms(2)]) (simp add: Recovering)
  have ok: "store_ok uuid (sch_store s)" using assms(2) by (simp add: sched_inv_def)
  have idle': "idle_inv uuid (s\<lparr>sch_store := snd (acknowledge_interrupted i (sch_store s))\<rparr>)"
    by (rule idle_change [OF idle acknowledge_change acknowledge_ok [OF ok]])
  show ?thesis
    using idle_inv_rest [OF idle] idle_inv_rest [OF idle'] recover_next_inv [OF assms(1) idle']
    by (cases "acknowledge_interrupted i (sch_store s)"; cases "fst (acknowledge_interrupted i (sch_store s))")
      (auto simp: recovery_reply_def Recovering split: sum.split)
qed (use assms(2) in \<open>simp_all add: recovery_reply_def\<close>)

lemma sched_step_inv:
  assumes "sched_step uuid cal s s'" "uuid_ok uuid" "sched_inv uuid s"
  shows "sched_inv uuid s'"
  using assms(1)
proof cases
  have ok: "store_ok uuid (sch_store s)" using assms(3) by (simp add: sched_inv_def)
  note change = inv_change [OF assms(3)]
  {
    case (Step_Tick now)
    show ?thesis
    proof (cases "sch_stopped s \<or> sch_phase s \<noteq> Resting")
      case True
      then show ?thesis using assms(3) Step_Tick by (auto simp: tick_def)
    next
      case False
      have "idle_inv uuid s" by (rule inv_idle [OF assms(3)]) (use False in simp)
      then show ?thesis using False Step_Tick claim_and_run_inv [OF assms(2)] recover_next_inv [OF assms(2)]
        by (simp add: tick_def)
    qed
  next
    case (Step_Recovered now answer)
    then show ?thesis using recovery_reply_inv [OF assms(2,3)] by simp
  next
    case (Step_Executed x now)
    show ?thesis
    proof (cases "sch_phase s")
      case (Executing i rest)
      have "idle_inv uuid (store_execution now i x s)"
        by (rule store_execution_inv [OF assms(3) Executing]) (use Step_Executed Executing in simp)
      then show ?thesis using Step_Executed(1) run_claimed_inv by (simp add: execution_reply_def Executing)
    qed (use Step_Executed assms(3) in \<open>simp_all add: execution_reply_def\<close>)
  next
    case (Step_Session i rest session)
    then show ?thesis using change [OF bind_change [OF ok] bind_ok [OF ok]] by simp
  next
    case (Step_Submitted i rest now turn)
    then show ?thesis using change [OF submitted_change [OF ok] submitted_ok [OF ok]] by simp
  next
    case (Step_Cancel now auto i)
    have "sched_inv uuid (s\<lparr>sch_store := snd (cancel_run now auto i (sch_store s))\<rparr>)"
      by (rule change [OF cancel_change [OF ok] cancel_ok [OF ok]])
    then show ?thesis using Step_Cancel
      by (cases "cancel_run now auto i (sch_store s)") (auto simp: scheduler_cancel_def sched_inv_def split: sum.split)
  next
    case Step_Stop
    then show ?thesis using assms(3) by (simp add: scheduler_stop_def sched_inv_def)
  next
    case (Step_Outside ev now)
    then show ?thesis using change [OF outside_change [OF assms(2) ok] auto_step_ok [OF ok]] by simp
  }
qed

lemma restarted_not_running:
  assumes "open_store now n (sto_disk st) = Inr s'" "store_ok uuid st" "jmap_get (sto_runs s') i = Some r"
  shows "rn_status r \<noteq> Running"
proof (cases "sto_disk st")
  case None
  then show ?thesis using assms(1,3) by (auto simp: open_store_def empty_store_def)
next
  case (Some d)
  then obtain runs where runs: "doc_runs d = map snd runs" "keyed rn_id runs"
    using assms(2) by (auto simp: store_ok_def disk_ok_def document_ok_def maps_ok_def)
  have "sto_runs s' = map (map_prod id (recover_run now)) runs"
    using assms(1) Some keyed_fold [OF runs(2), of "recover_run now"]
    by (auto simp: open_store_def Let_def runs(1) split: if_splits)
  then obtain x where "r = recover_run now x" using assms(3) by (auto simp: map_of_map_values)
  then show ?thesis by (simp add: recover_run_def)
qed

lemma sched_reach_inv:
  assumes "uuid_ok uuid"
  shows "sched_reach uuid cal s \<Longrightarrow> sched_inv uuid s"
proof (induction rule: sched_reach.induct)
  case (Reach_Start now es)
  let ?h = "auto_history_of uuid cal es"
  have disk: "disk_ok uuid (sto_drawn ?h) (sto_disk ?h)" using history_ok [of uuid cal es] by (simp add: store_ok_def)
  obtain s' where s': "open_store now (sto_drawn ?h) (sto_disk ?h) = Inr s'" "store_ok uuid s'"
    using open_ok [OF disk] by blast
  then have "running_only s' Resting"
    using restarted_not_running [OF s'(1) history_ok] by (auto simp: running_only_def)
  with s' show ?case
    by (simp add: initial_scheduler_def sched_inv_def log_ok_def)
qed (rule sched_step_inv [OF _ assms])


text \<open>C20. Executions and notifications are bounded: while the process lives a run is given to the runner at most four
times, the first time and three retries of a busy session, and at most one notification is published
for it, also when its task is deleted and whatever ids are used later.\<close>

theorem executions_bounded:
  assumes "uuid_ok uuid" "sched_reach uuid cal s"
  shows "count_list (sch_executed s) i \<le> 4 \<and> count_list (map nt_run (sch_notes s)) i \<le> 1"
proof -
  have inv: "sched_inv uuid s" by (rule sched_reach_inv [OF assms])
  have "exec_bound (jmap_get (sto_runs (sch_store s)) i) \<le> 4"
    using inv stored_busy [of uuid "sch_store s" i] by (auto simp: exec_bound_def busy_retries_def sched_inv_def split: option.split)
  moreover have "note_bound x \<le> 1" for x by (simp add: note_bound_def split: option.split)
  ultimately show ?thesis using inv unfolding sched_inv_def log_ok_def by (meson le_trans)
qed

text \<open>A first process in which a task is created, run by hand and executed.\<close>

definition first_process :: scheduler where
  "first_process = initial_scheduler (auto_step plain_uuid plain_calendar (0, Do_Restart) (auto_history_of plain_uuid plain_calendar []))"

definition with_run :: scheduler where
  "with_run = (let s = first_process\<lparr>sch_store := auto_step plain_uuid plain_calendar (0, Do_Create (plain_input (S_Interval 5))) (sch_store first_process)\<rparr>
     in s\<lparr>sch_store := auto_step plain_uuid plain_calendar (1, Do_Run ''automation-u0'') (sch_store s)\<rparr>)"

lemma with_run_reached: "sched_reach plain_uuid plain_calendar with_run"
  unfolding with_run_def Let_def first_process_def
  by (rule Reach_Step [OF Reach_Step [OF Reach_Start Step_Outside] Step_Outside]) simp_all

lemma with_run_ticks: "sched_reach plain_uuid plain_calendar (tick plain_calendar 2 with_run)"
  by (rule Reach_Step [OF with_run_reached Step_Tick])

lemma with_run_value:
  "map_option rn_status (jmap_get (sto_runs (sch_store (tick plain_calendar 2 with_run))) ''automation-run-u1'') = Some Running"
  "sch_executed (tick plain_calendar 2 with_run) = [''automation-run-u1'']"
  by (simp_all add: with_run_def first_process_def initial_scheduler_def open_store_def tick_def recover_next_def
      interrupted_executions_def interrupted_def claim_and_run_def store_steps)


theorem executions_bounded_witness:
  "count_list [''automation-run-u1''] ''automation-run-u1'' \<le> 4 \<and>
   count_list (map nt_run (sch_notes (tick plain_calendar 2 with_run))) ''automation-run-u1'' \<le> 1"
  using executions_bounded [OF plain_uuid_ok with_run_ticks, of "''automation-run-u1''"] unfolding with_run_value(2) .

end
