(* ===== verification/Quota_Settlement.thy ===== *)
theory Quota_Settlement
  imports Prelude
begin

text \<open>
  Paying for the runs of scheduled tasks: the journal \<open>PersonalQuotaSettlements\<close>
  (\<^verbatim>\<open>harness-bundle/src/quota-settlement.ts\<close>) and \<open>QuotaAutomationRunner\<close>
  (\<^verbatim>\<open>harness-bundle/src/quota-runner.ts\<close>), with the journal given.

  A run reserves its estimated units with the platform, executes, and settles the units used. Every
  request may be lost, its answer may be lost, and it may arrive late; the process may end at any time.
  A settlement is journaled on the disk before it is sent and taken out when it is answered.

  The model follows many runs at once, each by its id: \<open>units i\<close> is \<open>estimatedAutomationUnits\<close> of the run's
  input, which a run keeps in its snapshot, and \<open>acp i\<close> says whether its engine is ACP. \<open>qt_books\<close> is what
  the platform holds, \<open>qt_settles\<close> logs the settle requests sent, \<open>qt_reserves\<close> the reserve requests.
  A write of the journal may fail; the flag \<open>w\<close> of a step says whether it works.
\<close>

section \<open>The journal\<close>

datatype billing = Reserved | Settled nat

datatype settle_stage = Queued | Sent_Out

datatype run_at =
    Asking_Model bool
  | Reserving bool
  | At_Engine bool
  | Settling
  | Reconciling

record quota_state =
  qt_journal :: "(string \<times> nat) list"
  qt_disk :: "(string \<times> nat) list"
  qt_settling :: "(string \<times> nat \<times> settle_stage) list"
  qt_runs :: "(string \<times> run_at) list"
  qt_books :: "(string \<times> billing) list"
  qt_reserves :: "string list"
  qt_settles :: "(string \<times> nat) list"
  qt_started :: "string list"
  qt_cancelled :: "string list"
  qt_succeeded :: "string list"

definition empty_quota :: quota_state where
  "empty_quota = \<lparr>qt_journal = [], qt_disk = [], qt_settling = [], qt_runs = [], qt_books = [], qt_reserves = [],
     qt_settles = [], qt_started = [], qt_cancelled = [], qt_succeeded = []\<rparr>"

text \<open>\<open>estimatedAutomationUnits\<close> of an input of so many bytes.\<close>

definition estimated_units :: "nat \<Rightarrow> nat" where
  "estimated_units bytes = max 1 ((bytes + 3) div 4 + 1024)"

definition journal_track :: "string \<Rightarrow> nat \<Rightarrow> bool \<Rightarrow> quota_state \<Rightarrow> bool \<times> quota_state" where
  "journal_track i n w s =
     (if jmap_get (qt_journal s) i \<noteq> None then (True, s)
      else if \<not> w then (False, s)
      else (True, s\<lparr>qt_journal := jmap_set i n (qt_journal s), qt_disk := jmap_set i n (qt_journal s)\<rparr>))"

definition journal_discard :: "string \<Rightarrow> bool \<Rightarrow> quota_state \<Rightarrow> quota_state" where
  "journal_discard i w s =
     (if jmap_get (qt_journal s) i = None \<or> \<not> w then s
      else s\<lparr>qt_journal := jmap_delete i (qt_journal s), qt_disk := jmap_delete i (qt_journal s)\<rparr>)"

text \<open>\<open>settle\<close>: a settlement under way is shared; otherwise the amount is journaled and the request queued.\<close>

definition settle :: "string \<Rightarrow> nat \<Rightarrow> bool \<Rightarrow> quota_state \<Rightarrow> bool \<times> quota_state" where
  "settle i n w s =
     (if jmap_get (qt_settling s) i \<noteq> None then (True, s)
      else case journal_track i n w s of
        (False, s1) \<Rightarrow> (False, s1)
      | (True, s1) \<Rightarrow> (True, s1\<lparr>qt_settling := jmap_set i (the (jmap_get (qt_journal s1) i), Queued) (qt_settling s1)\<rparr>))"

text \<open>A settlement ends, and with it the run that waits for it.\<close>

definition settle_end :: "string \<Rightarrow> quota_state \<Rightarrow> quota_state" where
  "settle_end i s =
     s\<lparr>qt_settling := jmap_delete i (qt_settling s),
       qt_runs := (if jmap_get (qt_runs s) i = Some Settling then jmap_delete i (qt_runs s) else qt_runs s)\<rparr>"

definition settle_dequeue :: "string \<Rightarrow> quota_state \<Rightarrow> quota_state" where
  "settle_dequeue i s =
     (case jmap_get (qt_settling s) i of
        Some (n, Queued) \<Rightarrow>
          (if jmap_get (qt_journal s) i = None then settle_end i s
           else s\<lparr>qt_settling := jmap_set i (n, Sent_Out) (qt_settling s), qt_settles := qt_settles s @ [(i, n)]\<rparr>)
      | _ \<Rightarrow> s)"

definition settle_answer :: "string \<Rightarrow> bool \<Rightarrow> bool \<Rightarrow> quota_state \<Rightarrow> quota_state" where
  "settle_answer i ok w s =
     (case jmap_get (qt_settling s) i of
        Some (n, Sent_Out) \<Rightarrow> settle_end i (if ok then journal_discard i w s else s)
      | _ \<Rightarrow> s)"

text \<open>One entry of a recovery round.\<close>

definition recover_entry :: "string \<Rightarrow> bool \<Rightarrow> quota_state \<Rightarrow> quota_state" where
  "recover_entry i w s =
     (case jmap_get (qt_journal s) i of None \<Rightarrow> s | Some n \<Rightarrow> snd (settle i n w s))"

section \<open>The runner\<close>

definition run_end :: "string \<Rightarrow> quota_state \<Rightarrow> quota_state" where
  "run_end i s = s\<lparr>qt_runs := jmap_delete i (qt_runs s)\<rparr>"

definition run_to :: "string \<Rightarrow> run_at \<Rightarrow> quota_state \<Rightarrow> quota_state" where
  "run_to i p s = s\<lparr>qt_runs := jmap_set i p (qt_runs s)\<rparr>"

definition send_reserve :: "string \<Rightarrow> quota_state \<Rightarrow> quota_state" where
  "send_reserve i s = s\<lparr>qt_reserves := qt_reserves s @ [i]\<rparr>"

text \<open>\<open>#settle\<close> of the runner, awaited.\<close>

definition run_settle :: "string \<Rightarrow> nat \<Rightarrow> bool \<Rightarrow> quota_state \<Rightarrow> quota_state" where
  "run_settle i n w s =
     (case settle i n w s of
        (True, s1) \<Rightarrow> run_to i Settling s1
      | (False, s1) \<Rightarrow> run_end i s1)"

definition execute_start :: "bool \<Rightarrow> string \<Rightarrow> quota_state \<Rightarrow> quota_state" where
  "execute_start acp i s =
     (let s1 = s\<lparr>qt_started := qt_started s @ [i]\<rparr>
      in if acp then run_to i (Asking_Model False) s1 else run_to i (Reserving False) (send_reserve i s1))"

definition model_answer :: "bool \<Rightarrow> string \<Rightarrow> quota_state \<Rightarrow> quota_state" where
  "model_answer ok i s =
     (case jmap_get (qt_runs s) i of
        Some (Asking_Model cancelled) \<Rightarrow>
          (if \<not> ok \<or> cancelled then run_end i s else run_to i (Reserving cancelled) (send_reserve i s))
      | _ \<Rightarrow> s)"

datatype reserve_answer = Accepted billing | Rejected | No_Answer

definition reserve_reply :: "nat \<Rightarrow> reserve_answer \<Rightarrow> bool \<Rightarrow> string \<Rightarrow> quota_state \<Rightarrow> quota_state" where
  "reserve_reply units a w i s =
     (case jmap_get (qt_runs s) i of
        Some (Reserving cancelled) \<Rightarrow>
          (case a of
             Accepted b \<Rightarrow> (if cancelled then run_settle i 0 w s else run_to i (At_Engine False) s)
           | Rejected \<Rightarrow> run_end i (if cancelled then journal_discard i w s else s)
           | No_Answer \<Rightarrow> run_end i s)
      | Some Reconciling \<Rightarrow>
          (case a of
             Accepted Reserved \<Rightarrow> run_settle i units w s
           | _ \<Rightarrow> run_end i s)
      | _ \<Rightarrow> s)"

definition engine_submitted :: "string \<Rightarrow> quota_state \<Rightarrow> quota_state" where
  "engine_submitted i s =
     (case jmap_get (qt_runs s) i of Some (At_Engine x) \<Rightarrow> run_to i (At_Engine True) s | _ \<Rightarrow> s)"

definition engine_answer :: "bool \<Rightarrow> nat \<Rightarrow> bool \<Rightarrow> bool \<Rightarrow> string \<Rightarrow> quota_state \<Rightarrow> quota_state" where
  "engine_answer acp units ok w i s =
     (case jmap_get (qt_runs s) i of
        Some (At_Engine sub) \<Rightarrow>
          (if ok then run_settle i units w (s\<lparr>qt_succeeded := qt_succeeded s @ [i]\<rparr>)
           else run_settle i (if acp \<and> sub then units else 0) w s)
      | _ \<Rightarrow> s)"

definition cancel_execution :: "bool \<Rightarrow> string \<Rightarrow> quota_state \<Rightarrow> quota_state" where
  "cancel_execution w i s =
     (let s1 = s\<lparr>qt_cancelled := qt_cancelled s @ [i]\<rparr>
      in case jmap_get (qt_runs s) i of
           Some (Asking_Model c) \<Rightarrow> run_to i (Asking_Model True) (snd (journal_track i 0 w s1))
         | Some (Reserving c) \<Rightarrow> run_to i (Reserving True) (snd (journal_track i 0 w s1))
         | _ \<Rightarrow> s1)"

text \<open>A run the last process left: the journaled amount, or the whole reservation unless it is settled.\<close>

definition reconcile_start :: "bool \<Rightarrow> string \<Rightarrow> quota_state \<Rightarrow> quota_state" where
  "reconcile_start w i s =
     (case jmap_get (qt_journal s) i of
        Some n \<Rightarrow> run_settle i n w s
      | None \<Rightarrow> run_to i Reconciling (send_reserve i s))"

definition process_restart :: "quota_state \<Rightarrow> quota_state" where
  "process_restart s = s\<lparr>qt_journal := qt_disk s, qt_settling := [], qt_runs := []\<rparr>"

section \<open>The platform and the histories\<close>

text \<open>
  The platform holds at most one reservation for each run id. A reserve request it has received may be
  booked at any time; a reserve request of a run it already knows answers with what is booked. A settle
  request closes an open reservation, answers well when the run is settled with the same amount, and with an
  error otherwise. A request once sent may still arrive long after its sender gave up.
\<close>

definition platform_reserves :: "string \<Rightarrow> quota_state \<Rightarrow> quota_state" where
  "platform_reserves i s =
     (if i \<in> set (qt_reserves s) \<and> jmap_get (qt_books s) i = None
      then s\<lparr>qt_books := jmap_set i Reserved (qt_books s)\<rparr> else s)"

definition platform_settles :: "string \<Rightarrow> nat \<Rightarrow> quota_state \<Rightarrow> quota_state" where
  "platform_settles i n s =
     (if (i, n) \<in> set (qt_settles s) \<and> jmap_get (qt_books s) i = Some Reserved
      then s\<lparr>qt_books := jmap_set i (Settled n) (qt_books s)\<rparr> else s)"

definition settle_answerable :: "string \<Rightarrow> bool \<Rightarrow> quota_state \<Rightarrow> bool" where
  "settle_answerable i ok s \<longleftrightarrow>
     (\<forall>n g. jmap_get (qt_settling s) i = Some (n, g) \<longrightarrow> ok \<longrightarrow> jmap_get (qt_books s) i = Some (Settled n))"

definition reserve_answerable :: "string \<Rightarrow> reserve_answer \<Rightarrow> quota_state \<Rightarrow> bool" where
  "reserve_answerable i a s \<longleftrightarrow>
     (case a of Accepted b \<Rightarrow> jmap_get (qt_books s) i = Some b
      | Rejected \<Rightarrow> jmap_get (qt_books s) i = None | No_Answer \<Rightarrow> True)"

text \<open>
  The scheduler starts a run once; after a restart it reconciles a run that was started, has no final
  status and was not cancelled.
\<close>

inductive quota_step :: "(string \<Rightarrow> nat) \<Rightarrow> (string \<Rightarrow> bool) \<Rightarrow> quota_state \<Rightarrow> quota_state \<Rightarrow> bool"
  for units acp where
  Qt_Start: "i \<notin> set (qt_started s) \<Longrightarrow> quota_step units acp s (execute_start (acp i) i s)"
| Qt_Model: "quota_step units acp s (model_answer ok i s)"
| Qt_Reserve_Reply: "reserve_answerable i a s \<Longrightarrow> quota_step units acp s (reserve_reply (units i) a w i s)"
| Qt_Submitted: "quota_step units acp s (engine_submitted i s)"
| Qt_Engine: "quota_step units acp s (engine_answer (acp i) (units i) ok w i s)"
| Qt_Dequeue: "quota_step units acp s (settle_dequeue i s)"
| Qt_Settle_Answer: "settle_answerable i ok s \<Longrightarrow> quota_step units acp s (settle_answer i ok w s)"
| Qt_Recover: "quota_step units acp s (recover_entry i w s)"
| Qt_Cancel: "quota_step units acp s (cancel_execution w i s)"
| Qt_Reconcile: "i \<in> set (qt_started s) \<Longrightarrow> i \<notin> set (qt_cancelled s) \<Longrightarrow> jmap_get (qt_runs s) i = None \<Longrightarrow>
    quota_step units acp s (reconcile_start w i s)"
| Qt_Platform_Reserves: "quota_step units acp s (platform_reserves i s)"
| Qt_Platform_Settles: "quota_step units acp s (platform_settles i n s)"
| Qt_Restart: "quota_step units acp s (process_restart s)"

inductive quota_reach :: "(string \<Rightarrow> nat) \<Rightarrow> (string \<Rightarrow> bool) \<Rightarrow> quota_state \<Rightarrow> bool" for units acp where
  Quota_Empty: "quota_reach units acp empty_quota"
| Quota_Step: "quota_reach units acp s \<Longrightarrow> quota_step units acp s s' \<Longrightarrow> quota_reach units acp s'"

section \<open>What holds of each run\<close>

text \<open>
  Every operation but a restart touches one run, so the invariant is a predicate on the part of the state
  that belongs to a run.
\<close>

record run_view =
  vw_journal :: "nat option"
  vw_settling :: "(nat \<times> settle_stage) option"
  vw_run :: "run_at option"
  vw_books :: "billing option"
  vw_reserves :: bool
  vw_settles :: "nat set"
  vw_started :: bool
  vw_cancelled :: bool
  vw_succeeded :: bool

definition view_of :: "string \<Rightarrow> quota_state \<Rightarrow> run_view" where
  "view_of i s = \<lparr>vw_journal = jmap_get (qt_journal s) i, vw_settling = jmap_get (qt_settling s) i,
     vw_run = jmap_get (qt_runs s) i, vw_books = jmap_get (qt_books s) i, vw_reserves = (i \<in> set (qt_reserves s)),
     vw_settles = {n. (i, n) \<in> set (qt_settles s)}, vw_started = (i \<in> set (qt_started s)),
     vw_cancelled = (i \<in> set (qt_cancelled s)), vw_succeeded = (i \<in> set (qt_succeeded s))\<rparr>"

definition amounts :: "run_view \<Rightarrow> nat set" where
  "amounts v = set_option (vw_journal v) \<union> fst ` set_option (vw_settling v) \<union> vw_settles v \<union>
     {n. vw_books v = Some (Settled n)}"

definition closed :: "run_view \<Rightarrow> bool" where
  "closed v \<longleftrightarrow> amounts v = {} \<or> (\<exists>n. vw_books v = Some (Settled n))"

definition place_ok :: "run_view \<Rightarrow> bool" where
  "place_ok v \<longleftrightarrow>
     (\<forall>c. vw_run v = Some (Asking_Model c) \<longrightarrow>
        amounts v \<subseteq> {0} \<and> (\<not> c \<longrightarrow> amounts v = {}) \<and> \<not> vw_reserves v \<and> (c \<longrightarrow> vw_cancelled v)) \<and>
     (\<forall>c. vw_run v = Some (Reserving c) \<longrightarrow>
        amounts v \<subseteq> {0} \<and> (\<not> c \<longrightarrow> amounts v = {}) \<and> vw_reserves v \<and> (c \<longrightarrow> vw_cancelled v)) \<and>
     (\<forall>b. vw_run v = Some (At_Engine b) \<longrightarrow> amounts v = {} \<and> vw_reserves v) \<and>
     (vw_run v = Some Reconciling \<longrightarrow> vw_journal v = None \<and> closed v \<and> vw_reserves v)"

definition before_engine :: "run_view \<Rightarrow> bool" where
  "before_engine v \<longleftrightarrow>
     (\<exists>c. vw_run v = Some (Asking_Model c) \<or> vw_run v = Some (Reserving c) \<or> vw_run v = Some (At_Engine c))"

definition run_ok :: "nat \<Rightarrow> run_view \<Rightarrow> bool" where
  "run_ok u v \<longleftrightarrow> (amounts v \<subseteq> {0} \<or> amounts v \<subseteq> {u}) \<and> place_ok v \<and>
     (vw_succeeded v \<longrightarrow> amounts v \<subseteq> {u} \<and> \<not> before_engine v \<and> vw_started v) \<and>
     (\<not> vw_started v \<longrightarrow> amounts v = {} \<and> \<not> vw_reserves v \<and> vw_run v = None) \<and>
     (\<not> vw_reserves v \<longrightarrow> vw_books v = None) \<and>
     (\<not> vw_cancelled v \<and> vw_journal v = None \<longrightarrow> closed v)"

lemmas quota_ops = journal_track_def journal_discard_def settle_def settle_end_def settle_dequeue_def
  settle_answer_def recover_entry_def run_end_def run_to_def send_reserve_def run_settle_def execute_start_def
  model_answer_def reserve_reply_def engine_submitted_def engine_answer_def cancel_execution_def
  reconcile_start_def platform_reserves_def platform_settles_def

lemmas quota_splits = option.splits prod.splits bool.splits settle_stage.splits run_at.splits
  reserve_answer.splits billing.splits

text \<open>An operation leaves the other runs alone.\<close>

lemma journal_ops_frame:
  assumes "j \<noteq> i"
  shows "view_of j (snd (journal_track i n w s)) = view_of j s"
    and "view_of j (journal_discard i w s) = view_of j s"
    and "view_of j (snd (settle i n w s)) = view_of j s"
    and "view_of j (settle_end i s) = view_of j s"
    and "view_of j (settle_dequeue i s) = view_of j s"
    and "view_of j (settle_answer i ok w s) = view_of j s"
    and "view_of j (recover_entry i w s) = view_of j s"
  using assms by (simp_all add: quota_ops view_of_def jmap_simps split: option.split prod.split bool.split settle_stage.split)

lemma run_moves_frame:
  assumes "j \<noteq> i"
  shows "view_of j (run_to i p s) = view_of j s" and "view_of j (run_end i s) = view_of j s"
    and "view_of j (send_reserve i s) = view_of j s"
  using assms by (simp_all add: run_to_def run_end_def send_reserve_def view_of_def jmap_simps)

lemma run_settle_frame:
  assumes "j \<noteq> i"
  shows "view_of j (run_settle i n w s) = view_of j s"
  using journal_ops_frame(3) [OF assms, of n w s]
  by (cases "settle i n w s"; cases "fst (settle i n w s)") (simp_all add: run_settle_def run_moves_frame [OF assms])

lemma log_frame:
  assumes "j \<noteq> i"
  shows "view_of j (s\<lparr>qt_started := qt_started s @ [i]\<rparr>) = view_of j s"
    and "view_of j (s\<lparr>qt_cancelled := qt_cancelled s @ [i]\<rparr>) = view_of j s"
    and "view_of j (s\<lparr>qt_succeeded := qt_succeeded s @ [i]\<rparr>) = view_of j s"
  using assms by (simp_all add: view_of_def)

lemmas parts_frame = journal_ops_frame run_moves_frame run_settle_frame log_frame

lemma quota_frame:
  assumes "j \<noteq> i"
  shows "view_of j (execute_start acp i s) = view_of j s"
    and "view_of j (model_answer ok i s) = view_of j s"
    and "view_of j (reserve_reply u a w i s) = view_of j s"
    and "view_of j (engine_submitted i s) = view_of j s"
    and "view_of j (engine_answer acp u ok w i s) = view_of j s"
    and "view_of j (cancel_execution w i s) = view_of j s"
    and "view_of j (reconcile_start w i s) = view_of j s"
    and "view_of j (platform_reserves i s) = view_of j s"
    and "view_of j (platform_settles i n s) = view_of j s"
  using assms by (simp_all add: execute_start_def model_answer_def reserve_reply_def engine_submitted_def
    engine_answer_def cancel_execution_def reconcile_start_def platform_reserves_def platform_settles_def Let_def
    parts_frame [OF assms] split: option.split run_at.split reserve_answer.split billing.split)
     (simp_all add: view_of_def jmap_simps)

text \<open>And what it does to its own run.\<close>

lemmas run_rules = run_ok_def place_ok_def before_engine_def closed_def amounts_def

lemma view_journal_track:
  "view_of i (snd (journal_track i n w s)) =
     (if vw_journal (view_of i s) = None \<and> w then (view_of i s)\<lparr>vw_journal := Some n\<rparr> else view_of i s)"
  "fst (journal_track i n w s) \<longleftrightarrow> w \<or> vw_journal (view_of i s) \<noteq> None"
  by (auto simp: journal_track_def view_of_def jmap_simps)

lemma view_journal_discard:
  "view_of i (journal_discard i w s) = (if w then (view_of i s)\<lparr>vw_journal := None\<rparr> else view_of i s)"
  by (auto simp: journal_discard_def view_of_def jmap_simps)

lemma view_settle:
  "view_of i (snd (settle i n w s)) =
     (let v = view_of i s in
      if vw_settling v \<noteq> None then v
      else case vw_journal v of
          Some m \<Rightarrow> v\<lparr>vw_settling := Some (m, Queued)\<rparr>
        | None \<Rightarrow> if w then v\<lparr>vw_journal := Some n, vw_settling := Some (n, Queued)\<rparr> else v)"
  "fst (settle i n w s) \<longleftrightarrow> vw_settling (view_of i s) \<noteq> None \<or> vw_journal (view_of i s) \<noteq> None \<or> w"
  by (auto simp: settle_def journal_track_def view_of_def jmap_simps Let_def split: option.split)

lemma view_moves:
  "view_of i (run_to i p s) = (view_of i s)\<lparr>vw_run := Some p\<rparr>"
  "view_of i (run_end i s) = (view_of i s)\<lparr>vw_run := None\<rparr>"
  "view_of i (send_reserve i s) = (view_of i s)\<lparr>vw_reserves := True\<rparr>"
  "view_of i (s\<lparr>qt_started := qt_started s @ [i]\<rparr>) = (view_of i s)\<lparr>vw_started := True\<rparr>"
  "view_of i (s\<lparr>qt_cancelled := qt_cancelled s @ [i]\<rparr>) = (view_of i s)\<lparr>vw_cancelled := True\<rparr>"
  "view_of i (s\<lparr>qt_succeeded := qt_succeeded s @ [i]\<rparr>) = (view_of i s)\<lparr>vw_succeeded := True\<rparr>"
  by (auto simp: run_to_def run_end_def send_reserve_def view_of_def jmap_simps)

lemma view_run_settle:
  "view_of i (run_settle i n w s) =
     (let v = view_of i s in
      if vw_settling v \<noteq> None then v\<lparr>vw_run := Some Settling\<rparr>
      else case vw_journal v of
          Some m \<Rightarrow> v\<lparr>vw_settling := Some (m, Queued), vw_run := Some Settling\<rparr>
        | None \<Rightarrow> if w then v\<lparr>vw_journal := Some n, vw_settling := Some (n, Queued), vw_run := Some Settling\<rparr>
            else v\<lparr>vw_run := None\<rparr>)"
proof (cases "settle i n w s")
  case (Pair b s1)
  with view_settle [of i n w s] show ?thesis
    by (cases b) (auto simp: run_settle_def view_moves Let_def split: option.split)
qed

lemma view_settle_end:
  "view_of i (settle_end i s) = (let v = view_of i s in
     v\<lparr>vw_settling := None, vw_run := (if vw_run v = Some Settling then None else vw_run v)\<rparr>)"
  by (simp add: settle_end_def view_of_def jmap_simps Let_def)

text \<open>The views of the state fields, to evaluate the operations on a view.\<close>

lemma view_fields:
  "jmap_get (qt_journal s) i = vw_journal (view_of i s)"
  "jmap_get (qt_settling s) i = vw_settling (view_of i s)"
  "jmap_get (qt_runs s) i = vw_run (view_of i s)"
  "jmap_get (qt_books s) i = vw_books (view_of i s)"
  "(i \<in> set (qt_reserves s)) = vw_reserves (view_of i s)"
  "((i, n) \<in> set (qt_settles s)) = (n \<in> vw_settles (view_of i s))"
  "(i \<in> set (qt_started s)) = vw_started (view_of i s)"
  "(i \<in> set (qt_cancelled s)) = vw_cancelled (view_of i s)"
  "(i \<in> set (qt_succeeded s)) = vw_succeeded (view_of i s)"
  by (simp_all add: view_of_def)

section \<open>Every step keeps it\<close>

lemma amounts_frame [simp]:
  "amounts (v\<lparr>vw_run := p\<rparr>) = amounts v" "amounts (v\<lparr>vw_reserves := b\<rparr>) = amounts v"
  "amounts (v\<lparr>vw_started := b\<rparr>) = amounts v" "amounts (v\<lparr>vw_cancelled := b\<rparr>) = amounts v"
  "amounts (v\<lparr>vw_succeeded := b\<rparr>) = amounts v"
  by (simp_all add: amounts_def)

lemma amounts_less:
  "amounts (v\<lparr>vw_settling := None\<rparr>) \<subseteq> amounts v" "amounts (v\<lparr>vw_journal := None\<rparr>) \<subseteq> amounts v"
  by (auto simp: amounts_def)

lemma amounts_same:
  "vw_journal v = Some m \<Longrightarrow> amounts (v\<lparr>vw_settling := Some (m, g)\<rparr>) \<subseteq> amounts v"
  "vw_settling v = Some (m, g) \<Longrightarrow>
     amounts (v\<lparr>vw_settling := Some (m, h), vw_settles := insert m (vw_settles v)\<rparr>) = amounts v"
  by (auto simp: amounts_def)

lemma amounts_more:
  "vw_journal v = None \<Longrightarrow> amounts (v\<lparr>vw_journal := Some n\<rparr>) = insert n (amounts v)"
  "vw_journal v = None \<Longrightarrow> vw_settling v = None \<Longrightarrow>
     amounts (v\<lparr>vw_journal := Some n, vw_settling := Some (n, g)\<rparr>) = insert n (amounts v)"
  by (auto simp: amounts_def)

text \<open>A change that adds no amount.\<close>

lemma run_ok_shrink:
  assumes "run_ok u v" "amounts v' \<subseteq> amounts v"
    and "vw_run v' = vw_run v \<or> vw_run v' = None \<or> vw_run v' = Some Settling \<and> vw_started v"
    and "vw_journal v' = None \<or> vw_journal v' = vw_journal v"
    and "vw_journal v' = vw_journal v \<or> vw_cancelled v \<or> closed v'"
    and "vw_books v' = vw_books v" "vw_reserves v' = vw_reserves v" "vw_started v' = vw_started v"
      "vw_cancelled v' = vw_cancelled v" "vw_succeeded v' = vw_succeeded v"
  shows "run_ok u v'"
proof -
  have le: "\<And>X. amounts v \<subseteq> X \<Longrightarrow> amounts v' \<subseteq> X" and none: "amounts v = {} \<Longrightarrow> amounts v' = {}"
    using assms(2) by blast+
  have "closed v \<Longrightarrow> closed v'" using none assms(6) unfolding closed_def by metis
  moreover have "place_ok v'"
    using assms(1,3,4,7,9) le none \<open>closed v \<Longrightarrow> closed v'\<close> unfolding run_ok_def place_ok_def by (elim disjE conjE) auto
  moreover have "before_engine v' \<Longrightarrow> before_engine v"
    using assms(3) unfolding before_engine_def by (elim disjE) simp_all
  ultimately show ?thesis
    using assms(1,3-10) le none unfolding run_ok_def by metis
qed

text \<open>A run that has left the engine.\<close>

lemma run_ok_left:
  assumes "vw_run v = None \<or> vw_run v = Some Settling" "vw_started v" "amounts v \<subseteq> {0} \<or> amounts v \<subseteq> {u}"
    and "vw_succeeded v \<Longrightarrow> amounts v \<subseteq> {u}" "vw_reserves v \<or> vw_books v = None"
    and "vw_cancelled v \<or> vw_journal v \<noteq> None \<or> closed v"
  shows "run_ok u v"
  using assms unfolding run_ok_def place_ok_def before_engine_def by auto

lemma run_ok_settle_end:
  assumes "run_ok u (view_of i s)"
  shows "run_ok u (view_of i (settle_end i s))"
  by (rule run_ok_shrink [OF assms])
     (use amounts_less(1) [of "view_of i s"] in \<open>auto simp: view_settle_end Let_def\<close>)

lemma run_ok_recover:
  assumes "run_ok u (view_of i s)"
  shows "run_ok u (view_of i (recover_entry i w s))"
proof (cases "vw_journal (view_of i s)")
  case None
  with assms show ?thesis by (simp add: recover_entry_def view_fields)
next
  case (Some m)
  show ?thesis
    by (rule run_ok_shrink [OF assms])
       (use Some amounts_same(1) [OF Some] in \<open>auto simp: recover_entry_def view_fields view_settle Let_def\<close>)
qed

lemma run_ok_dequeue:
  assumes "run_ok u (view_of i s)"
  shows "run_ok u (view_of i (settle_dequeue i s))"
proof (cases "vw_settling (view_of i s)")
  case None
  with assms show ?thesis by (simp add: settle_dequeue_def view_fields)
next
  case (Some a)
  obtain n g where a: "a = (n, g)" by (cases a)
  show ?thesis
  proof (cases "g = Queued \<and> vw_journal (view_of i s) \<noteq> None")
    case True
    have "view_of i (s\<lparr>qt_settling := jmap_set i (n, Sent_Out) (qt_settling s), qt_settles := qt_settles s @ [(i, n)]\<rparr>) =
        (view_of i s)\<lparr>vw_settling := Some (n, Sent_Out), vw_settles := insert n (vw_settles (view_of i s))\<rparr>"
      by (auto simp: view_of_def jmap_simps)
    moreover from True a Some have "settle_dequeue i s =
        s\<lparr>qt_settling := jmap_set i (n, Sent_Out) (qt_settling s), qt_settles := qt_settles s @ [(i, n)]\<rparr>"
      by (auto simp: settle_dequeue_def view_fields)
    ultimately have v: "view_of i (settle_dequeue i s) =
        (view_of i s)\<lparr>vw_settling := Some (n, Sent_Out), vw_settles := insert n (vw_settles (view_of i s))\<rparr>"
      by simp
    show ?thesis unfolding v by (rule run_ok_shrink [OF assms]) (use Some a amounts_same(2) in auto)
  next
    case False
    with Some a assms show ?thesis
      by (cases g) (auto simp: settle_dequeue_def view_fields intro: run_ok_settle_end)
  qed
qed

lemma run_ok_discard:
  assumes "run_ok u (view_of i s)"
    and "vw_cancelled (view_of i s) \<or> (\<exists>n. vw_books (view_of i s) = Some (Settled n))"
  shows "run_ok u (view_of i (journal_discard i w s))"
  by (rule run_ok_shrink [OF assms(1)])
     (use assms(2) amounts_less(2) [of "view_of i s"] in \<open>auto simp: view_journal_discard closed_def\<close>)

lemma run_ok_settle_answer:
  assumes "run_ok u (view_of i s)" and answer: "settle_answerable i ok s"
  shows "run_ok u (view_of i (settle_answer i ok w s))"
proof (cases "\<exists>n. vw_settling (view_of i s) = Some (n, Sent_Out)")
  case False
  with assms(1) show ?thesis by (auto simp: settle_answer_def view_fields split: option.split settle_stage.split)
next
  case True
  then obtain n where n: "vw_settling (view_of i s) = Some (n, Sent_Out)" ..
  with answer have "ok \<Longrightarrow> vw_books (view_of i s) = Some (Settled n)"
    by (simp add: settle_answerable_def view_fields)
  with assms(1) n show ?thesis
    by (simp add: settle_answer_def view_fields run_ok_settle_end run_ok_discard)
qed

text \<open>A settlement of the one amount a run may still have.\<close>

lemma run_ok_run_settle:
  assumes "run_ok u (view_of i s)" "vw_started (view_of i s)" "n = 0 \<or> n = u" "amounts (view_of i s) \<subseteq> {n}"
    and "vw_succeeded (view_of i s) \<Longrightarrow> n = u"
    and "vw_reserves (view_of i s)"
  shows "run_ok u (view_of i (run_settle i n w s))"
proof (cases "vw_settling (view_of i s) = None \<and> vw_journal (view_of i s) = None")
  case True
  with assms show ?thesis
  proof (cases w)
    case True': True
    have "amounts ((view_of i s)\<lparr>vw_journal := Some n, vw_settling := Some (n, Queued)\<rparr>) \<subseteq> {n}"
      using True assms(4) by (simp add: amounts_more)
    with True True' assms show ?thesis
      by (auto simp: view_run_settle Let_def intro!: run_ok_left)
  next
    case False
    with True assms show ?thesis
      by (auto simp: view_run_settle Let_def intro!: run_ok_shrink [OF assms(1)])
  qed
next
  case False
  show ?thesis
    by (rule run_ok_shrink [OF assms(1)])
       (use False assms(2) amounts_same(1) [of "view_of i s"] in
         \<open>auto simp: view_run_settle Let_def split: option.split\<close>)
qed


lemma run_ok_run_end:
  assumes "run_ok u (view_of i s)"
  shows "run_ok u (view_of i (run_end i s))"
  by (rule run_ok_shrink [OF assms]) (auto simp: view_moves closed_def)

lemma run_ok_execute_start:
  assumes "run_ok u (view_of i s)" "i \<notin> set (qt_started s)"
  shows "run_ok u (view_of i (execute_start acp i s))"
  using assms unfolding execute_start_def Let_def view_fields
  by (auto simp: view_moves run_ok_def place_ok_def before_engine_def closed_def)

lemma run_ok_model_answer:
  assumes "run_ok u (view_of i s)"
  shows "run_ok u (view_of i (model_answer ok i s))"
  using assms run_ok_run_end [OF assms] unfolding model_answer_def view_fields
  by (auto simp: view_moves run_ok_def place_ok_def before_engine_def closed_def split: option.split run_at.split)

lemma run_ok_at_engine:
  assumes "run_ok u (view_of i s)" "vw_run (view_of i s) = Some (At_Engine b)"
  shows "vw_started (view_of i s)" "\<not> vw_succeeded (view_of i s)" "amounts (view_of i s) = {}" "vw_reserves (view_of i s)"
  using assms by (auto simp: run_ok_def place_ok_def before_engine_def)

lemma run_ok_reserve_reply:
  assumes ok: "run_ok u (view_of i s)" and a: "reserve_answerable i a s"
  shows "run_ok u (view_of i (reserve_reply u a w i s))"
proof (cases "vw_run (view_of i s)")
  case None
  with ok show ?thesis by (simp add: reserve_reply_def view_fields)
next
  case (Some p)
  from ok Some have started: "vw_started (view_of i s)" by (auto simp: run_ok_def)
  show ?thesis
  proof (cases p)
    case (Reserving c)
    with ok Some have at: "vw_reserves (view_of i s)" "amounts (view_of i s) \<subseteq> {0}" "\<not> c \<Longrightarrow> amounts (view_of i s) = {}"
      "\<not> vw_succeeded (view_of i s)" "c \<Longrightarrow> vw_cancelled (view_of i s)"
      by (auto simp: run_ok_def place_ok_def before_engine_def)
    have engine: "run_ok u (view_of i (run_to i (At_Engine False) s))" if "\<not> c"
      using ok at that started by (auto simp: view_moves run_ok_def place_ok_def before_engine_def closed_def)
    have settled: "run_ok u (view_of i (run_settle i 0 w s))"
      by (rule run_ok_run_settle [OF ok started]) (use at in simp_all)
    have rejected: "run_ok u (view_of i (run_end i (if c then journal_discard i w s else s)))"
      using ok at(5) run_ok_discard [OF ok, of w] by (simp add: run_ok_run_end)
    have "vw_run (view_of i s) = Some (Reserving c)" using Some Reserving by simp
    with ok settled engine rejected show ?thesis
      by (cases a) (simp_all add: reserve_reply_def view_fields run_ok_run_end)
  next
    case Reconciling
    with ok Some have at: "vw_reserves (view_of i s)" "closed (view_of i s)" by (auto simp: run_ok_def place_ok_def)
    have "run_ok u (view_of i (run_settle i u w s))" if "a = Accepted Reserved"
      using run_ok_run_settle [OF ok started, of u w] at a that
      by (auto simp: closed_def reserve_answerable_def view_fields)
    with ok Some Reconciling show ?thesis
      by (auto simp: reserve_reply_def view_fields run_ok_run_end split: reserve_answer.split billing.split)
  qed (use ok Some in \<open>simp_all add: reserve_reply_def view_fields\<close>)
qed

lemma run_ok_submitted:
  assumes "run_ok u (view_of i s)"
  shows "run_ok u (view_of i (engine_submitted i s))"
  using assms unfolding engine_submitted_def view_fields
  by (auto simp: view_moves run_ok_def place_ok_def before_engine_def closed_def split: option.split run_at.split)

lemma run_ok_engine_answer:
  assumes ok: "run_ok u (view_of i s)"
  shows "run_ok u (view_of i (engine_answer acp u fine w i s))"
proof (cases "\<exists>b. vw_run (view_of i s) = Some (At_Engine b)")
  case False
  with ok show ?thesis by (auto simp: engine_answer_def view_fields split: option.split run_at.split)
next
  case True
  then obtain b where b: "vw_run (view_of i s) = Some (At_Engine b)" ..
  note at = run_ok_at_engine [OF ok b]
  show ?thesis
  proof (cases fine)
    case False
    have "run_ok u (view_of i (run_settle i n w s))" if "n = 0 \<or> n = u" for n
      by (rule run_ok_run_settle [OF ok at(1) that]) (use at in simp_all)
    with b False show ?thesis by (simp add: engine_answer_def view_fields)
  next
    case True
    show ?thesis
    proof (cases "vw_settling (view_of i s) = None \<and> vw_journal (view_of i s) = None")
      case True': True
      with True b at show ?thesis
        by (cases w) (auto simp: engine_answer_def view_fields view_run_settle view_moves Let_def amounts_more closed_def
          intro!: run_ok_left)
    next
      case False
      with at(3) show ?thesis by (auto simp: amounts_def)
    qed
  qed
qed


lemma run_ok_cancel:
  assumes ok: "run_ok u (view_of i s)"
  shows "run_ok u (view_of i (cancel_execution w i s))"
proof -
  let ?s1 = "s\<lparr>qt_cancelled := qt_cancelled s @ [i]\<rparr>"
  have plain: "run_ok u (view_of i ?s1)"
    using ok by (auto simp: view_moves run_ok_def place_ok_def before_engine_def closed_def)
  have tracked: "run_ok u (view_of i (run_to i p (snd (journal_track i 0 w ?s1))))"
    if at: "vw_run (view_of i s) = Some q" and pq: "(\<exists>c. q = Asking_Model c \<and> p = Asking_Model True) \<or> (\<exists>c. q = Reserving c \<and> p = Reserving True)" for p q
  proof -
    let ?v = "view_of i (run_to i p (snd (journal_track i 0 w ?s1)))"
    have "amounts (view_of i s) \<subseteq> {0}" using ok at pq by (auto simp: run_ok_def place_ok_def)
    then have "amounts ?v \<subseteq> {0}" by (auto simp: view_moves view_journal_track amounts_more)
    moreover have "vw_started ?v" "\<not> vw_succeeded ?v" "vw_cancelled ?v" "vw_run ?v = Some p"
      "vw_reserves ?v = vw_reserves (view_of i s)" "vw_books ?v = vw_books (view_of i s)"
      using ok at pq by (auto simp: view_moves view_journal_track run_ok_def before_engine_def)
    ultimately show ?thesis using ok at pq unfolding run_ok_def place_ok_def by auto
  qed
  show ?thesis
  proof (cases "vw_run (view_of i s)")
    case None
    with plain show ?thesis by (simp add: cancel_execution_def Let_def view_fields view_moves)
  next
    case (Some q)
    with plain tracked [OF Some] show ?thesis
      by (cases q) (simp_all add: cancel_execution_def Let_def view_fields view_moves)
  qed
qed

lemma run_ok_reconcile:
  assumes ok: "run_ok u (view_of i s)" and started: "i \<in> set (qt_started s)" and "i \<notin> set (qt_cancelled s)"
    and "jmap_get (qt_runs s) i = None"
  shows "run_ok u (view_of i (reconcile_start w i s))"
proof (cases "vw_journal (view_of i s)")
  case None
  with assms show ?thesis unfolding reconcile_start_def view_fields
    by (auto simp: view_moves run_ok_def place_ok_def before_engine_def closed_def)
next
  case (Some n)
  then have "n \<in> amounts (view_of i s)" by (simp add: amounts_def)
  with ok have "n = 0 \<or> n = u" "amounts (view_of i s) \<subseteq> {n}" "vw_succeeded (view_of i s) \<Longrightarrow> n = u"
    unfolding run_ok_def by auto
  moreover have "run_ok u (view_of i (run_settle i n w s))"
    by (rule run_ok_shrink [OF ok])
       (use Some started amounts_same(1) [OF Some] in
         \<open>auto simp: view_fields view_run_settle Let_def split: option.split\<close>)
  ultimately show ?thesis using Some by (simp add: reconcile_start_def view_fields)
qed

lemma run_ok_platform_reserves:
  assumes "run_ok u (view_of i s)"
  shows "run_ok u (view_of i (platform_reserves i s))"
proof -
  have "view_of i (platform_reserves i s) = (let v = view_of i s in
      if vw_reserves v \<and> vw_books v = None then v\<lparr>vw_books := Some Reserved\<rparr> else v)"
    by (simp add: platform_reserves_def view_of_def jmap_simps Let_def)
  moreover have "amounts (v\<lparr>vw_books := Some Reserved\<rparr>) = amounts v" if "vw_books v = None" for v
    using that by (auto simp: amounts_def)
  ultimately show ?thesis
    using assms by (auto simp: Let_def run_ok_def place_ok_def before_engine_def closed_def)
qed

lemma run_ok_platform_settles:
  assumes "run_ok u (view_of i s)"
  shows "run_ok u (view_of i (platform_settles i n s))"
proof -
  have v: "view_of i (platform_settles i n s) = (let v = view_of i s in
      if n \<in> vw_settles v \<and> vw_books v = Some Reserved then v\<lparr>vw_books := Some (Settled n)\<rparr> else v)"
    by (simp add: platform_settles_def view_of_def jmap_simps Let_def)
  have "amounts (v\<lparr>vw_books := Some (Settled n)\<rparr>) = amounts v" if "vw_books v = Some Reserved" "n \<in> vw_settles v" for v
    using that by (auto simp: amounts_def)
  with assms show ?thesis unfolding v
    by (auto simp: Let_def run_ok_def place_ok_def before_engine_def closed_def)
qed

text \<open>The journal in memory is the journal on the disk, so a restart loses no amount.\<close>

definition quota_ok :: "(string \<Rightarrow> nat) \<Rightarrow> quota_state \<Rightarrow> bool" where
  "quota_ok units s \<longleftrightarrow> qt_disk s = qt_journal s \<and> (\<forall>i. run_ok (units i) (view_of i s))"

lemma disk_kept:
  assumes "qt_disk s = qt_journal s"
  shows "qt_disk (snd (journal_track i n w s)) = qt_journal (snd (journal_track i n w s))"
    and "qt_disk (journal_discard i w s) = qt_journal (journal_discard i w s)"
    and "qt_disk (settle_end i s) = qt_journal (settle_end i s)"
    and "qt_disk (run_to i p s) = qt_journal (run_to i p s)"
    and "qt_disk (run_end i s) = qt_journal (run_end i s)"
    and "qt_disk (send_reserve i s) = qt_journal (send_reserve i s)"
  using assms by (simp_all add: quota_ops)

lemma disk_settle:
  assumes "qt_disk s = qt_journal s"
  shows "qt_disk (snd (settle i n w s)) = qt_journal (snd (settle i n w s))"
    and "qt_disk (run_settle i n w s) = qt_journal (run_settle i n w s)"
  using assms by (auto simp: quota_ops split: option.split)

lemma disk_step:
  assumes "quota_step units acp s s'" "qt_disk s = qt_journal s"
  shows "qt_disk s' = qt_journal s'"
  using assms
  by (cases rule: quota_step.cases)
     (simp_all add: execute_start_def model_answer_def reserve_reply_def engine_submitted_def engine_answer_def
       cancel_execution_def reconcile_start_def platform_reserves_def platform_settles_def recover_entry_def
       settle_dequeue_def settle_answer_def process_restart_def Let_def disk_kept disk_settle
       split: option.split run_at.split reserve_answer.split billing.split settle_stage.split prod.split)

lemma run_ok_restart:
  assumes "run_ok u (view_of i s)" "qt_disk s = qt_journal s"
  shows "run_ok u (view_of i (process_restart s))"
proof -
  have v: "view_of i (process_restart s) = (view_of i s)\<lparr>vw_settling := None, vw_run := None\<rparr>"
    using assms(2) by (simp add: process_restart_def view_of_def)
  show ?thesis unfolding v
    by (rule run_ok_shrink [OF assms(1)]) (use amounts_less(1) [of "view_of i s"] in auto)
qed

lemma quota_step_ok:
  assumes "quota_step units acp s s'" "quota_ok units s"
  shows "quota_ok units s'"
proof -
  from assms(2) have ok: "run_ok (units j) (view_of j s)" and disk: "qt_disk s = qt_journal s" for j
    by (simp_all add: quota_ok_def)
  have "run_ok (units j) (view_of j s')" for j
    using assms(1)
  proof (cases rule: quota_step.cases)
    case (Qt_Start i)
    with ok [of j] show ?thesis by (cases "j = i") (simp_all add: quota_frame run_ok_execute_start)
  next
    case (Qt_Model fine i)
    with ok [of j] show ?thesis by (cases "j = i") (simp_all add: quota_frame run_ok_model_answer)
  next
    case (Qt_Reserve_Reply i a w)
    with ok [of j] show ?thesis by (cases "j = i") (simp_all add: quota_frame run_ok_reserve_reply)
  next
    case (Qt_Submitted i)
    with ok [of j] show ?thesis by (cases "j = i") (simp_all add: quota_frame run_ok_submitted)
  next
    case (Qt_Engine i fine w)
    with ok [of j] show ?thesis by (cases "j = i") (simp_all add: quota_frame run_ok_engine_answer)
  next
    case (Qt_Dequeue i)
    with ok [of j] show ?thesis by (cases "j = i") (simp_all add: journal_ops_frame run_ok_dequeue)
  next
    case (Qt_Settle_Answer i fine w)
    with ok [of j] show ?thesis by (cases "j = i") (simp_all add: journal_ops_frame run_ok_settle_answer)
  next
    case (Qt_Recover i w)
    with ok [of j] show ?thesis by (cases "j = i") (simp_all add: journal_ops_frame run_ok_recover)
  next
    case (Qt_Cancel w i)
    with ok [of j] show ?thesis by (cases "j = i") (simp_all add: quota_frame run_ok_cancel)
  next
    case (Qt_Reconcile i w)
    with ok [of j] show ?thesis by (cases "j = i") (simp_all add: quota_frame run_ok_reconcile)
  next
    case (Qt_Platform_Reserves i)
    with ok [of j] show ?thesis by (cases "j = i") (simp_all add: quota_frame run_ok_platform_reserves)
  next
    case (Qt_Platform_Settles i n)
    with ok [of j] show ?thesis by (cases "j = i") (simp_all add: quota_frame run_ok_platform_settles)
  next
    case Qt_Restart
    with ok [of j] disk show ?thesis by (simp add: run_ok_restart)
  qed
  with disk_step [OF assms(1) disk] show ?thesis by (simp add: quota_ok_def)
qed

lemma empty_quota_ok: "quota_ok units empty_quota"
  by (auto simp: quota_ok_def run_ok_def place_ok_def before_engine_def closed_def amounts_def view_of_def empty_quota_def)

lemma quota_reach_ok: "quota_reach units acp s \<Longrightarrow> quota_ok units s"
  by (induction rule: quota_reach.induct) (auto intro: empty_quota_ok quota_step_ok)


section \<open>A cancelled run without a reservation\<close>

definition unpayable :: "run_view \<Rightarrow> bool" where
  "unpayable v \<longleftrightarrow> vw_journal v = Some 0 \<and> vw_books v = None \<and> \<not> vw_reserves v \<and> vw_cancelled v \<and> vw_started v \<and>
     (vw_run v = None \<or> vw_run v = Some (Asking_Model True))"

lemma unpayable_settle_end: "unpayable (view_of i s) \<Longrightarrow> unpayable (view_of i (settle_end i s))"
  by (auto simp: unpayable_def view_settle_end Let_def)

lemma unpayable_dequeue:
  assumes "unpayable (view_of i s)"
  shows "unpayable (view_of i (settle_dequeue i s))"
proof -
  have "view_of i (s\<lparr>qt_settling := a, qt_settles := b\<rparr>) =
      (view_of i s)\<lparr>vw_settling := jmap_get a i, vw_settles := {n. (i, n) \<in> set b}\<rparr>" for a b
    by (simp add: view_of_def)
  with assms show ?thesis
    by (auto simp: settle_dequeue_def view_fields unpayable_def split: option.split prod.split settle_stage.split)
qed

lemma unpayable_own:
  assumes "unpayable (view_of i s)"
  shows "unpayable (view_of i (model_answer fine i s))" and "reserve_reply u a w i s = s"
    and "engine_submitted i s = s" and "engine_answer acp u fine w i s = s"
    and "settle_answerable i fine s \<Longrightarrow> unpayable (view_of i (settle_answer i fine w s))"
    and "unpayable (view_of i (recover_entry i w s))" and "unpayable (view_of i (cancel_execution w i s))"
    and "platform_reserves i s = s" and "platform_settles i n s = s"
    and "i \<in> set (qt_started s)" and "i \<in> set (qt_cancelled s)"
proof -
  note at = assms [unfolded unpayable_def]
  show "unpayable (view_of i (model_answer fine i s))"
    using at by (auto simp: model_answer_def view_fields view_moves unpayable_def)
  show "reserve_reply u a w i s = s" "engine_submitted i s = s" "engine_answer acp u fine w i s = s"
    using at by (auto simp: reserve_reply_def engine_submitted_def engine_answer_def view_fields)
  show "unpayable (view_of i (settle_answer i fine w s))" if "settle_answerable i fine s"
    using assms at that by (auto simp: settle_answer_def settle_answerable_def view_fields
      unpayable_settle_end split: option.split prod.split settle_stage.split)
  show "unpayable (view_of i (recover_entry i w s))"
    using at by (auto simp: recover_entry_def view_fields view_settle Let_def unpayable_def)
  show "unpayable (view_of i (cancel_execution w i s))"
    using at by (auto simp: cancel_execution_def Let_def view_fields view_moves view_journal_track unpayable_def)
  show "platform_reserves i s = s" "platform_settles i n s = s"
    using at by (auto simp: platform_reserves_def platform_settles_def view_fields)
  show "i \<in> set (qt_started s)" "i \<in> set (qt_cancelled s)" using at by (simp_all add: view_fields)
qed

lemma unpayable_step:
  assumes step: "quota_step units acp s s'" and v: "unpayable (view_of j s)" and disk: "qt_disk s = qt_journal s"
  shows "unpayable (view_of j s')"
proof -
  note own = unpayable_own [OF v] unpayable_dequeue [OF v]
  from step show ?thesis
  proof (cases rule: quota_step.cases)
    case (Qt_Start i)
    with v own(10) show ?thesis by (cases "j = i") (simp_all add: quota_frame)
  next
    case (Qt_Model fine i)
    with v own show ?thesis by (cases "j = i") (simp_all add: quota_frame)
  next
    case (Qt_Reserve_Reply i a w)
    with v own(2) show ?thesis by (cases "j = i") (simp_all add: quota_frame)
  next
    case (Qt_Submitted i)
    with v own(3) show ?thesis by (cases "j = i") (simp_all add: quota_frame)
  next
    case (Qt_Engine i fine w)
    with v own(4) show ?thesis by (cases "j = i") (simp_all add: quota_frame)
  next
    case (Qt_Dequeue i)
    with v own show ?thesis by (cases "j = i") (simp_all add: journal_ops_frame)
  next
    case (Qt_Settle_Answer i fine w)
    with v own(5) show ?thesis by (cases "j = i") (simp_all add: journal_ops_frame)
  next
    case (Qt_Recover i w)
    with v own show ?thesis by (cases "j = i") (simp_all add: journal_ops_frame)
  next
    case (Qt_Cancel w i)
    with v own show ?thesis by (cases "j = i") (simp_all add: quota_frame)
  next
    case (Qt_Reconcile i w)
    with v own(11) show ?thesis by (cases "j = i") (simp_all add: quota_frame)
  next
    case (Qt_Platform_Reserves i)
    with v own(8) show ?thesis by (cases "j = i") (simp_all add: quota_frame)
  next
    case (Qt_Platform_Settles i n)
    with v own(9) show ?thesis by (cases "j = i") (simp_all add: quota_frame)
  next
    case Qt_Restart
    with v disk show ?thesis by (simp add: unpayable_def process_restart_def view_of_def)
  qed
qed

lemma unpayable_steps:
  assumes "(quota_step units acp)\<^sup>*\<^sup>* s s'" "unpayable (view_of i s)" "qt_disk s = qt_journal s"
  shows "unpayable (view_of i s')"
proof -
  from assms have "unpayable (view_of i s') \<and> qt_disk s' = qt_journal s'"
    by (induction rule: rtranclp_induct) (auto intro: unpayable_step disk_step)
  then show ?thesis ..
qed

lemma asking_unpayable:
  assumes "quota_reach units acp s" "jmap_get (qt_runs s) i = Some (Asking_Model False)"
  shows "unpayable (view_of i (cancel_execution True i s))" and "qt_disk s = qt_journal s"
proof -
  from quota_reach_ok [OF assms(1)] have "run_ok (units i) (view_of i s)" and "qt_disk s = qt_journal s"
    by (simp_all add: quota_ok_def)
  with assms(2) show "unpayable (view_of i (cancel_execution True i s))"
    by (auto simp: unpayable_def cancel_execution_def Let_def view_fields view_moves view_journal_track run_ok_def
      place_ok_def amounts_def)
  show "qt_disk s = qt_journal s" by fact
qed

section \<open>Properties\<close>

text \<open>The life of a run with a plain engine: started, reserved, executed and settled.\<close>

definition paid_run :: "string \<Rightarrow> nat \<Rightarrow> quota_state" where
  "paid_run i n =
     platform_settles i n (settle_dequeue i (engine_answer False n True True i
       (reserve_reply n (Accepted Reserved) True i (platform_reserves i (execute_start False i empty_quota)))))"

definition asking_run :: "string \<Rightarrow> quota_state" where
  "asking_run i = execute_start True i empty_quota"

lemma paid_run_reached: "quota_reach (\<lambda>_. n) (\<lambda>_. False) (paid_run i n)"
proof -
  let ?reach = "quota_reach (\<lambda>_. n) (\<lambda>_. False)"
  note start = quota_step.Qt_Start [where units = "\<lambda>_. n" and acp = "\<lambda>_. False"]
  note engine = quota_step.Qt_Engine [where units = "\<lambda>_. n" and acp = "\<lambda>_. False"]
  note reply = quota_step.Qt_Reserve_Reply [where units = "\<lambda>_. n" and acp = "\<lambda>_. False"]
  define s1 where "s1 = platform_reserves i (execute_start False i empty_quota)"
  have "i \<notin> set (qt_started empty_quota)" by (simp add: empty_quota_def)
  from quota_reach.Quota_Step [OF quota_reach.Quota_Empty start [OF this]] have "?reach s1"
    unfolding s1_def by (rule quota_reach.Quota_Step [OF _ quota_step.Qt_Platform_Reserves])
  moreover have "reserve_answerable i (Accepted Reserved) s1"
    by (simp add: s1_def reserve_answerable_def platform_reserves_def execute_start_def send_reserve_def run_to_def
      empty_quota_def)
  ultimately have "?reach (reserve_reply n (Accepted Reserved) True i s1)"
    by (rule quota_reach.Quota_Step [OF _ reply])
  then have "?reach (engine_answer False n True True i (reserve_reply n (Accepted Reserved) True i s1))"
    by (rule quota_reach.Quota_Step [OF _ engine])
  then show ?thesis unfolding paid_run_def s1_def
    by (intro quota_reach.Quota_Step [OF quota_reach.Quota_Step [OF _ quota_step.Qt_Dequeue] quota_step.Qt_Platform_Settles])
qed

lemma asking_run_reached: "quota_reach (\<lambda>_. n) (\<lambda>_. True) (asking_run i)"
  unfolding asking_run_def
  by (rule quota_reach.Quota_Step [OF quota_reach.Quota_Empty])
     (use quota_step.Qt_Start [of i empty_quota "\<lambda>_. n" "\<lambda>_. True"] in \<open>simp add: empty_quota_def\<close>)

lemmas paid_run_eval = paid_run_def empty_quota_def platform_settles_def settle_dequeue_def engine_answer_def
  run_settle_def settle_def journal_track_def run_to_def reserve_reply_def platform_reserves_def execute_start_def
  send_reserve_def



text \<open>C17. A run whose execution succeeded is never settled with anything but its reserved units: not with zero, not
  by a recovery, not by the reconciliation after a restart.\<close>

theorem successful_run_pays:
  assumes "quota_reach units acp s" "i \<in> set (qt_succeeded s)" "(i, n) \<in> set (qt_settles s)"
  shows "n = units i"
proof -
  have "run_ok (units i) (view_of i s)" using quota_reach_ok [OF assms(1)] by (simp add: quota_ok_def)
  with assms(2) have "amounts (view_of i s) \<subseteq> {units i}" by (simp add: run_ok_def view_fields)
  with assms(3) show ?thesis by (auto simp: amounts_def view_fields)
qed

theorem successful_run_pays_witness:
  "''r'' \<in> set (qt_succeeded (paid_run ''r'' 1025)) \<and> (''r'', 1025) \<in> set (qt_settles (paid_run ''r'' 1025)) \<and>
   (1025::nat) = 1025"
  using successful_run_pays [OF paid_run_reached [of 1025 "''r''"], of "''r''" 1025]
  by (simp add: paid_run_eval)

text \<open>C18. A run of an ACP engine that is cancelled while its billing model is looked up leaves a settlement that
  cannot end: the amount zero is journaled, but no reservation is ever asked for, so the platform never holds the
  run, never accepts the settlement, and the entry stays in the journal through every later step and restart.\<close>

theorem cancelled_lookup_stuck:
  assumes "quota_reach units acp s" "jmap_get (qt_runs s) i = Some (Asking_Model False)"
    and "(quota_step units acp)\<^sup>*\<^sup>* (cancel_execution True i s) s'"
  shows "jmap_get (qt_journal s') i = Some 0 \<and> jmap_get (qt_books s') i = None"
proof -
  have "qt_disk (cancel_execution True i s) = qt_journal (cancel_execution True i s)"
    by (rule disk_step [OF quota_step.Qt_Cancel asking_unpayable(2) [OF assms(1,2)]])
  then have "unpayable (view_of i s')"
    by (rule unpayable_steps [OF assms(3) asking_unpayable(1) [OF assms(1,2)]])
  then show ?thesis by (simp add: unpayable_def view_fields)
qed

theorem cancelled_lookup_stuck_witness:
  "jmap_get (qt_journal (process_restart (cancel_execution True ''r'' (asking_run ''r'')))) ''r'' = Some 0 \<and>
   jmap_get (qt_books (process_restart (cancel_execution True ''r'' (asking_run ''r'')))) ''r'' = None"
  by (rule cancelled_lookup_stuck [OF asking_run_reached [of 1025]])
     (auto simp: asking_run_def execute_start_def run_to_def empty_quota_def intro: r_into_rtranclp quota_step.Qt_Restart)

end
