(* ===== verification/Team_Store.thy ===== *)
theory Team_Store
  imports Contracts "HOL-Library.Char_ord" "HOL-Library.List_Lexorder"
begin

text \<open>
  The teams of assistants on the server: the class \<open>TeamStore\<close> of \<^verbatim>\<open>harness-bundle/src/team-store.ts\<close> and
  the schemas of \<^verbatim>\<open>contracts/src/team.ts\<close>.

  A team works on at most one run at a time. A message or a task for a member becomes a dispatch of the run, one
  turn of that member's session; the orchestrator begins queued dispatches and reports how they end.

  The methods are written in the sequencing of \<^verbatim>\<open>Contracts.thy\<close>. Dates are milliseconds as \<open>nat\<close>, one reading of the clock for
  each call; the \<open>n\<close>th \<open>randomUUID()\<close> is \<open>uuid n\<close>. \<open>tm_disk\<close> is the content of \<^verbatim>\<open>teams.json\<close>, which is
  renamed into place and so always whole; a write works. The ids of what is stored are never empty, so the
  schema of an event accepts every event. The texts written for the engines are Chinese in the code and
  translated here. Where the code spreads a message or run that is not stored (\<open>#registerEdge\<close>,
  \<open>submittedDispatch\<close>), the model has a \<open>TypeError\<close>; both are stored as long as a turn that names them.
\<close>

section \<open>Data\<close>

datatype team_role = Lead | Member

datatype member_status = Member_Idle | Member_Running | Member_Error

record team_member =
  tb_id :: string
  tb_name :: string
  tb_engine :: string
  tb_acp :: "string option"
  tb_preset :: string
  tb_role :: team_role
  tb_status :: member_status
  tb_session :: "string option"
  tb_created :: nat

record team =
  tt_id :: string
  tt_version :: nat
  tt_name :: string
  tt_workspace :: string
  tt_mode :: "string option"
  tt_members :: "team_member list"
  tt_created :: nat
  tt_updated :: nat

datatype task_status = Task_Queued | Task_Running | Task_Succeeded | Task_Failed | Task_Cancelled

record team_task =
  tk_id :: string
  tk_team :: string
  tk_member :: string
  tk_version :: nat
  tk_depends :: "string list"
  tk_creator :: "string option"
  tk_title :: string
  tk_input :: string
  tk_status :: task_status
  tk_session :: "string option"
  tk_result :: "string option"
  tk_error :: "string option"
  tk_created :: nat
  tk_started :: "nat option"
  tk_finished :: "nat option"

record team_mail =
  ml_id :: string
  ml_team :: string
  ml_from :: "string option"
  ml_to :: "string option"
  ml_body :: string
  ml_created :: nat
  ml_read :: "nat option"

datatype event_type =
    Team_Updated | Team_Created | Team_Renamed | Team_Removed | Member_Added | Member_Renamed | Member_Removed
  | Event_Queued | Event_Started | Event_Completed | Event_Failed | Event_Cancelled | Mail_Received | Run_Updated
  | Dispatch_Updated | Task_Updated

record team_event =
  ev_id :: string
  ev_team :: string
  ev_sequence :: nat
  ev_type :: event_type
  ev_subject :: string
  ev_at :: nat

datatype team_run_status = Run_Running | Run_Paused | Run_Paused_Limit | Run_Completed | Run_Cancelled | Run_Interrupted

record team_run =
  tr_id :: string
  tr_team :: string
  tr_input :: string
  tr_status :: team_run_status
  tr_segment :: nat
  tr_dispatches :: nat
  tr_recruited :: nat
  tr_reason :: "string option"
  tr_result :: "string option"
  tr_created :: nat
  tr_updated :: nat

datatype dispatch_status = Turn_Queued | Turn_Running | Turn_Succeeded | Turn_Failed | Turn_Cancelled | Turn_Interrupted

record team_dispatch =
  td_id :: string
  td_team :: string
  td_run :: string
  td_member :: string
  td_task :: "string option"
  td_messages :: "string list"
  td_input :: string
  td_parent :: "string option"
  td_depth :: nat
  td_fanout :: "string list"
  td_status :: dispatch_status
  td_turn :: "string option"
  td_submitted :: "nat option"
  td_not_before :: "nat option"
  td_result :: "string option"
  td_error :: "string option"
  td_created :: nat
  td_finished :: "nat option"

text \<open>What an operation returns, as it is kept for repeated calls.\<close>

datatype team_result = Team_Result team | Task_Result team_task | Mail_Result team_mail | Run_Result team_run

record team_document =
  dc_teams :: "team list"
  dc_tasks :: "team_task list"
  dc_messages :: "team_mail list"
  dc_events :: "team_event list"
  dc_sequence :: nat
  dc_reconciled :: "string list"
  dc_runs :: "team_run list"
  dc_dispatches :: "team_dispatch list"
  dc_operations :: "(string \<times> string \<times> team_result) list"

record team_store =
  tm_teams :: "(string \<times> team) list"
  tm_tasks :: "(string \<times> team_task) list"
  tm_messages :: "(string \<times> team_mail) list"
  tm_events :: "team_event list"
  tm_sequence :: nat
  tm_runs :: "(string \<times> team_run) list"
  tm_dispatches :: "(string \<times> team_dispatch) list"
  tm_operations :: "(string \<times> string \<times> team_result) list"
  tm_batch :: bool
  tm_reconciled :: "string list"
  tm_drawn :: nat
  tm_disk :: "team_document option"

type_synonym 'a tact = "(team_store, 'a) act"

section \<open>Schemas\<close>

definition parse_member :: "team_member \<Rightarrow> team_member option" where
  "parse_member m =
     (case parse_text 120 (tb_name m) of
        None \<Rightarrow> None
      | Some n \<Rightarrow>
          (if tb_id m \<noteq> [] \<and> tb_engine m \<in> set engine_ids \<and> tb_acp m \<noteq> Some [] \<and> tb_preset m \<noteq> [] \<and>
              tb_session m \<noteq> Some [] then Some (m\<lparr>tb_name := n\<rparr>) else None))"

definition parse_mode :: "string option \<Rightarrow> string option option" where
  "parse_mode x = (case x of None \<Rightarrow> Some None | Some t \<Rightarrow> map_option Some (parse_text 40 t))"

definition parse_team :: "team \<Rightarrow> team option" where
  "parse_team t =
     (case (parse_text 120 (tt_name t), parse_mode (tt_mode t), those (map parse_member (tt_members t))) of
        (Some n, Some mode, Some ms) \<Rightarrow>
          (if tt_id t \<noteq> [] \<and> 0 < tt_version t \<and> tt_workspace t \<noteq> [] \<and> ms \<noteq> []
           then Some (t\<lparr>tt_name := n, tt_mode := mode, tt_members := ms\<rparr>) else None)
      | _ \<Rightarrow> None)"

definition max_text :: nat where
  "max_text = 64 * 1024"

definition parse_task :: "team_task \<Rightarrow> team_task option" where
  "parse_task t =
     (case (parse_text 200 (tk_title t), parse_text max_text (tk_input t)) of
        (Some title, Some input) \<Rightarrow>
          (if tk_id t \<noteq> [] \<and> tk_team t \<noteq> [] \<and> tk_member t \<noteq> [] \<and> 0 < tk_version t \<and> [] \<notin> set (tk_depends t) \<and>
              tk_session t \<noteq> Some [] then Some (t\<lparr>tk_title := title, tk_input := input\<rparr>) else None)
      | _ \<Rightarrow> None)"

definition parse_mail :: "team_mail \<Rightarrow> team_mail option" where
  "parse_mail m =
     (case parse_text max_text (ml_body m) of
        None \<Rightarrow> None
      | Some b \<Rightarrow>
          (if ml_id m \<noteq> [] \<and> ml_team m \<noteq> [] \<and> ml_from m \<noteq> Some [] \<and> ml_to m \<noteq> Some []
           then Some (m\<lparr>ml_body := b\<rparr>) else None))"

definition event_valid :: "team_event \<Rightarrow> bool" where
  "event_valid e \<longleftrightarrow> ev_id e \<noteq> [] \<and> ev_team e \<noteq> [] \<and> 0 < ev_sequence e \<and> ev_subject e \<noteq> []"

abbreviation parsed :: "'v option \<Rightarrow> 'v tact" where
  "parsed \<equiv> act_need ''ZodError''"

section \<open>The file and the events\<close>

definition team_list :: "team_store \<Rightarrow> team list" where
  "team_list s = sort_key tt_created (map snd (tm_teams s))"

definition team_document_of :: "team_store \<Rightarrow> team_document" where
  "team_document_of s = \<lparr>dc_teams = team_list s, dc_tasks = map snd (tm_tasks s), dc_messages = map snd (tm_messages s),
     dc_events = tm_events s, dc_sequence = tm_sequence s, dc_reconciled = sort (tm_reconciled s),
     dc_runs = map snd (tm_runs s), dc_dispatches = map snd (tm_dispatches s), dc_operations = tm_operations s\<rparr>"

definition team_save :: "team_store \<Rightarrow> team_store" where
  "team_save s = (if tm_batch s then s else s\<lparr>tm_disk := Some (team_document_of s)\<rparr>)"

definition team_key :: "string \<Rightarrow> string" where
  "team_key u = ''team-'' @ u"

definition member_key :: "string \<Rightarrow> string" where
  "member_key u = ''member-'' @ u"

definition session_key :: "string \<Rightarrow> string" where
  "session_key u = ''session-'' @ u"

definition team_task_key :: "string \<Rightarrow> string" where
  "team_task_key u = ''team-task-'' @ u"

definition run_key :: "string \<Rightarrow> string" where
  "run_key u = ''team-run-'' @ u"

definition dispatch_key :: "string \<Rightarrow> string" where
  "dispatch_key u = ''team-dispatch-'' @ u"

definition mail_key :: "string \<Rightarrow> string" where
  "mail_key u = ''team-mail-'' @ u"

definition new_id :: "(nat \<Rightarrow> string) \<Rightarrow> (string \<Rightarrow> string) \<Rightarrow> string tact" where
  "new_id uuid kind = (\<lambda>s. (Inr (kind (uuid (tm_drawn s))), s\<lparr>tm_drawn := Suc (tm_drawn s)\<rparr>))"

definition event_id :: "string \<Rightarrow> string" where
  "event_id u = ''team-event-'' @ u"

definition push_event :: "(nat \<Rightarrow> string) \<Rightarrow> nat \<Rightarrow> string \<Rightarrow> event_type \<Rightarrow> string \<Rightarrow> team_store \<Rightarrow> team_store" where
  "push_event uuid now i ty subject s =
     s\<lparr>tm_events := tm_events s @ [\<lparr>ev_id = event_id (uuid (tm_drawn s)), ev_team = i, ev_sequence = tm_sequence s + 1,
          ev_type = ty, ev_subject = subject, ev_at = now\<rparr>],
       tm_sequence := tm_sequence s + 1, tm_drawn := Suc (tm_drawn s)\<rparr>"

text \<open>An event and the save that follows it in most methods.\<close>

definition announce :: "(nat \<Rightarrow> string) \<Rightarrow> nat \<Rightarrow> string \<Rightarrow> event_type \<Rightarrow> string \<Rightarrow> unit tact" where
  "announce uuid now i ty subject = act_do (\<lambda>s. team_save (push_event uuid now i ty subject s))"

definition put_team :: "team \<Rightarrow> team_store \<Rightarrow> team_store" where
  "put_team t s = s\<lparr>tm_teams := jmap_set (tt_id t) t (tm_teams s)\<rparr>"

definition put_task :: "team_task \<Rightarrow> team_store \<Rightarrow> team_store" where
  "put_task t s = s\<lparr>tm_tasks := jmap_set (tk_id t) t (tm_tasks s)\<rparr>"

definition put_mail :: "team_mail \<Rightarrow> team_store \<Rightarrow> team_store" where
  "put_mail m s = s\<lparr>tm_messages := jmap_set (ml_id m) m (tm_messages s)\<rparr>"

definition put_team_run :: "team_run \<Rightarrow> team_store \<Rightarrow> team_store" where
  "put_team_run r s = s\<lparr>tm_runs := jmap_set (tr_id r) r (tm_runs s)\<rparr>"

definition put_dispatch :: "team_dispatch \<Rightarrow> team_store \<Rightarrow> team_store" where
  "put_dispatch d s = s\<lparr>tm_dispatches := jmap_set (td_id d) d (tm_dispatches s)\<rparr>"

definition required_team :: "string \<Rightarrow> team tact" where
  "required_team i = act_get (\<lambda>s. act_need ''team_not_found'' (jmap_get (tm_teams s) i))"

definition required_task :: "string \<Rightarrow> team_task tact" where
  "required_task i = act_get (\<lambda>s. act_need ''team_task_not_found'' (jmap_get (tm_tasks s) i))"

definition find_member :: "team \<Rightarrow> string \<Rightarrow> team_member option" where
  "find_member t i = find (\<lambda>m. tb_id m = i) (tt_members t)"

definition required_member :: "team \<Rightarrow> string \<Rightarrow> team_member tact" where
  "required_member t i = act_need ''team_member_not_found'' (find_member t i)"

text \<open>\<open>transaction\<close>: a throw restores the maps and the events, whatever was done before it.\<close>

definition rolled_back :: "team_store \<Rightarrow> team_store \<Rightarrow> team_store" where
  "rolled_back s t = t\<lparr>tm_teams := tm_teams s, tm_tasks := tm_tasks s, tm_messages := tm_messages s,
     tm_events := tm_events s, tm_sequence := tm_sequence s, tm_runs := tm_runs s, tm_dispatches := tm_dispatches s,
     tm_operations := tm_operations s, tm_batch := False\<rparr>"

definition transaction :: "'a tact \<Rightarrow> 'a tact" where
  "transaction perform = (\<lambda>s.
     if tm_batch s then perform s
     else case perform (s\<lparr>tm_batch := True\<rparr>) of
            (Inr a, t) \<Rightarrow> (Inr a, team_save (t\<lparr>tm_batch := False\<rparr>))
          | (Inl e, t) \<Rightarrow> (Inl e, rolled_back s t))"

section \<open>Members, runs and dispatches\<close>

definition map_member :: "string \<Rightarrow> (team_member \<Rightarrow> team_member) \<Rightarrow> team_member list \<Rightarrow> team_member list" where
  "map_member i f ms = map (\<lambda>m. if tb_id m = i then f m else m) ms"

definition idle_member :: "nat \<Rightarrow> string \<Rightarrow> string \<Rightarrow> bool \<Rightarrow> unit tact" where
  "idle_member now i member failed =
     act_bind (required_team i) (\<lambda>t.
       act_do (put_team (t\<lparr>tt_members := map_member member (\<lambda>m. m\<lparr>tb_status := (if failed then Member_Error else Member_Idle)\<rparr>)
           (tt_members t), tt_updated := now\<rparr>)))"

definition run_over :: "team_run_status \<Rightarrow> bool" where
  "run_over st \<longleftrightarrow> st = Run_Completed \<or> st = Run_Cancelled"

definition team_runs :: "string \<Rightarrow> team_run list tact" where
  "team_runs i = act_seq (required_team i)
     (act_get (\<lambda>s. act_return (filter (\<lambda>r. tr_team r = i) (map snd (tm_runs s)))))"

definition find_last :: "('v \<Rightarrow> bool) \<Rightarrow> 'v list \<Rightarrow> 'v option" where
  "find_last P xs = find P (rev xs)"

definition new_run :: "string \<Rightarrow> string \<Rightarrow> string \<Rightarrow> nat \<Rightarrow> team_run" where
  "new_run r i input now = \<lparr>tr_id = r, tr_team = i, tr_input = input, tr_status = Run_Running, tr_segment = 1,
     tr_dispatches = 0, tr_recruited = 0, tr_reason = None, tr_result = None, tr_created = now, tr_updated = now\<rparr>"

definition ensure_run :: "(nat \<Rightarrow> string) \<Rightarrow> nat \<Rightarrow> string \<Rightarrow> string \<Rightarrow> team_run tact" where
  "ensure_run uuid now i input =
     act_bind (team_runs i) (\<lambda>rs.
       case find_last (\<lambda>r. \<not> run_over (tr_status r)) rs of
         Some r \<Rightarrow> act_return r
       | None \<Rightarrow>
           act_bind (new_id uuid run_key) (\<lambda>k.
             let r = new_run k i input now
             in act_seq (act_do (put_team_run r))
                 (act_seq (act_do (push_event uuid now i Run_Updated k)) (act_return r))))"

definition max_fanout :: nat where
  "max_fanout = 4"

definition max_depth :: nat where
  "max_depth = 8"

text \<open>\<open>registerEdge\<close>: the member becomes one of those the parent turn has called; gives the depth.\<close>

definition register_edge :: "(nat \<Rightarrow> string) \<Rightarrow> nat \<Rightarrow> team_run \<Rightarrow> string \<Rightarrow> string option \<Rightarrow> nat tact" where
  "register_edge uuid now r member parent_id =
     act_get (\<lambda>s.
       let parent = (case parent_id of None \<Rightarrow> None | Some p \<Rightarrow> if p = [] then None else jmap_get (tm_dispatches s) p)
       in act_seq (act_check ''team_dispatch_expired''
            (case parent of None \<Rightarrow> True | Some p \<Rightarrow> td_run p = tr_id r \<and> td_status p \<noteq> Turn_Cancelled))
          (act_seq (act_check ''team_run_finished'' (\<not> run_over (tr_status r)))
            (let called = (case parent of None \<Rightarrow> [] | Some p \<Rightarrow> js_set (td_fanout p));
                 targets = (if member \<in> set called then called else called @ [member]);
                 depth = (case parent of None \<Rightarrow> 0 | Some p \<Rightarrow> td_depth p + 1)
             in act_seq (case parent of None \<Rightarrow> act_return () | Some p \<Rightarrow> act_do (put_dispatch (p\<lparr>td_fanout := targets\<rparr>)))
                (act_seq (if max_fanout < length targets \<or> max_depth < depth
                  then act_bind (act_get (\<lambda>u. act_need ''TypeError'' (jmap_get (tm_runs u) (tr_id r)))) (\<lambda>q.
                    act_seq (act_do (put_team_run (q\<lparr>tr_status := Run_Paused_Limit,
                        tr_reason := Some (if max_fanout < length targets then ''fanout_limit'' else ''depth_limit''),
                        tr_updated := now\<rparr>)))
                      (act_do (push_event uuid now (tr_team r) Run_Updated (tr_id r))))
                  else act_return ())
                (act_return depth)))))"

definition new_dispatch ::
  "string \<Rightarrow> team_run \<Rightarrow> string \<Rightarrow> string \<Rightarrow> string option \<Rightarrow> string option \<Rightarrow> string list \<Rightarrow> nat \<Rightarrow> nat \<Rightarrow> team_dispatch" where
  "new_dispatch k r member input parent task mails depth now =
     \<lparr>td_id = k, td_team = tr_team r, td_run = tr_id r, td_member = member, td_task = task, td_messages = mails,
      td_input = input, td_parent = parent, td_depth = depth, td_fanout = [], td_status = Turn_Queued, td_turn = None,
      td_submitted = None, td_not_before = None, td_result = None, td_error = None, td_created = now, td_finished = None\<rparr>"

definition enqueue :: "(nat \<Rightarrow> string) \<Rightarrow> nat \<Rightarrow> team_run \<Rightarrow> string \<Rightarrow> string \<Rightarrow> string option \<Rightarrow> string option \<Rightarrow>
    string list \<Rightarrow> unit tact" where
  "enqueue uuid now r member input parent task mails =
     act_bind (register_edge uuid now r member parent) (\<lambda>depth.
       act_bind (new_id uuid dispatch_key) (\<lambda>k.
         act_seq (act_do (put_dispatch (new_dispatch k r member input parent task mails depth now)))
           (act_do (push_event uuid now (tr_team r) Dispatch_Updated k))))"

text \<open>
  \<open>validateDependencies\<close>. The recursion of \<open>visit\<close> shares the set of tasks seen, so it is a walk over a list of
  tasks still to visit: those a task depends on come before the rest.
\<close>

function visit :: "(string \<times> team_task) list \<Rightarrow> string \<Rightarrow> string option \<Rightarrow> string list \<Rightarrow> string list \<Rightarrow> string option" where
  "visit tasks i target seen [] = None"
| "visit tasks i target seen (x # rest) =
     (if Some x = target then Some ''team_task_dependency_cycle''
      else if x \<in> set seen then visit tasks i target seen rest
      else case jmap_get tasks x of
             None \<Rightarrow> Some ''team_task_not_found''
           | Some t \<Rightarrow>
               (if tk_team t \<noteq> i then Some ''team_task_dependency_other_team''
                else visit tasks i target (x # seen) (tk_depends t @ rest)))"
  by pat_completeness auto

lemma unseen_less:
  assumes "jmap_get tasks x = Some t" "x \<notin> set seen"
  shows "card (fst ` set tasks - insert x (set seen)) < card (fst ` set tasks - set seen)"
proof (rule psubset_card_mono)
  have "x \<in> fst ` set tasks" using assms(1) by (force dest: map_of_SomeD)
  with assms(2) show "fst ` set tasks - insert x (set seen) \<subset> fst ` set tasks - set seen" by auto
qed simp

termination visit
  by (relation "measures [\<lambda>(tasks, i, target, seen, xs). card (set (jkeys tasks) - set seen),
      \<lambda>(tasks, i, target, seen, xs). length xs]")
     (auto intro: unseen_less)

definition validate_dependencies :: "string \<Rightarrow> string list \<Rightarrow> string option \<Rightarrow> unit tact" where
  "validate_dependencies i ids target =
     act_seq (act_check ''invalid_task_dependencies'' (distinct ids))
       (act_get (\<lambda>s. act_each (\<lambda>x. case visit (tm_tasks s) i target [] [x] of None \<Rightarrow> act_return () | Some e \<Rightarrow> act_fail e) ids))"

section \<open>Teams and members\<close>

record team_input =
  ti_name :: string
  ti_workspace :: string
  ti_lead :: string
  ti_engine :: string
  ti_acp :: "string option"
  ti_preset :: string
  ti_model :: "string option"
  ti_effort :: "string option"
  ti_permission :: "string option"

definition text_or_none :: "nat \<Rightarrow> string option \<Rightarrow> bool" where
  "text_or_none n x = (case x of None \<Rightarrow> True | Some t \<Rightarrow> parse_text n t \<noteq> None)"

text \<open>\<open>teamCreateSchema.parse\<close>; the fields that the store uses are the names.\<close>

definition parse_team_input :: "team_input \<Rightarrow> team_input option" where
  "parse_team_input v =
     (case (parse_text 120 (ti_name v), parse_text 120 (ti_lead v)) of
        (Some n, Some l) \<Rightarrow>
          (if ti_workspace v \<noteq> [] \<and> ti_engine v \<in> set engine_ids \<and> ti_acp v \<noteq> Some [] \<and> ti_preset v \<noteq> [] \<and>
              text_or_none 200 (ti_model v) \<and> text_or_none 80 (ti_effort v) \<and>
              ti_permission v \<in> {None, Some ''read_only'', Some ''workspace_write'', Some ''full_access''}
           then Some (v\<lparr>ti_name := n, ti_lead := l\<rparr>) else None)
      | _ \<Rightarrow> None)"

definition new_member :: "string \<Rightarrow> string \<Rightarrow> string \<Rightarrow> string \<Rightarrow> string option \<Rightarrow> string \<Rightarrow> team_role \<Rightarrow> nat \<Rightarrow> team_member" where
  "new_member i sid name engine acp preset role now = \<lparr>tb_id = i, tb_name = name, tb_engine = engine, tb_acp = acp,
     tb_preset = preset, tb_role = role, tb_status = Member_Idle, tb_session = Some sid, tb_created = now\<rparr>"

definition team_create :: "(nat \<Rightarrow> string) \<Rightarrow> nat \<Rightarrow> team_input \<Rightarrow> team tact" where
  "team_create uuid now input =
     act_bind (parsed (parse_team_input input)) (\<lambda>v.
     act_bind (new_id uuid team_key) (\<lambda>i.
     act_bind (new_id uuid member_key) (\<lambda>k.
     act_bind (new_id uuid session_key) (\<lambda>sid.
     act_bind (parsed (parse_member (new_member k sid (ti_lead v) (ti_engine v) (ti_acp v) (ti_preset v) Lead now))) (\<lambda>lead.
     act_bind (parsed (parse_team \<lparr>tt_id = i, tt_version = 1, tt_name = ti_name v, tt_workspace = ti_workspace v,
         tt_mode = None, tt_members = [lead], tt_created = now, tt_updated = now\<rparr>)) (\<lambda>t.
     act_seq (act_do (put_team t)) (act_seq (announce uuid now i Team_Created i) (act_return t))))))))"

text \<open>The body of an update: an absent field is \<open>None\<close>, \<open>sessionMode: null\<close> is \<open>Some None\<close>.\<close>

record team_patch =
  tp_name :: "string option"
  tp_mode :: "string option option"
  tp_members :: "string list option"

definition lead_of :: "team \<Rightarrow> team_member option" where
  "lead_of t = find (\<lambda>m. tb_role m = Lead) (tt_members t)"

definition member_order_ok :: "team \<Rightarrow> string list \<Rightarrow> bool" where
  "member_order_ok t ids \<longleftrightarrow> length ids = length (tt_members t) \<and> card (set ids) = length (tt_members t) \<and>
     (case ids of [] \<Rightarrow> None | i # _ \<Rightarrow> Some i) = map_option tb_id (lead_of t) \<and>
     list_all (\<lambda>i. find_member t i \<noteq> None) ids"

definition team_update :: "(nat \<Rightarrow> string) \<Rightarrow> nat \<Rightarrow> string \<Rightarrow> nat \<Rightarrow> team_patch \<Rightarrow> team tact" where
  "team_update uuid now i expected p =
     act_bind (required_team i) (\<lambda>t.
     act_seq (act_check ''team_version_conflict'' (tt_version t = expected))
     (act_seq (act_check ''invalid_member_order''
        (case tp_members p of None \<Rightarrow> True | Some ids \<Rightarrow> member_order_ok t ids))
     (act_bind (parsed (parse_team (t\<lparr>
         tt_members := (case tp_members p of None \<Rightarrow> tt_members t | Some ids \<Rightarrow> map (\<lambda>x. the (find_member t x)) ids),
         tt_name := (case tp_name p of None \<Rightarrow> tt_name t | Some n \<Rightarrow> n),
         tt_mode := (case tp_mode p of None \<Rightarrow> tt_mode t | Some m \<Rightarrow> m),
         tt_version := tt_version t + 1, tt_updated := now\<rparr>))) (\<lambda>u.
      act_seq (act_do (put_team u))
       (act_seq (announce uuid now i (if tp_name p = None then Team_Updated else Team_Renamed) i)
         (act_return u))))))"

record member_input =
  mi_name :: string
  mi_engine :: string
  mi_preset :: string
  mi_acp :: "string option"

definition same_name :: "string \<Rightarrow> team_member \<Rightarrow> bool" where
  "same_name n m \<longleftrightarrow> js_lower (tb_name m) = js_lower (js_trim n)"

definition add_member :: "(nat \<Rightarrow> string) \<Rightarrow> nat \<Rightarrow> string \<Rightarrow> member_input \<Rightarrow> team tact" where
  "add_member uuid now i input =
     act_bind (required_team i) (\<lambda>t.
     act_seq (act_check ''team_member_name_conflict'' (\<not> list_ex (same_name (mi_name input)) (tt_members t)))
     (act_bind (new_id uuid member_key) (\<lambda>k.
      act_bind (new_id uuid session_key) (\<lambda>sid.
      act_bind (parsed (parse_member
          (new_member k sid (mi_name input) (mi_engine input) (mi_acp input) (mi_preset input) Member now))) (\<lambda>m.
      act_bind (parsed (parse_team (t\<lparr>tt_version := tt_version t + 1, tt_members := tt_members t @ [m],
          tt_updated := now\<rparr>))) (\<lambda>u.
      act_seq (act_do (put_team u)) (act_seq (announce uuid now i Member_Added (tb_id m)) (act_return u))))))))"

record member_patch =
  mp_name :: "string option"
  mp_engine :: "string option"
  mp_preset :: "string option"
  mp_acp :: "string option"

definition changed_engine :: "member_patch \<Rightarrow> team_member \<Rightarrow> bool" where
  "changed_engine p m \<longleftrightarrow> (mp_engine p \<noteq> None \<and> mp_engine p \<noteq> Some (tb_engine m)) \<or>
     (mp_preset p \<noteq> None \<and> mp_preset p \<noteq> Some (tb_preset m)) \<or> (mp_acp p \<noteq> None \<and> mp_acp p \<noteq> tb_acp m)"

definition patched_member :: "member_patch \<Rightarrow> string option \<Rightarrow> team_member \<Rightarrow> team_member" where
  "patched_member p sid m = m\<lparr>tb_name := (case mp_name p of None \<Rightarrow> tb_name m | Some n \<Rightarrow> n),
     tb_engine := (case mp_engine p of None \<Rightarrow> tb_engine m | Some e \<Rightarrow> e),
     tb_preset := (case mp_preset p of None \<Rightarrow> tb_preset m | Some q \<Rightarrow> q),
     tb_acp := (if mp_acp p = None then tb_acp m else mp_acp p),
     tb_session := (if sid = None then tb_session m else sid)\<rparr>"

definition update_member :: "(nat \<Rightarrow> string) \<Rightarrow> nat \<Rightarrow> string \<Rightarrow> string \<Rightarrow> member_patch \<Rightarrow> team tact" where
  "update_member uuid now i k p =
     act_bind (required_team i) (\<lambda>t.
     act_bind (required_member t k) (\<lambda>m.
     act_seq (act_check ''team_member_busy'' (tb_status m \<noteq> Member_Running))
     (act_seq (act_check ''team_member_name_conflict''
        (case mp_name p of None \<Rightarrow> True
         | Some n \<Rightarrow> \<not> list_ex (\<lambda>x. tb_id x \<noteq> k \<and> same_name n x) (tt_members t)))
     (act_bind (if changed_engine p m then act_bind (new_id uuid session_key) (\<lambda>sid. act_return (Some sid))
                else act_return None) (\<lambda>sid.
      act_bind (parsed (parse_member (patched_member p sid m))) (\<lambda>v.
      act_bind (parsed (parse_team (t\<lparr>tt_version := tt_version t + 1, tt_members := map_member k (\<lambda>_. v) (tt_members t),
          tt_updated := now\<rparr>))) (\<lambda>u.
      act_seq (act_do (put_team u))
       (act_seq (announce uuid now i (if mp_name p \<noteq> None \<and> mp_name p \<noteq> Some (tb_name m) then Member_Renamed else Team_Updated) k)
         (act_return u)))))))))"

definition turn_open :: "dispatch_status \<Rightarrow> bool" where
  "turn_open st \<longleftrightarrow> st = Turn_Queued \<or> st = Turn_Running"

definition task_open :: "task_status \<Rightarrow> bool" where
  "task_open st \<longleftrightarrow> st = Task_Queued \<or> st = Task_Running"

definition team_dispatches :: "team_store \<Rightarrow> team_dispatch list" where
  "team_dispatches s = map snd (tm_dispatches s)"

definition team_tasks :: "string \<Rightarrow> team_task list tact" where
  "team_tasks i = act_seq (required_team i)
     (act_get (\<lambda>s. act_return (sort_key tk_created (filter (\<lambda>t. tk_team t = i) (map snd (tm_tasks s))))))"

definition remove_team_member :: "(nat \<Rightarrow> string) \<Rightarrow> nat \<Rightarrow> string \<Rightarrow> string \<Rightarrow> team tact" where
  "remove_team_member uuid now i k =
     act_bind (required_team i) (\<lambda>t.
     act_bind (required_member t k) (\<lambda>m.
     act_seq (act_check ''team_lead_cannot_be_removed'' (tb_role m \<noteq> Lead))
     (act_bind (team_tasks i) (\<lambda>ts.
      act_get (\<lambda>s.
      act_seq (act_check ''team_member_busy'' (\<not> (tb_status m = Member_Running \<or>
          list_ex (\<lambda>d. td_member d = k \<and> turn_open (td_status d)) (team_dispatches s) \<or>
          list_ex (\<lambda>x. tk_member x = k \<and> task_open (tk_status x)) ts)))
      (act_bind (parsed (parse_team (t\<lparr>tt_version := tt_version t + 1,
          tt_members := filter (\<lambda>x. tb_id x \<noteq> k) (tt_members t), tt_updated := now\<rparr>))) (\<lambda>u.
       act_seq (act_do (put_team u)) (act_seq (announce uuid now i Member_Removed k) (act_return u)))))))))"

definition jmap_only :: "('v \<Rightarrow> bool) \<Rightarrow> (string \<times> 'v) list \<Rightarrow> (string \<times> 'v) list" where
  "jmap_only P m = filter (\<lambda>p. P (snd p)) m"

definition team_forgotten :: "string \<Rightarrow> team_store \<Rightarrow> team_store" where
  "team_forgotten i s = s\<lparr>tm_teams := jmap_delete i (tm_teams s),
     tm_runs := jmap_only (\<lambda>r. tr_team r \<noteq> i) (tm_runs s),
     tm_dispatches := jmap_only (\<lambda>d. td_team d \<noteq> i) (tm_dispatches s),
     tm_operations := filter (\<lambda>p. take (length i + 1) (fst p) \<noteq> i @ '':'') (tm_operations s),
     tm_tasks := jmap_only (\<lambda>t. tk_team t \<noteq> i) (tm_tasks s),
     tm_messages := jmap_only (\<lambda>m. ml_team m \<noteq> i) (tm_messages s),
     tm_events := filter (\<lambda>e. \<not> (ev_team e = i \<and> ev_type e \<noteq> Team_Removed)) (tm_events s)\<rparr>"

definition team_delete :: "(nat \<Rightarrow> string) \<Rightarrow> nat \<Rightarrow> string \<Rightarrow> unit tact" where
  "team_delete uuid now i =
     act_seq (required_team i)
     (act_bind (team_tasks i) (\<lambda>ts.
      act_get (\<lambda>s.
      act_seq (act_check ''team_has_active_task''
        (\<not> (list_ex (\<lambda>d. td_team d = i \<and> turn_open (td_status d)) (team_dispatches s) \<or>
            list_ex (\<lambda>x. task_open (tk_status x)) ts)))
      (act_do (\<lambda>u. team_save (team_forgotten i (push_event uuid now i Team_Removed i u)))))))"

section \<open>Tasks\<close>

record task_input =
  ki_member :: string
  ki_title :: string
  ki_input :: string
  ki_depends :: "string list"
  ki_creator :: "string option"

definition queue_task_in :: "(nat \<Rightarrow> string) \<Rightarrow> nat \<Rightarrow> string \<Rightarrow> task_input \<Rightarrow> string option \<Rightarrow> team_task tact" where
  "queue_task_in uuid now i input parent =
     act_bind (required_team i) (\<lambda>t.
     act_bind (required_member t (ki_member input)) (\<lambda>m.
     act_seq (validate_dependencies i (ki_depends input) None)
     (act_bind (new_id uuid team_task_key) (\<lambda>k.
      act_bind (parsed (parse_task \<lparr>tk_id = k, tk_team = i, tk_member = ki_member input, tk_version = 1,
          tk_depends = ki_depends input, tk_creator = ki_creator input, tk_title = ki_title input,
          tk_input = ki_input input, tk_status = Task_Queued, tk_session = None, tk_result = None, tk_error = None,
          tk_created = now, tk_started = None, tk_finished = None\<rparr>)) (\<lambda>task.
      act_seq (act_do (put_task task))
      (act_bind (ensure_run uuid now i (tk_input task)) (\<lambda>r.
       act_seq (enqueue uuid now r (tk_member task) (tk_input task) parent (Some (tk_id task)) [])
       (act_seq (announce uuid now i Event_Queued (tk_id task)) (act_return task)))))))))"

definition queue_task :: "(nat \<Rightarrow> string) \<Rightarrow> nat \<Rightarrow> string \<Rightarrow> task_input \<Rightarrow> string option \<Rightarrow> team_task tact" where
  "queue_task uuid now i input parent = transaction (queue_task_in uuid now i input parent)"

definition claim_queued :: "team_store \<Rightarrow> team_task list" where
  "claim_queued s = sort_key tk_created (filter (\<lambda>t. tk_status t = Task_Queued) (map snd (tm_tasks s)))"

definition dependency_pending :: "team_store \<Rightarrow> team_task \<Rightarrow> bool" where
  "dependency_pending s t \<longleftrightarrow>
     list_ex (\<lambda>i. map_option tk_status (jmap_get (tm_tasks s) i) \<noteq> Some Task_Succeeded) (tk_depends t)"

definition begin_task :: "(nat \<Rightarrow> string) \<Rightarrow> nat \<Rightarrow> string \<Rightarrow> (team_task \<times> team_member \<times> team) tact" where
  "begin_task uuid now k =
     act_bind (required_task k) (\<lambda>task.
     act_seq (act_check ''team_task_not_queued'' (tk_status task = Task_Queued))
     (act_bind (required_team (tk_team task)) (\<lambda>t.
      act_bind (required_member t (tk_member task)) (\<lambda>m.
      act_get (\<lambda>s.
      act_seq (act_check ''team_task_blocked'' (\<not> dependency_pending s task))
      (act_seq (act_check ''team_member_busy'' (tb_status m \<noteq> Member_Running))
      (act_bind (parsed (parse_task (task\<lparr>tk_status := Task_Running, tk_started := Some now\<rparr>))) (\<lambda>task2.
       act_bind (if tb_session m = None then new_id uuid session_key else act_return (the (tb_session m))) (\<lambda>sid.
       act_bind (parsed (parse_member (m\<lparr>tb_status := Member_Running, tb_session := Some sid\<rparr>))) (\<lambda>running.
       act_bind (parsed (parse_team (t\<lparr>tt_members := map_member (tb_id m) (\<lambda>_. running) (tt_members t),
           tt_updated := now\<rparr>))) (\<lambda>t2.
       act_seq (act_do (put_task task2))
       (act_seq (act_do (put_team t2))
       (act_seq (announce uuid now (tt_id t) Event_Started k) (act_return (task2, running, t2)))))))))))))))"

text \<open>What a turn ends with: the session and the result, or an error.\<close>

datatype turn_end = Turn_Done string "string option" | Turn_Error string

definition finish_task :: "(nat \<Rightarrow> string) \<Rightarrow> nat \<Rightarrow> string \<Rightarrow> turn_end \<Rightarrow> team_task tact" where
  "finish_task uuid now k outcome =
     act_bind (required_task k) (\<lambda>task.
     if tk_status task = Task_Cancelled then act_return task
     else act_seq (act_check ''team_task_not_running'' (tk_status task = Task_Running))
       (act_bind (parsed (parse_task (case outcome of
            Turn_Done sid res \<Rightarrow> task\<lparr>tk_status := Task_Succeeded, tk_session := Some sid, tk_result := res,
              tk_error := None, tk_finished := Some now\<rparr>
          | Turn_Error e \<Rightarrow> task\<lparr>tk_status := Task_Failed, tk_session := None, tk_result := None,
              tk_error := Some e, tk_finished := Some now\<rparr>))) (\<lambda>task2.
        act_seq (act_do (put_task task2))
        (act_seq (idle_member now (tk_team task) (tk_member task) (tk_status task2 = Task_Failed))
        (act_seq (announce uuid now (tk_team task)
            (if tk_status task2 = Task_Failed then Event_Failed else Event_Completed) k)
         (act_return task2))))))"

text \<open>A loop over the values of the map of dispatches, which changes them while it runs.\<close>

definition each_dispatch :: "(team_dispatch \<Rightarrow> unit tact) \<Rightarrow> unit tact" where
  "each_dispatch f = act_get (\<lambda>s. act_each (\<lambda>k.
     act_get (\<lambda>u. case jmap_get (tm_dispatches u) k of None \<Rightarrow> act_return () | Some d \<Rightarrow> f d)) (jkeys (tm_dispatches s)))"

definition cancel_turn :: "nat \<Rightarrow> team_dispatch \<Rightarrow> unit tact" where
  "cancel_turn now d = act_do (put_dispatch (d\<lparr>td_status := Turn_Cancelled, td_finished := Some now\<rparr>))"

definition cancel_team_task :: "(nat \<Rightarrow> string) \<Rightarrow> nat \<Rightarrow> string \<Rightarrow> string \<Rightarrow> team_task tact" where
  "cancel_team_task uuid now i k =
     act_bind (required_task k) (\<lambda>task.
     act_seq (act_check ''team_task_not_found'' (tk_team task = i))
     (act_seq (act_check ''team_task_not_cancellable'' (task_open (tk_status task)))
     (act_bind (parsed (parse_task (task\<lparr>tk_status := Task_Cancelled, tk_finished := Some now\<rparr>))) (\<lambda>task2.
      act_seq (act_do (put_task task2))
      (act_seq (each_dispatch (\<lambda>d. if td_task d = Some k \<and> turn_open (td_status d) then cancel_turn now d else act_return ()))
      (act_seq (if tk_status task = Task_Running then idle_member now i (tk_member task) False else act_return ())
      (act_seq (announce uuid now i Event_Cancelled k) (act_return task2))))))))"

record task_patch =
  kp_title :: "string option"
  kp_input :: "string option"
  kp_depends :: "string list option"
  kp_status :: "bool option"
  kp_result :: "string option"

text \<open>\<open>kp_status\<close> is \<open>Some True\<close> for succeeded and \<open>Some False\<close> for failed. The texts are those the tool schema parsed.\<close>

definition patched_task :: "nat \<Rightarrow> task_patch \<Rightarrow> team_task \<Rightarrow> team_task" where
  "patched_task now p t = t\<lparr>tk_title := (case kp_title p of None \<Rightarrow> tk_title t | Some x \<Rightarrow> x),
     tk_input := (case kp_input p of None \<Rightarrow> tk_input t | Some x \<Rightarrow> x),
     tk_depends := (case kp_depends p of None \<Rightarrow> tk_depends t | Some x \<Rightarrow> x),
     tk_status := (case kp_status p of None \<Rightarrow> tk_status t | Some b \<Rightarrow> if b then Task_Succeeded else Task_Failed),
     tk_result := (if kp_result p = None then tk_result t else kp_result p),
     tk_version := tk_version t + 1,
     tk_finished := (if kp_status p = None then tk_finished t else Some now)\<rparr>"

definition update_task :: "(nat \<Rightarrow> string) \<Rightarrow> nat \<Rightarrow> string \<Rightarrow> string \<Rightarrow> nat \<Rightarrow> task_patch \<Rightarrow> string option \<Rightarrow> team_task tact" where
  "update_task uuid now i k version p caller =
     act_bind (required_task k) (\<lambda>task.
     act_seq (act_check ''team_task_not_found'' (tk_team task = i))
     (act_seq (act_check ''team_task_version_conflict'' (tk_version task = version))
     (act_seq (act_check ''team_task_not_running'' (kp_status p = None \<or> tk_status task = Task_Running))
     (act_seq (case caller of
          None \<Rightarrow> act_return ()
        | Some c \<Rightarrow>
            (if c = [] \<or> tk_member task = c then act_return ()
             else act_bind (required_team i) (\<lambda>t. act_bind (required_member t c) (\<lambda>m.
               act_check ''team_task_forbidden'' (tb_role m = Lead)))))
     (act_seq (case kp_depends p of None \<Rightarrow> act_return () | Some ids \<Rightarrow> validate_dependencies i ids (Some k))
     (act_seq (act_check ''team_task_already_started''
        (tk_status task = Task_Queued \<or> \<not> (kp_input p \<notin> {None, Some []} \<or> kp_depends p \<noteq> None)))
     (act_bind (parsed (parse_task (patched_task now p task))) (\<lambda>task2.
      act_seq (act_do (put_task task2))
      (act_seq (if kp_input p \<in> {None, Some []} then act_return ()
        else each_dispatch (\<lambda>d. if td_task d = Some k \<and> td_status d = Turn_Queued
               then act_do (put_dispatch (d\<lparr>td_input := the (kp_input p)\<rparr>)) else act_return ()))
      (act_seq (announce uuid now i Task_Updated k) (act_return task2)))))))))))"

section \<open>Messages\<close>

definition mails :: "string \<Rightarrow> string option \<Rightarrow> team_mail list tact" where
  "mails i member =
     act_bind (required_team i) (\<lambda>t.
     act_seq (case member of None \<Rightarrow> act_return () | Some k \<Rightarrow> act_bind (required_member t k) (\<lambda>_. act_return ()))
     (act_get (\<lambda>s. act_return (sort_key ml_created (filter (\<lambda>m. ml_team m = i \<and>
        (case member of None \<Rightarrow> True | Some k \<Rightarrow> ml_to m = None \<or> ml_to m = Some k \<or> ml_from m = Some k))
        (map snd (tm_messages s)))))))"

definition newline :: string where
  "newline = [CHR 0x0A]"

definition mail_text :: "string option \<Rightarrow> string \<Rightarrow> string" where
  "mail_text sender body = ''Team message ('' @ (case sender of None \<Rightarrow> ''the user'' | Some k \<Rightarrow> k) @ ''):'' @ newline @ body"

text \<open>The messages for a member who has not read the last ones yet are put into one turn.\<close>

definition takes_mail :: "string \<Rightarrow> string \<Rightarrow> team_dispatch \<Rightarrow> bool" where
  "takes_mail r member d \<longleftrightarrow> td_run d = r \<and> td_member d = member \<and> td_status d = Turn_Queued \<and> td_task d = None \<and>
     td_messages d \<noteq> []"

definition deliver :: "(nat \<Rightarrow> string) \<Rightarrow> nat \<Rightarrow> team_run \<Rightarrow> string \<Rightarrow> string \<Rightarrow> string option \<Rightarrow> string \<Rightarrow> unit tact" where
  "deliver uuid now r mail_id text parent member =
     act_get (\<lambda>s. case find (takes_mail (tr_id r) member) (team_dispatches s) of
       Some d \<Rightarrow>
         act_bind (register_edge uuid now r member parent) (\<lambda>depth.
           act_do (put_dispatch (d\<lparr>td_depth := max (td_depth d) depth, td_messages := td_messages d @ [mail_id],
             td_input := td_input d @ newline @ newline @ text\<rparr>)))
     | None \<Rightarrow> enqueue uuid now r member text parent None [mail_id])"

definition send_mail_in :: "(nat \<Rightarrow> string) \<Rightarrow> nat \<Rightarrow> string \<Rightarrow> string option \<Rightarrow> string option \<Rightarrow> string \<Rightarrow> string option \<Rightarrow>
    team_mail tact" where
  "send_mail_in uuid now i sender receiver body parent =
     act_bind (required_team i) (\<lambda>t.
     act_seq (case sender of None \<Rightarrow> act_return () | Some k \<Rightarrow> act_bind (required_member t k) (\<lambda>_. act_return ()))
     (act_seq (case receiver of None \<Rightarrow> act_return () | Some k \<Rightarrow> act_bind (required_member t k) (\<lambda>_. act_return ()))
     (act_bind (new_id uuid mail_key) (\<lambda>k.
      act_bind (parsed (parse_mail \<lparr>ml_id = k, ml_team = i, ml_from = sender, ml_to = receiver, ml_body = body,
          ml_created = now, ml_read = None\<rparr>)) (\<lambda>m.
      act_seq (act_do (put_mail m))
      (act_bind (ensure_run uuid now i body) (\<lambda>r.
       act_seq (act_each (deliver uuid now r (ml_id m) (mail_text sender body) parent)
         (case receiver of Some x \<Rightarrow> [x]
          | None \<Rightarrow> map tb_id (filter (\<lambda>x. Some (tb_id x) \<noteq> sender) (tt_members t))))
       (act_seq (announce uuid now i Mail_Received (ml_id m)) (act_return m)))))))))"

definition send_mail :: "(nat \<Rightarrow> string) \<Rightarrow> nat \<Rightarrow> string \<Rightarrow> string option \<Rightarrow> string option \<Rightarrow> string \<Rightarrow> string option \<Rightarrow>
    team_mail tact" where
  "send_mail uuid now i sender receiver body parent = transaction (send_mail_in uuid now i sender receiver body parent)"

definition team_events :: "string \<Rightarrow> nat \<Rightarrow> team_event list tact" where
  "team_events i later = act_seq (required_team i)
     (act_get (\<lambda>s. act_return (filter (\<lambda>e. ev_team e = i \<and> later < ev_sequence e) (tm_events s))))"

definition all_events :: "nat \<Rightarrow> team_store \<Rightarrow> team_event list" where
  "all_events later s = filter (\<lambda>e. later < ev_sequence e) (tm_events s)"

section \<open>Repeated calls\<close>

definition team_operation :: "string \<Rightarrow> string \<Rightarrow> team_result tact \<Rightarrow> team_result tact" where
  "team_operation i input perform =
     act_seq (act_check ''invalid_operation_id'' (operation_id_ok i))
     (act_get (\<lambda>s. case jmap_get (tm_operations s) i of
        Some (previous, result) \<Rightarrow>
          (if previous \<noteq> input then act_fail ''operation_id_conflict'' else act_return result)
      | None \<Rightarrow>
          transaction (act_bind perform (\<lambda>result.
            act_seq (act_do (\<lambda>u. u\<lparr>tm_operations := jmap_set i (input, result) (tm_operations u)\<rparr>))
              (act_return result)))))"

section \<open>Runs\<close>

definition start_run :: "(nat \<Rightarrow> string) \<Rightarrow> nat \<Rightarrow> string \<Rightarrow> string \<Rightarrow> string option \<Rightarrow> team_run tact" where
  "start_run uuid now i input member =
     act_seq (act_check ''invalid_team_input'' (js_trim input \<noteq> [] \<and> length input \<le> 65536))
     (act_bind (required_team i) (\<lambda>t.
      act_bind (case member of Some k \<Rightarrow> act_return k
                | None \<Rightarrow> act_bind (act_need ''TypeError'' (lead_of t)) (\<lambda>l. act_return (tb_id l))) (\<lambda>target.
      act_bind (required_member t target) (\<lambda>_.
      act_bind (ensure_run uuid now i input) (\<lambda>r.
      act_seq (act_check ''team_run_requires_resume'' (tr_status r = Run_Running))
      (act_seq (enqueue uuid now r target input None None [])
      (act_seq (act_do team_save) (act_return r))))))))"

datatype run_control = Control_Pause | Control_Resume | Control_Cancel

definition controlled :: "nat \<Rightarrow> run_control \<Rightarrow> team_run \<Rightarrow> team_run" where
  "controlled now c r =
     (let q = r\<lparr>tr_status := (case c of Control_Resume \<Rightarrow> Run_Running | Control_Pause \<Rightarrow> Run_Paused | Control_Cancel \<Rightarrow> Run_Cancelled),
                tr_reason := None, tr_updated := now\<rparr>
      in if c = Control_Resume then q\<lparr>tr_segment := tr_segment r + 1, tr_dispatches := 0, tr_recruited := 0\<rparr> else q)"

definition cancel_item :: "(nat \<Rightarrow> string) \<Rightarrow> nat \<Rightarrow> string \<Rightarrow> string \<Rightarrow> team_dispatch \<Rightarrow> unit tact" where
  "cancel_item uuid now i r d =
     (if td_run d \<noteq> r \<or> \<not> turn_open (td_status d) then act_return ()
      else act_seq (cancel_turn now d)
        (act_seq (case td_task d of None \<Rightarrow> act_return ()
          | Some k \<Rightarrow> if k = [] then act_return ()
              else act_bind (required_task k) (\<lambda>t.
                if task_open (tk_status t) then act_bind (cancel_team_task uuid now i k) (\<lambda>_. act_return ()) else act_return ()))
         (idle_member now i (td_member d) False)))"

definition resume_text :: string where
  "resume_text = ''The user asks to continue the goal of the team. The last run was interrupted and what was sent may have happened; '' @
     ''check the sessions of the members and the files first, and do not blindly repeat outside operations.''"

definition control_run_in :: "(nat \<Rightarrow> string) \<Rightarrow> nat \<Rightarrow> string \<Rightarrow> string \<Rightarrow> run_control \<Rightarrow> team_run tact" where
  "control_run_in uuid now i k c =
     act_get (\<lambda>s. case jmap_get (tm_runs s) k of
       None \<Rightarrow> act_fail ''team_run_not_found''
     | Some r \<Rightarrow>
         act_seq (act_check ''team_run_not_found'' (tr_team r = i))
         (act_seq (act_check ''team_run_finished'' (\<not> run_over (tr_status r)))
         (act_seq (act_do (\<lambda>u. u\<lparr>tm_runs := jmap_set k (controlled now c r) (tm_runs u)\<rparr>))
         (act_seq (if c = Control_Cancel then each_dispatch (cancel_item uuid now i k) else act_return ())
         (act_seq (if c \<noteq> Control_Resume then act_return ()
           else act_seq (each_dispatch (\<lambda>d. if td_run d = k \<and> td_status d = Turn_Queued
                  then act_do (put_dispatch (d\<lparr>td_depth := 0, td_parent := None\<rparr>)) else act_return ()))
             (if tr_status r = Run_Interrupted \<or> tr_reason r = Some ''dependency_failed''
              then act_bind (required_team i) (\<lambda>t. act_bind (act_need ''TypeError'' (lead_of t)) (\<lambda>l.
                enqueue uuid now (controlled now c r) (tb_id l) resume_text None None []))
              else act_return ()))
         (act_seq (announce uuid now i Run_Updated k) (act_return (controlled now c r))))))))"

definition control_run :: "(nat \<Rightarrow> string) \<Rightarrow> nat \<Rightarrow> string \<Rightarrow> string \<Rightarrow> run_control \<Rightarrow> team_run tact" where
  "control_run uuid now i k c = transaction (control_run_in uuid now i k c)"

definition max_recruited :: nat where
  "max_recruited = 8"

definition recruit_in :: "(nat \<Rightarrow> string) \<Rightarrow> nat \<Rightarrow> string \<Rightarrow> string \<Rightarrow> member_input \<Rightarrow> team tact" where
  "recruit_in uuid now i parent input =
     act_get (\<lambda>s. case jmap_get (tm_dispatches s) parent of
       None \<Rightarrow> act_fail ''team_dispatch_expired''
     | Some p \<Rightarrow>
         act_seq (act_check ''team_dispatch_expired'' (td_team p = i \<and> td_status p = Turn_Running))
         (act_bind (act_need ''TypeError'' (jmap_get (tm_runs s) (td_run p))) (\<lambda>r.
          act_seq (act_check ''team_run_paused'' (tr_status r = Run_Running))
          (act_seq (act_check ''team_recruit_limit'' (tr_recruited r < max_recruited))
          (act_bind (add_member uuid now i input) (\<lambda>t.
           act_seq (act_do (put_team_run (
               let q = r\<lparr>tr_recruited := tr_recruited r + 1\<rparr>
               in if max_recruited \<le> tr_recruited r + 1
                  then q\<lparr>tr_status := Run_Paused_Limit, tr_reason := Some ''recruit_limit''\<rparr> else q)))
           (act_seq (announce uuid now i Run_Updated (tr_id r)) (act_return t))))))))"

definition recruit :: "(nat \<Rightarrow> string) \<Rightarrow> nat \<Rightarrow> string \<Rightarrow> string \<Rightarrow> member_input \<Rightarrow> team tact" where
  "recruit uuid now i parent input = transaction (recruit_in uuid now i parent input)"

text \<open>Runs whose work all waits for a task that failed.\<close>

fun some_failed :: "(string \<times> team_task) list \<Rightarrow> string list \<Rightarrow> string + bool" where
  "some_failed tasks [] = Inr False"
| "some_failed tasks (x # xs) =
     (case jmap_get tasks x of
        None \<Rightarrow> Inl ''team_task_not_found''
      | Some t \<Rightarrow> if tk_status t = Task_Failed \<or> tk_status t = Task_Cancelled then Inr True else some_failed tasks xs)"

fun can_go_on :: "(string \<times> team_task) list \<Rightarrow> team_dispatch list \<Rightarrow> string + bool" where
  "can_go_on tasks [] = Inr False"
| "can_go_on tasks (d # ds) =
     (if td_status d = Turn_Running then Inr True
      else case td_task d of
             None \<Rightarrow> Inr True
           | Some k \<Rightarrow>
               (case jmap_get tasks k of
                  None \<Rightarrow> Inl ''team_task_not_found''
                | Some t \<Rightarrow>
                    (case some_failed tasks (tk_depends t) of
                       Inl e \<Rightarrow> Inl e
                     | Inr True \<Rightarrow> can_go_on tasks ds
                     | Inr False \<Rightarrow> Inr True)))"

definition run_dispatches :: "string \<Rightarrow> team_store \<Rightarrow> team_dispatch list" where
  "run_dispatches r s = filter (\<lambda>d. td_run d = r) (team_dispatches s)"

definition pause_blocked :: "(nat \<Rightarrow> string) \<Rightarrow> nat \<Rightarrow> string \<Rightarrow> unit tact" where
  "pause_blocked uuid now k =
     act_get (\<lambda>s. case jmap_get (tm_runs s) k of
       None \<Rightarrow> act_return ()
     | Some r \<Rightarrow>
         (if tr_status r \<noteq> Run_Running then act_return ()
          else let outstanding = filter (\<lambda>d. turn_open (td_status d)) (run_dispatches k s)
               in if outstanding = [] then act_return ()
                  else case can_go_on (tm_tasks s) outstanding of
                         Inl e \<Rightarrow> act_fail e
                       | Inr True \<Rightarrow> act_return ()
                       | Inr False \<Rightarrow>
                           act_seq (act_do (put_team_run (r\<lparr>tr_status := Run_Paused, tr_reason := Some ''dependency_failed'',
                               tr_updated := now\<rparr>)))
                             (announce uuid now (tr_team r) Run_Updated (tr_id r))))"

definition pause_blocked_runs :: "(nat \<Rightarrow> string) \<Rightarrow> nat \<Rightarrow> unit tact" where
  "pause_blocked_runs uuid now = act_get (\<lambda>s. act_each (pause_blocked uuid now) (jkeys (tm_runs s)))"

section \<open>Dispatches\<close>

definition run_is_running :: "team_store \<Rightarrow> team_dispatch \<Rightarrow> bool" where
  "run_is_running s d \<longleftrightarrow> map_option tr_status (jmap_get (tm_runs s) (td_run d)) = Some Run_Running"

definition due :: "nat \<Rightarrow> team_dispatch \<Rightarrow> bool" where
  "due now d \<longleftrightarrow> (case td_not_before d of None \<Rightarrow> True | Some t \<Rightarrow> t \<le> now)"

fun active_in :: "nat \<Rightarrow> team_store \<Rightarrow> team_dispatch list \<Rightarrow> string + bool" where
  "active_in now s [] = Inr False"
| "active_in now s (d # ds) =
     (if td_status d = Turn_Running then Inr True
      else if td_status d = Turn_Queued \<and> run_is_running s d \<and> due now d
      then (case td_task d of
              None \<Rightarrow> Inr True
            | Some k \<Rightarrow>
                (case jmap_get (tm_tasks s) k of
                   None \<Rightarrow> Inl ''team_task_not_found''
                 | Some t \<Rightarrow> if dependency_pending s t then active_in now s ds else Inr True))
      else active_in now s ds)"

definition has_active_work :: "nat \<Rightarrow> team_store \<Rightarrow> string + bool" where
  "has_active_work now s = active_in now s (team_dispatches s)"

definition wake_time :: "team_store \<Rightarrow> nat option" where
  "wake_time s =
     (case sort (List.map_filter td_not_before
        (filter (\<lambda>d. td_status d = Turn_Queued \<and> run_is_running s d) (team_dispatches s))) of
        [] \<Rightarrow> None | t # _ \<Rightarrow> Some t)"

definition queued_dispatches :: "nat \<Rightarrow> team_store \<Rightarrow> team_dispatch list" where
  "queued_dispatches now s = filter (\<lambda>d. td_status d = Turn_Queued \<and> run_is_running s d \<and> due now d) (team_dispatches s)"

text \<open>What the runner is asked to execute; a turn is known to it by the id of its dispatch.\<close>

record team_execution =
  tx_task :: string
  tx_run :: "string option"
  tx_logical :: "string option"
  tx_team :: string
  tx_member :: string
  tx_session :: "string option"
  tx_name :: string
  tx_engine :: string
  tx_acp :: "string option"
  tx_preset :: string
  tx_workspace :: string
  tx_input :: string
  tx_context :: "string option"

definition turn_context :: "team \<Rightarrow> team_member \<Rightarrow> team_run \<Rightarrow> string" where
  "turn_context t m r = ''You are the '' @ (if tb_role m = Lead then ''lead'' else ''member'') @ '' '' @ tb_name m @
     '' of the lasting team '' @ tt_name t @ ''. Use the team tools to look up members and tasks, to divide the work, and for '' @
     ''messages and dependencies. Only the lead may recruit; native sub-agents do not become lasting members. The lead '' @
     ''checks and sums up after the results of the members. Do not send each other confirmations without news.'' @
     newline @ ''Goal of the team: '' @ tr_input r @ newline @ newline"

definition max_concurrent :: nat where
  "max_concurrent = 4"

definition max_dispatches :: nat where
  "max_dispatches = 64"

definition begin_turn :: "(nat \<Rightarrow> string) \<Rightarrow> nat \<Rightarrow> team_dispatch \<Rightarrow> team_run \<Rightarrow> team \<Rightarrow> team_member \<Rightarrow> team_execution tact" where
  "begin_turn uuid now d r t m =
     act_seq (case td_task d of
         Some k \<Rightarrow> act_bind (begin_task uuid now k) (\<lambda>_. act_return ())
       | None \<Rightarrow> act_do (put_team (t\<lparr>tt_members := map_member (tb_id m) (\<lambda>x. x\<lparr>tb_status := Member_Running\<rparr>) (tt_members t)\<rparr>)))
     (act_seq (act_do (put_team_run (r\<lparr>tr_dispatches := tr_dispatches r + 1\<rparr>)))
     (act_seq (act_do (put_dispatch (d\<lparr>td_status := Turn_Running, td_not_before := None\<rparr>)))
     (act_seq (announce uuid now (tt_id t) Dispatch_Updated (td_id d))
      (act_return \<lparr>tx_task = td_id d, tx_run = Some (tr_id r), tx_logical = td_task d, tx_team = tt_id t, tx_member = tb_id m,
         tx_session = tb_session m, tx_name = tt_name t @ '' - '' @ tb_name m, tx_engine = tb_engine m, tx_acp = tb_acp m,
         tx_preset = tb_preset m, tx_workspace = tt_workspace t, tx_input = td_input d,
         tx_context = Some (turn_context t m r)\<rparr>))))"

definition begin_dispatch :: "(nat \<Rightarrow> string) \<Rightarrow> nat \<Rightarrow> string \<Rightarrow> team_execution tact" where
  "begin_dispatch uuid now k =
     act_get (\<lambda>s.
     act_bind (act_need ''TypeError'' (jmap_get (tm_dispatches s) k)) (\<lambda>d.
     act_bind (act_need ''TypeError'' (jmap_get (tm_runs s) (td_run d))) (\<lambda>r.
     act_seq (act_check ''team_dispatch_not_ready'' (td_status d = Turn_Queued \<and> tr_status r = Run_Running))
     (act_bind (required_team (td_team d)) (\<lambda>t.
      act_bind (required_member t (td_member d)) (\<lambda>m.
      act_seq (act_check ''team_member_busy'' (tb_status m \<noteq> Member_Running \<and>
          length (filter (\<lambda>x. td_status x = Turn_Running) (run_dispatches (td_run d) s)) < max_concurrent))
      (if max_dispatches \<le> tr_dispatches r \<or> max_depth < td_depth d
       then act_seq (act_do (put_team_run (r\<lparr>tr_status := Run_Paused_Limit,
                tr_reason := Some (if max_dispatches \<le> tr_dispatches r then ''dispatch_budget'' else ''depth_limit''),
                tr_updated := now\<rparr>)))
             (act_seq (announce uuid now (tt_id t) Run_Updated (tr_id r)) (act_fail ''team_run_limit''))
       else transaction (begin_turn uuid now d r t m))))))))"

definition submitted_dispatch :: "nat \<Rightarrow> string \<Rightarrow> string \<Rightarrow> unit tact" where
  "submitted_dispatch now k turn =
     act_get (\<lambda>s. act_bind (act_need ''TypeError'' (jmap_get (tm_dispatches s) k)) (\<lambda>d.
       if td_status d \<noteq> Turn_Running then act_return ()
       else act_seq (act_do (put_dispatch (d\<lparr>td_turn := Some turn, td_submitted := Some now\<rparr>)))
         (act_seq (act_each (\<lambda>m. act_bind (act_get (\<lambda>u. act_need ''TypeError'' (jmap_get (tm_messages u) m))) (\<lambda>x.
             act_do (\<lambda>u. u\<lparr>tm_messages := jmap_set m (x\<lparr>ml_read := Some now\<rparr>) (tm_messages u)\<rparr>))) (td_messages d))
          (act_do team_save))))"

definition defer_dispatch :: "nat \<Rightarrow> string \<Rightarrow> unit tact" where
  "defer_dispatch now k =
     act_get (\<lambda>s. act_bind (act_need ''TypeError'' (jmap_get (tm_dispatches s) k)) (\<lambda>d.
       if td_status d \<noteq> Turn_Running \<or> td_submitted d \<noteq> None then act_return ()
       else act_seq (act_do (put_dispatch (d\<lparr>td_status := Turn_Queued, td_not_before := Some (now + 1000)\<rparr>)))
         (act_bind (act_need ''TypeError'' (jmap_get (tm_runs s) (td_run d))) (\<lambda>r.
          act_seq (act_do (put_team_run (r\<lparr>tr_dispatches := tr_dispatches r - 1\<rparr>)))
          (act_seq (case td_task d of None \<Rightarrow> act_return ()
             | Some t \<Rightarrow> act_bind (required_task t) (\<lambda>x. act_do (put_task (x\<lparr>tk_status := Task_Queued, tk_started := None\<rparr>))))
          (act_seq (idle_member now (td_team d) (td_member d) False) (act_do team_save)))))))"

definition turn_mail :: "string \<Rightarrow> turn_end \<Rightarrow> string" where
  "turn_mail k e = ''Turn '' @ k @ (case e of
       Turn_Done sid res \<Rightarrow> '' completed:'' @ newline @ (case res of None \<Rightarrow> ''Done, please check the result.'' | Some x \<Rightarrow> x)
     | Turn_Error x \<Rightarrow> '' failed:'' @ newline @ x)"

definition is_error :: "turn_end \<Rightarrow> bool" where
  "is_error e = (case e of Turn_Error x \<Rightarrow> True | _ \<Rightarrow> False)"

definition ended :: "nat \<Rightarrow> turn_end \<Rightarrow> team_dispatch \<Rightarrow> team_dispatch" where
  "ended now e d = (case e of
     Turn_Done sid res \<Rightarrow> d\<lparr>td_status := Turn_Succeeded, td_result := res, td_error := None, td_finished := Some now\<rparr>
   | Turn_Error x \<Rightarrow> d\<lparr>td_status := Turn_Failed, td_result := None, td_error := Some x, td_finished := Some now\<rparr>)"

definition run_ended :: "nat \<Rightarrow> turn_end \<Rightarrow> team_run \<Rightarrow> team_run" where
  "run_ended now e r = (case e of
     Turn_Done sid res \<Rightarrow> r\<lparr>tr_status := Run_Completed, tr_reason := None, tr_result := res, tr_updated := now\<rparr>
   | Turn_Error x \<Rightarrow> r\<lparr>tr_status := Run_Interrupted, tr_reason := Some x, tr_result := None, tr_updated := now\<rparr>)"

definition report_turn :: "(nat \<Rightarrow> string) \<Rightarrow> nat \<Rightarrow> team_dispatch \<Rightarrow> team_run \<Rightarrow> turn_end \<Rightarrow> unit tact" where
  "report_turn uuid now d r e =
     act_bind (required_team (td_team d)) (\<lambda>t.
     act_bind (act_need ''TypeError'' (lead_of t)) (\<lambda>l.
     if tb_id l \<noteq> td_member d
     then act_bind (send_mail uuid now (tt_id t) (Some (td_member d)) (Some (tb_id l)) (turn_mail (td_id d) e) (Some (td_id d)))
            (\<lambda>_. act_return ())
     else act_get (\<lambda>s. if list_ex (\<lambda>x. turn_open (td_status x)) (run_dispatches (tr_id r) s) then act_return ()
            else act_do (put_team_run (run_ended now e r)))))"

definition finish_dispatch_in :: "(nat \<Rightarrow> string) \<Rightarrow> nat \<Rightarrow> string \<Rightarrow> turn_end \<Rightarrow> unit tact" where
  "finish_dispatch_in uuid now k e =
     act_get (\<lambda>s. act_bind (act_need ''TypeError'' (jmap_get (tm_dispatches s) k)) (\<lambda>d.
       if td_status d \<noteq> Turn_Running then act_return ()
       else act_seq (act_do (put_dispatch (ended now e d)))
        (act_seq (case td_task d of
             None \<Rightarrow> idle_member now (td_team d) (td_member d) (is_error e)
           | Some x \<Rightarrow> act_bind (required_task x) (\<lambda>t.
               if tk_status t = Task_Running then act_bind (finish_task uuid now x e) (\<lambda>_. act_return ())
               else idle_member now (td_team d) (td_member d) (is_error e)))
        (act_bind (act_get (\<lambda>u. act_need ''TypeError'' (jmap_get (tm_runs u) (td_run d)))) (\<lambda>r.
         act_seq (if run_over (tr_status r) \<or> tr_status r = Run_Interrupted then act_return ()
           else report_turn uuid now d r e)
         (act_seq (act_do (push_event uuid now (td_team d) Dispatch_Updated k))
           (announce uuid now (td_team d) Run_Updated (tr_id r))))))))"

definition finish_dispatch :: "(nat \<Rightarrow> string) \<Rightarrow> nat \<Rightarrow> string \<Rightarrow> turn_end \<Rightarrow> unit tact" where
  "finish_dispatch uuid now k e = transaction (finish_dispatch_in uuid now k e)"

section \<open>After a restart\<close>

text \<open>The code has a garbled character between the names here, where \<open>beginDispatch\<close> has a dot.\<close>

definition execution_of :: "team_task \<Rightarrow> team \<Rightarrow> team_member \<Rightarrow> team_execution" where
  "execution_of task t m = \<lparr>tx_task = tk_id task, tx_run = None, tx_logical = None, tx_team = tt_id t, tx_member = tb_id m,
     tx_session = Some (case tb_session m of None \<Rightarrow> session_key (tk_id task) | Some i \<Rightarrow> i),
     tx_name = tt_name t @ '' ~ '' @ tb_name m, tx_engine = tb_engine m, tx_acp = None, tx_preset = tb_preset m,
     tx_workspace = tt_workspace t, tx_input = tk_input task, tx_context = None\<rparr>"

definition turn_execution :: "team_dispatch \<Rightarrow> team \<Rightarrow> team_member \<Rightarrow> team_execution" where
  "turn_execution d t m = \<lparr>tx_task = td_id d, tx_run = None, tx_logical = None, tx_team = tt_id t, tx_member = tb_id m,
     tx_session = tb_session m, tx_name = tt_name t, tx_engine = tb_engine m, tx_acp = tb_acp m, tx_preset = tb_preset m,
     tx_workspace = tt_workspace t, tx_input = td_input d, tx_context = None\<rparr>"

text \<open>A loop that collects what it makes of some of the elements.\<close>

fun act_collect :: "('v \<Rightarrow> 'w option tact) \<Rightarrow> 'v list \<Rightarrow> 'w list tact" where
  "act_collect f [] = act_return []"
| "act_collect f (x # xs) = act_bind (f x) (\<lambda>y. act_bind (act_collect f xs) (\<lambda>ys.
     act_return (case y of None \<Rightarrow> ys | Some z \<Rightarrow> z # ys)))"

definition team_and_member :: "string \<Rightarrow> string \<Rightarrow> (team \<times> team_member) tact" where
  "team_and_member i k = act_bind (required_team i) (\<lambda>t. act_bind (required_member t k) (\<lambda>m. act_return (t, m)))"

definition restarted_task :: "team_task \<Rightarrow> bool" where
  "restarted_task t \<longleftrightarrow> tk_status t = Task_Failed \<and> tk_error t = Some ''runtime_restarted''"

definition team_interrupted :: "team_execution list tact" where
  "team_interrupted =
     act_get (\<lambda>s.
     act_bind (act_collect (\<lambda>t.
         if list_ex (\<lambda>d. td_task d = Some (tk_id t) \<and> td_status d = Turn_Interrupted) (team_dispatches s) \<or>
            \<not> restarted_task t \<or> tk_id t \<in> set (tm_reconciled s) then act_return None
         else act_bind (team_and_member (tk_team t) (tk_member t)) (\<lambda>(u, m). act_return (Some (execution_of t u m))))
       (map snd (tm_tasks s))) (\<lambda>xs.
     act_bind (act_collect (\<lambda>d.
         if td_status d \<noteq> Turn_Interrupted \<or> td_id d \<in> set (tm_reconciled s) then act_return None
         else act_bind (team_and_member (td_team d) (td_member d)) (\<lambda>(u, m). act_return (Some (turn_execution d u m))))
       (team_dispatches s)) (\<lambda>ys.
     act_return (sort_key tx_task (xs @ ys)))))"

definition mark_reconciled :: "string \<Rightarrow> team_store \<Rightarrow> team_store" where
  "mark_reconciled k s = team_save (if k \<in> set (tm_reconciled s) then s else s\<lparr>tm_reconciled := tm_reconciled s @ [k]\<rparr>)"

definition team_acknowledge :: "string \<Rightarrow> unit tact" where
  "team_acknowledge k =
     act_get (\<lambda>s. if map_option td_status (jmap_get (tm_dispatches s) k) = Some Turn_Interrupted
       then act_do (mark_reconciled k)
       else act_bind (required_task k) (\<lambda>t.
         act_seq (act_check ''team_task_not_interrupted'' (restarted_task t)) (act_do (mark_reconciled k))))"

definition context_for_session :: "string \<Rightarrow> team_store \<Rightarrow>
    (team \<times> team_member \<times> team_dispatch option \<times> team_run option) option" where
  "context_for_session sid s =
     (case find (\<lambda>t. list_ex (\<lambda>m. tb_session m = Some sid) (tt_members t)) (map snd (tm_teams s)) of
        None \<Rightarrow> None
      | Some t \<Rightarrow>
          (case find (\<lambda>m. tb_session m = Some sid) (tt_members t) of
             None \<Rightarrow> None
           | Some m \<Rightarrow> Some (t, m,
               find (\<lambda>d. td_member d = tb_id m \<and> td_status d = Turn_Running) (team_dispatches s),
               find_last (\<lambda>r. \<not> run_over (tr_status r)) (filter (\<lambda>r. tr_team r = tt_id t) (map snd (tm_runs s))))))"

text \<open>The constructor, given the content of the file.\<close>

definition parse_document :: "team_document \<Rightarrow> team_document option" where
  "parse_document d =
     (case (those (map parse_team (dc_teams d)), those (map parse_task (dc_tasks d)), those (map parse_mail (dc_messages d))) of
        (Some ts, Some ks, Some ms) \<Rightarrow>
          (if list_all event_valid (dc_events d) \<and> [] \<notin> set (dc_reconciled d) \<and> list_all (\<lambda>r. 0 < tr_segment r) (dc_runs d)
           then Some (d\<lparr>dc_teams := ts, dc_tasks := ks, dc_messages := ms\<rparr>) else None)
      | _ \<Rightarrow> None)"

definition empty_team_store :: "nat \<Rightarrow> team_document option \<Rightarrow> team_store" where
  "empty_team_store drawn disk = \<lparr>tm_teams = [], tm_tasks = [], tm_messages = [], tm_events = [], tm_sequence = 0,
     tm_runs = [], tm_dispatches = [], tm_operations = [], tm_batch = False, tm_reconciled = [], tm_drawn = drawn,
     tm_disk = disk\<rparr>"

definition load_dispatch :: "nat \<Rightarrow> team_dispatch \<Rightarrow> unit tact" where
  "load_dispatch now d =
     (if td_status d \<noteq> Turn_Running then act_do (put_dispatch d)
      else act_seq (act_do (put_dispatch (d\<lparr>td_status := Turn_Interrupted, td_error := Some ''runtime_restarted'',
             td_finished := Some now\<rparr>)))
        (act_bind (act_get (\<lambda>s. act_need ''TypeError'' (jmap_get (tm_runs s) (td_run d)))) (\<lambda>r.
          act_do (put_team_run (r\<lparr>tr_status := Run_Interrupted, tr_reason := Some ''runtime_restarted'', tr_updated := now\<rparr>)))))"

definition load_task :: "nat \<Rightarrow> team_task \<Rightarrow> team_task" where
  "load_task now t =
     (if tk_status t = Task_Running
      then t\<lparr>tk_status := Task_Failed, tk_error := Some ''runtime_restarted'', tk_finished := Some now\<rparr> else t)"

definition drop_finished :: "nat \<Rightarrow> team_dispatch \<Rightarrow> unit tact" where
  "drop_finished now d = act_get (\<lambda>s.
     if td_status d = Turn_Queued \<and>
        (case td_task d of None \<Rightarrow> False
         | Some k \<Rightarrow> (case jmap_get (tm_tasks s) k of None \<Rightarrow> False | Some t \<Rightarrow> \<not> task_open (tk_status t)))
     then cancel_turn now d else act_return ())"

definition requeue_task :: "(nat \<Rightarrow> string) \<Rightarrow> nat \<Rightarrow> team_task \<Rightarrow> bool tact" where
  "requeue_task uuid now t = act_get (\<lambda>s.
     if tk_status t = Task_Queued \<and> \<not> list_ex (\<lambda>d. td_task d = Some (tk_id t)) (team_dispatches s)
     then act_bind (ensure_run uuid now (tk_team t) (tk_input t)) (\<lambda>r.
       act_seq (enqueue uuid now r (tk_member t) (tk_input t) None (Some (tk_id t)) []) (act_return True))
     else act_return False)"

definition idle_team :: "team \<Rightarrow> team" where
  "idle_team t = t\<lparr>tt_members := map (\<lambda>m. if tb_status m = Member_Running then m\<lparr>tb_status := Member_Idle\<rparr> else m) (tt_members t)\<rparr>"

fun act_any :: "('v \<Rightarrow> bool tact) \<Rightarrow> 'v list \<Rightarrow> bool tact" where
  "act_any f [] = act_return False"
| "act_any f (x # xs) = act_bind (f x) (\<lambda>b. act_bind (act_any f xs) (\<lambda>c. act_return (b \<or> c)))"

definition load_document :: "(nat \<Rightarrow> string) \<Rightarrow> nat \<Rightarrow> team_document \<Rightarrow> unit tact" where
  "load_document uuid now d =
     act_seq (act_do (\<lambda>s. s\<lparr>tm_teams := fold (\<lambda>t. jmap_set (tt_id t) t) (dc_teams d) [],
       tm_runs := fold (\<lambda>r. jmap_set (tr_id r) r) (dc_runs d) [],
       tm_operations := fold (\<lambda>p. jmap_set (fst p) (snd p)) (dc_operations d) []\<rparr>))
     (act_seq (act_each (load_dispatch now) (dc_dispatches d))
     (act_seq (act_do (\<lambda>s. s\<lparr>tm_tasks := fold (\<lambda>t. jmap_set (tk_id t) (load_task now t)) (dc_tasks d) []\<rparr>))
     (act_seq (each_dispatch (drop_finished now))
     (act_seq (act_do (\<lambda>s. s\<lparr>tm_messages := fold (\<lambda>m. jmap_set (ml_id m) m) (dc_messages d) [], tm_events := dc_events d,
         tm_sequence := fold max (map ev_sequence (dc_events d)) (dc_sequence d), tm_reconciled := js_set (dc_reconciled d)\<rparr>))
     (act_bind (act_get (\<lambda>s. act_any (requeue_task uuid now) (map snd (tm_tasks s)))) (\<lambda>requeued.
      if requeued \<or> list_ex (\<lambda>t. tk_status t = Task_Running) (dc_tasks d) \<or>
         list_ex (\<lambda>x. td_status x = Turn_Running) (dc_dispatches d)
      then act_do (\<lambda>s. team_save (s\<lparr>tm_teams := map (\<lambda>(i, t). (i, idle_team t)) (tm_teams s)\<rparr>))
      else act_return ()))))))"

definition open_team_store :: "(nat \<Rightarrow> string) \<Rightarrow> nat \<Rightarrow> nat \<Rightarrow> team_document option \<Rightarrow> string + team_store" where
  "open_team_store uuid now drawn disk =
     (case disk of
        None \<Rightarrow> Inr (empty_team_store drawn None)
      | Some d \<Rightarrow>
          (case parse_document d of
             None \<Rightarrow> Inl ''ZodError''
           | Some p \<Rightarrow> (case load_document uuid now p (empty_team_store drawn disk) of
               (Inl e, s) \<Rightarrow> Inl e
             | (Inr u, s) \<Rightarrow> Inr s)))"

end
