(* ===== verification/Team_Work.thy ===== *)
theory Team_Work
  imports Team_Store
begin

text \<open>
  Who works on what: the part of the team store that says which turn is open, which member runs it and for
  which task, and the invariant that ties these together. The invariant is stated on this view, which most
  changes of the store leave alone.
\<close>

section \<open>The view\<close>

record work =
  wk_status :: "string \<Rightarrow> string \<Rightarrow> member_status option"
  wk_team :: "string \<Rightarrow> bool"
  wk_task :: "string \<Rightarrow> (task_status \<times> string \<times> string) option"
  wk_run :: "string \<Rightarrow> (bool \<times> string) option"
  wk_turn :: "string \<Rightarrow> (dispatch_status \<times> string \<times> string \<times> string \<times> string option) option"

definition running_of :: "work \<Rightarrow> string \<Rightarrow> string set" where
  "running_of w r = {k. \<exists>i m x. wk_turn w k = Some (Turn_Running, i, r, m, x)}"

definition turns_ok :: "work \<Rightarrow> bool" where
  "turns_ok w \<longleftrightarrow>
     (\<forall>k st i r m x. wk_turn w k = Some (st, i, r, m, x) \<longrightarrow> turn_open st \<longrightarrow>
        wk_run w r = Some (False, i) \<and> wk_status w i m \<noteq> None) \<and>
     (\<forall>k i r m x. wk_turn w k = Some (Turn_Running, i, r, m, x) \<longrightarrow> wk_status w i m = Some Member_Running) \<and>
     (\<forall>k l i r q m x y. wk_turn w k = Some (Turn_Running, i, r, m, x) \<longrightarrow>
        wk_turn w l = Some (Turn_Running, i, q, m, y) \<longrightarrow> k = l) \<and>
     (\<forall>i m. wk_status w i m = Some Member_Running \<longrightarrow> (\<exists>k r x. wk_turn w k = Some (Turn_Running, i, r, m, x)))"

definition runs_ok :: "work \<Rightarrow> bool" where
  "runs_ok w \<longleftrightarrow>
     (\<forall>r q i. wk_run w r = Some (False, i) \<longrightarrow> wk_run w q = Some (False, i) \<longrightarrow> r = q) \<and>
     (\<forall>r i. wk_run w r = Some (False, i) \<longrightarrow> wk_team w i) \<and>
     (\<forall>i m. wk_status w i m \<noteq> None \<longrightarrow> wk_team w i)"

text \<open>The member of an open task is in the team.\<close>

definition homes_ok :: "work \<Rightarrow> bool" where
  "homes_ok w \<longleftrightarrow> (\<forall>y ts i m. wk_task w y = Some (ts, i, m) \<longrightarrow> task_open ts \<longrightarrow> wk_status w i m \<noteq> None)"

definition running_tasks_ok :: "work \<Rightarrow> bool" where
  "running_tasks_ok w \<longleftrightarrow>
     (\<forall>y i m. wk_task w y = Some (Task_Running, i, m) \<longrightarrow> (\<exists>k r. wk_turn w k = Some (Turn_Running, i, r, m, Some y)))"

definition turn_tasks_ok :: "work \<Rightarrow> bool" where
  "turn_tasks_ok w \<longleftrightarrow>
     (\<forall>k st i r m y. wk_turn w k = Some (st, i, r, m, Some y) \<longrightarrow> turn_open st \<longrightarrow>
        (\<exists>ts. wk_task w y = Some (ts, i, m) \<and> (st = Turn_Running \<longrightarrow> ts \<noteq> Task_Queued)))"

definition one_turn_each :: "work \<Rightarrow> bool" where
  "one_turn_each w \<longleftrightarrow>
     (\<forall>k l st su i j r q m n y. wk_turn w k = Some (st, i, r, m, Some y) \<longrightarrow> turn_open st \<longrightarrow>
        wk_turn w l = Some (su, j, q, n, Some y) \<longrightarrow> turn_open su \<longrightarrow> k = l)"

definition tasks_ok :: "work \<Rightarrow> bool" where
  "tasks_ok w \<longleftrightarrow> running_tasks_ok w \<and> turn_tasks_ok w \<and> one_turn_each w"

definition crowd_ok :: "work \<Rightarrow> bool" where
  "crowd_ok w \<longleftrightarrow> (\<forall>r. finite (running_of w r) \<and> card (running_of w r) \<le> max_concurrent)"

definition work_ok :: "work \<Rightarrow> bool" where
  "work_ok w \<longleftrightarrow> turns_ok w \<and> runs_ok w \<and> tasks_ok w \<and> crowd_ok w \<and> homes_ok w"

lemmas task_rules = tasks_ok_def running_tasks_ok_def turn_tasks_ok_def one_turn_each_def

lemma work_okI: "turns_ok w \<Longrightarrow> homes_ok w \<Longrightarrow> runs_ok w \<Longrightarrow> tasks_ok w \<Longrightarrow> crowd_ok w \<Longrightarrow> work_ok w"
  by (simp add: work_ok_def)

lemma work_okD: "work_ok w \<Longrightarrow> turns_ok w" "work_ok w \<Longrightarrow> runs_ok w" "work_ok w \<Longrightarrow> tasks_ok w" "work_ok w \<Longrightarrow> crowd_ok w"
    "work_ok w \<Longrightarrow> homes_ok w"
  by (simp_all add: work_ok_def)

lemma homes_okD: "homes_ok w \<Longrightarrow> wk_task w y = Some (ts, i, m) \<Longrightarrow> task_open ts \<Longrightarrow> wk_status w i m \<noteq> None"
  by (auto simp: homes_ok_def)

lemma task_open_simps [simp]:
  "task_open Task_Queued" "task_open Task_Running" "\<not> task_open Task_Succeeded" "\<not> task_open Task_Failed" "\<not> task_open Task_Cancelled"
  by (simp_all add: task_open_def)

lemma task_closed: "ts \<noteq> Task_Running \<Longrightarrow> ts \<noteq> Task_Queued \<Longrightarrow> \<not> task_open ts"
  by (simp add: task_open_def)

lemma crowd_shrink:
  assumes "crowd_ok w" "\<And>r. running_of v r \<subseteq> running_of w r"
  shows "crowd_ok v"
  unfolding crowd_ok_def
proof
  fix r
  from assms(1) have fin: "finite (running_of w r)" and le: "card (running_of w r) \<le> max_concurrent"
    by (simp_all add: crowd_ok_def)
  from card_mono [OF fin assms(2)] le finite_subset [OF assms(2) fin]
  show "finite (running_of v r) \<and> card (running_of v r) \<le> max_concurrent" by simp
qed

lemma not_open [simp]:
  "\<not> turn_open Turn_Succeeded" "\<not> turn_open Turn_Failed" "\<not> turn_open Turn_Cancelled" "\<not> turn_open Turn_Interrupted"
  "turn_open Turn_Queued" "turn_open Turn_Running"
  by (simp_all add: turn_open_def)

lemma turns_okD:
  assumes "turns_ok w"
  shows "wk_turn w k = Some (st, i, r, m, x) \<Longrightarrow> turn_open st \<Longrightarrow> wk_run w r = Some (False, i)"
    and "wk_turn w k = Some (st, i, r, m, x) \<Longrightarrow> turn_open st \<Longrightarrow> wk_status w i m \<noteq> None"
    and "wk_turn w k = Some (Turn_Running, i, r, m, x) \<Longrightarrow> wk_status w i m = Some Member_Running"
    and "wk_turn w k = Some (Turn_Running, i, r, m, x) \<Longrightarrow> wk_turn w l = Some (Turn_Running, i, q, m, y) \<Longrightarrow> k = l"
    and "wk_status w i m = Some Member_Running \<Longrightarrow> \<exists>k r x. wk_turn w k = Some (Turn_Running, i, r, m, x)"
  using assms unfolding turns_ok_def by metis+

lemma turns_okI:
  assumes "\<And>k st i r m x. wk_turn w k = Some (st, i, r, m, x) \<Longrightarrow> turn_open st \<Longrightarrow>
      wk_run w r = Some (False, i) \<and> wk_status w i m \<noteq> None"
    and "\<And>k i r m x. wk_turn w k = Some (Turn_Running, i, r, m, x) \<Longrightarrow> wk_status w i m = Some Member_Running"
    and "\<And>k l i r q m x y. wk_turn w k = Some (Turn_Running, i, r, m, x) \<Longrightarrow>
      wk_turn w l = Some (Turn_Running, i, q, m, y) \<Longrightarrow> k = l"
    and "\<And>i m. wk_status w i m = Some Member_Running \<Longrightarrow> \<exists>k r x. wk_turn w k = Some (Turn_Running, i, r, m, x)"
  shows "turns_ok w"
  using assms unfolding turns_ok_def by blast

lemma tasks_okD:
  assumes "tasks_ok w"
  shows "wk_task w y = Some (Task_Running, i, m) \<Longrightarrow> \<exists>k r. wk_turn w k = Some (Turn_Running, i, r, m, Some y)"
    and "wk_turn w k = Some (st, i, r, m, Some y) \<Longrightarrow> turn_open st \<Longrightarrow>
      \<exists>ts. wk_task w y = Some (ts, i, m) \<and> (st = Turn_Running \<longrightarrow> ts \<noteq> Task_Queued)"
    and "wk_turn w k = Some (st, i, r, m, Some y) \<Longrightarrow> turn_open st \<Longrightarrow>
      wk_turn w l = Some (su, j, q, n, Some y) \<Longrightarrow> turn_open su \<Longrightarrow> k = l"
  using assms unfolding task_rules by metis+

lemma tasks_okI:
  assumes "\<And>y i m. wk_task w y = Some (Task_Running, i, m) \<Longrightarrow> \<exists>k r. wk_turn w k = Some (Turn_Running, i, r, m, Some y)"
    and "\<And>k st i r m y. wk_turn w k = Some (st, i, r, m, Some y) \<Longrightarrow> turn_open st \<Longrightarrow>
      \<exists>ts. wk_task w y = Some (ts, i, m) \<and> (st = Turn_Running \<longrightarrow> ts \<noteq> Task_Queued)"
    and "\<And>k l st su i j r q m n y. wk_turn w k = Some (st, i, r, m, Some y) \<Longrightarrow> turn_open st \<Longrightarrow>
      wk_turn w l = Some (su, j, q, n, Some y) \<Longrightarrow> turn_open su \<Longrightarrow> k = l"
  shows "tasks_ok w"
  using assms unfolding task_rules by blast

section \<open>Changes of the view\<close>

lemma work_new_run:
  assumes "work_ok w" "wk_run w r = None" "wk_team w i" "\<And>q. wk_run w q \<noteq> Some (False, i)"
  shows "work_ok (w\<lparr>wk_run := (wk_run w)(r \<mapsto> (False, i))\<rparr>)"
proof (rule work_okI)
  note ok = work_okD [OF assms(1)]
  show "turns_ok (w\<lparr>wk_run := (wk_run w)(r \<mapsto> (False, i))\<rparr>)"
    using ok(1) assms(2) unfolding turns_ok_def by simp (metis option.distinct(1))
  show "homes_ok (w\<lparr>wk_run := (wk_run w)(r \<mapsto> (False, i))\<rparr>)" using ok(5) by (simp add: homes_ok_def)
  show "runs_ok (w\<lparr>wk_run := (wk_run w)(r \<mapsto> (False, i))\<rparr>)"
    using ok(2) assms(3,4) unfolding runs_ok_def by auto
  show "tasks_ok (w\<lparr>wk_run := (wk_run w)(r \<mapsto> (False, i))\<rparr>)"
    using ok(3) unfolding task_rules by simp
  show "crowd_ok (w\<lparr>wk_run := (wk_run w)(r \<mapsto> (False, i))\<rparr>)"
    by (rule crowd_shrink [OF ok(4)]) (simp add: running_of_def)
qed

lemma work_run_over:
  assumes "work_ok w" "\<And>k st j m x. wk_turn w k = Some (st, j, r, m, x) \<Longrightarrow> \<not> turn_open st"
  shows "work_ok (w\<lparr>wk_run := (wk_run w)(r \<mapsto> (True, i))\<rparr>)"
proof (rule work_okI)
  note ok = work_okD [OF assms(1)]
  show "turns_ok (w\<lparr>wk_run := (wk_run w)(r \<mapsto> (True, i))\<rparr>)"
    using ok(1) assms(2) unfolding turns_ok_def by simp metis
  show "homes_ok (w\<lparr>wk_run := (wk_run w)(r \<mapsto> (True, i))\<rparr>)" using ok(5) by (simp add: homes_ok_def)
  show "runs_ok (w\<lparr>wk_run := (wk_run w)(r \<mapsto> (True, i))\<rparr>)"
    using ok(2) unfolding runs_ok_def by auto
  show "tasks_ok (w\<lparr>wk_run := (wk_run w)(r \<mapsto> (True, i))\<rparr>)"
    using ok(3) unfolding task_rules by simp
  show "crowd_ok (w\<lparr>wk_run := (wk_run w)(r \<mapsto> (True, i))\<rparr>)"
    by (rule crowd_shrink [OF ok(4)]) (simp add: running_of_def)
qed

lemma work_enqueue:
  assumes "work_ok w" "wk_turn w k = None" "wk_run w r = Some (False, i)" "wk_status w i m \<noteq> None"
    and "\<And>y. x = Some y \<Longrightarrow> (\<exists>ts. wk_task w y = Some (ts, i, m)) \<and>
      (\<forall>l su j q n. wk_turn w l = Some (su, j, q, n, Some y) \<longrightarrow> \<not> turn_open su)"
  shows "work_ok (w\<lparr>wk_turn := (wk_turn w)(k \<mapsto> (Turn_Queued, i, r, m, x))\<rparr>)"
proof (rule work_okI)
  let ?w = "w\<lparr>wk_turn := (wk_turn w)(k \<mapsto> (Turn_Queued, i, r, m, x))\<rparr>"
  note ok = work_okD [OF assms(1)]
  have run: "wk_turn ?w l = Some (Turn_Running, j, q, n, y) \<longleftrightarrow> wk_turn w l = Some (Turn_Running, j, q, n, y)" for l j q n y
    using assms(2) by auto
  show "turns_ok ?w"
    using ok(1) assms(3,4) unfolding turns_ok_def run by auto
  show "homes_ok ?w" using ok(5) by (simp add: homes_ok_def)
  show "runs_ok ?w"
    using ok(2) unfolding runs_ok_def by simp
  show "tasks_ok ?w"
    unfolding tasks_ok_def
  proof (intro conjI)
    show "running_tasks_ok ?w" using ok(3) unfolding tasks_ok_def running_tasks_ok_def run by simp
    show "turn_tasks_ok ?w"
      using ok(3) assms(5) unfolding tasks_ok_def turn_tasks_ok_def by (auto split: if_splits)
    show "one_turn_each ?w"
      using ok(3) assms(5) unfolding tasks_ok_def one_turn_each_def by (auto split: if_splits) blast+
  qed
  show "crowd_ok ?w"
    by (rule crowd_shrink [OF ok(4)]) (auto simp: running_of_def split: if_splits)
qed

definition set_status :: "string \<Rightarrow> string \<Rightarrow> member_status \<Rightarrow> work \<Rightarrow> work" where
  "set_status i m st w = w\<lparr>wk_status := (wk_status w)(i := (wk_status w i)(m \<mapsto> st))\<rparr>"

definition set_turn :: "string \<Rightarrow> dispatch_status \<times> string \<times> string \<times> string \<times> string option \<Rightarrow> work \<Rightarrow> work" where
  "set_turn k v w = w\<lparr>wk_turn := (wk_turn w)(k \<mapsto> v)\<rparr>"

definition set_task :: "string option \<Rightarrow> task_status \<Rightarrow> string \<Rightarrow> string \<Rightarrow> work \<Rightarrow> work" where
  "set_task x ts i m w = (case x of None \<Rightarrow> w | Some y \<Rightarrow> w\<lparr>wk_task := (wk_task w)(y \<mapsto> (ts, i, m))\<rparr>)"

lemma set_fields [simp]:
  "wk_status (set_status i m st w) = (wk_status w)(i := (wk_status w i)(m \<mapsto> st))"
  "wk_team (set_status i m st w) = wk_team w" "wk_task (set_status i m st w) = wk_task w"
  "wk_run (set_status i m st w) = wk_run w" "wk_turn (set_status i m st w) = wk_turn w"
  "wk_status (set_turn k v w) = wk_status w" "wk_team (set_turn k v w) = wk_team w" "wk_task (set_turn k v w) = wk_task w"
  "wk_run (set_turn k v w) = wk_run w" "wk_turn (set_turn k v w) = (wk_turn w)(k \<mapsto> v)"
  "wk_status (set_task x ts i m w) = wk_status w" "wk_team (set_task x ts i m w) = wk_team w"
  "wk_run (set_task x ts i m w) = wk_run w" "wk_turn (set_task x ts i m w) = wk_turn w"
  "wk_task (set_task x ts i m w) = (case x of None \<Rightarrow> wk_task w | Some y \<Rightarrow> (wk_task w)(y \<mapsto> (ts, i, m)))"
  by (simp_all add: set_status_def set_turn_def set_task_def split: option.split)

text \<open>A running turn stops: it ends, is cancelled or is put back; its member and its task are free again.\<close>

lemma work_leave:
  assumes "work_ok w" "wk_turn w k = Some (Turn_Running, i, r, m, x)" "st \<noteq> Turn_Running"
    and "ms \<noteq> Member_Running" "ts \<noteq> Task_Running"
  shows "work_ok (set_task x ts i m (set_status i m ms (set_turn k (st, i, r, m, x) w)))" (is "work_ok ?w")
proof (rule work_okI)
  note ok = work_okD [OF assms(1)]
  note turns = turns_okD [OF ok(1)] and tasks = tasks_okD [OF ok(3)]
  have run: "l \<noteq> k \<and> wk_turn w l = Some (Turn_Running, j, q, n, y)" if "wk_turn ?w l = Some (Turn_Running, j, q, n, y)" for l j q n y
    using that assms(3) by (auto split: if_splits)
  have still: "wk_turn ?w l = wk_turn w l" if "l \<noteq> k" for l using that by simp
  have mine: "wk_run w r = Some (False, i)" "wk_status w i m \<noteq> None" using turns(1,2) [OF assms(2)] by auto
  show "turns_ok ?w"
  proof (rule turns_okI)
    fix l su j q n y assume a: "wk_turn ?w l = Some (su, j, q, n, y)" "turn_open su"
    show "wk_run ?w q = Some (False, j) \<and> wk_status ?w j n \<noteq> None"
    proof (cases "l = k")
      case True
      with a mine show ?thesis by auto
    next
      case False
      with a have "wk_turn w l = Some (su, j, q, n, y)" by simp
      from turns(1,2) [OF this a(2)] show ?thesis by auto
    qed
  next
    fix l j q n y assume "wk_turn ?w l = Some (Turn_Running, j, q, n, y)"
    from run [OF this] have l: "l \<noteq> k" "wk_turn w l = Some (Turn_Running, j, q, n, y)" by blast+
    have "(j, n) \<noteq> (i, m)" using turns(4) [OF assms(2)] l by blast
    with turns(3) [OF l(2)] show "wk_status ?w j n = Some Member_Running" by auto
  next
    fix l l' j q q' n y y' assume "wk_turn ?w l = Some (Turn_Running, j, q, n, y)" "wk_turn ?w l' = Some (Turn_Running, j, q', n, y')"
    from this [THEN run] show "l = l'" using turns(4) by blast
  next
    fix j n assume a: "wk_status ?w j n = Some Member_Running"
    then have ne: "(j, n) \<noteq> (i, m)" using assms(4) by auto
    with a have "wk_status w j n = Some Member_Running" by (auto split: if_splits)
    from turns(5) [OF this] obtain l q y where l: "wk_turn w l = Some (Turn_Running, j, q, n, y)" by blast
    with ne assms(2) have "l \<noteq> k" by auto
    with l still show "\<exists>l q y. wk_turn ?w l = Some (Turn_Running, j, q, n, y)" by metis
  qed
  show "homes_ok ?w" unfolding homes_ok_def
  proof (intro allI impI)
    fix y us j n assume y: "wk_task ?w y = Some (us, j, n)" "task_open us"
    show "wk_status ?w j n \<noteq> None"
    proof (cases "x = Some y")
      case False
      with y(1) have "wk_task w y = Some (us, j, n)" by (auto split: option.splits if_splits)
      with homes_okD [OF ok(5) this y(2)] show ?thesis by auto
    qed (use y(1) in auto)
  qed
  show "runs_ok ?w" using ok(2) mine unfolding runs_ok_def by (auto split: if_splits)
  show "tasks_ok ?w"
  proof (rule tasks_okI)
    fix y j n assume a: "wk_task ?w y = Some (Task_Running, j, n)"
    with assms(5) have ne: "x \<noteq> Some y" by auto
    with a have "wk_task w y = Some (Task_Running, j, n)" by (auto split: option.splits if_splits)
    from tasks(1) [OF this] obtain l q where l: "wk_turn w l = Some (Turn_Running, j, q, n, Some y)" by blast
    with ne assms(2) have "l \<noteq> k" by auto
    with l still show "\<exists>l q. wk_turn ?w l = Some (Turn_Running, j, q, n, Some y)" by metis
  next
    fix l su j q n y assume a: "wk_turn ?w l = Some (su, j, q, n, Some y)" "turn_open su"
    show "\<exists>u. wk_task ?w y = Some (u, j, n) \<and> (su = Turn_Running \<longrightarrow> u \<noteq> Task_Queued)"
    proof (cases "l = k")
      case True
      with a assms(3) show ?thesis by auto
    next
      case False
      with a have l: "wk_turn w l = Some (su, j, q, n, Some y)" by simp
      have "x \<noteq> Some y" using tasks(3) [OF _ _ l a(2)] assms(2) False by auto
      with tasks(2) [OF l a(2)] show ?thesis by (auto split: option.split)
    qed
  next
    fix l l' su su' j j' q q' n n' y
    assume a: "wk_turn ?w l = Some (su, j, q, n, Some y)" "turn_open su" "wk_turn ?w l' = Some (su', j', q', n', Some y)" "turn_open su'"
    have "\<exists>su j q n. wk_turn w l = Some (su, j, q, n, Some y) \<and> turn_open su"
      if "wk_turn ?w l = Some (su, j, q, n, Some y)" "turn_open su" for l su j q n
      using that assms(2) by (cases "l = k") auto
    from this [OF a(1,2)] this [OF a(3,4)] show "l = l'" using tasks(3) by blast
  qed
  show "crowd_ok ?w"
    by (rule crowd_shrink [OF ok(4)]) (use run in \<open>auto simp only: running_of_def mem_Collect_eq subset_iff\<close>, blast)
qed

text \<open>A queued turn begins.\<close>

lemma work_begin:
  assumes "work_ok w" "wk_turn w k = Some (Turn_Queued, i, r, m, x)" "wk_status w i m \<noteq> Some Member_Running"
    and "card (running_of w r) < max_concurrent" "\<And>y. x = Some y \<Longrightarrow> wk_task w y = Some (Task_Queued, i, m)"
  shows "work_ok (set_task x Task_Running i m (set_status i m Member_Running (set_turn k (Turn_Running, i, r, m, x) w)))"
    (is "work_ok ?w")
proof (rule work_okI)
  note ok = work_okD [OF assms(1)]
  note turns = turns_okD [OF ok(1)] and tasks = tasks_okD [OF ok(3)]
  have mine: "wk_run w r = Some (False, i)" "wk_status w i m \<noteq> None" using turns(1,2) [OF assms(2)] by auto
  have was: "wk_turn w l = Some (if l = k then Turn_Queued else su, j, q, n, y)" if "wk_turn ?w l = Some (su, j, q, n, y)" for l su j q n y
    using that assms(2) by (auto split: if_splits)
  have free: "(j, n) \<noteq> (i, m)" if "wk_turn w l = Some (Turn_Running, j, q, n, y)" for l j q n y
    using turns(3) [OF that] assms(3) by auto
  show "turns_ok ?w"
  proof (rule turns_okI)
    fix l su j q n y assume a: "wk_turn ?w l = Some (su, j, q, n, y)" "turn_open su"
    have "wk_run w q = Some (False, j)" "wk_status w j n \<noteq> None"
      using turns(1,2) [OF was [OF a(1)]] a(2) by (auto split: if_splits)
    then show "wk_run ?w q = Some (False, j) \<and> wk_status ?w j n \<noteq> None" by auto
  next
    fix l j q n y assume a: "wk_turn ?w l = Some (Turn_Running, j, q, n, y)"
    show "wk_status ?w j n = Some Member_Running"
    proof (cases "l = k")
      case True
      with a show ?thesis by auto
    next
      case False
      with was [OF a] have "wk_turn w l = Some (Turn_Running, j, q, n, y)" by simp
      from turns(3) [OF this] show ?thesis by auto
    qed
  next
    fix l l' j q q' n y y' assume a: "wk_turn ?w l = Some (Turn_Running, j, q, n, y)" "wk_turn ?w l' = Some (Turn_Running, j, q', n, y')"
    show "l = l'"
    proof (cases "l = k \<or> l' = k")
      case True
      then show ?thesis using a by (auto split: if_splits dest: free)
    next
      case False
      with was [OF a(1)] was [OF a(2)]
      have "wk_turn w l = Some (Turn_Running, j, q, n, y)" "wk_turn w l' = Some (Turn_Running, j, q', n, y')" by simp_all
      then show ?thesis by (rule turns(4))
    qed
  next
    fix j n assume a: "wk_status ?w j n = Some Member_Running"
    show "\<exists>l q y. wk_turn ?w l = Some (Turn_Running, j, q, n, y)"
    proof (cases "(j, n) = (i, m)")
      case True
      have "wk_turn ?w k = Some (Turn_Running, i, r, m, x)" by simp
      with True show ?thesis by blast
    next
      case False
      with a have "wk_status w j n = Some Member_Running" by (auto split: if_splits)
      from turns(5) [OF this] obtain l q y where l: "wk_turn w l = Some (Turn_Running, j, q, n, y)" by blast
      with assms(2) have "l \<noteq> k" by auto
      with l have "wk_turn ?w l = Some (Turn_Running, j, q, n, y)" by simp
      then show ?thesis by blast
    qed
  qed
  show "homes_ok ?w" unfolding homes_ok_def
  proof (intro allI impI)
    fix y us j n assume y: "wk_task ?w y = Some (us, j, n)" "task_open us"
    show "wk_status ?w j n \<noteq> None"
    proof (cases "x = Some y")
      case False
      with y(1) have "wk_task w y = Some (us, j, n)" by (auto split: option.splits if_splits)
      with homes_okD [OF ok(5) this y(2)] show ?thesis by auto
    qed (use y(1) in auto)
  qed
  show "runs_ok ?w" using ok(2) mine unfolding runs_ok_def by (auto split: if_splits)
  show "tasks_ok ?w"
  proof (rule tasks_okI)
    fix y j n assume a: "wk_task ?w y = Some (Task_Running, j, n)"
    show "\<exists>l q. wk_turn ?w l = Some (Turn_Running, j, q, n, Some y)"
    proof (cases "x = Some y")
      case True
      with a have "wk_turn ?w k = Some (Turn_Running, j, r, n, Some y)" by simp
      then show ?thesis by blast
    next
      case False
      with a have "wk_task w y = Some (Task_Running, j, n)" by (auto split: option.splits if_splits)
      from tasks(1) [OF this] obtain l q where l: "wk_turn w l = Some (Turn_Running, j, q, n, Some y)" by blast
      with assms(2) have "l \<noteq> k" by auto
      with l have "wk_turn ?w l = Some (Turn_Running, j, q, n, Some y)" by simp
      then show ?thesis by blast
    qed
  next
    fix l su j q n y assume a: "wk_turn ?w l = Some (su, j, q, n, Some y)" "turn_open su"
    have o: "turn_open (if l = k then Turn_Queued else su)" using a(2) by simp
    show "\<exists>u. wk_task ?w y = Some (u, j, n) \<and> (su = Turn_Running \<longrightarrow> u \<noteq> Task_Queued)"
    proof (cases "l = k")
      case True
      with a show ?thesis by auto
    next
      case False
      have l: "wk_turn w l = Some (su, j, q, n, Some y)" using was [OF a(1)] False by simp
      have "x \<noteq> Some y" using tasks(3) [OF _ _ l a(2), of k] assms(2) False by auto
      with tasks(2) [OF l a(2)] show ?thesis by (auto split: option.split)
    qed
  next
    fix l l' su su' j j' q q' n n' y
    assume a: "wk_turn ?w l = Some (su, j, q, n, Some y)" "turn_open su" "wk_turn ?w l' = Some (su', j', q', n', Some y)" "turn_open su'"
    show "l = l'"
      by (rule tasks(3) [OF was [OF a(1)] _ was [OF a(3)]]) (use a in \<open>simp_all split: if_splits\<close>)
  qed
  show "crowd_ok ?w" unfolding crowd_ok_def
  proof
    fix q
    from ok(4) have fin: "finite (running_of w q)" and le: "card (running_of w q) \<le> max_concurrent" by (simp_all add: crowd_ok_def)
    have sub: "running_of ?w q \<subseteq> (if q = r then insert k (running_of w q) else running_of w q)"
      by (auto simp: running_of_def split: if_splits)
    show "finite (running_of ?w q) \<and> card (running_of ?w q) \<le> max_concurrent"
    proof (cases "q = r")
      case True
      with sub have sub': "running_of ?w r \<subseteq> insert k (running_of w r)" by simp
      have "card (running_of ?w r) \<le> card (insert k (running_of w r))"
        by (rule card_mono [OF _ sub']) (use fin True in simp)
      also have "\<dots> \<le> Suc (card (running_of w r))" by (rule card_insert_le_m1) simp_all
      finally have "card (running_of ?w r) \<le> max_concurrent" using assms(4) by simp
      moreover have "finite (running_of ?w r)" by (rule finite_subset [OF sub']) (use fin True in simp)
      ultimately show ?thesis using True by simp
    next
      case False
      with sub have sub': "running_of ?w q \<subseteq> running_of w q" by simp
      from card_mono [OF fin sub'] finite_subset [OF sub' fin] le show ?thesis by simp
    qed
  qed
qed

text \<open>A queued turn is dropped.\<close>

lemma work_drop:
  assumes "work_ok w" "wk_turn w k = Some (Turn_Queued, i, r, m, x)" "\<not> turn_open st"
  shows "work_ok (set_turn k (st, i, r, m, x) w)" (is "work_ok ?w")
proof (rule work_okI)
  note ok = work_okD [OF assms(1)]
  note turns = turns_okD [OF ok(1)] and tasks = tasks_okD [OF ok(3)]
  have was: "l \<noteq> k \<and> wk_turn w l = Some (su, j, q, n, y)" if "wk_turn ?w l = Some (su, j, q, n, y)" "turn_open su" for l su j q n y
    using that assms(3) by (auto split: if_splits)
  have stays: "wk_turn ?w l = Some (Turn_Running, j, q, n, y)" if "wk_turn w l = Some (Turn_Running, j, q, n, y)" for l j q n y
    using that assms(2) by auto
  show "turns_ok ?w"
  proof (rule turns_okI)
    fix l su j q n y assume "wk_turn ?w l = Some (su, j, q, n, y)" "turn_open su"
    with was turns(1,2) show "wk_run ?w q = Some (False, j) \<and> wk_status ?w j n \<noteq> None" by simp metis
  next
    fix l j q n y assume "wk_turn ?w l = Some (Turn_Running, j, q, n, y)"
    with was [of l Turn_Running] turns(3) show "wk_status ?w j n = Some Member_Running" by (metis not_open(6) set_fields(6))
  next
    fix l l' j q q' n y y' assume "wk_turn ?w l = Some (Turn_Running, j, q, n, y)" "wk_turn ?w l' = Some (Turn_Running, j, q', n, y')"
    with was [of l Turn_Running] was [of l' Turn_Running] turns(4) show "l = l'" by (metis not_open(6))
  next
    fix j n assume "wk_status ?w j n = Some Member_Running"
    with turns(5) stays show "\<exists>l q y. wk_turn ?w l = Some (Turn_Running, j, q, n, y)" by (metis set_fields(6))
  qed
  show "homes_ok ?w" using ok(5) by (simp add: homes_ok_def)
  show "runs_ok ?w" using ok(2) unfolding runs_ok_def by simp
  show "tasks_ok ?w"
  proof (rule tasks_okI)
    fix y j n assume "wk_task ?w y = Some (Task_Running, j, n)"
    with tasks(1) stays show "\<exists>l q. wk_turn ?w l = Some (Turn_Running, j, q, n, Some y)" by (metis set_fields(8))
  next
    fix l su j q n y assume "wk_turn ?w l = Some (su, j, q, n, Some y)" "turn_open su"
    with was tasks(2) show "\<exists>u. wk_task ?w y = Some (u, j, n) \<and> (su = Turn_Running \<longrightarrow> u \<noteq> Task_Queued)" by (metis set_fields(8))
  next
    fix l l' su su' j j' q q' n n' y
    assume "wk_turn ?w l = Some (su, j, q, n, Some y)" "turn_open su" "wk_turn ?w l' = Some (su', j', q', n', Some y)" "turn_open su'"
    with was tasks(3) show "l = l'" by metis
  qed
  show "crowd_ok ?w"
    by (rule crowd_shrink [OF ok(4)]) (use was in \<open>auto simp only: running_of_def mem_Collect_eq subset_iff\<close>, metis not_open(6))
qed

text \<open>Tasks that come, end, or are changed while no turn waits for them.\<close>

lemma work_task_stop:
  assumes "work_ok w" "wk_task w y = Some (ts, i, m)" "us \<noteq> Task_Running" "us \<noteq> Task_Queued"
  shows "work_ok (set_task (Some y) us i m w)" (is "work_ok ?w")
proof (rule work_okI)
  note ok = work_okD [OF assms(1)]
  note tasks = tasks_okD [OF ok(3)]
  show "turns_ok ?w" using ok(1) unfolding turns_ok_def by simp
  show "homes_ok ?w" using ok(5) task_closed [OF assms(3,4)] by (auto simp: homes_ok_def)
  show "runs_ok ?w" using ok(2) unfolding runs_ok_def by simp
  show "tasks_ok ?w"
  proof (rule tasks_okI)
    fix z j n assume "wk_task ?w z = Some (Task_Running, j, n)"
    with assms(3) have "wk_task w z = Some (Task_Running, j, n)" by (auto split: if_splits)
    from tasks(1) [OF this] show "\<exists>k r. wk_turn ?w k = Some (Turn_Running, j, r, n, Some z)" by simp
  next
    fix k st j r n z assume "wk_turn ?w k = Some (st, j, r, n, Some z)" "turn_open st"
    then have k: "wk_turn w k = Some (st, j, r, n, Some z)" "turn_open st" by simp_all
    from tasks(2) [OF this] assms show "\<exists>u. wk_task ?w z = Some (u, j, n) \<and> (st = Turn_Running \<longrightarrow> u \<noteq> Task_Queued)" by auto
  next
    fix k l st su j j' r r' n n' z
    assume "wk_turn ?w k = Some (st, j, r, n, Some z)" "turn_open st" "wk_turn ?w l = Some (su, j', r', n', Some z)" "turn_open su"
    then show "k = l" using tasks(3) by simp
  qed
  show "crowd_ok ?w" by (rule crowd_shrink [OF ok(4)]) (simp add: running_of_def)
qed

lemma work_task_new:
  assumes "work_ok w" "wk_task w y = None" "wk_status w i m \<noteq> None"
  shows "work_ok (set_task (Some y) Task_Queued i m w)" (is "work_ok ?w")
proof (rule work_okI)
  note ok = work_okD [OF assms(1)]
  note tasks = tasks_okD [OF ok(3)]
  show "turns_ok ?w" using ok(1) unfolding turns_ok_def by simp
  show "homes_ok ?w" using ok(5) assms(3) by (auto simp: homes_ok_def)
  show "runs_ok ?w" using ok(2) unfolding runs_ok_def by simp
  show "tasks_ok ?w"
  proof (rule tasks_okI)
    fix z j n assume "wk_task ?w z = Some (Task_Running, j, n)"
    then have "wk_task w z = Some (Task_Running, j, n)" by (auto split: if_splits)
    from tasks(1) [OF this] show "\<exists>k r. wk_turn ?w k = Some (Turn_Running, j, r, n, Some z)" by simp
  next
    fix k st j r n z assume "wk_turn ?w k = Some (st, j, r, n, Some z)" "turn_open st"
    then have k: "wk_turn w k = Some (st, j, r, n, Some z)" "turn_open st" by simp_all
    from tasks(2) [OF this] assms(2) show "\<exists>u. wk_task ?w z = Some (u, j, n) \<and> (st = Turn_Running \<longrightarrow> u \<noteq> Task_Queued)" by auto
  next
    fix k l st su j j' r r' n n' z
    assume "wk_turn ?w k = Some (st, j, r, n, Some z)" "turn_open st" "wk_turn ?w l = Some (su, j', r', n', Some z)" "turn_open su"
    then show "k = l" using tasks(3) by simp
  qed
  show "crowd_ok ?w" by (rule crowd_shrink [OF ok(4)]) (simp add: running_of_def)
qed

text \<open>A team whose working members stay as they are.\<close>

definition set_team :: "string \<Rightarrow> (string \<Rightarrow> member_status option) \<Rightarrow> work \<Rightarrow> work" where
  "set_team i f w = w\<lparr>wk_status := (wk_status w)(i := f), wk_team := (wk_team w)(i := True)\<rparr>"

lemma set_team_fields [simp]:
  "wk_status (set_team i f w) = (wk_status w)(i := f)" "wk_team (set_team i f w) = (wk_team w)(i := True)"
  "wk_task (set_team i f w) = wk_task w" "wk_run (set_team i f w) = wk_run w" "wk_turn (set_team i f w) = wk_turn w"
  by (simp_all add: set_team_def)

lemma work_team:
  assumes "work_ok w" "\<And>m. f m = Some Member_Running \<longleftrightarrow> wk_status w i m = Some Member_Running"
    and "\<And>k st r m x. wk_turn w k = Some (st, i, r, m, x) \<Longrightarrow> turn_open st \<Longrightarrow> f m \<noteq> None"
    and "\<And>y ts m. wk_task w y = Some (ts, i, m) \<Longrightarrow> task_open ts \<Longrightarrow> f m \<noteq> None"
  shows "work_ok (set_team i f w)" (is "work_ok ?w")
proof (rule work_okI)
  note ok = work_okD [OF assms(1)]
  note turns = turns_okD [OF ok(1)]
  show "turns_ok ?w"
  proof (rule turns_okI)
    fix l su j q n y assume "wk_turn ?w l = Some (su, j, q, n, y)" "turn_open su"
    with turns(1,2) assms(3) show "wk_run ?w q = Some (False, j) \<and> wk_status ?w j n \<noteq> None" by simp metis
  next
    fix l j q n y assume "wk_turn ?w l = Some (Turn_Running, j, q, n, y)"
    with turns(3) assms(2) show "wk_status ?w j n = Some Member_Running" by (metis fun_upd_apply set_team_fields(1,5))
  next
    fix l l' j q q' n y y' assume "wk_turn ?w l = Some (Turn_Running, j, q, n, y)" "wk_turn ?w l' = Some (Turn_Running, j, q', n, y')"
    with turns(4) show "l = l'" by (metis set_team_fields(5))
  next
    fix j n assume "wk_status ?w j n = Some Member_Running"
    then have "wk_status w j n = Some Member_Running" using assms(2) by (simp split: if_splits)
    from turns(5) [OF this] show "\<exists>l q y. wk_turn ?w l = Some (Turn_Running, j, q, n, y)" by simp
  qed
  show "homes_ok ?w" unfolding homes_ok_def
  proof (intro allI impI)
    fix y ts j n assume y: "wk_task ?w y = Some (ts, j, n)" "task_open ts"
    with homes_okD [OF ok(5), of y ts j n] assms(4) [of y ts n] show "wk_status ?w j n \<noteq> None" by simp
  qed
  show "runs_ok ?w" using ok(2) unfolding runs_ok_def by auto
  show "tasks_ok ?w" using ok(3) unfolding task_rules by simp
  show "crowd_ok ?w" by (rule crowd_shrink [OF ok(4)]) (simp add: running_of_def)
qed

text \<open>A team that is deleted with all that belongs to it.\<close>

definition forget_team :: "string \<Rightarrow> work \<Rightarrow> work" where
  "forget_team i w = \<lparr>wk_status = (wk_status w)(i := (\<lambda>_. None)), wk_team = (wk_team w)(i := False),
     wk_task = (\<lambda>y. case wk_task w y of Some (ts, j, m) \<Rightarrow> if j = i then None else wk_task w y | None \<Rightarrow> None),
     wk_run = (\<lambda>r. case wk_run w r of Some (b, j) \<Rightarrow> if j = i then None else wk_run w r | None \<Rightarrow> None),
     wk_turn = (\<lambda>k. case wk_turn w k of Some (st, j, r, m, x) \<Rightarrow> if j = i then None else wk_turn w k | None \<Rightarrow> None)\<rparr>"

lemma forget_some:
  "wk_turn (forget_team i w) k = Some (st, j, r, m, x) \<longleftrightarrow> j \<noteq> i \<and> wk_turn w k = Some (st, j, r, m, x)"
  "wk_task (forget_team i w) y = Some (ts, j, m) \<longleftrightarrow> j \<noteq> i \<and> wk_task w y = Some (ts, j, m)"
  "wk_run (forget_team i w) r = Some (b, j) \<longleftrightarrow> j \<noteq> i \<and> wk_run w r = Some (b, j)"
  by (auto simp: forget_team_def split: option.splits prod.splits if_splits)

lemma forget_status:
  "wk_status (forget_team i w) j m = (if j = i then None else wk_status w j m)"
  "wk_team (forget_team i w) j \<longleftrightarrow> j \<noteq> i \<and> wk_team w j"
  by (simp_all add: forget_team_def)

lemma work_forget:
  assumes "work_ok w"
  shows "work_ok (forget_team i w)" (is "work_ok ?w")
proof (rule work_okI)
  note ok = work_okD [OF assms(1)]
  note turns = turns_okD [OF ok(1)] and tasks = tasks_okD [OF ok(3)]
  show "turns_ok ?w"
  proof (rule turns_okI)
    fix k st j r m x assume "wk_turn ?w k = Some (st, j, r, m, x)" "turn_open st"
    then have k: "j \<noteq> i" "wk_turn w k = Some (st, j, r, m, x)" "turn_open st" by (simp_all add: forget_some)
    from turns(1,2) [OF k(2,3)] k(1) show "wk_run ?w r = Some (False, j) \<and> wk_status ?w j m \<noteq> None"
      by (simp add: forget_some forget_status)
  next
    fix k j r m x assume "wk_turn ?w k = Some (Turn_Running, j, r, m, x)"
    then have k: "j \<noteq> i" "wk_turn w k = Some (Turn_Running, j, r, m, x)" by (simp_all add: forget_some)
    from turns(3) [OF k(2)] k(1) show "wk_status ?w j m = Some Member_Running" by (simp add: forget_status)
  next
    fix k l j r q m x y assume "wk_turn ?w k = Some (Turn_Running, j, r, m, x)" "wk_turn ?w l = Some (Turn_Running, j, q, m, y)"
    then have "wk_turn w k = Some (Turn_Running, j, r, m, x)" "wk_turn w l = Some (Turn_Running, j, q, m, y)"
      by (simp_all add: forget_some)
    then show "k = l" by (rule turns(4))
  next
    fix j m assume "wk_status ?w j m = Some Member_Running"
    then have k: "j \<noteq> i" "wk_status w j m = Some Member_Running" by (simp_all add: forget_status split: if_splits)
    from turns(5) [OF k(2)] k(1) show "\<exists>k r x. wk_turn ?w k = Some (Turn_Running, j, r, m, x)" by (simp add: forget_some)
  qed
  show "homes_ok ?w" using ok(5) unfolding homes_ok_def forget_some forget_status by auto
  show "runs_ok ?w" using ok(2) unfolding runs_ok_def forget_some forget_status by (simp split: if_splits) blast
  show "tasks_ok ?w"
  proof (rule tasks_okI)
    fix y j m assume "wk_task ?w y = Some (Task_Running, j, m)"
    then have k: "j \<noteq> i" "wk_task w y = Some (Task_Running, j, m)" by (simp_all add: forget_some)
    from tasks(1) [OF k(2)] k(1) show "\<exists>k r. wk_turn ?w k = Some (Turn_Running, j, r, m, Some y)" by (simp add: forget_some)
  next
    fix k st j r m y assume "wk_turn ?w k = Some (st, j, r, m, Some y)" "turn_open st"
    then have k: "j \<noteq> i" "wk_turn w k = Some (st, j, r, m, Some y)" "turn_open st" by (simp_all add: forget_some)
    from tasks(2) [OF k(2,3)] k(1) show "\<exists>ts. wk_task ?w y = Some (ts, j, m) \<and> (st = Turn_Running \<longrightarrow> ts \<noteq> Task_Queued)"
      by (simp add: forget_some)
  next
    fix k l st su j j' r q m n y
    assume a: "wk_turn ?w k = Some (st, j, r, m, Some y)" "turn_open st" "wk_turn ?w l = Some (su, j', q, n, Some y)" "turn_open su"
    then have "wk_turn w k = Some (st, j, r, m, Some y)" "wk_turn w l = Some (su, j', q, n, Some y)" by (simp_all add: forget_some)
    from tasks(3) [OF this(1) a(2) this(2) a(4)] show "k = l" .
  qed
  show "crowd_ok ?w" by (rule crowd_shrink [OF ok(4)]) (auto simp: running_of_def forget_some)
qed

end
