(* ===== verification/Team_Invariant.thy ===== *)
theory Team_Invariant
  imports Team_Work
begin

text \<open>
  The invariant of the team store: the view of \<^verbatim>\<open>Team_Work.thy\<close> is consistent, maps are keyed by the ids of
  their values, ids still to be drawn are unused, a team has its lead first, and the limits of a run hold.
\<close>

section \<open>The view of a store\<close>

definition member_status_of :: "team \<Rightarrow> string \<Rightarrow> member_status option" where
  "member_status_of t k = map_option tb_status (find_member t k)"

definition task_view :: "team_task \<Rightarrow> task_status \<times> string \<times> string" where
  "task_view t = (tk_status t, tk_team t, tk_member t)"

definition run_facts :: "team_run \<Rightarrow> bool \<times> string" where
  "run_facts r = (run_over (tr_status r), tr_team r)"

definition turn_view :: "team_dispatch \<Rightarrow> dispatch_status \<times> string \<times> string \<times> string \<times> string option" where
  "turn_view d = (td_status d, td_team d, td_run d, td_member d, td_task d)"

definition work_of :: "team_store \<Rightarrow> work" where
  "work_of s = \<lparr>
     wk_status = (\<lambda>i k. case jmap_get (tm_teams s) i of None \<Rightarrow> None | Some t \<Rightarrow> member_status_of t k),
     wk_team = (\<lambda>i. jmap_get (tm_teams s) i \<noteq> None),
     wk_task = (\<lambda>y. map_option task_view (jmap_get (tm_tasks s) y)),
     wk_run = (\<lambda>r. map_option run_facts (jmap_get (tm_runs s) r)),
     wk_turn = (\<lambda>k. map_option turn_view (jmap_get (tm_dispatches s) k))\<rparr>"

lemma work_of_fields:
  "wk_status (work_of s) i k = (case jmap_get (tm_teams s) i of None \<Rightarrow> None | Some t \<Rightarrow> member_status_of t k)"
  "wk_team (work_of s) i \<longleftrightarrow> jmap_get (tm_teams s) i \<noteq> None"
  "wk_task (work_of s) y = map_option task_view (jmap_get (tm_tasks s) y)"
  "wk_run (work_of s) r = map_option run_facts (jmap_get (tm_runs s) r)"
  "wk_turn (work_of s) k = map_option turn_view (jmap_get (tm_dispatches s) k)"
  by (simp_all add: work_of_def)

definition set_run :: "string \<Rightarrow> bool \<times> string \<Rightarrow> work \<Rightarrow> work" where
  "set_run r v w = w\<lparr>wk_run := (wk_run w)(r \<mapsto> v)\<rparr>"

lemma set_run_same: "wk_run w r = Some v \<Longrightarrow> set_run r v w = w"
  by (auto simp: set_run_def fun_upd_idem)

lemma set_turn_same: "wk_turn w k = Some v \<Longrightarrow> set_turn k v w = w"
  by (auto simp: set_turn_def fun_upd_idem)

lemma set_task_same: "wk_task w y = Some (ts, i, m) \<Longrightarrow> set_task (Some y) ts i m w = w"
  by (auto simp: set_task_def fun_upd_idem)

lemma work_of_put [simp]:
  "work_of (put_dispatch d s) = set_turn (td_id d) (turn_view d) (work_of s)"
  "work_of (put_task t s) = set_task (Some (tk_id t)) (tk_status t) (tk_team t) (tk_member t) (work_of s)"
  "work_of (put_team u s) = set_team (tt_id u) (member_status_of u) (work_of s)"
  "work_of (put_team_run r s) = set_run (tr_id r) (run_facts r) (work_of s)"
  "work_of (put_mail m s) = work_of s"
  "work_of (push_event uuid now i ty subject s) = work_of s"
  "work_of (team_save s) = work_of s"
  by (auto simp: work_of_def put_dispatch_def put_task_def put_team_def put_team_run_def put_mail_def push_event_def
    team_save_def set_turn_def set_task_def set_team_def set_run_def jmap_simps task_view_def fun_eq_iff)

lemma work_of_other [simp]:
  "work_of (s\<lparr>tm_drawn := n\<rparr>) = work_of s" "work_of (s\<lparr>tm_messages := ms\<rparr>) = work_of s"
  "work_of (s\<lparr>tm_operations := os\<rparr>) = work_of s" "work_of (s\<lparr>tm_batch := b\<rparr>) = work_of s"
  "work_of (s\<lparr>tm_reconciled := x\<rparr>) = work_of s"
  by (simp_all add: work_of_def)

section \<open>The invariant\<close>

definition ids_ok :: "team_store \<Rightarrow> bool" where
  "ids_ok s \<longleftrightarrow> keyed tt_id (tm_teams s) \<and> keyed tk_id (tm_tasks s) \<and> keyed tr_id (tm_runs s) \<and>
     keyed td_id (tm_dispatches s) \<and> jmap_get (tm_tasks s) [] = None"

definition unused :: "(nat \<Rightarrow> string) \<Rightarrow> team_store \<Rightarrow> bool" where
  "unused uuid s \<longleftrightarrow> (\<forall>n \<ge> tm_drawn s.
     jmap_get (tm_teams s) (team_key (uuid n)) = None \<and> jmap_get (tm_tasks s) (team_task_key (uuid n)) = None \<and>
     jmap_get (tm_runs s) (run_key (uuid n)) = None \<and> jmap_get (tm_dispatches s) (dispatch_key (uuid n)) = None \<and>
     (\<forall>i t. jmap_get (tm_teams s) i = Some t \<longrightarrow> member_key (uuid n) \<notin> tb_id ` set (tt_members t)))"

definition team_shape :: "team \<Rightarrow> bool" where
  "team_shape t \<longleftrightarrow> distinct (map tb_id (tt_members t)) \<and>
     (case map tb_role (tt_members t) of [] \<Rightarrow> False | r # rs \<Rightarrow> r = Lead \<and> set rs \<subseteq> {Member})"

definition shapes_ok :: "team_store \<Rightarrow> bool" where
  "shapes_ok s \<longleftrightarrow> (\<forall>i t. jmap_get (tm_teams s) i = Some t \<longrightarrow> team_shape t)"

definition run_limits :: "team_run \<Rightarrow> bool" where
  "run_limits r \<longleftrightarrow> tr_dispatches r \<le> max_dispatches \<and> tr_recruited r \<le> max_recruited"

definition limits_ok :: "team_store \<Rightarrow> bool" where
  "limits_ok s \<longleftrightarrow> (\<forall>k r. jmap_get (tm_runs s) k = Some r \<longrightarrow> run_limits r)"

definition team_inv :: "(nat \<Rightarrow> string) \<Rightarrow> team_store \<Rightarrow> bool" where
  "team_inv uuid s \<longleftrightarrow> work_ok (work_of s) \<and> ids_ok s \<and> unused uuid s \<and> shapes_ok s \<and> limits_ok s"

lemma team_invD:
  assumes "team_inv uuid s"
  shows "work_ok (work_of s)" "ids_ok s" "unused uuid s" "shapes_ok s" "limits_ok s"
  using assms by (simp_all add: team_inv_def)

lemma ids_okD:
  assumes "ids_ok s"
  shows "jmap_get (tm_teams s) i = Some t \<Longrightarrow> tt_id t = i" "jmap_get (tm_tasks s) i = Some k \<Longrightarrow> tk_id k = i"
    "jmap_get (tm_runs s) i = Some r \<Longrightarrow> tr_id r = i" "jmap_get (tm_dispatches s) i = Some d \<Longrightarrow> td_id d = i"
  using assms by (auto simp: ids_ok_def intro: keyed_get)

subsection \<open>What the parts of a store need\<close>

lemma ids_ok_put [simp]:
  assumes "ids_ok s"
  shows "ids_ok (put_dispatch d s)" "tk_id t \<noteq> [] \<Longrightarrow> ids_ok (put_task t s)" "ids_ok (put_team u s)" "ids_ok (put_team_run r s)"
    "ids_ok (put_mail m s)" "ids_ok (push_event uuid now i ty subject s)" "ids_ok (team_save s)"
  using assms by (simp_all add: ids_ok_def put_dispatch_def put_task_def put_team_def put_team_run_def put_mail_def
    push_event_def team_save_def keyed_set jmap_simps)

lemma stored_task_id: "ids_ok s \<Longrightarrow> jmap_get (tm_tasks s) k \<noteq> None \<Longrightarrow> k \<noteq> []"
  by (auto simp: ids_ok_def)

lemma ids_ok_other [simp]:
  "ids_ok (s\<lparr>tm_drawn := n\<rparr>) = ids_ok s" "ids_ok (s\<lparr>tm_messages := ms\<rparr>) = ids_ok s"
  "ids_ok (s\<lparr>tm_operations := os\<rparr>) = ids_ok s" "ids_ok (s\<lparr>tm_batch := b\<rparr>) = ids_ok s"
  "ids_ok (s\<lparr>tm_reconciled := x\<rparr>) = ids_ok s"
  by (simp_all add: ids_ok_def)

lemma shapes_ok_put [simp]:
  assumes "shapes_ok s"
  shows "shapes_ok (put_dispatch d s)" "shapes_ok (put_task t s)" "team_shape u \<Longrightarrow> shapes_ok (put_team u s)"
    "shapes_ok (put_team_run r s)" "shapes_ok (put_mail m s)" "shapes_ok (push_event uuid now i ty subject s)"
    "shapes_ok (team_save s)"
  using assms by (simp_all add: shapes_ok_def put_dispatch_def put_task_def put_team_def put_team_run_def put_mail_def
    push_event_def team_save_def jmap_simps)

lemma shapes_ok_other [simp]:
  "shapes_ok (s\<lparr>tm_drawn := n\<rparr>) = shapes_ok s" "shapes_ok (s\<lparr>tm_messages := ms\<rparr>) = shapes_ok s"
  "shapes_ok (s\<lparr>tm_operations := os\<rparr>) = shapes_ok s" "shapes_ok (s\<lparr>tm_batch := b\<rparr>) = shapes_ok s"
  "shapes_ok (s\<lparr>tm_reconciled := x\<rparr>) = shapes_ok s"
  by (simp_all add: shapes_ok_def)

lemma limits_ok_put [simp]:
  assumes "limits_ok s"
  shows "limits_ok (put_dispatch d s)" "limits_ok (put_task t s)" "limits_ok (put_team u s)"
    "run_limits r \<Longrightarrow> limits_ok (put_team_run r s)" "limits_ok (put_mail m s)"
    "limits_ok (push_event uuid now i ty subject s)" "limits_ok (team_save s)"
  using assms by (simp_all add: limits_ok_def put_dispatch_def put_task_def put_team_def put_team_run_def put_mail_def
    push_event_def team_save_def jmap_simps)

lemma limits_ok_other [simp]:
  "limits_ok (s\<lparr>tm_drawn := n\<rparr>) = limits_ok s" "limits_ok (s\<lparr>tm_messages := ms\<rparr>) = limits_ok s"
  "limits_ok (s\<lparr>tm_operations := os\<rparr>) = limits_ok s" "limits_ok (s\<lparr>tm_batch := b\<rparr>) = limits_ok s"
  "limits_ok (s\<lparr>tm_reconciled := x\<rparr>) = limits_ok s"
  by (simp_all add: limits_ok_def)

text \<open>A key already there, or drawn before, does not spoil the ids still to come.\<close>

lemma unused_put [simp]:
  assumes "unused uuid s"
  shows "jmap_get (tm_dispatches s) (td_id d) \<noteq> None \<Longrightarrow> unused uuid (put_dispatch d s)"
    "jmap_get (tm_tasks s) (tk_id t) \<noteq> None \<Longrightarrow> unused uuid (put_task t s)"
    "jmap_get (tm_runs s) (tr_id r) \<noteq> None \<Longrightarrow> unused uuid (put_team_run r s)"
    "jmap_get (tm_teams s) (tt_id u) = Some v \<Longrightarrow> tb_id ` set (tt_members u) \<subseteq> tb_id ` set (tt_members v) \<Longrightarrow>
       unused uuid (put_team u s)"
    "unused uuid (put_mail m s)" "unused uuid (push_event uuid now i ty subject s)" "unused uuid (team_save s)"
    "tm_drawn s \<le> n \<Longrightarrow> unused uuid (s\<lparr>tm_drawn := n\<rparr>)"
  using assms unfolding unused_def put_dispatch_def put_task_def put_team_def put_team_run_def put_mail_def
    push_event_def team_save_def by (auto simp: jmap_simps) blast+

lemma unused_other [simp]:
  "unused uuid (s\<lparr>tm_messages := ms\<rparr>) = unused uuid s" "unused uuid (s\<lparr>tm_operations := os\<rparr>) = unused uuid s"
  "unused uuid (s\<lparr>tm_batch := b\<rparr>) = unused uuid s" "unused uuid (s\<lparr>tm_reconciled := x\<rparr>) = unused uuid s"
  by (simp_all add: unused_def)

subsection \<open>Single changes\<close>

lemma team_inv_quiet [simp]:
  assumes "team_inv uuid s"
  shows "team_inv uuid (push_event uuid now i ty subject s)" "team_inv uuid (team_save s)" "team_inv uuid (put_mail m s)"
    "team_inv uuid (s\<lparr>tm_drawn := Suc (tm_drawn s)\<rparr>)" "team_inv uuid (s\<lparr>tm_messages := ms\<rparr>)"
    "team_inv uuid (s\<lparr>tm_operations := os\<rparr>)" "team_inv uuid (s\<lparr>tm_batch := b\<rparr>)" "team_inv uuid (s\<lparr>tm_reconciled := x\<rparr>)"
  using assms by (simp_all add: team_inv_def)

lemma inv_put_dispatch:
  assumes "team_inv uuid s" "jmap_get (tm_dispatches s) (td_id d) = Some d0" "turn_view d = turn_view d0"
  shows "team_inv uuid (put_dispatch d s)"
  using assms by (simp add: team_inv_def set_turn_same work_of_fields)

lemma inv_put_run:
  assumes "team_inv uuid s" "jmap_get (tm_runs s) (tr_id r) = Some r0" "run_facts r = run_facts r0" "run_limits r"
  shows "team_inv uuid (put_team_run r s)"
  using assms by (simp add: team_inv_def set_run_same work_of_fields)

lemma inv_put_task:
  assumes "team_inv uuid s" "jmap_get (tm_tasks s) (tk_id t) = Some t0" "task_view t = task_view t0"
  shows "team_inv uuid (put_task t s)"
  using assms stored_task_id [OF team_invD(2) [OF assms(1)], of "tk_id t"]
  by (simp add: team_inv_def set_task_same work_of_fields task_view_def)

lemma inv_put_team:
  assumes "team_inv uuid s" "jmap_get (tm_teams s) (tt_id u) = Some v" "team_shape u"
    and "tb_id ` set (tt_members u) \<subseteq> tb_id ` set (tt_members v)"
    and "\<And>k. member_status_of u k = Some Member_Running \<longleftrightarrow> member_status_of v k = Some Member_Running"
    and "\<And>k st r m x. wk_turn (work_of s) k = Some (st, tt_id u, r, m, x) \<Longrightarrow> turn_open st \<Longrightarrow> member_status_of u m \<noteq> None"
    and "\<And>y ts m. wk_task (work_of s) y = Some (ts, tt_id u, m) \<Longrightarrow> task_open ts \<Longrightarrow> member_status_of u m \<noteq> None"
  shows "team_inv uuid (put_team u s)"
proof -
  have "work_ok (set_team (tt_id u) (member_status_of u) (work_of s))"
    by (rule work_team [OF team_invD(1) [OF assms(1)]]) (use assms in \<open>simp_all add: work_of_fields\<close>)
  with assms show ?thesis by (simp add: team_inv_def)
qed

lemma inv_put_same_members:
  assumes "team_inv uuid s" "jmap_get (tm_teams s) (tt_id u) = Some v" "team_shape u"
    and "tb_id ` set (tt_members u) \<subseteq> tb_id ` set (tt_members v)"
    and "\<And>k. member_status_of u k = Some Member_Running \<longleftrightarrow> member_status_of v k = Some Member_Running"
    and "\<And>k. member_status_of v k \<noteq> None \<Longrightarrow> member_status_of u k \<noteq> None"
  shows "team_inv uuid (put_team u s)"
proof (rule inv_put_team [OF assms(1-5)])
  note ok = work_okD [OF team_invD(1) [OF assms(1)]]
  show "member_status_of u m \<noteq> None" if "wk_turn (work_of s) k = Some (st, tt_id u, r, m, x)" "turn_open st" for k st r m x
    using turns_okD(2) [OF ok(1) that] assms(2,6) by (simp add: work_of_fields)
  show "member_status_of u m \<noteq> None" if "wk_task (work_of s) y = Some (ts, tt_id u, m)" "task_open ts" for y ts m
    using homes_okD [OF ok(5) that] assms(2,6) by (simp add: work_of_fields)
qed

lemma limits_of: "team_inv uuid s \<Longrightarrow> jmap_get (tm_runs s) k = Some r \<Longrightarrow> run_limits r"
  by (auto simp: team_inv_def limits_ok_def)

lemma shape_of: "team_inv uuid s \<Longrightarrow> jmap_get (tm_teams s) k = Some t \<Longrightarrow> team_shape t"
  by (auto simp: team_inv_def shapes_ok_def)

lemmas inv_ids = ids_okD [OF team_invD(2)]

lemma inv_turn:
  assumes "team_inv uuid s" "jmap_get (tm_dispatches s) k = Some d" "turn_open (td_status d)"
  obtains r t m where "jmap_get (tm_runs s) (td_run d) = Some r" "\<not> run_over (tr_status r)" "tr_team r = td_team d"
    "jmap_get (tm_teams s) (td_team d) = Some t" "find_member t (td_member d) = Some m"
    "td_status d = Turn_Running \<Longrightarrow> tb_status m = Member_Running"
proof -
  note turns = turns_okD [OF work_okD(1) [OF team_invD(1) [OF assms(1)]]]
  have k: "wk_turn (work_of s) k = Some (td_status d, td_team d, td_run d, td_member d, td_task d)"
    using assms(2) by (simp add: work_of_fields turn_view_def)
  from turns(1) [OF k assms(3)] obtain r where r: "jmap_get (tm_runs s) (td_run d) = Some r" "run_facts r = (False, td_team d)"
    by (auto simp: work_of_fields)
  from turns(2) [OF k assms(3)] obtain t m where t: "jmap_get (tm_teams s) (td_team d) = Some t" "find_member t (td_member d) = Some m"
    by (auto simp: work_of_fields member_status_of_def split: option.splits)
  have "td_status d = Turn_Running \<Longrightarrow> tb_status m = Member_Running"
    using turns(3) [of k "td_team d" "td_run d" "td_member d" "td_task d"] k t
    by (simp add: work_of_fields member_status_of_def)
  with r t that show thesis by (simp add: run_facts_def)
qed

subsection \<open>New ids\<close>

lemma new_id_fresh:
  assumes "unused uuid s"
  shows "jmap_get (tm_teams s) (team_key (uuid (tm_drawn s))) = None"
    "jmap_get (tm_tasks s) (team_task_key (uuid (tm_drawn s))) = None"
    "jmap_get (tm_runs s) (run_key (uuid (tm_drawn s))) = None"
    "jmap_get (tm_dispatches s) (dispatch_key (uuid (tm_drawn s))) = None"
    "jmap_get (tm_teams s) i = Some t \<Longrightarrow> member_key (uuid (tm_drawn s)) \<notin> tb_id ` set (tt_members t)"
  using assms unfolding unused_def by blast+

lemma key_eq [simp]:
  "team_key u = team_key v \<longleftrightarrow> u = v" "member_key u = member_key v \<longleftrightarrow> u = v" "team_task_key u = team_task_key v \<longleftrightarrow> u = v"
  "run_key u = run_key v \<longleftrightarrow> u = v" "dispatch_key u = dispatch_key v \<longleftrightarrow> u = v"
  by (simp_all add: team_key_def member_key_def team_task_key_def run_key_def dispatch_key_def)

lemma run_over_simps [simp]:
  "\<not> run_over Run_Running" "\<not> run_over Run_Paused" "\<not> run_over Run_Paused_Limit" "\<not> run_over Run_Interrupted"
  "run_over Run_Completed" "run_over Run_Cancelled"
  by (simp_all add: run_over_def)

lemma new_run_fields [simp]:
  "tr_id (new_run k i input now) = k" "tr_team (new_run k i input now) = i" "tr_status (new_run k i input now) = Run_Running"
  "run_facts (new_run k i input now) = (False, i)" "run_limits (new_run k i input now)"
  by (simp_all add: new_run_def run_facts_def run_limits_def)

lemma unused_new:
  assumes "inj uuid" "unused uuid s" "n < tm_drawn s"
  shows "td_id d = dispatch_key (uuid n) \<Longrightarrow> unused uuid (put_dispatch d s)"
    "tk_id t = team_task_key (uuid n) \<Longrightarrow> unused uuid (put_task t s)"
    "tr_id r = run_key (uuid n) \<Longrightarrow> unused uuid (put_team_run r s)"
    "tt_id u = team_key (uuid m) \<Longrightarrow> m < tm_drawn s \<Longrightarrow> tb_id ` set (tt_members u) \<subseteq> {member_key (uuid n)} \<Longrightarrow>
       unused uuid (put_team u s)"
    "jmap_get (tm_teams s) (tt_id u) = Some v \<Longrightarrow>
       tb_id ` set (tt_members u) \<subseteq> insert (member_key (uuid n)) (tb_id ` set (tt_members v)) \<Longrightarrow> unused uuid (put_team u s)"
proof -
  have ne: "uuid k \<noteq> uuid n" if "tm_drawn s \<le> k" for k using assms(1,3) that by (metis injD leD)
  show "unused uuid (put_dispatch d s)" if "td_id d = dispatch_key (uuid n)"
    using assms(2) ne that by (auto simp: unused_def put_dispatch_def jmap_simps)
  show "unused uuid (put_task t s)" if "tk_id t = team_task_key (uuid n)"
    using assms(2) ne that by (auto simp: unused_def put_task_def jmap_simps)
  show "unused uuid (put_team_run r s)" if "tr_id r = run_key (uuid n)"
    using assms(2) ne that by (auto simp: unused_def put_team_run_def jmap_simps)
  show "unused uuid (put_team u s)" if "tt_id u = team_key (uuid m)" "m < tm_drawn s" "tb_id ` set (tt_members u) \<subseteq> {member_key (uuid n)}"
  proof -
    have "uuid k \<noteq> uuid m" if "tm_drawn s \<le> k" for k using assms(1) \<open>m < tm_drawn s\<close> that by (metis injD leD)
    with assms(2) ne that show ?thesis by (fastforce simp: unused_def put_team_def jmap_simps)
  qed
  show "unused uuid (put_team u s)" if u: "jmap_get (tm_teams s) (tt_id u) = Some v"
      "tb_id ` set (tt_members u) \<subseteq> insert (member_key (uuid n)) (tb_id ` set (tt_members v))"
  proof -
    have "member_key (uuid k) \<notin> tb_id ` set (tt_members u)" if k: "tm_drawn s \<le> k" for k
    proof -
      have "member_key (uuid k) \<notin> tb_id ` set (tt_members v)" using assms(2) u(1) k unfolding unused_def by blast
      with u(2) ne [OF k] show ?thesis by auto
    qed
    moreover have "team_key (uuid k) \<noteq> tt_id u" if "tm_drawn s \<le> k" for k
      using assms(2) u(1) that unfolding unused_def by force
    ultimately show ?thesis using assms(2) by (auto simp: unused_def put_team_def jmap_simps)
  qed
qed

section \<open>Evaluating the methods\<close>

lemma leaves_store [simp]:
  "leaves (new_id uuid kind) s Q1 E = Q1 (kind (uuid (tm_drawn s))) (s\<lparr>tm_drawn := Suc (tm_drawn s)\<rparr>)"
  "leaves (announce uuid now i ty subject) s Q2 E = Q2 () (team_save (push_event uuid now i ty subject s))"
  "leaves (required_team i) s Q3 E = (case jmap_get (tm_teams s) i of None \<Rightarrow> E s | Some t \<Rightarrow> Q3 t s)"
  "leaves (required_task k) s Q4 E = (case jmap_get (tm_tasks s) k of None \<Rightarrow> E s | Some t \<Rightarrow> Q4 t s)"
  "leaves (required_member t k) s Q5 E = (case find_member t k of None \<Rightarrow> E s | Some m \<Rightarrow> Q5 m s)"
  "leaves (team_runs i) s Q6 E = (case jmap_get (tm_teams s) i of None \<Rightarrow> E s
     | Some t \<Rightarrow> Q6 (filter (\<lambda>r. tr_team r = i) (map snd (tm_runs s))) s)"
  "leaves (team_tasks i) s Q7 E = (case jmap_get (tm_teams s) i of None \<Rightarrow> E s
     | Some t \<Rightarrow> Q7 (sort_key tk_created (filter (\<lambda>t. tk_team t = i) (map snd (tm_tasks s)))) s)"
  by (simp_all add: announce_def required_team_def required_task_def required_member_def team_runs_def team_tasks_def
    split: option.split) (simp add: leaves_def new_id_def)

lemma leaves_transaction:
  assumes "tm_batch s \<Longrightarrow> leaves m s Q E"
    and "\<not> tm_batch s \<Longrightarrow> leaves m (s\<lparr>tm_batch := True\<rparr>) (\<lambda>a t. Q a (team_save (t\<lparr>tm_batch := False\<rparr>))) (\<lambda>t. E (rolled_back s t))"
  shows "leaves (transaction m) s Q E"
  using assms by (auto simp: transaction_def leaves_def split: prod.splits sum.splits)

section \<open>Every method keeps the invariant\<close>

subsection \<open>Runs and dispatches\<close>

lemma find_last_None: "find_last P xs = None \<Longrightarrow> x \<in> set xs \<Longrightarrow> \<not> P x"
  by (auto simp: find_last_def find_None_iff)

lemma find_last_Some:
  assumes "find_last P xs = Some x"
  shows "P x \<and> x \<in> set xs"
proof -
  from assms obtain i where i: "i < length (rev xs)" "P (rev xs ! i)" "x = rev xs ! i"
    unfolding find_last_def find_Some_iff by blast
  from nth_mem [OF i(1)] i(2,3) show ?thesis by simp
qed

lemma run_values:
  assumes "team_inv uuid s" "r \<in> set (map snd (tm_runs s))"
  shows "jmap_get (tm_runs s) (tr_id r) = Some r"
  by (rule keyed_get_value [OF _ assms(2)]) (use team_invD(2) [OF assms(1)] in \<open>simp add: ids_ok_def\<close>)

lemma dispatch_values:
  assumes "team_inv uuid s" "d \<in> set (team_dispatches s)"
  shows "jmap_get (tm_dispatches s) (td_id d) = Some d"
  by (rule keyed_get_value [OF _ assms(2) [unfolded team_dispatches_def]])
     (use team_invD(2) [OF assms(1)] in \<open>simp add: ids_ok_def\<close>)

text \<open>What the steps that only add work leave alone.\<close>

definition same_base :: "team_store \<Rightarrow> team_store \<Rightarrow> bool" where
  "same_base s t \<longleftrightarrow> tm_teams t = tm_teams s \<and> (\<forall>r i. wk_run (work_of s) r = Some (False, i) \<longrightarrow> wk_run (work_of t) r = Some (False, i))"

lemma same_base_refl [simp]: "same_base s s" by (simp add: same_base_def)

lemma same_base_trans: "same_base s t \<Longrightarrow> same_base t u \<Longrightarrow> same_base s u" by (simp add: same_base_def)

lemma same_base_work: "work_of t = work_of s \<Longrightarrow> tm_teams t = tm_teams s \<Longrightarrow> same_base s t" by (simp add: same_base_def)

lemma teams_put [simp]:
  "tm_teams (put_dispatch d s) = tm_teams s" "tm_teams (put_task k s) = tm_teams s" "tm_teams (put_team_run r s) = tm_teams s"
  "tm_teams (put_mail m s) = tm_teams s" "tm_teams (push_event uuid now i ty subject s) = tm_teams s"
  "tm_teams (team_save s) = tm_teams s"
  by (simp_all add: put_dispatch_def put_task_def put_team_run_def put_mail_def push_event_def team_save_def)

lemma runs_put [simp]:
  "tm_runs (put_dispatch d s) = tm_runs s" "tm_runs (put_task k s) = tm_runs s" "tm_runs (put_team u s) = tm_runs s"
  "tm_runs (put_mail m s) = tm_runs s" "tm_runs (push_event uuid now i ty subject s) = tm_runs s"
  "tm_runs (team_save s) = tm_runs s"
  by (simp_all add: put_dispatch_def put_task_def put_team_def put_mail_def push_event_def team_save_def)

lemma dispatches_put [simp]:
  "tm_dispatches (put_team_run r s) = tm_dispatches s" "tm_dispatches (put_task k s) = tm_dispatches s"
  "tm_dispatches (put_team u s) = tm_dispatches s" "tm_dispatches (put_mail m s) = tm_dispatches s"
  "tm_dispatches (push_event uuid now i ty subject s) = tm_dispatches s" "tm_dispatches (team_save s) = tm_dispatches s"
  by (simp_all add: put_team_run_def put_task_def put_team_def put_mail_def push_event_def team_save_def)

lemma tasks_put [simp]:
  "tm_tasks (put_team_run r s) = tm_tasks s" "tm_tasks (put_dispatch d s) = tm_tasks s"
  "tm_tasks (put_team u s) = tm_tasks s" "tm_tasks (put_mail m s) = tm_tasks s"
  "tm_tasks (push_event uuid now i ty subject s) = tm_tasks s" "tm_tasks (team_save s) = tm_tasks s"
  by (simp_all add: put_team_run_def put_dispatch_def put_team_def put_mail_def push_event_def team_save_def)

lemma get_put [simp]:
  "jmap_get (tm_runs (put_team_run r s)) k = (if k = tr_id r then Some r else jmap_get (tm_runs s) k)"
  "jmap_get (tm_tasks (put_task t s)) k = (if k = tk_id t then Some t else jmap_get (tm_tasks s) k)"
  "jmap_get (tm_teams (put_team u s)) k = (if k = tt_id u then Some u else jmap_get (tm_teams s) k)"
  "jmap_get (tm_dispatches (put_dispatch d s)) k = (if k = td_id d then Some d else jmap_get (tm_dispatches s) k)"
  by (simp_all add: put_team_run_def put_task_def put_team_def put_dispatch_def jmap_simps)

lemma drawn_put [simp]:
  "tm_drawn (put_team_run r s) = tm_drawn s" "tm_drawn (put_task t s) = tm_drawn s" "tm_drawn (put_team u s) = tm_drawn s"
  "tm_drawn (put_dispatch d s) = tm_drawn s" "tm_drawn (put_mail m s) = tm_drawn s" "tm_drawn (team_save s) = tm_drawn s"
  "tm_drawn (push_event uuid now i ty subject s) = Suc (tm_drawn s)"
  by (simp_all add: put_team_run_def put_task_def put_team_def put_dispatch_def put_mail_def team_save_def push_event_def)

definition open_run :: "team_run \<Rightarrow> string \<Rightarrow> team_store \<Rightarrow> bool" where
  "open_run r i s \<longleftrightarrow> wk_run (work_of s) (tr_id r) = Some (False, i) \<and> tr_team r = i"

lemma open_run_base: "same_base s t \<Longrightarrow> open_run r i s \<Longrightarrow> open_run r i t"
  by (simp add: open_run_def same_base_def)

lemma ensure_run_inv:
  assumes "inj uuid" "team_inv uuid s"
  shows "leaves (ensure_run uuid now i input) s
    (\<lambda>r t. team_inv uuid t \<and> same_base s t \<and> open_run r i t \<and> tm_dispatches t = tm_dispatches s \<and> tm_tasks t = tm_tasks s \<and>
       jmap_get (tm_runs t) (tr_id r) = Some r \<and> \<not> run_over (tr_status r)) (team_inv uuid)"
proof (cases "jmap_get (tm_teams s) i")
  case None
  with assms show ?thesis by (simp add: ensure_run_def)
next
  case (Some tm)
  let ?rs = "filter (\<lambda>r. tr_team r = i) (map snd (tm_runs s))"
  let ?k = "run_key (uuid (tm_drawn s))"
  show ?thesis
  proof (cases "find_last (\<lambda>r. \<not> run_over (tr_status r)) ?rs")
    case (Some r)
    from find_last_Some [OF this] have r: "\<not> run_over (tr_status r)" "tr_team r = i" "r \<in> set (map snd (tm_runs s))" by auto
    from run_values [OF assms(2) r(3)] r(1,2) Some \<open>jmap_get (tm_teams s) i = Some tm\<close> assms(2) show ?thesis
      by (simp add: ensure_run_def open_run_def work_of_fields run_facts_def)
  next
    case None
    let ?r = "new_run ?k i input now"
    let ?t = "put_team_run ?r (s\<lparr>tm_drawn := Suc (tm_drawn s)\<rparr>)"
    have none: "wk_run (work_of s) q \<noteq> Some (False, i)" for q
    proof
      assume "wk_run (work_of s) q = Some (False, i)"
      then obtain r where r: "jmap_get (tm_runs s) q = Some r" "\<not> run_over (tr_status r)" "tr_team r = i"
        by (auto simp: work_of_fields run_facts_def)
      then have "r \<in> set ?rs" by (force dest!: map_of_SomeD)
      with find_last_None [OF None this] r show False by simp
    qed
    have fresh: "jmap_get (tm_runs s) ?k = None" by (rule new_id_fresh(3)) (rule team_invD(3) [OF assms(2)])
    have "work_ok (set_run ?k (False, i) (work_of s))" unfolding set_run_def
      by (rule work_new_run [OF team_invD(1) [OF assms(2)]]) (use fresh none \<open>jmap_get (tm_teams s) i = Some tm\<close> in \<open>simp_all add: work_of_fields\<close>)
    moreover have "unused uuid ?t"
      by (rule unused_new(3) [OF assms(1)]) (use team_invD(3) [OF assms(2)] in \<open>simp_all\<close>)
    ultimately have "team_inv uuid ?t"
      using team_invD(2,4,5) [OF assms(2)]
      by (simp add: team_inv_def)
    moreover have "same_base s ?t" using fresh by (auto simp: same_base_def set_run_def work_of_fields)
    moreover have "wk_run (work_of s) ?k = None" using fresh by (simp add: work_of_fields)
    ultimately show ?thesis using \<open>jmap_get (tm_teams s) i = Some tm\<close> None
      by (simp add: ensure_run_def Let_def open_run_def same_base_def set_run_def)
  qed
qed

lemma register_edge_inv:
  assumes "team_inv uuid s" "open_run r i s"
  shows "leaves (register_edge uuid now r member parent_id) s
    (\<lambda>_ t. team_inv uuid t \<and> work_of t = work_of s \<and> tm_teams t = tm_teams s \<and> tm_tasks t = tm_tasks s) (team_inv uuid)"
proof -
  let ?p = "case parent_id of None \<Rightarrow> None | Some p \<Rightarrow> if p = [] then None else jmap_get (tm_dispatches s) p"
  have p: "jmap_get (tm_dispatches s) (td_id d) = Some d" if "?p = Some d" for d
    using that inv_ids(4) [OF assms(1)] by (auto split: option.splits if_splits)
  have edge: "team_inv uuid (put_dispatch (d\<lparr>td_fanout := f\<rparr>) s)" "work_of (put_dispatch (d\<lparr>td_fanout := f\<rparr>) s) = work_of s"
    if "?p = Some d" for d f
    using p [OF that] inv_put_dispatch [OF assms(1), of "d\<lparr>td_fanout := f\<rparr>" d]
    by (simp_all add: turn_view_def set_turn_same work_of_fields)
  have pause: "team_inv uuid (put_team_run (q\<lparr>tr_status := Run_Paused_Limit, tr_reason := x, tr_updated := now\<rparr>) u) \<and>
      work_of (put_team_run (q\<lparr>tr_status := Run_Paused_Limit, tr_reason := x, tr_updated := now\<rparr>) u) = work_of u"
    if "team_inv uuid u" "work_of u = work_of s" "jmap_get (tm_runs u) (tr_id r) = Some q" for u q x
  proof -
    have "run_facts q = (False, i)" using that(2,3) assms(2) unfolding open_run_def by (metis option.inject option.simps(9) work_of_fields(4))
    moreover have "tr_id q = tr_id r" using inv_ids(3) [OF that(1,3)] .
    ultimately show ?thesis
      using that(3) inv_put_run [OF that(1), of "q\<lparr>tr_status := Run_Paused_Limit, tr_reason := x, tr_updated := now\<rparr>" q] limits_of [OF that(1,3)]
      by (simp add: run_facts_def run_limits_def set_run_same work_of_fields)
  qed
  show ?thesis
    using assms(1) edge pause
    by (auto simp: register_edge_def Let_def split: option.split)
qed

lemma new_dispatch_fields [simp]:
  "td_id (new_dispatch k r m input parent task mids depth now) = k"
  "turn_view (new_dispatch k r m input parent task mids depth now) = (Turn_Queued, tr_team r, tr_id r, m, task)"
  by (simp_all add: new_dispatch_def turn_view_def)

definition in_team :: "string \<Rightarrow> string \<Rightarrow> team_store \<Rightarrow> bool" where
  "in_team i m s \<longleftrightarrow> (\<exists>t. jmap_get (tm_teams s) i = Some t \<and> find_member t m \<noteq> None)"

lemma in_team_status: "in_team i m s \<Longrightarrow> wk_status (work_of s) i m \<noteq> None"
  by (auto simp: in_team_def work_of_fields member_status_of_def)

lemma in_team_base: "same_base s t \<Longrightarrow> in_team i m s \<Longrightarrow> in_team i m t"
  by (simp add: in_team_def same_base_def)

text \<open>A task may be handed out when no open turn works on it.\<close>

definition task_free :: "string option \<Rightarrow> string \<Rightarrow> string \<Rightarrow> work \<Rightarrow> bool" where
  "task_free x i m w \<longleftrightarrow> (case x of None \<Rightarrow> True | Some y \<Rightarrow> (\<exists>ts. wk_task w y = Some (ts, i, m)) \<and>
     (\<forall>l su j q n. wk_turn w l = Some (su, j, q, n, Some y) \<longrightarrow> \<not> turn_open su))"

lemma enqueue_inv:
  assumes "inj uuid" "team_inv uuid s" "open_run r i s" "in_team i m s" "task_free x i m (work_of s)"
  shows "leaves (enqueue uuid now r m input parent x mids) s (\<lambda>_ t. team_inv uuid t \<and> same_base s t) (team_inv uuid)"
proof -
  have add: "team_inv uuid z \<and> same_base s z"
    if t: "team_inv uuid t" "work_of t = work_of s" "tm_teams t = tm_teams s"
      and "z = push_event uuid now (tr_team r) Dispatch_Updated (dispatch_key (uuid (tm_drawn t)))
        (put_dispatch (new_dispatch (dispatch_key (uuid (tm_drawn t))) r m input parent x mids depth now)
          (t\<lparr>tm_drawn := Suc (tm_drawn t)\<rparr>))" for t z depth
  proof -
    let ?k = "dispatch_key (uuid (tm_drawn t))"
    let ?u = "put_dispatch (new_dispatch ?k r m input parent x mids depth now) (t\<lparr>tm_drawn := Suc (tm_drawn t)\<rparr>)"
    have r: "wk_run (work_of t) (tr_id r) = Some (False, i)" "tr_team r = i" using assms(3) t(2) by (simp_all add: open_run_def)
    have "work_ok ((work_of t)\<lparr>wk_turn := (wk_turn (work_of t))(?k \<mapsto> (Turn_Queued, i, tr_id r, m, x))\<rparr>)"
    proof (rule work_enqueue [OF team_invD(1) [OF t(1)] _ r(1)])
      show "wk_turn (work_of t) ?k = None" using new_id_fresh(4) [OF team_invD(3) [OF t(1)]] by (simp add: work_of_fields)
      show "wk_status (work_of t) i m \<noteq> None" unfolding t(2) by (rule in_team_status [OF assms(4)])
      show "(\<exists>ts. wk_task (work_of t) y = Some (ts, i, m)) \<and> (\<forall>l su j q n. wk_turn (work_of t) l = Some (su, j, q, n, Some y) \<longrightarrow> \<not> turn_open su)"
        if "x = Some y" for y using assms(5) that unfolding t(2) by (simp add: task_free_def)
    qed
    moreover have "unused uuid ?u"
      by (rule unused_new(1) [OF assms(1)]) (use team_invD(3) [OF t(1)] in simp_all)
    ultimately have "team_inv uuid ?u" using r(2) team_invD(2,4,5) [OF t(1)] by (simp add: team_inv_def set_turn_def)
    moreover have "same_base s ?u" using t(2,3) by (simp add: same_base_def)
    ultimately show ?thesis using that(4) by (simp add: same_base_def)
  qed
  show ?thesis unfolding enqueue_def
    by (simp, rule leaves_mono [OF register_edge_inv [OF assms(2,3)]])
       (elim conjE, rule add, (assumption | rule refl)+)
qed

lemma deliver_inv:
  assumes "inj uuid" "team_inv uuid s" "open_run r i s" "in_team i m s"
  shows "leaves (deliver uuid now r k words parent m) s (\<lambda>_ t. team_inv uuid t \<and> same_base s t) (team_inv uuid)"
proof (cases "find (takes_mail (tr_id r) m) (team_dispatches s)")
  case None
  with enqueue_inv [OF assms, of None] show ?thesis by (simp add: deliver_def task_free_def)
next
  case (Some d)
  then have "d \<in> set (team_dispatches s)" unfolding find_Some_iff by auto
  from dispatch_values [OF assms(2) this] have d: "jmap_get (tm_dispatches s) (td_id d) = Some d" .
  have add: "team_inv uuid (put_dispatch (d\<lparr>td_depth := x, td_messages := y, td_input := z\<rparr>) t) \<and>
      same_base s (put_dispatch (d\<lparr>td_depth := x, td_messages := y, td_input := z\<rparr>) t)"
    if t: "team_inv uuid t" "work_of t = work_of s" "tm_teams t = tm_teams s" for t x y z
  proof -
    have "wk_turn (work_of t) (td_id d) = Some (turn_view d)" unfolding t(2) using d by (simp add: work_of_fields)
    then obtain d0 where d0: "jmap_get (tm_dispatches t) (td_id d) = Some d0" "turn_view d0 = turn_view d"
      by (auto simp: work_of_fields)
    have "turn_view (d\<lparr>td_depth := x, td_messages := y, td_input := z\<rparr>) = turn_view d" by (simp add: turn_view_def)
    moreover from this have "team_inv uuid (put_dispatch (d\<lparr>td_depth := x, td_messages := y, td_input := z\<rparr>) t)"
      using inv_put_dispatch [OF t(1), of "d\<lparr>td_depth := x, td_messages := y, td_input := z\<rparr>" d0] d0 by simp
    ultimately show ?thesis using t(2,3) by (simp add: same_base_def)
  qed
  show ?thesis using Some unfolding deliver_def
    by (simp, intro leaves_mono [OF register_edge_inv [OF assms(2,3)]]) (simp_all add: add)
qed

definition known_member :: "team \<Rightarrow> string option \<Rightarrow> bool" where
  "known_member t x \<longleftrightarrow> (case x of None \<Rightarrow> True | Some k \<Rightarrow> find_member t k \<noteq> None)"

lemma leaves_members [simp]:
  "leaves (case x of None \<Rightarrow> act_return () | Some k \<Rightarrow> act_bind (required_member t k) (\<lambda>_. act_return ())) s Q E =
    (if known_member t x then Q () s else E s)"
  by (simp add: known_member_def split: option.split)

lemma find_member_own: "m \<in> set (tt_members t) \<Longrightarrow> find_member t (tb_id m) \<noteq> None"
  by (auto simp: find_member_def find_None_iff)

lemma send_mail_in_inv:
  assumes "inj uuid" "team_inv uuid s"
  shows "leaves (send_mail_in uuid now i sender receiver body parent) s (\<lambda>_ t. team_inv uuid t \<and> same_base s t) (team_inv uuid)"
proof (cases "jmap_get (tm_teams s) i")
  case None
  with assms show ?thesis by (simp add: send_mail_in_def)
next
  case (Some tm)
  let ?targets = "case receiver of Some x \<Rightarrow> [x] | None \<Rightarrow> map tb_id (filter (\<lambda>x. Some (tb_id x) \<noteq> sender) (tt_members tm))"
  have target: "in_team i m s" if "m \<in> set ?targets" "known_member tm receiver" for m
    using that Some find_member_own by (fastforce simp: in_team_def known_member_def split: option.splits)
  have all: "leaves (act_each (deliver uuid now r k words parent) ?targets) t
      (\<lambda>_ u. team_inv uuid u \<and> same_base s u \<and> open_run r i u) (team_inv uuid)"
    if "team_inv uuid t \<and> same_base s t \<and> open_run r i t" "known_member tm receiver" for t r k words
  proof (rule leaves_each)
    show "team_inv uuid t \<and> same_base s t \<and> open_run r i t" by (rule that(1))
  next
    fix m u assume m: "m \<in> set ?targets" and u: "team_inv uuid u \<and> same_base s u \<and> open_run r i u"
    have "in_team i m u" using in_team_base target [OF m that(2)] u by blast
    with u show "leaves (deliver uuid now r k words parent m) u (\<lambda>_ v. team_inv uuid v \<and> same_base s v \<and> open_run r i v) (team_inv uuid)"
      by (intro leaves_mono [OF deliver_inv [OF assms(1)]]) (auto intro: same_base_trans open_run_base)
  qed
  have go: "leaves (act_bind (ensure_run uuid now i body) (\<lambda>r. act_seq (act_each (deliver uuid now r k words parent) ?targets)
        (act_seq (announce uuid now i Mail_Received k) (act_return m)))) t (\<lambda>_ t. team_inv uuid t \<and> same_base s t) (team_inv uuid)"
    if "team_inv uuid t" "same_base s t" "known_member tm receiver" for t k words m
    using that
    by (simp, intro leaves_mono [OF ensure_run_inv [OF assms(1)]])
       (auto intro!: leaves_mono [OF all] intro: same_base_trans simp: same_base_def)
  show ?thesis
    using Some assms(2) go unfolding send_mail_in_def
    by (auto simp: same_base_def split: option.split)
qed

subsection \<open>Transactions\<close>

text \<open>
  What every method does: it draws ids and gives none back, ends with the flag it began with, and writes
  nothing inside a transaction. So a transaction that throws leaves what it found, but for the ids drawn.
\<close>

definition calm :: "'a tact \<Rightarrow> bool" where
  "calm m \<longleftrightarrow> (\<forall>s. tm_drawn s \<le> tm_drawn (snd (m s)) \<and> tm_batch (snd (m s)) = tm_batch s \<and>
     (tm_batch s \<longrightarrow> tm_disk (snd (m s)) = tm_disk s))"

named_theorems calm_intros "rules that a method is calm"

lemma calm_pure [calm_intros]: "calm (act_return a)" "calm (act_fail e)"
  by (simp_all add: calm_def act_return_def act_fail_def)

lemma calm_check [calm_intros]: "calm (act_check e b)" "calm (act_need e x)"
  by (auto simp: act_check_def act_need_def intro: calm_intros split: option.split)

lemma calm_bind [calm_intros]: "calm m \<Longrightarrow> (\<And>a. calm (f a)) \<Longrightarrow> calm (act_bind m f)"
  unfolding calm_def act_bind_def
  by (auto split: prod.splits sum.splits) (metis le_trans snd_conv)+

lemma calm_seq [calm_intros]: "calm m \<Longrightarrow> calm n \<Longrightarrow> calm (act_seq m n)"
  unfolding act_seq_def by (rule calm_bind)

lemma calm_get [calm_intros]: "(\<And>u. calm (f u)) \<Longrightarrow> calm (act_get f)"
  by (simp add: calm_def act_get_def)

lemma calm_do [calm_intros]:
  "(\<And>s. tm_drawn s \<le> tm_drawn (g s) \<and> tm_batch (g s) = tm_batch s \<and> (tm_batch s \<longrightarrow> tm_disk (g s) = tm_disk s)) \<Longrightarrow> calm (act_do g)"
  by (simp add: calm_def act_do_def)

lemma calm_option [calm_intros]: "calm a \<Longrightarrow> (\<And>x. calm (f x)) \<Longrightarrow> calm (case z of None \<Rightarrow> a | Some x \<Rightarrow> f x)"
  by (simp split: option.split)

lemma calm_if [calm_intros]: "calm a \<Longrightarrow> calm b \<Longrightarrow> calm (if c then a else b)"
  by simp

lemma calm_each [calm_intros]: "(\<And>x. calm (f x)) \<Longrightarrow> calm (act_each f xs)"
  by (induction xs) (auto intro: calm_intros)

lemma calm_new_id [calm_intros]: "calm (new_id uuid kind)"
  by (simp add: calm_def new_id_def)

lemma state_put [simp]:
  "tm_batch (put_dispatch d s) = tm_batch s" "tm_batch (put_task t s) = tm_batch s" "tm_batch (put_team u s) = tm_batch s"
  "tm_batch (put_team_run r s) = tm_batch s" "tm_batch (put_mail m s) = tm_batch s"
  "tm_batch (push_event uuid now i ty subject s) = tm_batch s" "tm_batch (team_save s) = tm_batch s"
  "tm_disk (put_dispatch d s) = tm_disk s" "tm_disk (put_task t s) = tm_disk s" "tm_disk (put_team u s) = tm_disk s"
  "tm_disk (put_team_run r s) = tm_disk s" "tm_disk (put_mail m s) = tm_disk s"
  "tm_disk (push_event uuid now i ty subject s) = tm_disk s" "tm_batch s \<Longrightarrow> team_save s = s"
  by (simp_all add: put_dispatch_def put_task_def put_team_def put_team_run_def put_mail_def push_event_def team_save_def)

lemma calm_transaction [calm_intros]:
  assumes "calm m"
  shows "calm (transaction m)"
  unfolding calm_def
proof
  fix s
  show "tm_drawn s \<le> tm_drawn (snd (transaction m s)) \<and> tm_batch (snd (transaction m s)) = tm_batch s \<and>
      (tm_batch s \<longrightarrow> tm_disk (snd (transaction m s)) = tm_disk s)"
  proof (cases "tm_batch s")
    case True
    with assms show ?thesis by (simp add: calm_def transaction_def)
  next
    case False
    obtain r t where mt: "m (s\<lparr>tm_batch := True\<rparr>) = (r, t)" by (cases "m (s\<lparr>tm_batch := True\<rparr>)")
    with assms [unfolded calm_def, rule_format, of "s\<lparr>tm_batch := True\<rparr>"] False show ?thesis
      by (cases r) (simp_all add: transaction_def rolled_back_def)
  qed
qed

lemma calm_base [calm_intros]:
  "calm (required_team i)" "calm (required_task k)" "calm (required_member t k)" "calm (team_runs i)" "calm (team_tasks i)"
  "calm (announce uuid now i ty subject)" "calm (idle_member now i m b)" "calm (cancel_turn now d)"
  unfolding required_team_def required_task_def required_member_def team_runs_def team_tasks_def announce_def idle_member_def
    cancel_turn_def
  by (intro calm_intros; simp)+

lemma calm_ensure_run [calm_intros]: "calm (ensure_run uuid now i input)"
  unfolding ensure_run_def Let_def by (intro calm_intros; simp)

lemma calm_register_edge [calm_intros]: "calm (register_edge uuid now r m parent)"
  unfolding register_edge_def Let_def by (intro calm_intros; simp)

lemma calm_enqueue [calm_intros]: "calm (enqueue uuid now r m input parent x mids)"
  unfolding enqueue_def by (intro calm_intros; simp)

lemma calm_deliver [calm_intros]: "calm (deliver uuid now r k words parent m)"
  unfolding deliver_def by (intro calm_intros; simp)

lemma calm_send_mail_in [calm_intros]: "calm (send_mail_in uuid now i sender receiver body parent)"
  unfolding send_mail_in_def by (intro calm_intros; simp)

lemma calm_send_mail [calm_intros]: "calm (send_mail uuid now i sender receiver body parent)"
  unfolding send_mail_def by (intro calm_intros)

lemma calm_validate [calm_intros]: "calm (validate_dependencies i ids target)"
  unfolding validate_dependencies_def by (intro calm_intros)

lemma calm_queue_task_in [calm_intros]: "calm (queue_task_in uuid now i input parent)"
  unfolding queue_task_in_def by (intro calm_intros; simp)

lemma calm_each_dispatch [calm_intros]: "(\<And>d. calm (f d)) \<Longrightarrow> calm (each_dispatch f)"
  unfolding each_dispatch_def by (intro calm_intros)

lemma calm_begin_task [calm_intros]: "calm (begin_task uuid now k)"
  unfolding begin_task_def by (intro calm_intros; simp)

lemma calm_finish_task [calm_intros]: "calm (finish_task uuid now k e)"
  unfolding finish_task_def by (intro calm_intros; simp)

lemma calm_cancel_task [calm_intros]: "calm (cancel_team_task uuid now i k)"
  unfolding cancel_team_task_def by (intro calm_intros; simp)

lemma calm_control_run_in [calm_intros]: "calm (control_run_in uuid now i k c)"
  unfolding control_run_in_def cancel_item_def by (intro calm_intros; simp)

lemma calm_begin_turn [calm_intros]: "calm (begin_turn uuid now d r t m)"
  unfolding begin_turn_def by (intro calm_intros; simp)

lemma calm_finish_dispatch_in [calm_intros]: "calm (finish_dispatch_in uuid now k e)"
  unfolding finish_dispatch_in_def report_turn_def by (intro calm_intros; simp)

lemma calm_add_member [calm_intros]: "calm (add_member uuid now i input)"
  unfolding add_member_def by (intro calm_intros; simp)

lemma calm_recruit_in [calm_intros]: "calm (recruit_in uuid now i parent input)"
  unfolding recruit_in_def Let_def by (intro calm_intros; simp)

lemma rolled_back_inv:
  assumes "team_inv uuid s" "tm_drawn s \<le> tm_drawn t"
  shows "team_inv uuid (rolled_back s t)"
proof -
  have "work_of (rolled_back s t) = work_of s" by (simp add: rolled_back_def work_of_def)
  moreover have "unused uuid (rolled_back s t)" using team_invD(3) [OF assms(1)] assms(2) by (simp add: rolled_back_def unused_def)
  ultimately show ?thesis
    using team_invD [OF assms(1)] by (simp add: team_inv_def rolled_back_def ids_ok_def shapes_ok_def limits_ok_def)
qed

text \<open>A transaction keeps the invariant when its body, ending well, does.\<close>

lemma transaction_inv:
  assumes "calm m" "team_inv uuid s" "\<And>t. team_inv uuid t \<Longrightarrow> leaves m t (\<lambda>_. team_inv uuid) E" "tm_batch s \<Longrightarrow> E = team_inv uuid"
  shows "leaves (transaction m) s (\<lambda>_. team_inv uuid) (team_inv uuid)"
proof (rule leaves_transaction)
  show "leaves m s (\<lambda>_. team_inv uuid) (team_inv uuid)" if "tm_batch s" using assms(2,3,4) that by metis
  let ?s = "s\<lparr>tm_batch := True\<rparr>"
  have "leaves m ?s (\<lambda>_. team_inv uuid) E" using assms(2,3) by simp
  moreover have "leaves m ?s (\<lambda>_ t. tm_drawn s \<le> tm_drawn t) (\<lambda>t. tm_drawn s \<le> tm_drawn t)"
    using assms(1) [unfolded calm_def, rule_format, of ?s] by (auto simp: leaves_def split: prod.splits sum.splits)
  ultimately have "leaves m ?s (\<lambda>_ t. team_inv uuid t \<and> tm_drawn s \<le> tm_drawn t) (\<lambda>t. E t \<and> tm_drawn s \<le> tm_drawn t)"
    by (rule leaves_conj)
  then show "leaves m ?s (\<lambda>_ t. team_inv uuid (team_save (t\<lparr>tm_batch := False\<rparr>))) (\<lambda>t. team_inv uuid (rolled_back s t))"
    by (rule leaves_mono) (use rolled_back_inv [OF assms(2)] in auto)
qed

subsection \<open>Tasks, runs and messages\<close>

lemma parse_task_fields: "parse_task t = Some u \<Longrightarrow> task_view u = task_view t \<and> tk_id u = tk_id t \<and> tk_depends u = tk_depends t"
  by (auto simp: parse_task_def task_view_def split: option.splits if_splits)

lemma leaves_validate:
  assumes "Q () s" "E s"
  shows "leaves (validate_dependencies i ids target) s Q E"
proof -
  have "leaves (act_each (\<lambda>x. case visit ts i target [] [x] of None \<Rightarrow> act_return () | Some e \<Rightarrow> act_fail e) ids) s
      (\<lambda>_ t. t = s) (\<lambda>t. t = s)" for ts
    by (rule leaves_each) (auto split: option.split)
  then have "leaves (act_each (\<lambda>x. case visit ts i target [] [x] of None \<Rightarrow> act_return () | Some e \<Rightarrow> act_fail e) ids) s Q E" for ts
    by (rule leaves_mono) (use assms in simp_all)
  with assms show ?thesis by (simp add: validate_dependencies_def)
qed

lemma no_turn_of_task:
  assumes "team_inv uuid s" "jmap_get (tm_tasks s) y = None" "wk_turn (work_of s) l = Some (su, j, q, n, Some y)"
  shows "\<not> turn_open su"
  using tasks_okD(2) [OF work_okD(3) [OF team_invD(1) [OF assms(1)]] assms(3)] assms(2) by (auto simp: work_of_fields)

lemma queue_task_in_inv:
  assumes "inj uuid" "team_inv uuid s"
  shows "leaves (queue_task_in uuid now i input parent) s (\<lambda>_. team_inv uuid) (team_inv uuid)"
proof (cases "jmap_get (tm_teams s) i")
  case None
  with assms show ?thesis by (simp add: queue_task_in_def)
next
  case (Some tm)
  let ?k = "team_task_key (uuid (tm_drawn s))" and ?s = "s\<lparr>tm_drawn := Suc (tm_drawn s)\<rparr>"
  have go: "leaves (act_bind (ensure_run uuid now i (tk_input task)) (\<lambda>r.
       act_seq (enqueue uuid now r (tk_member task) (tk_input task) parent (Some (tk_id task)) [])
       (act_seq (announce uuid now i Event_Queued (tk_id task)) (act_return task))))
      (put_task task ?s) (\<lambda>_. team_inv uuid) (team_inv uuid)"
    if task: "tk_id task = ?k" "tk_status task = Task_Queued" "tk_team task = i" "tk_member task = ki_member input"
      and m: "find_member tm (ki_member input) \<noteq> None" for task
  proof -
    let ?t = "put_task task ?s"
    have fresh: "jmap_get (tm_tasks s) ?k = None" by (rule new_id_fresh(2)) (rule team_invD(3) [OF assms(2)])
    have "work_ok (work_of ?t)"
      using work_task_new [OF team_invD(1) [OF assms(2)], of ?k i "ki_member input"] task fresh m Some
      by (simp add: work_of_fields member_status_of_def)
    moreover have "unused uuid ?t"
      by (rule unused_new(2) [OF assms(1)]) (use task team_invD(3) [OF assms(2)] in simp_all)
    ultimately have t: "team_inv uuid ?t" using team_invD(2,4,5) [OF assms(2)] task by (simp add: team_inv_def team_task_key_def)
    have queued: "leaves (enqueue uuid now r (tk_member task) (tk_input task) parent (Some (tk_id task)) []) u
        (\<lambda>_ v. team_inv uuid (team_save (push_event uuid now i Event_Queued (tk_id task) v))) (team_inv uuid)"
      if u: "team_inv uuid u" "same_base ?t u" "open_run r i u" "tm_dispatches u = tm_dispatches ?t" "tm_tasks u = tm_tasks ?t" for r u
    proof (rule leaves_mono [OF enqueue_inv [OF assms(1) u(1,3)]])
      show "in_team i (tk_member task) u"
        by (rule in_team_base [OF u(2)]) (use Some m task in \<open>simp add: in_team_def\<close>)
      have "\<not> turn_open su" if "wk_turn (work_of u) l = Some (su, j, q, n, Some ?k)" for l su j q n
        using no_turn_of_task [OF assms(2) fresh, of l su j q n] that u(4) by (simp add: work_of_fields)
      then show "task_free (Some (tk_id task)) i (tk_member task) (work_of u)"
        using task u(5) by (auto simp: task_free_def work_of_fields task_view_def)
    qed simp_all
    show ?thesis
      by (simp, rule leaves_mono [OF ensure_run_inv [OF assms(1) t]]) (use queued in auto)
  qed
  show ?thesis
    using Some assms(2) go unfolding queue_task_in_def
    by (auto intro!: leaves_validate dest!: parse_task_fields simp: task_view_def split: option.split)
qed

lemma start_run_inv:
  assumes "inj uuid" "team_inv uuid s"
  shows "leaves (start_run uuid now i input member) s (\<lambda>_. team_inv uuid) (team_inv uuid)"
proof (cases "jmap_get (tm_teams s) i")
  case None
  with assms show ?thesis by (simp add: start_run_def)
next
  case (Some tm)
  have go: "leaves (ensure_run uuid now i input) s (\<lambda>r t. (tr_status r = Run_Running \<longrightarrow>
        leaves (enqueue uuid now r k input None None []) t (\<lambda>_ v. team_inv uuid (team_save v)) (team_inv uuid)) \<and>
        (tr_status r \<noteq> Run_Running \<longrightarrow> team_inv uuid t)) (team_inv uuid)"
    if k: "find_member tm k \<noteq> None" for k
  proof (rule leaves_mono [OF ensure_run_inv [OF assms]])
    fix r t assume t: "team_inv uuid t \<and> same_base s t \<and> open_run r i t \<and> tm_dispatches t = tm_dispatches s \<and>
      tm_tasks t = tm_tasks s \<and> jmap_get (tm_runs t) (tr_id r) = Some r \<and> \<not> run_over (tr_status r)"
    then have "in_team i k t" using Some k by (intro in_team_base [of s t]) (auto simp: in_team_def)
    with t have "leaves (enqueue uuid now r k input None None []) t (\<lambda>_ v. team_inv uuid (team_save v)) (team_inv uuid)"
      by (intro leaves_mono [OF enqueue_inv [OF assms(1)]]) (auto simp: task_free_def)
    with t show "(tr_status r = Run_Running \<longrightarrow>
        leaves (enqueue uuid now r k input None None []) t (\<lambda>_ v. team_inv uuid (team_save v)) (team_inv uuid)) \<and>
        (tr_status r \<noteq> Run_Running \<longrightarrow> team_inv uuid t)" by simp
  qed simp
  show ?thesis using Some assms(2) unfolding start_run_def
    by (auto simp del: leaves_pure(3) split: option.split intro!: go) (auto split: option.split intro!: go)
qed

subsection \<open>Teams and members\<close>

lemma those_map_keeps:
  assumes "those (map f xs) = Some ys" "\<And>x y. f x = Some y \<Longrightarrow> g y = g x"
  shows "map g ys = map g xs"
  using assms(1) by (induction xs arbitrary: ys) (auto split: option.splits dest: assms(2))

lemma parse_member_fields: "parse_member m = Some n \<Longrightarrow> (tb_id n, tb_status n, tb_role n) = (tb_id m, tb_status m, tb_role m)"
  by (auto simp: parse_member_def split: option.splits if_splits)

lemma parse_team_fields:
  assumes "parse_team t = Some u"
  shows "tt_id u = tt_id t" and "map (\<lambda>m. (tb_id m, tb_status m, tb_role m)) (tt_members u) = map (\<lambda>m. (tb_id m, tb_status m, tb_role m)) (tt_members t)"
proof -
  from assms obtain n mode ms where p: "those (map parse_member (tt_members t)) = Some ms"
    "u = t\<lparr>tt_name := n, tt_mode := mode, tt_members := ms\<rparr>"
    by (auto simp: parse_team_def split: option.splits prod.splits if_splits)
  from those_map_keeps [OF p(1) parse_member_fields] p(2)
  show "tt_id u = tt_id t" "map (\<lambda>m. (tb_id m, tb_status m, tb_role m)) (tt_members u) = map (\<lambda>m. (tb_id m, tb_status m, tb_role m)) (tt_members t)"
    by simp_all
qed

lemma same_members:
  assumes "map (\<lambda>m. (tb_id m, tb_status m, tb_role m)) (tt_members u) = map (\<lambda>m. (tb_id m, tb_status m, tb_role m)) (tt_members t)"
  shows "member_status_of u = member_status_of t" "team_shape u = team_shape t" "tb_id ` set (tt_members u) = tb_id ` set (tt_members t)"
proof -
  have ids: "map tb_id (tt_members u) = map tb_id (tt_members t)" and roles: "map tb_role (tt_members u) = map tb_role (tt_members t)"
    using arg_cong [OF assms, of "map fst"] arg_cong [OF assms, of "map (\<lambda>x. snd (snd x))"] by (simp_all add: comp_def)
  show "team_shape u = team_shape t" by (simp add: team_shape_def ids roles)
  show "tb_id ` set (tt_members u) = tb_id ` set (tt_members t)" using ids by (metis list.set_map)
  have "map_option tb_status (find (\<lambda>m. tb_id m = k) xs) = map_option tb_status (find (\<lambda>m. tb_id m = k) ys)"
    if "map (\<lambda>m. (tb_id m, tb_status m, tb_role m)) xs = map (\<lambda>m. (tb_id m, tb_status m, tb_role m)) ys" for k and xs ys :: "team_member list"
    using that by (induction xs ys rule: list_induct2') auto
  from this [OF assms] show "member_status_of u = member_status_of t" by (simp add: fun_eq_iff member_status_of_def find_member_def)
qed

lemmas parsed_team = parse_team_fields(1) same_members [OF parse_team_fields(2)]

lemma find_member_same:
  "find_member t k = Some m \<Longrightarrow> m \<in> set (tt_members t) \<and> tb_id m = k"
  unfolding find_member_def find_Some_iff by (metis nth_mem)

lemma find_member_distinct:
  assumes "distinct (map tb_id (tt_members t))" "m \<in> set (tt_members t)"
  shows "find_member t (tb_id m) = Some m"
proof -
  from find_member_own [OF assms(2)] obtain n where n: "find_member t (tb_id m) = Some n" by auto
  from find_member_same [OF n] assms have "n = m" by (metis distinct_map inj_onD)
  with n show ?thesis by simp
qed

lemma team_create_inv:
  assumes "inj uuid" "team_inv uuid s"
  shows "leaves (team_create uuid now input) s (\<lambda>_. team_inv uuid) (team_inv uuid)"
proof -
  let ?s = "s\<lparr>tm_drawn := Suc (Suc (Suc (tm_drawn s)))\<rparr>"
  let ?i = "team_key (uuid (tm_drawn s))" and ?m = "member_key (uuid (Suc (tm_drawn s)))"
  have s3: "team_inv uuid ?s" and s12: "team_inv uuid (s\<lparr>tm_drawn := Suc (tm_drawn s)\<rparr>)" "team_inv uuid (s\<lparr>tm_drawn := Suc (Suc (tm_drawn s))\<rparr>)"
    using team_invD [OF assms(2)] by (simp_all add: team_inv_def)
  have put: "team_inv uuid (put_team u ?s)"
    if lead: "parse_member (new_member ?m sid name engine acp preset Lead now) = Some lead"
      and u: "parse_team t = Some u" "tt_id t = ?i" "tt_members t = [lead]" for u t lead sid name engine acp preset
  proof -
    note u' = parsed_team [OF u(1)]
    have l: "tb_id lead = ?m" "tb_status lead = Member_Idle" "tb_role lead = Lead"
      using parse_member_fields [OF lead] by (simp_all add: new_member_def)
    have fresh: "jmap_get (tm_teams s) ?i = None" by (rule new_id_fresh(1)) (rule team_invD(3) [OF assms(2)])
    have nt: "wk_run (work_of s) r \<noteq> Some (False, ?i)" for r
      using work_okD(2) [OF team_invD(1) [OF assms(2)]] fresh unfolding runs_ok_def by (metis work_of_fields(2))
    have none: "wk_turn (work_of s) k = Some (st, ?i, r, m, x) \<Longrightarrow> \<not> turn_open st" for k st r m x
      using turns_okD(1) [OF work_okD(1) [OF team_invD(1) [OF assms(2)]]] nt by blast
    have st: "member_status_of u k = (if k = ?m then Some Member_Idle else None)" for k
      using u'(2) u(3) l by (simp add: member_status_of_def find_member_def)
    have "wk_status (work_of s) ?i k = None" for k using fresh by (simp add: work_of_fields)
    then have none2: "wk_task (work_of s) y = Some (ts, ?i, k) \<Longrightarrow> \<not> task_open ts" for y ts k
      using homes_okD [OF work_okD(5) [OF team_invD(1) [OF assms(2)]]] by blast
    have "work_ok (set_team ?i (member_status_of u) (work_of s))"
    proof (rule work_team [OF team_invD(1) [OF assms(2)]])
      show "member_status_of u m = Some Member_Running \<longleftrightarrow> wk_status (work_of s) ?i m = Some Member_Running" for m
        using st fresh by (auto simp: work_of_fields)
    qed (use none none2 in blast)+
    moreover have "unused uuid (put_team u ?s)"
      by (rule unused_new(4) [OF assms(1) team_invD(3) [OF s3], of "Suc (tm_drawn s)" _ "tm_drawn s"])
         (use u' u(2,3) l in simp_all)
    moreover have "team_shape u" using u'(3) u(3) l by (simp add: team_shape_def)
    ultimately show ?thesis using u'(1) u(2) team_invD [OF s3] by (simp add: team_inv_def)
  qed
  show ?thesis using assms(2) s3 s12 put unfolding team_create_def
    by (auto split: option.split)
qed

lemma team_update_inv:
  assumes "team_inv uuid s"
  shows "leaves (team_update uuid now i expected p) s (\<lambda>_. team_inv uuid) (team_inv uuid)"
proof (cases "jmap_get (tm_teams s) i")
  case None
  with assms show ?thesis by (simp add: team_update_def)
next
  case (Some t)
  note shape = shape_of [OF assms Some] and id = inv_ids(1) [OF assms Some]
  from shape have dist: "distinct (map tb_id (tt_members t))" by (simp add: team_shape_def)
  have put: "team_inv uuid (put_team u s)"
    if u: "parse_team v = Some u" "tt_id v = i" "member_status_of v = member_status_of t" "team_shape v"
      "tb_id ` set (tt_members v) = tb_id ` set (tt_members t)" for u v
  proof (rule inv_put_same_members [OF assms])
    note u' = parsed_team [OF u(1)]
    show "jmap_get (tm_teams s) (tt_id u) = Some t" using Some u u' by simp
    show "team_shape u" "tb_id ` set (tt_members u) \<subseteq> tb_id ` set (tt_members t)" using u u' by simp_all
    show "member_status_of u k = Some Member_Running \<longleftrightarrow> member_status_of t k = Some Member_Running" for k using u u' by simp
    show "member_status_of u k \<noteq> None" if "member_status_of t k \<noteq> None" for k using that u u' by simp
  qed
  have order: "member_status_of (t\<lparr>tt_members := map (\<lambda>x. the (find_member t x)) ids, tt_name := n, tt_mode := md, tt_version := ver, tt_updated := now\<rparr>) = member_status_of t"
      "team_shape (t\<lparr>tt_members := map (\<lambda>x. the (find_member t x)) ids, tt_name := n, tt_mode := md, tt_version := ver, tt_updated := now\<rparr>)"
      "tb_id ` (\<lambda>x. the (find_member t x)) ` set ids = tb_id ` set (tt_members t)"
    if ok: "member_order_ok t ids" for ids n md ver
  proof -
    have ids: "tb_id (the (find_member t x)) = x" if "x \<in> set ids" for x
      using ok that find_member_same by (fastforce simp: member_order_ok_def list_all_iff)
    then have mapid: "map (\<lambda>x. tb_id (the (find_member t x))) ids = ids" by (simp add: map_idI)
    have sub: "set ids \<subseteq> tb_id ` set (tt_members t)"
      using ok find_member_same by (fastforce simp: member_order_ok_def list_all_iff)
    have card: "card (set ids) = length (tt_members t)" "length ids = length (tt_members t)" using ok by (simp_all add: member_order_ok_def)
    have "card (tb_id ` set (tt_members t)) = length (tt_members t)" using distinct_card [OF dist] by simp
    then have all: "set ids = tb_id ` set (tt_members t)" using card_subset_eq [OF _ sub] card by simp
    then show "tb_id ` (\<lambda>x. the (find_member t x)) ` set ids = tb_id ` set (tt_members t)"
      using ids by (force simp: image_image)
    have dids: "distinct ids" using card by (simp add: card_distinct)
    let ?v = "t\<lparr>tt_members := map (\<lambda>x. the (find_member t x)) ids, tt_name := n, tt_mode := md, tt_version := ver, tt_updated := now\<rparr>"
    have find: "find_member ?v k = find_member t k" for k
    proof (cases "k \<in> set ids")
      case True
      then have "the (find_member t k) \<in> set (tt_members ?v)" by auto
      moreover have "distinct (map tb_id (tt_members ?v))" using dids mapid by (simp add: comp_def)
      ultimately have "find_member ?v (tb_id (the (find_member t k))) = Some (the (find_member t k))" by (rule find_member_distinct [rotated])
      moreover from True have "find_member t k \<noteq> None" using ok by (auto simp: member_order_ok_def list_all_iff)
      ultimately show ?thesis using ids [OF True] by auto
    next
      case False
      then have "find_member t k = None" using all find_member_same by (cases "find_member t k") fastforce+
      moreover have "find_member ?v k = None" using False find_member_same [of ?v k] ids
        by (cases "find_member ?v k") auto
      ultimately show ?thesis by simp
    qed
    then show "member_status_of ?v = member_status_of t" by (simp add: fun_eq_iff member_status_of_def)
    from shape obtain l ls where ls: "tt_members t = l # ls" "tb_role l = Lead" "\<And>x. x \<in> set ls \<Longrightarrow> tb_role x = Member"
      by (cases "tt_members t") (auto simp: team_shape_def)
    then have "lead_of t = Some l" by (simp add: lead_of_def)
    with ok obtain rest where rest: "ids = tb_id l # rest" by (auto simp: member_order_ok_def split: list.splits)
    have fl: "find_member t (tb_id l) = Some l" using ls(1) by (simp add: find_member_def)
    have "tb_role (the (find_member t x)) = Member" if "x \<in> set rest" for x
    proof -
      have "x \<noteq> tb_id l" using dids rest that by auto
      moreover from that rest ok obtain m where m: "find_member t x = Some m" by (auto simp: member_order_ok_def list_all_iff)
      ultimately have "m \<in> set ls" using find_member_same [OF m] ls(1) by auto
      with ls(3) m show ?thesis by simp
    qed
    then show "team_shape ?v" using rest fl ls(2) dids mapid by (auto simp: team_shape_def comp_def)
  qed
  show ?thesis using assms Some put order id shape unfolding team_update_def
    by (auto simp: member_status_of_def find_member_def team_shape_def fun_eq_iff split: option.split)
qed

end
