(* ===== verification/Team_Steps.thy ===== *)
theory Team_Steps
  imports Team_Invariant
begin

text \<open>
  The methods that change the members of a team and the state of its turns keep the invariant of
  \<^verbatim>\<open>Team_Invariant.thy\<close>.
\<close>

section \<open>Members\<close>

lemma find_map_member:
  assumes "\<And>m. tb_id m = k \<Longrightarrow> tb_id (f m) = k"
  shows "find (\<lambda>m. tb_id m = j) (map_member k f ms) = map_option (\<lambda>m. if j = k then f m else m) (find (\<lambda>m. tb_id m = j) ms)"
  using assms by (induction ms) (auto simp: map_member_def)

lemma map_member_ids:
  assumes "\<And>m. tb_id m = k \<Longrightarrow> tb_id (f m) = k"
  shows "map tb_id (map_member k f ms) = map tb_id ms"
  using assms by (auto simp: map_member_def)

lemma map_member_roles:
  assumes "\<And>m. m \<in> set ms \<Longrightarrow> tb_id m = k \<Longrightarrow> tb_role (f m) = tb_role m"
  shows "map tb_role (map_member k f ms) = map tb_role ms"
  using assms by (auto simp: map_member_def)

lemma team_shape_eq:
  assumes "map tb_id (tt_members u) = map tb_id (tt_members t)" "map tb_role (tt_members u) = map tb_role (tt_members t)"
  shows "team_shape u = team_shape t"
  by (simp add: team_shape_def assms)

lemma map_member_set:
  assumes "\<And>m. tb_id m = k \<Longrightarrow> tb_id (f m) = k"
  shows "tb_id ` set (map_member k f ms) = tb_id ` set ms"
  using arg_cong [OF map_member_ids [of k f ms, OF assms], of set] by simp

text \<open>The view of a team in which one member has another status.\<close>

lemma status_map_member:
  assumes "find_member t k \<noteq> None" "tt_members u = map_member k f (tt_members t)"
    and "\<And>m. tb_id m = k \<Longrightarrow> tb_id (f m) = k" "\<And>m. tb_status (f m) = st"
  shows "member_status_of u = (member_status_of t)(k \<mapsto> st)"
  using assms(1)
  by (auto simp: member_status_of_def find_member_def assms(2,4) find_map_member [OF assms(3)] fun_eq_iff option.map_comp comp_def)

lemma view_set_status:
  assumes "jmap_get (tm_teams s) (tt_id u) = Some t" "member_status_of u = (member_status_of t)(k \<mapsto> st)"
  shows "work_of (put_team u s) = set_status (tt_id u) k st (work_of s)"
  using assms by (auto simp: set_team_def set_status_def work_of_fields fun_eq_iff)

definition with_status :: "nat \<Rightarrow> string \<Rightarrow> member_status \<Rightarrow> team \<Rightarrow> team" where
  "with_status now k st t = t\<lparr>tt_members := map_member k (\<lambda>m. m\<lparr>tb_status := st\<rparr>) (tt_members t), tt_updated := now\<rparr>"

lemma with_status_fields [simp]:
  "tt_id (with_status now k st t) = tt_id t" "tt_members (with_status now k st t) = map_member k (\<lambda>m. m\<lparr>tb_status := st\<rparr>) (tt_members t)"
  by (simp_all add: with_status_def)

lemma with_status_keeps:
  "team_shape (with_status now k st t) = team_shape t" "tb_id ` set (tt_members (with_status now k st t)) = tb_id ` set (tt_members t)"
  by (rule team_shape_eq) (simp_all add: map_member_ids map_member_roles map_member_set)

text \<open>A store with another view, whose maps, ids and limits are in order.\<close>

definition rest_inv :: "(nat \<Rightarrow> string) \<Rightarrow> team_store \<Rightarrow> bool" where
  "rest_inv uuid s \<longleftrightarrow> ids_ok s \<and> unused uuid s \<and> shapes_ok s \<and> limits_ok s"

lemma team_inv_rest: "team_inv uuid s \<longleftrightarrow> work_ok (work_of s) \<and> rest_inv uuid s"
  by (simp add: team_inv_def rest_inv_def)

lemma rest_inv_quiet [simp]:
  assumes "rest_inv uuid s"
  shows "rest_inv uuid (push_event uuid now i ty subject s)" "rest_inv uuid (team_save s)" "rest_inv uuid (put_mail m s)"
    "rest_inv uuid (s\<lparr>tm_messages := ms\<rparr>)" "rest_inv uuid (s\<lparr>tm_drawn := Suc (tm_drawn s)\<rparr>)"
    "rest_inv uuid (s\<lparr>tm_batch := b\<rparr>)"
  using assms by (simp_all add: rest_inv_def)

lemma rest_inv_ids:
  assumes "rest_inv uuid s"
  shows "jmap_get (tm_teams s) i = Some t \<Longrightarrow> tt_id t = i" "jmap_get (tm_tasks s) i = Some k \<Longrightarrow> tk_id k = i"
    "jmap_get (tm_runs s) i = Some r \<Longrightarrow> tr_id r = i" "jmap_get (tm_dispatches s) i = Some d \<Longrightarrow> td_id d = i"
  using assms by (auto simp: rest_inv_def dest: ids_okD)

lemma rest_inv_put:
  assumes "rest_inv uuid s"
  shows "jmap_get (tm_dispatches s) (td_id d) \<noteq> None \<Longrightarrow> rest_inv uuid (put_dispatch d s)"
    "jmap_get (tm_tasks s) (tk_id t) \<noteq> None \<Longrightarrow> rest_inv uuid (put_task t s)"
    "jmap_get (tm_runs s) (tr_id r) \<noteq> None \<Longrightarrow> run_limits r \<Longrightarrow> rest_inv uuid (put_team_run r s)"
    "jmap_get (tm_teams s) (tt_id u) = Some v \<Longrightarrow> team_shape u \<Longrightarrow> tb_id ` set (tt_members u) \<subseteq> tb_id ` set (tt_members v) \<Longrightarrow>
       rest_inv uuid (put_team u s)"
  using assms stored_task_id [of s "tk_id t"] by (simp_all add: rest_inv_def)

lemma rest_with_status:
  assumes "rest_inv uuid s" "jmap_get (tm_teams s) i = Some t"
  shows "rest_inv uuid (put_team (with_status now k st t) s)"
proof (rule rest_inv_put(4) [OF assms(1)])
  have "tt_id t = i" by (rule rest_inv_ids(1) [OF assms])
  with assms(2) show "jmap_get (tm_teams s) (tt_id (with_status now k st t)) = Some t" by simp
  have "team_shape t" using assms by (auto simp: rest_inv_def shapes_ok_def)
  then show "team_shape (with_status now k st t)" by (simp add: with_status_keeps)
qed (use with_status_keeps(2) in blast)

lemma leaves_idle_member:
  "leaves (idle_member now i k b) s Q E = (case jmap_get (tm_teams s) i of None \<Rightarrow> E s
     | Some t \<Rightarrow> Q () (put_team (with_status now k (if b then Member_Error else Member_Idle) t) s))"
  by (cases b) (simp_all add: idle_member_def with_status_def split: option.split)

lemma work_with_status:
  assumes "rest_inv uuid s" "jmap_get (tm_teams s) i = Some t" "find_member t k \<noteq> None"
  shows "work_of (put_team (with_status now k st t) s) = set_status i k st (work_of s)"
proof -
  have id: "tt_id t = i" by (rule rest_inv_ids(1) [OF assms(1,2)])
  have "member_status_of (with_status now k st t) = (member_status_of t)(k \<mapsto> st)"
    by (rule status_map_member [OF assms(3), where f = "\<lambda>m. m\<lparr>tb_status := st\<rparr>"]) simp_all
  with id assms(2) view_set_status [of s "with_status now k st t" t k st] show ?thesis by simp
qed

lemma add_member_inv:
  assumes "inj uuid" "team_inv uuid s"
  shows "leaves (add_member uuid now i input) s (\<lambda>_ t. team_inv uuid t \<and> tm_runs t = tm_runs s) (team_inv uuid)"
proof (cases "jmap_get (tm_teams s) i")
  case None
  with assms show ?thesis by (simp add: add_member_def)
next
  case (Some tm)
  let ?s = "s\<lparr>tm_drawn := Suc (Suc (tm_drawn s))\<rparr>" and ?k = "member_key (uuid (tm_drawn s))"
  note shape = shape_of [OF assms(2) Some] and id = inv_ids(1) [OF assms(2) Some]
  have s2: "team_inv uuid ?s" "team_inv uuid (s\<lparr>tm_drawn := Suc (tm_drawn s)\<rparr>)"
    using team_invD [OF assms(2)] by (simp_all add: team_inv_def)
  have put: "team_inv uuid (put_team u ?s)"
    if m: "parse_member (new_member ?k sid name engine acp preset Member now) = Some m"
      and u: "parse_team (tm\<lparr>tt_version := ver, tt_members := tt_members tm @ [m], tt_updated := now\<rparr>) = Some u"
    for u m sid name engine acp preset ver
  proof -
    note u' = parsed_team [OF u]
    have l: "tb_id m = ?k" "tb_status m = Member_Idle" "tb_role m = Member"
      using parse_member_fields [OF m] by (simp_all add: new_member_def)
    have fresh: "?k \<notin> tb_id ` set (tt_members tm)" by (rule new_id_fresh(5) [OF team_invD(3) [OF assms(2)] Some])
    then have "find_member tm ?k = None" using find_member_same [of tm ?k] by (cases "find_member tm ?k") (auto simp: image_iff)
    have found: "find P (xs @ [x]) = (case find P xs of None \<Rightarrow> if P x then Some x else None | Some y \<Rightarrow> Some y)" for P xs and x :: team_member
      by (induction xs) auto
    have st: "member_status_of u = (member_status_of tm)(?k \<mapsto> Member_Idle)"
      using u'(2) l \<open>find_member tm ?k = None\<close>
      by (auto simp: member_status_of_def find_member_def fun_eq_iff found split: option.split)
    have old: "member_status_of tm ?k = None" using \<open>find_member tm ?k = None\<close> by (simp add: member_status_of_def)
    have "work_ok (set_team i (member_status_of u) (work_of s))"
    proof (rule work_team [OF team_invD(1) [OF assms(2)]])
      show "member_status_of u k = Some Member_Running \<longleftrightarrow> wk_status (work_of s) i k = Some Member_Running" for k
        using st old Some by (auto simp: work_of_fields)
      show "member_status_of u q \<noteq> None" if "wk_turn (work_of s) k = Some (x, i, r, q, y)" "turn_open x" for k x r q y
        using turns_okD(2) [OF work_okD(1) [OF team_invD(1) [OF assms(2)]] that] st Some by (simp add: work_of_fields)
      show "member_status_of u q \<noteq> None" if "wk_task (work_of s) k = Some (ts, i, q)" "task_open ts" for k ts q
        using homes_okD [OF work_okD(5) [OF team_invD(1) [OF assms(2)]] that] st Some by (simp add: work_of_fields)
    qed
    moreover have "unused uuid (put_team u ?s)"
      by (rule unused_new(5) [OF assms(1) team_invD(3) [OF s2(1)], of "tm_drawn s" _ tm]) (use u' l Some id in simp_all)
    moreover have "team_shape u" using u'(3) l shape fresh by (auto simp: team_shape_def split: list.splits)
    moreover have "tt_id u = i" using u'(1) id by simp
    ultimately show ?thesis using team_invD [OF s2(1)] by (simp add: team_inv_def)
  qed
  show ?thesis using Some assms(2) s2 put unfolding add_member_def
    by (auto split: option.split)
qed

lemma parsed_shape:
  assumes "parse_team v = Some u" "map tb_id (tt_members v) = map tb_id (tt_members t)"
    "map tb_role (tt_members v) = map tb_role (tt_members t)"
  shows "team_shape u = team_shape t" "tb_id ` set (tt_members u) = tb_id ` set (tt_members t)"
  using parsed_team(3,4) [OF assms(1)] team_shape_eq [OF assms(2,3)] arg_cong [OF assms(2), of set] by simp_all

lemma member_replaced:
  assumes "team_shape t" "find_member t k = Some m" "tb_id v = k" "tb_role v = tb_role m"
    and "parse_team w = Some u" "tt_members w = map_member k (\<lambda>_. v) (tt_members t)" "tt_id w = tt_id t"
  shows "tt_id u = tt_id t" "team_shape u" "tb_id ` set (tt_members u) = tb_id ` set (tt_members t)"
    "member_status_of u = (member_status_of t)(k \<mapsto> tb_status v)"
proof -
  have m: "m \<in> set (tt_members t)" "tb_id m = k" using find_member_same [OF assms(2)] by auto
  have dist: "distinct (map tb_id (tt_members t))" using assms(1) by (simp add: team_shape_def)
  have only: "n = m" if "n \<in> set (tt_members t)" "tb_id n = k" for n
    using find_member_distinct [OF dist that(1)] that(2) assms(2) by simp
  have "map tb_id (tt_members w) = map tb_id (tt_members t)" "map tb_role (tt_members w) = map tb_role (tt_members t)"
    using assms(3,4,6) only by (auto simp: map_member_def)
  from parsed_shape [OF assms(5) this] assms(1)
  show "team_shape u" "tb_id ` set (tt_members u) = tb_id ` set (tt_members t)" by simp_all
  show "tt_id u = tt_id t" using parsed_team(1) [OF assms(5)] assms(7) by simp
  show "member_status_of u = (member_status_of t)(k \<mapsto> tb_status v)"
    using parsed_team(2) [OF assms(5)] status_map_member [of t k w "\<lambda>_. v"] assms(2,3,6) by simp
qed

lemma update_member_inv:
  assumes "team_inv uuid s"
  shows "leaves (update_member uuid now i k p) s (\<lambda>_. team_inv uuid) (team_inv uuid)"
proof (cases "jmap_get (tm_teams s) i")
  case None
  with assms show ?thesis by (simp add: update_member_def)
next
  case (Some tm)
  note shape = shape_of [OF assms Some] and id = inv_ids(1) [OF assms Some]
  have put: "team_inv uuid (put_team u t)"
    if k: "find_member tm k = Some m" "tb_status m \<noteq> Member_Running"
      and v: "parse_member (patched_member p sid m) = Some v"
      and u: "parse_team (tm\<lparr>tt_version := ver, tt_members := map_member k (\<lambda>_. v) (tt_members tm), tt_updated := now\<rparr>) = Some u"
      and t: "team_inv uuid t" "tm_teams t = tm_teams s" "work_of t = work_of s" for u v m sid ver t
  proof -
    have l: "tb_id v = k" "tb_status v = tb_status m" "tb_role v = tb_role m"
      using parse_member_fields [OF v] find_member_same [OF k(1)] by (simp_all add: patched_member_def)
    from member_replaced [OF shape k(1) l(1,3) u] l(2) id
    have u': "tt_id u = i" "team_shape u" "tb_id ` set (tt_members u) = tb_id ` set (tt_members tm)"
      "member_status_of u = (member_status_of tm)(k \<mapsto> tb_status m)" by simp_all
    show ?thesis
    proof (rule inv_put_same_members [OF t(1)])
      show "jmap_get (tm_teams t) (tt_id u) = Some tm" using t(2) Some u' by simp
      show "team_shape u" "tb_id ` set (tt_members u) \<subseteq> tb_id ` set (tt_members tm)" using u' by simp_all
      show "member_status_of u n = Some Member_Running \<longleftrightarrow> member_status_of tm n = Some Member_Running" for n
        using u' k by (simp add: member_status_of_def)
      show "member_status_of u n \<noteq> None" if "member_status_of tm n \<noteq> None" for n using that u' by simp
    qed
  qed
  show ?thesis using Some assms put unfolding update_member_def
    by (auto split: option.split)
qed

lemma remove_team_member_inv:
  assumes "team_inv uuid s"
  shows "leaves (remove_team_member uuid now i k) s (\<lambda>_. team_inv uuid) (team_inv uuid)"
proof (cases "jmap_get (tm_teams s) i")
  case None
  with assms show ?thesis by (simp add: remove_team_member_def)
next
  case (Some tm)
  note shape = shape_of [OF assms Some] and id = inv_ids(1) [OF assms Some]
  have put: "team_inv uuid (put_team u s)"
    if k: "find_member tm k = Some m" "tb_status m \<noteq> Member_Running" "tb_role m \<noteq> Lead"
      and busy: "\<And>d. d \<in> set (team_dispatches s) \<Longrightarrow> td_member d = k \<Longrightarrow> \<not> turn_open (td_status d)"
      and free: "\<And>x. x \<in> set (map snd (tm_tasks s)) \<Longrightarrow> tk_team x = i \<Longrightarrow> tk_member x = k \<Longrightarrow> \<not> task_open (tk_status x)"
      and u: "parse_team (tm\<lparr>tt_version := ver, tt_members := filter (\<lambda>x. tb_id x \<noteq> k) (tt_members tm), tt_updated := now\<rparr>) = Some u" for u m ver
  proof -
    let ?f = "filter (\<lambda>x. tb_id x \<noteq> k)"
    have m: "m \<in> set (tt_members tm)" "tb_id m = k" using find_member_same [OF k(1)] by auto
    have dist: "distinct (map tb_id (tt_members tm))" using shape by (simp add: team_shape_def)
    have find: "find (\<lambda>x. tb_id x = n) (?f ms) = (if n = k then None else find (\<lambda>x. tb_id x = n) ms)" for n ms
      by (induction ms) auto
    have st: "member_status_of u = (member_status_of tm)(k := None)"
      using parsed_team(2) [OF u] by (auto simp: member_status_of_def find_member_def find fun_eq_iff)
    obtain l ls where ls: "tt_members tm = l # ls" "tb_role l = Lead" "\<And>x. x \<in> set ls \<Longrightarrow> tb_role x = Member"
      using shape by (cases "tt_members tm") (auto simp: team_shape_def)
    have "tb_id l \<noteq> k" using ls(1,2) k by (auto simp: find_member_def)
    then have "team_shape u" using parsed_team(3) [OF u] ls dist by (auto simp: team_shape_def distinct_map intro: inj_on_subset)
    have id': "tt_id u = i" using parsed_team(1) [OF u] id by simp
    show ?thesis
    proof (rule inv_put_team [OF assms])
      show "jmap_get (tm_teams s) (tt_id u) = Some tm" using Some id' by simp
      show "team_shape u" by fact
      show "tb_id ` set (tt_members u) \<subseteq> tb_id ` set (tt_members tm)" using parsed_team(4) [OF u] by auto
      show "member_status_of u n = Some Member_Running \<longleftrightarrow> member_status_of tm n = Some Member_Running" for n
        using st k by (simp add: member_status_of_def)
      fix l x r n y assume l: "wk_turn (work_of s) l = Some (x, tt_id u, r, n, y)" "turn_open x"
      then obtain d where d: "jmap_get (tm_dispatches s) l = Some d" "td_member d = n" "td_status d = x"
        by (auto simp: work_of_fields turn_view_def)
      then have "d \<in> set (team_dispatches s)" unfolding team_dispatches_def by (force dest: map_of_SomeD)
      with busy d l(2) have "n \<noteq> k" by blast
      with turns_okD(2) [OF work_okD(1) [OF team_invD(1) [OF assms]] l] st Some id'
      show "member_status_of u n \<noteq> None" by (simp add: work_of_fields)
    next
      fix y ts n assume y: "wk_task (work_of s) y = Some (ts, tt_id u, n)" "task_open ts"
      then obtain x where x: "jmap_get (tm_tasks s) y = Some x" "tk_status x = ts" "tk_team x = i" "tk_member x = n"
        using id' by (auto simp: work_of_fields task_view_def)
      then have "x \<in> set (map snd (tm_tasks s))" by (force dest: map_of_SomeD)
      with free x y(2) have "n \<noteq> k" by blast
      with homes_okD [OF work_okD(5) [OF team_invD(1) [OF assms]] y] st Some id'
      show "member_status_of u n \<noteq> None" by (simp add: work_of_fields)
    qed
  qed
  show ?thesis using Some assms put unfolding remove_team_member_def
    by (auto simp: list_ex_iff split: option.split)
qed

lemma get_only:
  assumes "distinct (jkeys m)"
  shows "jmap_get (jmap_only P m) k = (case jmap_get m k of Some v \<Rightarrow> if P v then Some v else None | None \<Rightarrow> None)"
  using assms by (induction m) (auto simp: jmap_only_def map_of_eq_None_iff[symmetric] split: option.split)

lemma work_forgotten:
  assumes "ids_ok s"
  shows "work_of (team_forgotten i s) = forget_team i (work_of s)"
proof -
  have "distinct (jkeys (tm_tasks s))" "distinct (jkeys (tm_runs s))" "distinct (jkeys (tm_dispatches s))"
    using assms by (simp_all add: ids_ok_def keyed_def)
  then show ?thesis
    by (auto simp: work_of_def forget_team_def team_forgotten_def get_only jmap_simps task_view_def run_facts_def turn_view_def fun_eq_iff
      split: option.splits)
qed

lemma team_delete_inv:
  assumes "team_inv uuid s"
  shows "leaves (team_delete uuid now i) s (\<lambda>_. team_inv uuid) (team_inv uuid)"
proof -
  have "team_inv uuid (team_forgotten i t)" if t: "team_inv uuid t" for t
  proof -
    have ids: "ids_ok t" by (rule team_invD(2) [OF t])
    then have dist: "distinct (jkeys (tm_tasks t))" "distinct (jkeys (tm_runs t))" "distinct (jkeys (tm_dispatches t))"
      by (simp_all add: ids_ok_def keyed_def)
    have "work_ok (work_of (team_forgotten i t))"
      unfolding work_forgotten [OF ids] by (rule work_forget) (rule team_invD(1) [OF t])
    moreover have "ids_ok (team_forgotten i t)"
      using ids get_only [OF dist(1), of "\<lambda>t. tk_team t \<noteq> i" "[]", unfolded jmap_only_def]
      by (simp add: ids_ok_def team_forgotten_def jmap_only_def keyed_filter jmap_delete_filter)
    moreover have "unused uuid (team_forgotten i t)"
      using team_invD(3) [OF t] by (simp add: unused_def team_forgotten_def get_only dist jmap_simps)
    moreover have "shapes_ok (team_forgotten i t)" "limits_ok (team_forgotten i t)"
      using team_invD(4,5) [OF t] by (auto simp: shapes_ok_def limits_ok_def team_forgotten_def get_only dist jmap_simps split: option.splits if_splits)
    ultimately show ?thesis by (simp add: team_inv_def)
  qed
  with assms show ?thesis by (simp add: team_delete_def split: option.split)
qed

section \<open>Turns\<close>

text \<open>What the parts of a task that are not in the view are may change.\<close>

lemma submitted_dispatch_inv:
  assumes "team_inv uuid s"
  shows "leaves (submitted_dispatch now k turn) s (\<lambda>_. team_inv uuid) (team_inv uuid)"
proof (cases "jmap_get (tm_dispatches s) k")
  case None
  with assms show ?thesis by (simp add: submitted_dispatch_def)
next
  case (Some d)
  have "td_id d = k" by (rule inv_ids(4) [OF assms Some])
  with Some have put: "team_inv uuid (put_dispatch (d\<lparr>td_turn := Some turn, td_submitted := Some now\<rparr>) s)"
    by (intro inv_put_dispatch [OF assms, of _ d]) (simp_all add: turn_view_def)
  show ?thesis using Some assms put unfolding submitted_dispatch_def
    by (auto intro!: leaves_mono [OF leaves_each [of "team_inv uuid" _ _ _ "team_inv uuid"]] split: option.split)
qed

lemma begin_task_view:
  assumes "rest_inv uuid s" "jmap_get (tm_tasks s) y = Some task" "tk_team task = i" "tk_member task = k"
  shows "leaves (begin_task uuid now y) s (\<lambda>_ t. tk_status task = Task_Queued \<and> rest_inv uuid t \<and>
      tm_runs t = tm_runs s \<and> tm_dispatches t = tm_dispatches s \<and>
      work_of t = set_task (Some y) Task_Running i k (set_status i k Member_Running (work_of s))) (\<lambda>_. True)"
proof (cases "jmap_get (tm_teams s) i")
  case None
  with assms show ?thesis by (simp add: begin_task_def)
next
  case (Some tm)
  have id: "tt_id tm = i" and y: "tk_id task = y" using rest_inv_ids(1) [OF assms(1) Some] rest_inv_ids(2) [OF assms(1,2)] .
  have shape: "team_shape tm" using assms(1) Some by (auto simp: rest_inv_def shapes_ok_def)
  define Q where "Q t \<longleftrightarrow> rest_inv uuid t \<and> tm_runs t = tm_runs s \<and> tm_dispatches t = tm_dispatches s \<and>
      work_of t = set_task (Some y) Task_Running i k (set_status i k Member_Running (work_of s))" for t
  have go: "Q (team_save (push_event uuid now x Event_Started y (put_team u (put_task task2 t))))"
    if task2: "parse_task (task\<lparr>tk_status := Task_Running, tk_started := Some now\<rparr>) = Some task2"
      and u: "parse_team (tm\<lparr>tt_members := map_member (tb_id m) (\<lambda>_. v) (tt_members tm), tt_updated := now\<rparr>) = Some u"
      and m: "find_member tm k = Some m" "parse_member n = Some v" 
      and n: "tb_id n = tb_id m" "tb_status n = Member_Running" "tb_role n = tb_role m"
      and t: "t = s \<or> t = s\<lparr>tm_drawn := Suc (tm_drawn s)\<rparr>"
    for t task2 m v u x n
  proof -
    have t': "rest_inv uuid t" "tm_teams t = tm_teams s" "tm_tasks t = tm_tasks s" "work_of t = work_of s"
      "tm_runs t = tm_runs s" "tm_dispatches t = tm_dispatches s" using t assms(1) by auto
    have l: "tb_id m = k" "tb_id v = k" "tb_status v = Member_Running" "tb_role v = tb_role m"
      using parse_member_fields [OF m(2)] find_member_same [OF m(1)] n by simp_all
    from member_replaced [OF shape m(1) l(2,4) u] l id
    have u': "tt_id u = i" "team_shape u" "tb_id ` set (tt_members u) = tb_id ` set (tt_members tm)"
      "member_status_of u = (member_status_of tm)(k \<mapsto> Member_Running)" by simp_all
    have k2: "tk_id task2 = y" "tk_status task2 = Task_Running" "tk_team task2 = i" "tk_member task2 = k"
      using parse_task_fields [OF task2] assms(3,4) y by (simp_all add: task_view_def)
    let ?t = "put_task task2 t"
    have t2: "rest_inv uuid ?t" by (rule rest_inv_put(2) [OF t'(1)]) (use assms(2) t' k2 in simp)
    have "rest_inv uuid (put_team u ?t)"
      by (rule rest_inv_put(4) [OF t2, of _ tm]) (use u' Some t' in simp_all)
    moreover have "work_of (put_team u ?t) = set_status i k Member_Running (work_of ?t)"
      using view_set_status [of ?t u tm k Member_Running] u' Some t' by simp
    ultimately show ?thesis using t'(4-) k2 by (simp add: Q_def set_status_def set_task_def)
  qed
  have "leaves (begin_task uuid now y) s (\<lambda>_ t. tk_status task = Task_Queued \<and> Q t) (\<lambda>_. True)"
    unfolding begin_task_def by (auto simp: assms(2-) Some y split: option.split intro: go)
  then show ?thesis by (rule leaves_mono) (simp_all add: Q_def)
qed

lemma transaction_from:
  assumes "calm m" "team_inv uuid s" "\<not> tm_batch s" "leaves m (s\<lparr>tm_batch := True\<rparr>) (\<lambda>_. team_inv uuid) (\<lambda>_. True)"
  shows "leaves (transaction m) s (\<lambda>_. team_inv uuid) (team_inv uuid)"
proof (rule leaves_transaction)
  show "leaves m s (\<lambda>_. team_inv uuid) (team_inv uuid)" if "tm_batch s" using that assms(3) by simp
  let ?s = "s\<lparr>tm_batch := True\<rparr>"
  have "leaves m ?s (\<lambda>_ t. tm_drawn s \<le> tm_drawn t) (\<lambda>t. tm_drawn s \<le> tm_drawn t)"
    using assms(1) [unfolded calm_def, rule_format, of ?s] by (auto simp: leaves_def split: prod.splits sum.splits)
  with assms(4) have "leaves m ?s (\<lambda>_ t. team_inv uuid t \<and> tm_drawn s \<le> tm_drawn t) (\<lambda>t. True \<and> tm_drawn s \<le> tm_drawn t)"
    by (rule leaves_conj)
  then show "leaves m ?s (\<lambda>_ t. team_inv uuid (team_save (t\<lparr>tm_batch := False\<rparr>))) (\<lambda>t. team_inv uuid (rolled_back s t))"
    by (rule leaves_mono) (use rolled_back_inv [OF assms(2)] in auto)
qed

lemma running_count:
  assumes "team_inv uuid s"
  shows "card (running_of (work_of s) r) \<le> length (filter (\<lambda>x. td_status x = Turn_Running) (run_dispatches r s))"
proof -
  let ?ds = "filter (\<lambda>x. td_status x = Turn_Running) (run_dispatches r s)"
  have "running_of (work_of s) r \<subseteq> td_id ` set ?ds"
  proof
    fix k assume "k \<in> running_of (work_of s) r"
    then obtain d where d: "jmap_get (tm_dispatches s) k = Some d" "td_status d = Turn_Running" "td_run d = r"
      by (auto simp: running_of_def work_of_fields turn_view_def)
    have "td_id d = k" by (rule inv_ids(4) [OF assms d(1)])
    moreover have "d \<in> set ?ds" using d by (force simp: run_dispatches_def team_dispatches_def dest: map_of_SomeD)
    ultimately show "k \<in> td_id ` set ?ds" by blast
  qed
  then have "card (running_of (work_of s) r) \<le> card (td_id ` set ?ds)" by (intro card_mono) simp_all
  also have "\<dots> \<le> length ?ds" by (metis card_length set_map length_map)
  finally show ?thesis .
qed

lemma set_turn_swap:
  "set_turn k v (set_task x ts i m w) = set_task x ts i m (set_turn k v w)"
  "set_turn k v (set_status i m st w) = set_status i m st (set_turn k v w)"
  by (simp_all add: set_turn_def set_task_def set_status_def split: option.split)

lemma begin_dispatch_inv:
  assumes "team_inv uuid s" "\<not> tm_batch s"
  shows "leaves (begin_dispatch uuid now k) s (\<lambda>_. team_inv uuid) (team_inv uuid)"
proof (cases "jmap_get (tm_dispatches s) k")
  case None
  with assms show ?thesis by (simp add: begin_dispatch_def)
next
  case (Some d)
  note d = Some and idd = inv_ids(4) [OF assms(1) Some]
  let ?s = "s\<lparr>tm_batch := True\<rparr>"
  have limit: "team_inv uuid (put_team_run (r\<lparr>tr_status := Run_Paused_Limit, tr_reason := x, tr_updated := now\<rparr>) s)"
    if r: "jmap_get (tm_runs s) (td_run d) = Some r" "tr_status r = Run_Running" for r x
    by (rule inv_put_run [OF assms(1), of _ r])
       (use r inv_ids(3) [OF assms(1) r(1)] limits_of [OF assms(1) r(1)] in \<open>simp_all add: run_facts_def run_limits_def run_over_def\<close>)
  have go: "leaves (begin_turn uuid now d r t m) ?s (\<lambda>_. team_inv uuid) (\<lambda>_. True)"
    if r: "jmap_get (tm_runs s) (td_run d) = Some r" "tr_status r = Run_Running" "tr_dispatches r < max_dispatches"
      and q: "td_status d = Turn_Queued" and t: "jmap_get (tm_teams s) (td_team d) = Some t"
      and m: "find_member t (td_member d) = Some m" "tb_status m \<noteq> Member_Running"
      and few: "length (filter (\<lambda>x. td_status x = Turn_Running) (run_dispatches (td_run d) s)) < max_concurrent" for r t m
  proof -
    let ?i = "td_team d" and ?m = "td_member d" and ?x = "td_task d"
    have turn: "wk_turn (work_of s) k = Some (Turn_Queued, ?i, td_run d, ?m, ?x)"
      using d q by (simp add: work_of_fields turn_view_def)
    have idr: "tr_id r = td_run d" by (rule inv_ids(3) [OF assms(1) r(1)])
    have mk: "tb_id m = ?m" using find_member_same [OF m(1)] by simp
    have status: "wk_status (work_of s) ?i ?m \<noteq> Some Member_Running" using t m by (simp add: work_of_fields member_status_of_def)
    have crowd: "card (running_of (work_of s) (td_run d)) < max_concurrent"
      using running_count [OF assms(1), of "td_run d"] few by linarith
    define v where "v = set_task ?x Task_Running ?i ?m (set_status ?i ?m Member_Running (work_of s))"
    have rest: "team_inv uuid (team_save (push_event uuid now (tt_id t) Dispatch_Updated (td_id d)
        (put_dispatch (d\<lparr>td_status := Turn_Running, td_not_before := None\<rparr>)
          (put_team_run (r\<lparr>tr_dispatches := Suc (tr_dispatches r)\<rparr>) u))))"
      if u: "rest_inv uuid u" "tm_runs u = tm_runs s" "tm_dispatches u = tm_dispatches s" "work_of u = v"
        and free: "\<And>y. ?x = Some y \<Longrightarrow> wk_task (work_of s) y = Some (Task_Queued, ?i, ?m)" for u
    proof -
      let ?u = "put_team_run (r\<lparr>tr_dispatches := Suc (tr_dispatches r)\<rparr>) u"
      have 1: "rest_inv uuid ?u"
        by (rule rest_inv_put(3) [OF u(1)])
           (use r(1,3) u(2) idr limits_of [OF assms(1) r(1)] in \<open>simp_all add: run_limits_def\<close>)
      have "rest_inv uuid (put_dispatch (d\<lparr>td_status := Turn_Running, td_not_before := None\<rparr>) ?u)"
        by (rule rest_inv_put(1) [OF 1]) (use d u(3) idd in simp)
      moreover have "wk_run (work_of u) (td_run d) = Some (run_facts r)" using u(2) r(1) by (simp add: work_of_fields)
      then have "work_of ?u = v" using set_run_same [of "work_of u" "td_run d" "run_facts r"] u(4) idr by (simp add: run_facts_def)
      then have "work_of (put_dispatch (d\<lparr>td_status := Turn_Running, td_not_before := None\<rparr>) ?u) =
          set_task ?x Task_Running ?i ?m (set_status ?i ?m Member_Running (set_turn k (Turn_Running, ?i, td_run d, ?m, ?x) (work_of s)))"
        using idd by (simp add: turn_view_def v_def set_turn_swap)
      moreover have "work_ok \<dots>" by (rule work_begin [OF team_invD(1) [OF assms(1)] turn status crowd free])
      ultimately show ?thesis by (simp add: team_inv_rest)
    qed
    show ?thesis
    proof (cases ?x)
      case None
      have "rest_inv uuid ?s" using assms(1) by (simp add: team_inv_rest)
      let ?t = "t\<lparr>tt_members := map_member (tb_id m) (\<lambda>x. x\<lparr>tb_status := Member_Running\<rparr>) (tt_members t)\<rparr>"
      have idt: "tt_id t = ?i" by (rule inv_ids(1) [OF assms(1) t])
      have "?t = with_status (tt_updated t) ?m Member_Running t" by (simp add: with_status_def mk)
      then have "rest_inv uuid (put_team ?t ?s)" "work_of (put_team ?t ?s) = v"
        using rest_with_status [OF \<open>rest_inv uuid ?s\<close>, of ?i t "tt_updated t" ?m Member_Running]
          work_with_status [OF \<open>rest_inv uuid ?s\<close>, of ?i t ?m "tt_updated t" Member_Running] t m None
        by (simp_all add: v_def set_task_def del: work_of_put(3))
      then show ?thesis using None rest [of "put_team ?t ?s"] unfolding begin_turn_def by (simp del: work_of_put(3))
    next
      case (Some y)
      obtain ts where ts: "wk_task (work_of s) y = Some (ts, ?i, ?m)"
        using tasks_okD(2) [OF work_okD(3) [OF team_invD(1) [OF assms(1)]]] turn Some by fastforce
      then obtain task where task: "jmap_get (tm_tasks s) y = Some task" "tk_team task = ?i" "tk_member task = ?m" "ts = tk_status task"
        by (auto simp: work_of_fields task_view_def)
      have "rest_inv uuid ?s" using assms(1) by (simp add: team_inv_rest)
      from begin_task_view [OF this, of y task ?i ?m] task
      have "leaves (begin_task uuid now y) ?s (\<lambda>_ u. tk_status task = Task_Queued \<and> rest_inv uuid u \<and>
          tm_runs u = tm_runs s \<and> tm_dispatches u = tm_dispatches s \<and> work_of u = v) (\<lambda>_. True)"
        by (simp add: v_def Some)
      then show ?thesis using Some ts task unfolding begin_turn_def
        by simp (erule leaves_mono, auto intro!: rest)
    qed
  qed
  show ?thesis using assms d limit go unfolding begin_dispatch_def
    by (auto split: option.split intro!: transaction_from calm_begin_turn)
qed

lemma set_status_swap: "set_status i m st (set_task x ts j n w) = set_task x ts j n (set_status i m st w)"
  by (simp add: set_task_def set_status_def split: option.split)

lemma defer_dispatch_inv:
  assumes "team_inv uuid s"
  shows "leaves (defer_dispatch now k) s (\<lambda>_. team_inv uuid) (team_inv uuid)"
proof (cases "\<exists>d. jmap_get (tm_dispatches s) k = Some d \<and> td_status d = Turn_Running")
  case False
  with assms show ?thesis by (auto simp: defer_dispatch_def split: option.split)
next
  case True
  then obtain d where d: "jmap_get (tm_dispatches s) k = Some d" "td_status d = Turn_Running" by blast
  have idd: "td_id d = k" by (rule inv_ids(4) [OF assms d(1)])
  obtain r t m where r: "jmap_get (tm_runs s) (td_run d) = Some r" and t: "jmap_get (tm_teams s) (td_team d) = Some t"
      "find_member t (td_member d) = Some m"
    using inv_turn [OF assms d(1)] d(2) by (metis not_open(6))
  have idr: "tr_id r = td_run d" by (rule inv_ids(3) [OF assms r])
  have turn: "wk_turn (work_of s) k = Some (Turn_Running, td_team d, td_run d, td_member d, td_task d)"
    using d by (simp add: work_of_fields turn_view_def)
  have rest: "rest_inv uuid s" using assms by (simp add: team_inv_rest)
  let ?s = "put_dispatch (d\<lparr>td_status := Turn_Queued, td_not_before := Some (now + 1000)\<rparr>) s"
  let ?u = "put_team_run (r\<lparr>tr_dispatches := tr_dispatches r - 1\<rparr>) ?s"
  have 1: "rest_inv uuid ?s" by (rule rest_inv_put(1) [OF rest]) (use d idd in simp)
  have u: "rest_inv uuid ?u"
    by (rule rest_inv_put(3) [OF 1]) (use r idr limits_of [OF assms r] in \<open>auto simp: run_limits_def\<close>)
  have w: "work_of ?u = set_turn k (Turn_Queued, td_team d, td_run d, td_member d, td_task d) (work_of s)"
    using r idr idd set_run_same [of "work_of ?s" "td_run d" "run_facts r"]
    by (simp add: work_of_fields turn_view_def run_facts_def)
  define v where "v = set_task (td_task d) Task_Queued (td_team d) (td_member d)
    (set_turn k (Turn_Queued, td_team d, td_run d, td_member d, td_task d) (work_of s))"
  have done': "team_inv uuid (team_save (put_team (with_status now (td_member d) Member_Idle t) z))"
    if z: "rest_inv uuid z" "tm_teams z = tm_teams s" "work_of z = v" for z
  proof -
    have "work_of (put_team (with_status now (td_member d) Member_Idle t) z) =
        set_task (td_task d) Task_Queued (td_team d) (td_member d) (set_status (td_team d) (td_member d) Member_Idle
          (set_turn k (Turn_Queued, td_team d, td_run d, td_member d, td_task d) (work_of s)))"
      using work_with_status [OF z(1), of "td_team d" t "td_member d"] z t by (simp add: v_def set_status_swap del: work_of_put)
    moreover have "work_ok \<dots>" by (rule work_leave [OF team_invD(1) [OF assms] turn]) simp_all
    ultimately show ?thesis using rest_with_status [OF z(1), of "td_team d" t] z t by (simp add: team_inv_rest del: work_of_put(3))
  qed
  show ?thesis
  proof (cases "td_task d")
    case None
    then show ?thesis using d r t done' [of ?u] u w assms unfolding defer_dispatch_def
      by (simp add: leaves_idle_member v_def set_task_def)
  next
    case (Some y)
    obtain task where task: "jmap_get (tm_tasks s) y = Some task" "tk_team task = td_team d" "tk_member task = td_member d"
      using tasks_okD(2) [OF work_okD(3) [OF team_invD(1) [OF assms]], of k Turn_Running "td_team d" "td_run d" "td_member d" y] turn Some
      by (auto simp: work_of_fields task_view_def)
    have idk: "tk_id task = y" by (rule inv_ids(2) [OF assms task(1)])
    let ?z = "put_task (task\<lparr>tk_status := Task_Queued, tk_started := None\<rparr>) ?u"
    have "rest_inv uuid ?z" by (rule rest_inv_put(2) [OF u]) (use task idk in simp)
    moreover have "work_of ?z = v" using w task idk Some by (simp add: v_def)
    ultimately show ?thesis using d r t done' [of ?z] task Some assms unfolding defer_dispatch_def
      by (simp add: leaves_idle_member)
  qed
qed

lemma finish_task_view:
  assumes "rest_inv uuid s" "jmap_get (tm_tasks s) y = Some task" "tk_team task = i" "tk_member task = k" "tk_status task = Task_Running"
    and "jmap_get (tm_teams s) i = Some t" "find_member t k \<noteq> None"
  shows "leaves (finish_task uuid now y e) s (\<lambda>_ u. rest_inv uuid u \<and> tm_runs u = tm_runs s \<and>
      (\<exists>ts ms. ts \<noteq> Task_Running \<and> ms \<noteq> Member_Running \<and>
        work_of u = set_task (Some y) ts i k (set_status i k ms (work_of s)))) (\<lambda>_. True)"
proof -
  have y: "tk_id task = y" by (rule rest_inv_ids(2) [OF assms(1,2)])
  define Q where "Q u \<longleftrightarrow> rest_inv uuid u \<and> tm_runs u = tm_runs s \<and> (\<exists>ts ms. ts \<noteq> Task_Running \<and> ms \<noteq> Member_Running \<and>
        work_of u = set_task (Some y) ts i k (set_status i k ms (work_of s)))" for u
  have go: "Q (team_save (push_event uuid now i ty y (put_team (with_status now k ms t) (put_task task2 s))))"
    if "parse_task task1 = Some task2" "tk_id task1 = y" "tk_team task1 = i" "tk_member task1 = k"
      "tk_status task1 \<noteq> Task_Running" "ms \<noteq> Member_Running" for task1 task2 ty ms
  proof -
    have k2: "tk_id task2 = y" "tk_status task2 = tk_status task1" "tk_team task2 = i" "tk_member task2 = k"
      using parse_task_fields [OF that(1)] that by (simp_all add: task_view_def)
    let ?t = "put_task task2 s"
    have t2: "rest_inv uuid ?t" by (rule rest_inv_put(2) [OF assms(1)]) (use assms(2) k2 in simp)
    have "work_of (put_team (with_status now k ms t) ?t) = set_task (Some y) (tk_status task1) i k (set_status i k ms (work_of s))"
      using work_with_status [OF t2, of i t k now ms] assms(6,7) k2 by (simp add: set_status_swap del: work_of_put(3))
    then show ?thesis unfolding Q_def using rest_with_status [OF t2, of i t] assms(6) that(5,6)
      by (auto simp del: work_of_put(3))
  qed
  have "leaves (finish_task uuid now y e) s (\<lambda>_. Q) (\<lambda>_. True)"
    unfolding finish_task_def
    by (cases e) (auto simp: y assms(2-6) leaves_idle_member split: option.split intro: go)
  then show ?thesis by (rule leaves_mono) (simp_all add: Q_def)
qed

lemma send_mail_inv:
  assumes "inj uuid" "team_inv uuid s"
  shows "leaves (send_mail uuid now i sender receiver body parent) s (\<lambda>_. team_inv uuid) (team_inv uuid)"
  unfolding send_mail_def
  by (rule transaction_inv [OF calm_send_mail_in assms(2) leaves_mono [OF send_mail_in_inv [OF assms(1)]]]) auto

lemma queue_task_inv:
  assumes "inj uuid" "team_inv uuid s"
  shows "leaves (queue_task uuid now i input parent) s (\<lambda>_. team_inv uuid) (team_inv uuid)"
  unfolding queue_task_def
  by (rule transaction_inv [OF calm_queue_task_in assms(2) queue_task_in_inv [OF assms(1)]]) auto

lemma run_over_inv:
  assumes "team_inv uuid s" "jmap_get (tm_runs s) k = Some r" "tr_id q = k" "tr_team q = tr_team r" "run_over (tr_status q)" "run_limits q"
    and "\<And>d. d \<in> set (run_dispatches k s) \<Longrightarrow> \<not> turn_open (td_status d)"
  shows "team_inv uuid (put_team_run q s)"
proof -
  have "work_ok ((work_of s)\<lparr>wk_run := (wk_run (work_of s))(k \<mapsto> (True, tr_team r))\<rparr>)"
  proof (rule work_run_over [OF team_invD(1) [OF assms(1)]])
    fix l st j m x assume "wk_turn (work_of s) l = Some (st, j, k, m, x)"
    then obtain d where d: "jmap_get (tm_dispatches s) l = Some d" "td_status d = st" "td_run d = k"
      by (auto simp: work_of_fields turn_view_def)
    then have "d \<in> set (run_dispatches k s)" by (force simp: run_dispatches_def team_dispatches_def dest: map_of_SomeD)
    with assms(7) d show "\<not> turn_open st" by blast
  qed
  moreover have "rest_inv uuid (put_team_run q s)"
    by (rule rest_inv_put(3)) (use assms in \<open>simp_all add: team_inv_rest\<close>)
  ultimately show ?thesis using assms(3,4,5) by (simp add: team_inv_rest set_run_def run_facts_def)
qed

lemma report_turn_inv:
  assumes "inj uuid" "team_inv uuid s" "jmap_get (tm_runs s) (td_run d) = Some r" "\<not> run_over (tr_status r)"
  shows "leaves (report_turn uuid now d r e) s (\<lambda>_. team_inv uuid) (team_inv uuid)"
proof -
  have idr: "tr_id r = td_run d" by (rule inv_ids(3) [OF assms(2,3)])
  have "team_inv uuid (put_team_run (run_ended now e r) s)"
    if "\<And>x. x \<in> set (run_dispatches (tr_id r) s) \<Longrightarrow> \<not> turn_open (td_status x)"
  proof (cases e)
    case (Turn_Done sid res)
    show ?thesis
      by (rule run_over_inv [OF assms(2,3)])
         (use that idr limits_of [OF assms(2,3)] Turn_Done in \<open>simp_all add: run_ended_def run_limits_def\<close>)
  next
    case (Turn_Error x)
    show ?thesis
      by (rule inv_put_run [OF assms(2), of _ r])
         (use assms(3,4) idr limits_of [OF assms(2,3)] Turn_Error in \<open>simp_all add: run_ended_def run_limits_def run_facts_def\<close>)
  qed
  with assms(2) show ?thesis unfolding report_turn_def
    by (auto simp: list_ex_iff split: option.split intro!: leaves_mono [OF send_mail_inv [OF assms(1,2)]])
qed

lemma ended_fields [simp]:
  "td_id (ended now e d) = td_id d" "turn_view (ended now e d) = (td_status (ended now e d), td_team d, td_run d, td_member d, td_task d)"
  "td_status (ended now e d) \<noteq> Turn_Running"
  by (simp_all add: ended_def turn_view_def split: turn_end.split)

lemma finish_dispatch_in_inv:
  assumes "inj uuid" "team_inv uuid s"
  shows "leaves (finish_dispatch_in uuid now k e) s (\<lambda>_. team_inv uuid) (\<lambda>_. True)"
proof (cases "\<exists>d. jmap_get (tm_dispatches s) k = Some d \<and> td_status d = Turn_Running")
  case False
  with assms show ?thesis by (auto simp: finish_dispatch_in_def split: option.split)
next
  case True
  then obtain d where d: "jmap_get (tm_dispatches s) k = Some d" "td_status d = Turn_Running" by blast
  let ?i = "td_team d" and ?m = "td_member d"
  have idd: "td_id d = k" by (rule inv_ids(4) [OF assms(2) d(1)])
  obtain r t where r: "jmap_get (tm_runs s) (td_run d) = Some r" and t: "jmap_get (tm_teams s) ?i = Some t" "find_member t ?m \<noteq> None"
    using inv_turn [OF assms(2) d(1)] d(2) by (metis not_open(6) option.distinct(1))
  have turn: "wk_turn (work_of s) k = Some (Turn_Running, ?i, td_run d, ?m, td_task d)"
    using d by (simp add: work_of_fields turn_view_def)
  let ?s = "put_dispatch (ended now e d) s"
  let ?v = "(td_status (ended now e d), ?i, td_run d, ?m, td_task d)"
  have rest: "rest_inv uuid ?s" by (rule rest_inv_put(1)) (use assms(2) d idd in \<open>simp_all add: team_inv_rest\<close>)
  have left: "team_inv uuid u"
    if "rest_inv uuid u" "work_of u = set_task (td_task d) ts ?i ?m (set_status ?i ?m ms (set_turn k ?v (work_of s)))"
      "ts \<noteq> Task_Running" "ms \<noteq> Member_Running" for u ts ms
    using that work_leave [OF team_invD(1) [OF assms(2)] turn ended_fields(3) that(4,3)] by (simp add: team_inv_rest)
  have idle: "leaves (idle_member now ?i ?m b) ?s (\<lambda>_ u. team_inv uuid u \<and> tm_runs u = tm_runs s) (\<lambda>_. True)"
    if "\<And>y. td_task d = Some y \<Longrightarrow> \<exists>ts. ts \<noteq> Task_Running \<and> wk_task (work_of s) y = Some (ts, ?i, ?m)" for b
  proof -
    let ?ms = "if b then Member_Error else Member_Idle"
    have w: "work_of (put_team (with_status now ?m ?ms t) ?s) = set_status ?i ?m ?ms (set_turn k ?v (work_of s))"
      using work_with_status [OF rest, of ?i t ?m now ?ms] t idd by (simp del: work_of_put(3))
    have "\<exists>ts. ts \<noteq> Task_Running \<and> set_status ?i ?m ?ms (set_turn k ?v (work_of s)) =
        set_task (td_task d) ts ?i ?m (set_status ?i ?m ?ms (set_turn k ?v (work_of s)))"
    proof (cases "td_task d")
      case None
      then show ?thesis by (intro exI [of _ Task_Queued]) (simp add: set_task_def)
    next
      case (Some y)
      from that [OF this] obtain ts where ts: "ts \<noteq> Task_Running" "wk_task (work_of s) y = Some (ts, ?i, ?m)" by blast
      with set_task_same [of "set_status ?i ?m ?ms (set_turn k ?v (work_of s))" y ts ?i ?m] Some show ?thesis
        by (intro exI [of _ ts]) simp
    qed
    then show ?thesis using left [of "put_team (with_status now ?m ?ms t) ?s"] rest_with_status [OF rest, of ?i t] w t
      by (auto simp: leaves_idle_member simp del: work_of_put(3))
  qed
  have first: "leaves (case td_task d of
             None \<Rightarrow> idle_member now ?i ?m (is_error e)
           | Some x \<Rightarrow> act_bind (required_task x) (\<lambda>t.
               if tk_status t = Task_Running then act_bind (finish_task uuid now x e) (\<lambda>_. act_return ())
               else idle_member now ?i ?m (is_error e))) ?s
       (\<lambda>_ u. team_inv uuid u \<and> tm_runs u = tm_runs s) (\<lambda>_. True)"
  proof (cases "td_task d")
    case None
    with idle show ?thesis by simp
  next
    case (Some y)
    obtain task where task: "jmap_get (tm_tasks s) y = Some task" "tk_team task = ?i" "tk_member task = ?m"
      using tasks_okD(2) [OF work_okD(3) [OF team_invD(1) [OF assms(2)]], of k Turn_Running ?i "td_run d" ?m y] turn Some
      by (auto simp: work_of_fields task_view_def)
    show ?thesis
    proof (cases "tk_status task = Task_Running")
      case True
      have "leaves (finish_task uuid now y e) ?s (\<lambda>_ u. team_inv uuid u \<and> tm_runs u = tm_runs s) (\<lambda>_. True)"
        by (rule leaves_mono [OF finish_task_view [OF rest _ task(2,3) True]])
           (use task t left Some idd in auto)
      with True Some task show ?thesis by simp
    next
      case False
      with idle task Some show ?thesis by (auto simp: work_of_fields task_view_def)
    qed
  qed
  show ?thesis using d r idd unfolding finish_dispatch_in_def
    by (simp, intro leaves_mono [OF first])
       (auto split: option.split intro!: leaves_mono [OF report_turn_inv [OF assms(1)]])
qed

lemma finish_dispatch_inv:
  assumes "inj uuid" "team_inv uuid s" "\<not> tm_batch s"
  shows "leaves (finish_dispatch uuid now k e) s (\<lambda>_. team_inv uuid) (team_inv uuid)"
  unfolding finish_dispatch_def
  by (rule transaction_from [OF calm_finish_dispatch_in assms(2,3) finish_dispatch_in_inv [OF assms(1)]]) (use assms(2) in simp)

section \<open>Loops over the turns\<close>

definition map_turns :: "(team_dispatch \<Rightarrow> team_dispatch) \<Rightarrow> team_store \<Rightarrow> team_store" where
  "map_turns g s = s\<lparr>tm_dispatches := map (map_prod id g) (tm_dispatches s)\<rparr>"

lemma map_turns_fields [simp]:
  "tm_teams (map_turns g s) = tm_teams s" "tm_runs (map_turns g s) = tm_runs s" "tm_tasks (map_turns g s) = tm_tasks s"
  "tm_batch (map_turns g s) = tm_batch s" "jkeys (tm_dispatches (map_turns g s)) = jkeys (tm_dispatches s)"
  "jmap_get (tm_dispatches (map_turns g s)) k = map_option g (jmap_get (tm_dispatches s) k)"
  by (simp_all add: map_turns_def map_of_map_values)

lemma jmap_set_mid: "k \<notin> set (jkeys xs) \<Longrightarrow> jmap_set k w (xs @ (k, v) # ys) = xs @ (k, w) # ys"
  by (induction xs) auto

lemma each_dispatch_map:
  assumes "keyed td_id (tm_dispatches s)" "\<And>d. td_id (g d) = td_id d"
    and f: "\<And>d ds. f d (s\<lparr>tm_dispatches := ds\<rparr>) = (Inr (), put_dispatch (g d) (s\<lparr>tm_dispatches := ds\<rparr>)) \<or>
      f d (s\<lparr>tm_dispatches := ds\<rparr>) = (Inr (), s\<lparr>tm_dispatches := ds\<rparr>) \<and> g d = d"
  shows "each_dispatch f s = (Inr (), map_turns g s)"
proof -
  let ?g = "map (map_prod id g)"
  let ?body = "\<lambda>k. act_get (\<lambda>u. case jmap_get (tm_dispatches u) k of None \<Rightarrow> act_return () | Some d \<Rightarrow> f d)"
  have "act_each ?body (jkeys ys) (s\<lparr>tm_dispatches := ?g xs @ ys\<rparr>) = (Inr (), s\<lparr>tm_dispatches := ?g xs @ ?g ys\<rparr>)"
    if "keyed td_id (xs @ ys)" for xs ys
    using that
  proof (induction ys arbitrary: xs)
    case Nil
    then show ?case by (simp add: act_return_def)
  next
    case (Cons p ys)
    obtain k d where p: "p = (k, d)" by (cases p)
    have k: "td_id d = k" "k \<notin> set (jkeys xs)" using Cons.prems p by (auto simp: keyed_def)
    have keys: "jkeys (?g xs) = jkeys xs" by (induction xs) auto
    have "jmap_get (?g xs) k = None" using k(2) by (simp add: map_of_map_values map_of_eq_None_iff)
    then have get: "jmap_get (?g xs @ (k, d) # ys) k = Some d" by (simp add: map_add_def)
    have step: "?body k (s\<lparr>tm_dispatches := ?g xs @ (k, d) # ys\<rparr>) = (Inr (), s\<lparr>tm_dispatches := ?g xs @ (k, g d) # ys\<rparr>)"
      using f [of d "?g xs @ (k, d) # ys"] get k assms(2) jmap_set_mid [of k "?g xs" "g d" d ys] keys
      by (auto simp: act_get_def put_dispatch_def)
    have "keyed td_id ((xs @ [p]) @ ys)" using Cons.prems by simp
    from Cons.IH [OF this] have "act_each ?body (jkeys ys) (s\<lparr>tm_dispatches := ?g xs @ (k, g d) # ys\<rparr>) =
        (Inr (), s\<lparr>tm_dispatches := ?g xs @ ?g (p # ys)\<rparr>)" by (simp add: p id_def)
    with step show ?case by (simp add: p act_seq_def act_bind_def id_def)
  qed
  from this [of "[]" "tm_dispatches s"] assms(1) show ?thesis
    by (simp add: each_dispatch_def act_get_def map_turns_def)
qed

lemma leaves_each_map:
  assumes "ids_ok s" "\<And>d. td_id (g d) = td_id d"
    and "\<And>d ds. f d (s\<lparr>tm_dispatches := ds\<rparr>) = (Inr (), put_dispatch (g d) (s\<lparr>tm_dispatches := ds\<rparr>)) \<or>
      f d (s\<lparr>tm_dispatches := ds\<rparr>) = (Inr (), s\<lparr>tm_dispatches := ds\<rparr>) \<and> g d = d"
  shows "leaves (each_dispatch f) s Q E = Q () (map_turns g s)"
  using each_dispatch_map [of s g f] assms by (simp add: leaves_def ids_ok_def)

lemma rest_map_turns:
  assumes "rest_inv uuid s" "\<And>d. td_id (g d) = td_id d"
  shows "rest_inv uuid (map_turns g s)"
  using assms by (auto simp: rest_inv_def ids_ok_def keyed_def unused_def shapes_ok_def limits_ok_def map_turns_def
      map_of_map_values)

lemma work_map_turns:
  "work_of (map_turns g s) = (work_of s)\<lparr>wk_turn := \<lambda>k. map_option (\<lambda>d. turn_view (g d)) (jmap_get (tm_dispatches s) k)\<rparr>"
  by (simp add: work_of_def option.map_comp comp_def)

lemma map_turns_inv:
  assumes "team_inv uuid s" "\<And>d. td_id (g d) = td_id d" "\<And>d. turn_view (g d) = turn_view d"
  shows "team_inv uuid (map_turns g s)"
proof -
  have "work_of (map_turns g s) = work_of s" by (simp add: work_map_turns assms(3)) (simp add: work_of_def)
  with assms rest_map_turns [of uuid s g] show ?thesis by (simp add: team_inv_rest)
qed

section \<open>Cancelled and changed tasks\<close>

definition stop_turns :: "nat \<Rightarrow> string \<Rightarrow> team_dispatch \<Rightarrow> team_dispatch" where
  "stop_turns now y d =
     (if td_task d = Some y \<and> turn_open (td_status d) then d\<lparr>td_status := Turn_Cancelled, td_finished := Some now\<rparr> else d)"

lemma stop_turns_id [simp]: "td_id (stop_turns now y d) = td_id d"
  by (simp add: stop_turns_def)

lemma leaves_stop_turns:
  "ids_ok s \<Longrightarrow> leaves (each_dispatch (\<lambda>d. if td_task d = Some y \<and> turn_open (td_status d) then cancel_turn now d else act_return ())) s Q E =
    Q () (map_turns (stop_turns now y) s)"
  by (rule leaves_each_map) (simp_all add: stop_turns_def cancel_turn_def act_do_def act_return_def)

text \<open>At most one open turn works on a task; after the loop none does.\<close>

lemma work_stop_turns:
  assumes "tasks_ok (work_of s)" "wk_turn (work_of s) k = Some (st, i, r, m, Some y)" "turn_open st"
  shows "work_of (map_turns (stop_turns now y) s) = set_turn k (Turn_Cancelled, i, r, m, Some y) (work_of s)"
proof -
  have "map_option (\<lambda>d. turn_view (stop_turns now y d)) (jmap_get (tm_dispatches s) l) =
      ((wk_turn (work_of s))(k \<mapsto> (Turn_Cancelled, i, r, m, Some y))) l" for l
  proof (cases "l = k")
    case True
    with assms(2,3) show ?thesis by (auto simp: work_of_fields turn_view_def stop_turns_def)
  next
    case False
    then have "stop_turns now y d = d" if "jmap_get (tm_dispatches s) l = Some d" for d
      using tasks_okD(3) [OF assms(1,2,3), of l "td_status d" "td_team d" "td_run d" "td_member d"] that
      by (auto simp: work_of_fields turn_view_def stop_turns_def)
    with False show ?thesis by (cases "jmap_get (tm_dispatches s) l") (simp_all add: work_of_fields)
  qed
  then show ?thesis unfolding work_map_turns set_turn_def by (simp add: fun_eq_iff)
qed

lemma work_no_turns:
  assumes "\<And>k st i r m. wk_turn (work_of s) k = Some (st, i, r, m, Some y) \<Longrightarrow> \<not> turn_open st"
  shows "work_of (map_turns (stop_turns now y) s) = work_of s"
proof -
  have "map_option (\<lambda>d. turn_view (stop_turns now y d)) (jmap_get (tm_dispatches s) l) = wk_turn (work_of s) l" for l
  proof (cases "jmap_get (tm_dispatches s) l")
    case (Some d)
    then have "stop_turns now y d = d"
      using assms [of l "td_status d" "td_team d" "td_run d" "td_member d"] by (auto simp: work_of_fields turn_view_def stop_turns_def)
    with Some show ?thesis by (simp add: work_of_fields)
  qed (simp add: work_of_fields)
  then show ?thesis unfolding work_map_turns by simp
qed

lemma cancel_team_task_inv:
  assumes "team_inv uuid s"
  shows "leaves (cancel_team_task uuid now i y) s (\<lambda>_. team_inv uuid) (team_inv uuid)"
proof (cases "jmap_get (tm_tasks s) y")
  case None
  with assms show ?thesis by (simp add: cancel_team_task_def)
next
  case (Some task)
  have idk: "tk_id task = y" by (rule inv_ids(2) [OF assms Some])
  note ok = team_invD(1) [OF assms] and tasks = work_okD(3) [OF team_invD(1) [OF assms]]
  have rest: "rest_inv uuid s" using assms by (simp add: team_inv_rest)
  have go: "(tk_status task = Task_Running \<longrightarrow>
        leaves (idle_member now i (tk_member task) False) (map_turns (stop_turns now y) (put_task task2 s))
          (\<lambda>_ u. team_inv uuid (team_save (push_event uuid now i Event_Cancelled y u))) (team_inv uuid)) \<and>
      (tk_status task \<noteq> Task_Running \<longrightarrow> team_inv uuid (map_turns (stop_turns now y) (put_task task2 s)))"
    if t: "parse_task (task\<lparr>tk_status := Task_Cancelled, tk_finished := Some now\<rparr>) = Some task2" "tk_team task = i" "task_open (tk_status task)" for task2
  proof -
    let ?m = "tk_member task" and ?s = "put_task task2 s"
    have k2: "tk_id task2 = y" "tk_status task2 = Task_Cancelled" "tk_team task2 = i" "tk_member task2 = ?m"
      using parse_task_fields [OF t(1)] t idk by (simp_all add: task_view_def)
    have w: "work_of ?s = set_task (Some y) Task_Cancelled i ?m (work_of s)" using k2 by simp
    have wt: "wk_task (work_of s) y = Some (tk_status task, i, ?m)" using Some t(2) by (simp add: work_of_fields task_view_def)
    have r1: "rest_inv uuid ?s" by (rule rest_inv_put(2) [OF rest]) (use Some k2 in simp)
    have r2: "rest_inv uuid (map_turns (stop_turns now y) ?s)" by (rule rest_map_turns [OF r1]) simp
    have same: "tm_dispatches ?s = tm_dispatches s" by simp
    have wk: "work_of (map_turns (stop_turns now y) ?s) = set_task (Some y) Task_Cancelled i ?m (work_of (map_turns (stop_turns now y) s))"
      unfolding work_map_turns w same by (simp add: set_task_def)
    show ?thesis
    proof (cases "\<exists>k st j r m. wk_turn (work_of s) k = Some (st, j, r, m, Some y) \<and> turn_open st")
      case False
      then have no: "work_of (map_turns (stop_turns now y) s) = work_of s" by (intro work_no_turns) blast
      have "tk_status task \<noteq> Task_Running" using tasks_okD(1) [OF tasks, of y i ?m] wt False not_open(6) by metis
      moreover have "work_ok (set_task (Some y) Task_Cancelled i ?m (work_of s))" by (rule work_task_stop [OF ok wt]) simp_all
      ultimately show ?thesis using r2 by (simp add: team_inv_rest wk no)
    next
      case True
      then obtain k st j r m where k: "wk_turn (work_of s) k = Some (st, j, r, m, Some y)" "turn_open st" by blast
      from tasks_okD(2) [OF tasks k] wt have jm: "j = i" "m = ?m" "st = Turn_Running \<longrightarrow> tk_status task \<noteq> Task_Queued" by auto
      note turn = k(1) [unfolded jm(1,2)]
      have stop: "work_of (map_turns (stop_turns now y) s) = set_turn k (Turn_Cancelled, i, r, ?m, Some y) (work_of s)"
        by (rule work_stop_turns [OF tasks turn k(2)])
      show ?thesis
      proof (cases "tk_status task = Task_Running")
        case True
        with wt tasks_okD(1) [OF tasks, of y i ?m] obtain l q where l: "wk_turn (work_of s) l = Some (Turn_Running, i, q, ?m, Some y)" by auto
        with tasks_okD(3) [OF tasks turn k(2) l] turn have st: "st = Turn_Running" by auto
        note run = turn [unfolded st]
        obtain d where d: "jmap_get (tm_dispatches s) k = Some d" "td_status d = Turn_Running" "td_team d = i" "td_member d = ?m"
          using run by (auto simp: work_of_fields turn_view_def)
        obtain tm where tm: "jmap_get (tm_teams s) i = Some tm" "find_member tm ?m \<noteq> None"
          using inv_turn [OF assms d(1)] d(2-4) by (metis not_open(6) option.distinct(1))
        let ?u = "put_team (with_status now ?m Member_Idle tm) (map_turns (stop_turns now y) ?s)"
        have "work_of ?u = set_task (Some y) Task_Cancelled i ?m (set_status i ?m Member_Idle (set_turn k (Turn_Cancelled, i, r, ?m, Some y) (work_of s)))"
          using work_with_status [OF r2, of i tm ?m] tm wk stop by (simp add: set_status_swap del: work_of_put)
        moreover have "work_ok \<dots>" by (rule work_leave [OF ok run]) simp_all
        ultimately have "team_inv uuid ?u" using rest_with_status [OF r2, of i tm] tm by (simp add: team_inv_rest del: work_of_put(3))
        with True tm show ?thesis by (simp add: leaves_idle_member)
      next
        case False
        with t(3) have "tk_status task = Task_Queued" by (simp add: task_open_def)
        with jm(3) k(2) have st: "st = Turn_Queued" by (auto simp: turn_open_def)
        have "work_ok (set_turn k (Turn_Cancelled, i, r, ?m, Some y) (work_of s))" (is "work_ok ?w")
          by (rule work_drop [OF ok turn [unfolded st]]) simp
        then have "work_ok (set_task (Some y) Task_Cancelled i ?m ?w)"
          by (rule work_task_stop) (use wt in simp_all)
        with r2 False show ?thesis by (simp add: team_inv_rest wk stop)
      qed
    qed
  qed
  show ?thesis
  proof -
    have ids: "ids_ok (put_task u s)" if "parse_task (task\<lparr>tk_status := Task_Cancelled, tk_finished := Some now\<rparr>) = Some u" for u
      using team_invD(2) [OF assms] stored_task_id [of s y] parse_task_fields [OF that] Some idk by simp
    have "leaves (each_dispatch (\<lambda>d. if td_task d = Some y \<and> turn_open (td_status d) then cancel_turn now d else act_return ())) (put_task u s) Q E =
      Q () (map_turns (stop_turns now y) (put_task u s))"
      if "parse_task (task\<lparr>tk_status := Task_Cancelled, tk_finished := Some now\<rparr>) = Some u" for Q E u by (rule leaves_stop_turns [OF ids [OF that]])
    then show ?thesis using go unfolding cancel_team_task_def by (auto simp: Some assms split: option.split)
  qed
qed

definition input_turns :: "string \<Rightarrow> string \<Rightarrow> team_dispatch \<Rightarrow> team_dispatch" where
  "input_turns y x d = (if td_task d = Some y \<and> td_status d = Turn_Queued then d\<lparr>td_input := x\<rparr> else d)"

lemma leaves_input_turns:
  "ids_ok s \<Longrightarrow> leaves (each_dispatch (\<lambda>d. if td_task d = Some y \<and> td_status d = Turn_Queued
      then act_do (put_dispatch (d\<lparr>td_input := x\<rparr>)) else act_return ())) s Q E = Q () (map_turns (input_turns y x) s)"
  by (rule leaves_each_map) (simp_all add: input_turns_def act_do_def act_return_def)

lemma input_turns_inv: "team_inv uuid s \<Longrightarrow> team_inv uuid (map_turns (input_turns y x) s)"
  by (rule map_turns_inv) (simp_all add: input_turns_def turn_view_def)

definition deps_valid :: "team_store \<Rightarrow> string \<Rightarrow> string list \<Rightarrow> string option \<Rightarrow> bool" where
  "deps_valid s i ids target \<longleftrightarrow> distinct ids \<and> list_all (\<lambda>x. visit (tm_tasks s) i target [] [x] = None) ids"

lemma leaves_validate_iff:
  "leaves (validate_dependencies i ids target) s Q E = (if deps_valid s i ids target then Q () s else E s)"
proof -
  have "leaves (act_each (\<lambda>x. case f x of None \<Rightarrow> act_return () | Some e \<Rightarrow> act_fail e) xs) s Q E =
      (if list_all (\<lambda>x. f x = None) xs then Q () s else E s)" for f xs
    by (induction xs) (auto split: option.split)
  from this [of "\<lambda>x. visit (tm_tasks s) i target [] [x]" ids] show ?thesis
    by (simp add: validate_dependencies_def deps_valid_def del: visit.simps)
qed

lemma patched_task_fields [simp]:
  "tk_id (patched_task now p t) = tk_id t" "tk_team (patched_task now p t) = tk_team t" "tk_member (patched_task now p t) = tk_member t"
  "tk_status (patched_task now p t) = (case kp_status p of None \<Rightarrow> tk_status t | Some b \<Rightarrow> if b then Task_Succeeded else Task_Failed)"
  by (simp_all add: patched_task_def)

lemma update_task_inv:
  assumes "team_inv uuid s"
  shows "leaves (update_task uuid now i y version p caller) s (\<lambda>_. team_inv uuid) (team_inv uuid)"
proof (cases "jmap_get (tm_tasks s) y")
  case None
  with assms show ?thesis by (simp add: update_task_def)
next
  case (Some task)
  have idk: "tk_id task = y" by (rule inv_ids(2) [OF assms Some])
  have put: "team_inv uuid (put_task task2 s)"
    if t: "parse_task (patched_task now p task) = Some task2" and run: "kp_status p = None \<or> tk_status task = Task_Running" for task2
  proof -
    have k2: "tk_id task2 = y" "task_view task2 = task_view (patched_task now p task)"
      using parse_task_fields [OF t] idk by simp_all
    show ?thesis
    proof (cases "kp_status p")
      case None
      then show ?thesis using k2 Some idk by (intro inv_put_task [OF assms, of _ task]) (simp_all add: task_view_def)
    next
      case (Some b)
      have "wk_task (work_of s) y = Some (tk_status task, tk_team task, tk_member task)"
        using \<open>jmap_get (tm_tasks s) y = Some task\<close> by (simp add: work_of_fields task_view_def)
      from work_task_stop [OF team_invD(1) [OF assms] this, of "tk_status task2"] k2 Some
      have "work_ok (set_task (Some y) (tk_status task2) (tk_team task) (tk_member task) (work_of s))"
        by (auto simp: task_view_def)
      moreover have "rest_inv uuid (put_task task2 s)"
        by (rule rest_inv_put(2)) (use assms k2 \<open>jmap_get (tm_tasks s) y = Some task\<close> in \<open>simp_all add: team_inv_rest\<close>)
      ultimately show ?thesis using k2 by (simp add: team_inv_rest task_view_def)
    qed
  qed
  have known: "ids_ok (put_task u s)" if "parse_task (patched_task now p task) = Some u" for u
    using team_invD(2) [OF assms] stored_task_id [of s y] parse_task_fields [OF that] Some idk by simp
  show ?thesis unfolding update_task_def
    by (simp add: Some assms known leaves_validate_iff leaves_input_turns input_turns_inv put split: option.split)
qed

section \<open>Runs\<close>

lemma pause_blocked_inv:
  assumes "team_inv uuid s"
  shows "leaves (pause_blocked uuid now k) s (\<lambda>_. team_inv uuid) (team_inv uuid)"
proof -
  have "team_inv uuid (put_team_run (r\<lparr>tr_status := Run_Paused, tr_reason := x, tr_updated := now\<rparr>) s)"
    if r: "jmap_get (tm_runs s) k = Some r" "tr_status r = Run_Running" for r x
    by (rule inv_put_run [OF assms, of _ r])
       (use r inv_ids(3) [OF assms r(1)] limits_of [OF assms r(1)] in \<open>simp_all add: run_facts_def run_limits_def\<close>)
  with assms show ?thesis
    by (auto simp: pause_blocked_def Let_def split: option.split sum.split bool.split)
qed

lemma pause_blocked_runs_inv:
  assumes "team_inv uuid s"
  shows "leaves (pause_blocked_runs uuid now) s (\<lambda>_. team_inv uuid) (team_inv uuid)"
  unfolding pause_blocked_runs_def by simp (rule leaves_each [OF assms pause_blocked_inv])

lemma team_acknowledge_inv:
  assumes "team_inv uuid s"
  shows "leaves (team_acknowledge k) s (\<lambda>_. team_inv uuid) (team_inv uuid)"
  using assms by (auto simp: team_acknowledge_def mark_reconciled_def split: option.split)

lemma recruit_in_inv:
  assumes "inj uuid" "team_inv uuid s"
  shows "leaves (recruit_in uuid now i parent input) s (\<lambda>_. team_inv uuid) (team_inv uuid)"
proof (cases "jmap_get (tm_dispatches s) parent")
  case None
  with assms show ?thesis by (simp add: recruit_in_def)
next
  case (Some p)
  have go: "team_inv uuid (put_team_run (let q = r\<lparr>tr_recruited := Suc (tr_recruited r)\<rparr> in if max_recruited \<le> Suc (tr_recruited r)
          then q\<lparr>tr_status := Run_Paused_Limit, tr_reason := x\<rparr> else q) t)"
    if r: "jmap_get (tm_runs s) (td_run p) = Some r" "tr_status r = Run_Running" "tr_recruited r < max_recruited"
      and t: "team_inv uuid t" "tm_runs t = tm_runs s" for r x t
    by (rule inv_put_run [OF t(1), of _ r])
       (use r t inv_ids(3) [OF assms(2) r(1)] limits_of [OF assms(2) r(1)] in \<open>simp_all add: run_facts_def run_limits_def Let_def\<close>)
  show ?thesis using Some assms unfolding recruit_in_def
    by (auto simp: go split: option.split intro!: leaves_mono [OF add_member_inv [OF assms]])
qed

lemma recruit_inv:
  assumes "inj uuid" "team_inv uuid s"
  shows "leaves (recruit uuid now i parent input) s (\<lambda>_. team_inv uuid) (team_inv uuid)"
  unfolding recruit_def
  by (rule transaction_inv [OF calm_recruit_in assms(2) recruit_in_inv [OF assms(1)]]) auto

end
