(* ===== verification/Team_Cancel.thy ===== *)
theory Team_Cancel
  imports Team_Steps
begin

text \<open>
  Cancelling a run: all its open turns end, with the tasks they work on and the members at work. In the middle of
  the loop the invariant does not hold, so the loop keeps what the store will be when all is settled.
\<close>

section \<open>The settled view\<close>

definition worked_on :: "string \<Rightarrow> string \<Rightarrow> work \<Rightarrow> string \<Rightarrow> bool" where
  "worked_on k i w y \<longleftrightarrow> (\<exists>l st n. wk_turn w l = Some (st, i, k, n, Some y) \<and> turn_open st)"

definition settled :: "string \<Rightarrow> string \<Rightarrow> work \<Rightarrow> work" where
  "settled k i w = \<lparr>
     wk_status = (\<lambda>j m. if j = i then map_option (\<lambda>_. Member_Idle) (wk_status w j m) else wk_status w j m),
     wk_team = wk_team w,
     wk_task = (\<lambda>y. case wk_task w y of None \<Rightarrow> None
       | Some (ts, j, m) \<Rightarrow> Some (if task_open ts \<and> worked_on k i w y then Task_Cancelled else ts, j, m)),
     wk_run = (wk_run w)(k \<mapsto> (True, i)),
     wk_turn = (\<lambda>l. case wk_turn w l of None \<Rightarrow> None
       | Some (st, j, r, m, x) \<Rightarrow> Some (if r = k \<and> turn_open st then Turn_Cancelled else st, j, r, m, x))\<rparr>"

lemma settled_turn:
  "wk_turn (settled k i w) l = Some (st, j, r, m, x) \<longleftrightarrow>
     (\<exists>su. wk_turn w l = Some (su, j, r, m, x) \<and> st = (if r = k \<and> turn_open su then Turn_Cancelled else su))"
  by (auto simp: settled_def split: option.splits prod.splits)

lemma settled_open:
  "turn_open st \<Longrightarrow> wk_turn (settled k i w) l = Some (st, j, r, m, x) \<longleftrightarrow> r \<noteq> k \<and> wk_turn w l = Some (st, j, r, m, x)"
  by (auto simp: settled_turn)

lemma settled_task:
  "wk_task (settled k i w) y = Some (ts, j, m) \<longleftrightarrow> (\<exists>us. wk_task w y = Some (us, j, m) \<and>
     ts = (if task_open us \<and> worked_on k i w y then Task_Cancelled else us))"
  by (auto simp: settled_def split: option.splits prod.splits)

lemma settled_fields [simp]:
  "wk_status (settled k i w) j m = (if j = i then map_option (\<lambda>_. Member_Idle) (wk_status w j m) else wk_status w j m)"
  "wk_team (settled k i w) = wk_team w" "wk_run (settled k i w) = (wk_run w)(k \<mapsto> (True, i))"
  by (simp_all add: settled_def)

lemma work_settled:
  assumes "work_ok w" "wk_run w k = Some (False, i)"
  shows "work_ok (settled k i w)" (is "work_ok ?w")
proof (rule work_okI)
  note ok = work_okD [OF assms(1)]
  note turns = turns_okD [OF ok(1)] and tasks = tasks_okD [OF ok(3)]
  have only: "r = k" if "wk_run w r = Some (False, i)" for r
    using ok(2) that assms(2) unfolding runs_ok_def by blast
  have other: "j \<noteq> i" if "wk_turn w l = Some (st, j, r, m, x)" "turn_open st" "r \<noteq> k" for l st j r m x
    using turns(1) [OF that(1,2)] only that(3) by auto
  have mine: "j = i" if "wk_turn w l = Some (st, j, k, m, x)" "turn_open st" for l st j m x
    using turns(1) [OF that] assms(2) by simp
  show "turns_ok ?w"
  proof (rule turns_okI)
    fix l st j r m x assume l: "wk_turn ?w l = Some (st, j, r, m, x)" "turn_open st"
    then have "r \<noteq> k" "wk_turn w l = Some (st, j, r, m, x)" by (simp_all add: settled_open)
    with turns(1,2) [OF this(2) l(2)] show "wk_run ?w r = Some (False, j) \<and> wk_status ?w j m \<noteq> None" by auto
  next
    fix l j r m x assume "wk_turn ?w l = Some (Turn_Running, j, r, m, x)"
    then have l: "r \<noteq> k" "wk_turn w l = Some (Turn_Running, j, r, m, x)" by (simp_all add: settled_open)
    with turns(3) [OF l(2)] other [OF l(2) _ l(1)] show "wk_status ?w j m = Some Member_Running" by simp
  next
    fix l l' j r q m x y
    assume "wk_turn ?w l = Some (Turn_Running, j, r, m, x)" "wk_turn ?w l' = Some (Turn_Running, j, q, m, y)"
    then have "wk_turn w l = Some (Turn_Running, j, r, m, x)" "wk_turn w l' = Some (Turn_Running, j, q, m, y)"
      by (simp_all add: settled_open)
    then show "l = l'" by (rule turns(4))
  next
    fix j m assume "wk_status ?w j m = Some Member_Running"
    then have j: "j \<noteq> i" "wk_status w j m = Some Member_Running" by (auto split: if_splits)
    from turns(5) [OF j(2)] obtain l r x where l: "wk_turn w l = Some (Turn_Running, j, r, m, x)" by blast
    with mine j(1) have "r \<noteq> k" by (metis not_open(6))
    with l show "\<exists>l r x. wk_turn ?w l = Some (Turn_Running, j, r, m, x)" by (auto simp: settled_open)
  qed
  have st: "wk_status ?w j m \<noteq> None \<longleftrightarrow> wk_status w j m \<noteq> None" for j m by simp
  show "homes_ok ?w" unfolding homes_ok_def
  proof (intro allI impI)
    fix y ts j m assume "wk_task ?w y = Some (ts, j, m)" "task_open ts"
    then have "wk_task w y = Some (ts, j, m)" by (auto simp: settled_task split: if_splits)
    from homes_okD [OF ok(5) this \<open>task_open ts\<close>] show "wk_status ?w j m \<noteq> None" by auto
  qed
  show "runs_ok ?w" using ok(2) unfolding runs_ok_def st settled_fields(2,3) by (simp split: if_splits)
  show "tasks_ok ?w"
  proof (rule tasks_okI)
    fix y j m assume "wk_task ?w y = Some (Task_Running, j, m)"
    then have y: "wk_task w y = Some (Task_Running, j, m)"
      "\<not> worked_on k i w y"
      by (auto simp: settled_task task_open_def split: if_splits)
    from tasks(1) [OF y(1)] obtain l r where l: "wk_turn w l = Some (Turn_Running, j, r, m, Some y)" by blast
    with y(2) mine have "r \<noteq> k" unfolding worked_on_def by (metis not_open(6))
    with l show "\<exists>l r. wk_turn ?w l = Some (Turn_Running, j, r, m, Some y)" by (auto simp: settled_open)
  next
    fix l st j r m y assume l: "wk_turn ?w l = Some (st, j, r, m, Some y)" "turn_open st"
    then have "wk_turn w l = Some (st, j, r, m, Some y)" by (simp add: settled_open)
    from tasks(2) [OF this l(2)] show "\<exists>ts. wk_task ?w y = Some (ts, j, m) \<and> (st = Turn_Running \<longrightarrow> ts \<noteq> Task_Queued)"
      unfolding settled_task by auto
  next
    fix l l' st su j j' r q m n y
    assume "wk_turn ?w l = Some (st, j, r, m, Some y)" "turn_open st" "wk_turn ?w l' = Some (su, j', q, n, Some y)" "turn_open su"
    then show "l = l'" using tasks(3) by (simp add: settled_open)
  qed
  show "crowd_ok ?w" by (rule crowd_shrink [OF ok(4)]) (auto simp: running_of_def settled_open)
qed

text \<open>One turn of the run ends, with its task when that is open.\<close>

lemma settled_step:
  assumes "wk_turn w l = Some (st, i, k, m, x)" "turn_open st"
    and "wk_turn v = (wk_turn w)(l \<mapsto> (Turn_Cancelled, i, k, m, x))"
    and "\<And>y. wk_task v y = (if x = Some y then map_option (\<lambda>(ts, p). (if task_open ts then Task_Cancelled else ts, p)) (wk_task w y) else wk_task w y)"
    and "\<And>j n. j \<noteq> i \<Longrightarrow> wk_status v j n = wk_status w j n" "\<And>n. wk_status v i n = None \<longleftrightarrow> wk_status w i n = None"
    and "wk_team v = wk_team w" "wk_run v = wk_run w"
  shows "settled k i v = settled k i w"
proof -
  have "wk_turn (settled k i v) = wk_turn (settled k i w)"
    using assms(1-3) by (auto simp: settled_def fun_eq_iff)
  moreover have "wk_task (settled k i v) y = wk_task (settled k i w) y" for y
  proof (cases "x = Some y")
    case True
    with assms(1,2) have "worked_on k i w y" unfolding worked_on_def by blast
    with True assms(4) [of y] show ?thesis
      by (cases "wk_task w y") (auto simp: settled_def task_open_def)
  next
    case False
    have "wk_turn v a = Some (b, i, k, n, Some y) \<and> turn_open b \<longleftrightarrow> wk_turn w a = Some (b, i, k, n, Some y) \<and> turn_open b" for a b n
      using assms(1,3) False by auto
    then have "worked_on k i v y \<longleftrightarrow> worked_on k i w y" unfolding worked_on_def by (intro ex_cong1)
    with False assms(4) [of y] show ?thesis by (cases "wk_task w y") (auto simp: settled_def)
  qed
  moreover have "wk_status (settled k i v) j n = wk_status (settled k i w) j n" for j n
    using assms(5) [of j n] assms(6) [of n] by (cases "wk_status v i n"; cases "wk_status w i n") (auto split: if_splits)
  ultimately show ?thesis using assms(7,8) by (intro work.equality) (auto simp: fun_eq_iff)
qed

section \<open>The loop\<close>

lemma leaves_each_all:
  assumes "P s" "\<And>x t. x \<in> set xs \<Longrightarrow> P t \<Longrightarrow> leaves (f x) t (\<lambda>_ u. P u \<and> R x u \<and> (\<forall>y. R y t \<longrightarrow> R y u)) E"
  shows "leaves (act_each f xs) s (\<lambda>_ u. P u \<and> (\<forall>x \<in> set xs. R x u) \<and> (\<forall>y. R y s \<longrightarrow> R y u)) E"
  using assms
proof (induction xs arbitrary: s)
  case (Cons x xs)
  have "leaves (f x) s (\<lambda>_ u. P u \<and> R x u \<and> (\<forall>y. R y s \<longrightarrow> R y u)) E" using Cons.prems by simp
  then have "leaves (f x) s (\<lambda>_ t. leaves (act_each f xs) t (\<lambda>_ u. P u \<and> (\<forall>x \<in> set (x # xs). R x u) \<and> (\<forall>y. R y s \<longrightarrow> R y u)) E) E"
  proof (rule leaves_mono)
    fix t assume t: "P t \<and> R x t \<and> (\<forall>y. R y s \<longrightarrow> R y t)"
    have "leaves (act_each f xs) t (\<lambda>_ u. P u \<and> (\<forall>x \<in> set xs. R x u) \<and> (\<forall>y. R y t \<longrightarrow> R y u)) E"
      by (rule Cons.IH) (use t Cons.prems in auto)
    then show "leaves (act_each f xs) t (\<lambda>_ u. P u \<and> (\<forall>x \<in> set (x # xs). R x u) \<and> (\<forall>y. R y s \<longrightarrow> R y u)) E"
      by (rule leaves_mono) (use t in auto)
  qed
  then show ?case by simp
qed simp

text \<open>What holds between the turns that are cancelled, for the view \<open>w\<close> the loop began with.\<close>

definition settling :: "(nat \<Rightarrow> string) \<Rightarrow> string \<Rightarrow> string \<Rightarrow> work \<Rightarrow> team_store \<Rightarrow> bool" where
  "settling uuid k i w s \<longleftrightarrow> rest_inv uuid s \<and> settled k i (work_of s) = settled k i w \<and> wk_run (work_of s) k = Some (True, i) \<and>
     (\<forall>l st j r m x. wk_turn (work_of s) l = Some (st, j, r, m, x) \<longrightarrow> turn_open st \<longrightarrow> wk_turn w l = Some (st, j, r, m, x)) \<and>
     (\<forall>m. wk_status (work_of s) i m = Some Member_Running \<longrightarrow> wk_status w i m = Some Member_Running) \<and>
     (\<forall>l st m x. wk_turn w l = Some (st, i, k, m, x) \<longrightarrow> turn_open st \<longrightarrow>
        wk_turn (work_of s) l = Some (st, i, k, m, x) \<or> wk_status (work_of s) i m \<noteq> Some Member_Running)"

definition turn_closed :: "team_store \<Rightarrow> string \<Rightarrow> string \<Rightarrow> bool" where
  "turn_closed s k l \<longleftrightarrow> (\<forall>st j m x. wk_turn (work_of s) l = Some (st, j, k, m, x) \<longrightarrow> \<not> turn_open st)"

lemma settled_inv:
  assumes "work_ok w" "wk_run w k = Some (False, i)" "settling uuid k i w s" "\<And>l. turn_closed s k l"
  shows "team_inv uuid s"
proof -
  let ?v = "settled k i w" and ?w = "work_of s"
  note turns = turns_okD [OF work_okD(1) [OF assms(1)]]
  have ok: "work_ok ?v" by (rule work_settled [OF assms(1,2)])
  have eq: "settled k i ?w = ?v" and run: "wk_run ?w k = Some (True, i)" using assms(3) by (simp_all add: settling_def)
  have turn: "wk_turn ?w l = wk_turn ?v l" for l
    unfolding eq [symmetric] using assms(4) [of l]
    by (cases "wk_turn ?w l") (auto simp: settled_def turn_closed_def)
  have no: "\<not> worked_on k i ?w y" for y
    using assms(4) unfolding turn_closed_def worked_on_def by blast
  have task: "wk_task ?w y = wk_task ?v y" for y
    unfolding eq [symmetric] using no [of y] by (simp add: settled_def split: option.split)
  have runs: "wk_run ?w = wk_run ?v" unfolding eq [symmetric] using run by (simp add: fun_upd_idem)
  have team: "wk_team ?w = wk_team ?v" unfolding eq [symmetric] by simp
  have status: "j \<noteq> i \<Longrightarrow> wk_status ?w j m = wk_status ?v j m" "wk_status ?w i m = None \<longleftrightarrow> wk_status ?v i m = None" for j m
    unfolding eq [symmetric] by simp_all
  have idle: "wk_status ?w i m \<noteq> Some Member_Running" for m
  proof
    assume a: "wk_status ?w i m = Some Member_Running"
    with assms(3) have "wk_status w i m = Some Member_Running" by (simp add: settling_def)
    from turns(5) [OF this] obtain l r x where l: "wk_turn w l = Some (Turn_Running, i, r, m, x)" by blast
    from turns(1) [OF l] have "r = k" using work_okD(2) [OF assms(1)] assms(2) unfolding runs_ok_def by (metis not_open(6))
    with l a assms(3) have "wk_turn ?w l = Some (Turn_Running, i, k, m, x)" unfolding settling_def by (metis not_open(6))
    with assms(4) [of l] show False by (auto simp: turn_closed_def)
  qed
  have "wk_team ?v i" using work_okD(2) [OF assms(1)] assms(2) unfolding runs_ok_def by auto
  then have "?w = set_team i (wk_status ?w i) ?v"
    using turn task runs team status(1) by (intro work.equality) (auto simp: fun_eq_iff)
  moreover have "work_ok (set_team i (wk_status ?w i) ?v)"
  proof (rule work_team [OF ok])
    show "wk_status ?w i m = Some Member_Running \<longleftrightarrow> wk_status ?v i m = Some Member_Running" for m
      using idle [of m] by (cases "wk_status w i m") simp_all
    show "wk_status ?w i m \<noteq> None" if "wk_turn ?v l = Some (st, i, r, m, x)" "turn_open st" for l st r m x
      using turns_okD(2) [OF work_okD(1) [OF ok] that] status(2) [of m] by (cases "wk_status (work_of s) i m") simp_all
    show "wk_status ?w i m \<noteq> None" if "wk_task ?v y = Some (ts, i, m)" "task_open ts" for y ts m
      using homes_okD [OF work_okD(5) [OF ok] that] status(2) [of m] by (cases "wk_status (work_of s) i m") simp_all
  qed
  ultimately have "work_ok ?w" by simp
  with assms(3) show ?thesis by (simp add: team_inv_rest settling_def)
qed

lemma settling_step:
  assumes "settling uuid k i w s" "wk_turn (work_of s) l = Some (st, i, k, m, x)" "turn_open st" "rest_inv uuid u"
    and "wk_turn (work_of u) = (wk_turn (work_of s))(l \<mapsto> (Turn_Cancelled, i, k, m, x))"
    and "\<And>y. wk_task (work_of u) y = (if x = Some y then map_option (\<lambda>(ts, p). (if task_open ts then Task_Cancelled else ts, p)) (wk_task (work_of s) y)
      else wk_task (work_of s) y)"
    and "wk_status (work_of u) = (wk_status (work_of s))(i := (wk_status (work_of s) i)(m \<mapsto> Member_Idle))" "wk_status (work_of s) i m \<noteq> None"
    and "wk_team (work_of u) = wk_team (work_of s)" "wk_run (work_of u) = wk_run (work_of s)"
  shows "settling uuid k i w u \<and> turn_closed u k l \<and> (\<forall>y. turn_closed s k y \<longrightarrow> turn_closed u k y)"
proof (intro conjI allI impI)
  have "settled k i (work_of u) = settled k i (work_of s)"
    by (rule settled_step [OF assms(2,3,5,6)]) (use assms(7-10) in auto)
  moreover have "wk_turn w b = Some (su, j, r, n, y)" if "wk_turn (work_of u) b = Some (su, j, r, n, y)" "turn_open su" for b su j r n y
    using that assms(1,5) by (cases "b = l") (auto simp: settling_def)
  moreover have "wk_status w i n = Some Member_Running" if "wk_status (work_of u) i n = Some Member_Running" for n
    using that assms(1,7) by (cases "n = m") (auto simp: settling_def)
  moreover have "wk_turn (work_of u) b = Some (su, i, k, n, y) \<or> wk_status (work_of u) i n \<noteq> Some Member_Running"
    if a: "wk_turn w b = Some (su, i, k, n, y)" "turn_open su" for b su n y
  proof (cases "b = l")
    case True
    have "wk_turn w l = Some (st, i, k, m, x)" using assms(1-3) by (simp add: settling_def)
    with a True have "n = m" by simp
    then show ?thesis using assms(7) by simp
  next
    case False
    from assms(1) a have "wk_turn (work_of s) b = Some (su, i, k, n, y) \<or> wk_status (work_of s) i n \<noteq> Some Member_Running"
      unfolding settling_def by blast
    with False show ?thesis using assms(5,7) by (cases "n = m") auto
  qed
  ultimately show "settling uuid k i w u" using assms(1,4,10) unfolding settling_def by simp
  show "turn_closed u k l" using assms(5) by (simp add: turn_closed_def)
  show "turn_closed u k y" if "turn_closed s k y" for y using that assms(5) by (simp add: turn_closed_def)
qed

lemma cancel_item_settling:
  assumes "settling uuid k i w s" "jmap_get (tm_dispatches s) l = Some d" "work_ok w" "wk_run w k = Some (False, i)"
  shows "leaves (cancel_item uuid now i k d) s (\<lambda>_ u. settling uuid k i w u \<and> turn_closed u k l \<and>
    (\<forall>y. turn_closed s k y \<longrightarrow> turn_closed u k y)) (\<lambda>_. True)"
proof (cases "td_run d \<noteq> k \<or> \<not> turn_open (td_status d)")
  case True
  then have "turn_closed s k l" using assms(2) by (auto simp: turn_closed_def work_of_fields turn_view_def)
  with True assms(1) show ?thesis by (simp add: cancel_item_def)
next
  case False
  let ?W = "work_of s" and ?st = "td_status d" and ?m = "td_member d" and ?x = "td_task d"
  note turns = turns_okD [OF work_okD(1) [OF assms(3)]] and tasks = tasks_okD [OF work_okD(3) [OF assms(3)]]
  have rest: "rest_inv uuid s" and eq: "settled k i ?W = settled k i w"
    and sub: "\<And>l st j r m x. wk_turn ?W l = Some (st, j, r, m, x) \<Longrightarrow> turn_open st \<Longrightarrow> wk_turn w l = Some (st, j, r, m, x)"
    using assms(1) unfolding settling_def by blast+
  have "wk_turn ?W l = Some (?st, td_team d, k, ?m, ?x)" using assms(2) False by (simp add: work_of_fields turn_view_def)
  moreover from sub [OF this] False turns(1) assms(4) have "td_team d = i" by fastforce
  ultimately have turn: "wk_turn ?W l = Some (?st, i, k, ?m, ?x)" by simp
  have op: "turn_open ?st" using False by simp
  note turnw = sub [OF turn op]
  have idd: "td_id d = l" by (rule rest_inv_ids(4) [OF rest assms(2)])
  have status: "wk_status ?W i ?m \<noteq> None"
    using turns(2) [OF turnw op] arg_cong [OF eq, of "\<lambda>v. wk_status v i ?m"] by (cases "wk_status ?W i ?m") auto
  then obtain tm where tm: "jmap_get (tm_teams s) i = Some tm" "find_member tm ?m \<noteq> None"
    by (auto simp: work_of_fields member_status_of_def split: option.splits)
  let ?s = "put_dispatch (d\<lparr>td_status := Turn_Cancelled, td_finished := Some now\<rparr>) s"
  have rest1: "rest_inv uuid ?s" by (rule rest_inv_put(1) [OF rest]) (use assms(2) idd in simp)
  have w1: "work_of ?s = set_turn l (Turn_Cancelled, i, k, ?m, ?x) ?W"
    using idd turn assms(2) by (simp add: work_of_fields turn_view_def)
  define Q where "Q u \<longleftrightarrow> settling uuid k i w u \<and> turn_closed u k l \<and> (\<forall>y. turn_closed s k y \<longrightarrow> turn_closed u k y)" for u
  have last: "Q (put_team (with_status now ?m Member_Idle t) u)"
    if u: "rest_inv uuid u" "jmap_get (tm_teams u) i = Some t" "find_member t ?m \<noteq> None"
      and v: "wk_turn (work_of u) = (wk_turn ?W)(l \<mapsto> (Turn_Cancelled, i, k, ?m, ?x))"
        "\<And>y. wk_task (work_of u) y = (if ?x = Some y then map_option (\<lambda>(ts, p). (if task_open ts then Task_Cancelled else ts, p)) (wk_task ?W y)
          else wk_task ?W y)"
        "wk_status (work_of u) = wk_status ?W \<or> wk_status (work_of u) = (wk_status ?W)(i := (wk_status ?W i)(?m \<mapsto> Member_Idle))"
        "wk_team (work_of u) = wk_team ?W" "wk_run (work_of u) = wk_run ?W" for u t
    unfolding Q_def
  proof (rule settling_step [OF assms(1) turn op])
    note w' = work_with_status [OF u, of now Member_Idle]
    show "rest_inv uuid (put_team (with_status now ?m Member_Idle t) u)" by (rule rest_with_status [OF u(1,2)])
    show "wk_turn (work_of (put_team (with_status now ?m Member_Idle t) u)) = (wk_turn ?W)(l \<mapsto> (Turn_Cancelled, i, k, ?m, ?x))"
      unfolding w' using v(1) by simp
    show "wk_task (work_of (put_team (with_status now ?m Member_Idle t) u)) y = (if ?x = Some y then
        map_option (\<lambda>(ts, p). (if task_open ts then Task_Cancelled else ts, p)) (wk_task ?W y) else wk_task ?W y)" for y
      unfolding w' using v(2) by simp
    show "wk_status (work_of (put_team (with_status now ?m Member_Idle t) u)) = (wk_status ?W)(i := (wk_status ?W i)(?m \<mapsto> Member_Idle))"
      unfolding w' using v(3) by auto
    show "wk_team (work_of (put_team (with_status now ?m Member_Idle t) u)) = wk_team ?W"
      "wk_run (work_of (put_team (with_status now ?m Member_Idle t) u)) = wk_run ?W" unfolding w' using v(4,5) by simp_all
  qed (rule status)
  have plain: "Q (put_team (with_status now ?m Member_Idle tm) ?s)"
    if "\<And>y. ?x = Some y \<Longrightarrow> \<exists>ts p. wk_task ?W y = Some (ts, p) \<and> \<not> task_open ts"
    by (rule last) (use rest1 tm w1 that in \<open>auto simp del: work_of_put\<close>)
  have "leaves (cancel_item uuid now i k d) s (\<lambda>_. Q) (\<lambda>_. True)"
  proof (cases ?x)
    case None
    with plain False tm show ?thesis by (simp add: cancel_item_def cancel_turn_def leaves_idle_member)
  next
    case (Some y)
    obtain ts where "wk_task w y = Some (ts, i, ?m)" using tasks(2) turnw op Some by fastforce
    with arg_cong [OF eq, of "\<lambda>v. wk_task v y"] obtain us where us: "wk_task ?W y = Some (us, i, ?m)"
      by (cases "wk_task ?W y") (auto simp: settled_def)
    then obtain task where task: "jmap_get (tm_tasks s) y = Some task" "tk_status task = us" "tk_team task = i" "tk_member task = ?m"
      by (auto simp: work_of_fields task_view_def)
    have y: "y \<noteq> []" using stored_task_id [of s y] task rest by (simp add: rest_inv_def)
    have idk: "tk_id task = y" by (rule rest_inv_ids(2) [OF rest task(1)])
    show ?thesis
    proof (cases "task_open us")
      case False
      with plain us Some \<open>\<not> (td_run d \<noteq> k \<or> \<not> turn_open ?st)\<close> tm task y show ?thesis
        by (auto simp: cancel_item_def cancel_turn_def leaves_idle_member)
    next
      case True
      have go: "leaves (each_dispatch (\<lambda>d. if td_task d = Some y \<and> turn_open (td_status d) then cancel_turn now d else act_return ())) (put_task task2 ?s) Q E =
          Q () (map_turns (stop_turns now y) (put_task task2 ?s)) \<and> rest_inv uuid (map_turns (stop_turns now y) (put_task task2 ?s)) \<and>
          work_of (map_turns (stop_turns now y) (put_task task2 ?s)) = set_task (Some y) Task_Cancelled i ?m (work_of ?s)"
        if t: "parse_task (task\<lparr>tk_status := Task_Cancelled, tk_finished := Some now\<rparr>) = Some task2" for task2 and Q :: "unit \<Rightarrow> team_store \<Rightarrow> bool" and E
      proof -
        have k2: "tk_id task2 = y" "tk_status task2 = Task_Cancelled" "tk_team task2 = i" "tk_member task2 = ?m"
          using parse_task_fields [OF t] task idk by (simp_all add: task_view_def)
        have r2: "rest_inv uuid (put_task task2 ?s)" by (rule rest_inv_put(2) [OF rest1]) (use task k2 in simp)
        then have ids: "ids_ok (put_task task2 ?s)" by (simp add: rest_inv_def)
        have w2: "work_of (put_task task2 ?s) = set_task (Some y) Task_Cancelled i ?m (work_of ?s)" using k2 by simp
        have "\<not> turn_open su" if "wk_turn (work_of (put_task task2 ?s)) b = Some (su, j, r, n, Some y)" for b su j r n
        proof (cases "b = l")
          case True
          with that [unfolded w2 w1] show ?thesis by auto
        next
          case False
          with that [unfolded w2 w1] have "wk_turn ?W b = Some (su, j, r, n, Some y)" by simp
          with sub tasks(3) turnw op Some False show ?thesis by metis
        qed
        from work_no_turns [OF this] have "work_of (map_turns (stop_turns now y) (put_task task2 ?s)) = work_of (put_task task2 ?s)" .
        with w2 leaves_stop_turns [OF ids] rest_map_turns [OF r2, of "stop_turns now y"] show ?thesis by simp
      qed
      have fin: "Q (put_team (with_status now ?m Member_Idle t) (team_save (push_event uuid now i Event_Cancelled y z)))"
        if "parse_task (task\<lparr>tk_status := Task_Cancelled, tk_finished := Some now\<rparr>) = Some task2"
          and "z = map_turns (stop_turns now y) (put_task task2 ?s) \<and> t = tm \<or>
            z = put_team (with_status now ?m Member_Idle tm) (map_turns (stop_turns now y) (put_task task2 ?s)) \<and> t = with_status now ?m Member_Idle tm" for task2 z t
      proof -
        let ?z = "map_turns (stop_turns now y) (put_task task2 ?s)"
        have z: "rest_inv uuid ?z" "work_of ?z = set_task (Some y) Task_Cancelled i ?m (set_turn l (Turn_Cancelled, i, k, ?m, ?x) ?W)"
          using go [OF that(1)] w1 by simp_all
        have idt: "tt_id tm = i" by (rule rest_inv_ids(1) [OF rest tm(1)])
        from that(2) show ?thesis
        proof (elim disjE conjE)
          assume a: "z = ?z" "t = tm"
          show ?thesis
            by (rule last) (use a z tm us True Some in \<open>auto simp del: work_of_put(2-4)\<close>)
        next
          assume a: "z = put_team (with_status now ?m Member_Idle tm) ?z" "t = with_status now ?m Member_Idle tm"
          have tz: "jmap_get (tm_teams ?z) i = Some tm" using tm by simp
          have f: "find_member t ?m \<noteq> None" unfolding a(2) find_member_def with_status_fields using tm(2)
            by (subst find_map_member) (simp_all add: find_member_def)
          show ?thesis
            by (rule last) (use a z tm us True Some idt f rest_with_status [OF z(1) tz] work_with_status [OF z(1) tz tm(2)] in \<open>auto simp del: work_of_put(2-4)\<close>)
        qed
      qed
      have "leaves (cancel_team_task uuid now i y) ?s (\<lambda>_ u. leaves (idle_member now i ?m False) u (\<lambda>_. Q) (\<lambda>_. True)) (\<lambda>_. True)"
        using True task tm go fin rest_inv_ids(1) [OF rest tm(1)] unfolding cancel_team_task_def
        by (auto simp: leaves_idle_member split: option.split)
      then show ?thesis using Some op False task True y \<open>\<not> (td_run d \<noteq> k \<or> \<not> turn_open ?st)\<close>
        by (simp add: cancel_item_def cancel_turn_def)
    qed
  qed
  then show ?thesis by (rule leaves_mono) (simp_all add: Q_def)
qed

section \<open>Controlling a run\<close>

lemma controlled_fields [simp]:
  "tr_id (controlled now c r) = tr_id r" "tr_team (controlled now c r) = tr_team r"
  "tr_status (controlled now c r) = (case c of Control_Resume \<Rightarrow> Run_Running | Control_Pause \<Rightarrow> Run_Paused | Control_Cancel \<Rightarrow> Run_Cancelled)"
  by (simp_all add: controlled_def Let_def)

lemma controlled_limits: "run_limits r \<Longrightarrow> run_limits (controlled now c r)"
  by (simp add: controlled_def run_limits_def Let_def)

definition fresh_turns :: "string \<Rightarrow> team_dispatch \<Rightarrow> team_dispatch" where
  "fresh_turns k d = (if td_run d = k \<and> td_status d = Turn_Queued then d\<lparr>td_depth := 0, td_parent := None\<rparr> else d)"

lemma leaves_fresh_turns:
  "ids_ok s \<Longrightarrow> leaves (each_dispatch (\<lambda>d. if td_run d = k \<and> td_status d = Turn_Queued
      then act_do (put_dispatch (d\<lparr>td_depth := 0, td_parent := None\<rparr>)) else act_return ())) s Q E = Q () (map_turns (fresh_turns k) s)"
  by (rule leaves_each_map) (simp_all add: fresh_turns_def act_do_def act_return_def)

lemma fresh_turns_inv:
  assumes "team_inv uuid s"
  shows "team_inv uuid (map_turns (fresh_turns k) s)" "work_of (map_turns (fresh_turns k) s) = work_of s"
proof -
  have v: "turn_view (fresh_turns k d) = turn_view d" "td_id (fresh_turns k d) = td_id d" for d by (simp_all add: fresh_turns_def turn_view_def)
  then show "team_inv uuid (map_turns (fresh_turns k) s)" by (intro map_turns_inv [OF assms]) simp_all
  show "work_of (map_turns (fresh_turns k) s) = work_of s" by (simp add: work_map_turns v(1)) (simp add: work_of_def)
qed

lemma lead_in_team: "lead_of t = Some l \<Longrightarrow> find_member t (tb_id l) \<noteq> None"
  unfolding lead_of_def find_Some_iff using find_member_own nth_mem by metis

lemma set_run_fields [simp]:
  "wk_status (set_run k v w) = wk_status w" "wk_team (set_run k v w) = wk_team w" "wk_task (set_run k v w) = wk_task w"
  "wk_turn (set_run k v w) = wk_turn w" "wk_run (set_run k v w) = (wk_run w)(k \<mapsto> v)"
  by (simp_all add: set_run_def)

lemma settled_set_run: "settled k i (set_run k v w) = settled k i w"
proof -
  have "worked_on k i (set_run k v w) = worked_on k i w" by (simp add: worked_on_def fun_eq_iff)
  then show ?thesis by (simp only: settled_def set_run_fields fun_upd_upd)
qed

lemma cancel_loop:
  assumes "team_inv uuid s" "jmap_get (tm_runs s) k = Some r" "tr_team r = i" "\<not> run_over (tr_status r)"
  shows "leaves (each_dispatch (cancel_item uuid now i k)) (put_team_run (controlled now Control_Cancel r) s)
    (\<lambda>_ t. team_inv uuid t \<and> wk_run (work_of t) = (wk_run (work_of s))(k \<mapsto> (True, i)) \<and>
      settled k i (work_of t) = settled k i (work_of s)) (\<lambda>_. True)"
proof -
  let ?s = "put_team_run (controlled now Control_Cancel r) s" and ?w = "work_of s"
  have idr: "tr_id r = k" by (rule inv_ids(3) [OF assms(1,2)])
  have run: "wk_run ?w k = Some (False, i)" using assms(2-4) by (simp add: work_of_fields run_facts_def)
  note ok = team_invD(1) [OF assms(1)]
  have w1: "work_of ?s = set_run k (True, i) ?w" using idr assms(3) by (simp add: run_facts_def)
  have rest: "rest_inv uuid ?s"
    by (rule rest_inv_put(3)) (use assms idr limits_of [OF assms(1,2)] in \<open>simp_all add: team_inv_rest controlled_limits\<close>)
  have start: "settling uuid k i ?w ?s"
    unfolding settling_def w1 settled_set_run using rest by simp
  have all: "leaves (act_each (\<lambda>l. act_get (\<lambda>u. case jmap_get (tm_dispatches u) l of None \<Rightarrow> act_return () | Some d \<Rightarrow> cancel_item uuid now i k d))
      (jkeys (tm_dispatches ?s))) ?s (\<lambda>_ u. settling uuid k i ?w u \<and> (\<forall>l \<in> set (jkeys (tm_dispatches ?s)). turn_closed u k l) \<and>
        (\<forall>l. turn_closed ?s k l \<longrightarrow> turn_closed u k l)) (\<lambda>_. True)"
  proof (rule leaves_each_all [where P = "settling uuid k i ?w"], rule start)
    fix l t assume t: "settling uuid k i ?w t"
    show "leaves (act_get (\<lambda>u. case jmap_get (tm_dispatches u) l of None \<Rightarrow> act_return () | Some d \<Rightarrow> cancel_item uuid now i k d)) t
        (\<lambda>_ u. settling uuid k i ?w u \<and> turn_closed u k l \<and> (\<forall>y. turn_closed t k y \<longrightarrow> turn_closed u k y)) (\<lambda>_. True)"
    proof (cases "jmap_get (tm_dispatches t) l")
      case None
      then have "turn_closed t k l" by (simp add: turn_closed_def work_of_fields)
      with None t show ?thesis by simp
    next
      case (Some d)
      with cancel_item_settling [OF t Some ok run] show ?thesis by simp
    qed
  qed
  have keep: "turn_closed u k l" if "settling uuid k i ?w u" "l \<notin> set (jkeys (tm_dispatches ?s))" for u l
  proof -
    have "wk_turn ?w l = None" using that(2) by (simp add: work_of_fields map_of_eq_None_iff)
    moreover have "wk_turn (settled k i (work_of u)) l = wk_turn (settled k i ?w) l" using that(1) by (simp add: settling_def)
    ultimately have "wk_turn (work_of u) l = None" by (cases "wk_turn (work_of u) l") (auto simp: settled_def)
    then show ?thesis by (simp add: turn_closed_def)
  qed
  have over: "wk_run (work_of u) = (wk_run ?w)(k \<mapsto> (True, i)) \<and> settled k i (work_of u) = settled k i ?w" if u: "settling uuid k i ?w u" for u
  proof -
    have "(wk_run (work_of u))(k \<mapsto> (True, i)) = (wk_run ?w)(k \<mapsto> (True, i))" "wk_run (work_of u) k = Some (True, i)"
      using u settled_fields unfolding settling_def by metis+
    with u show ?thesis unfolding settling_def by (metis fun_upd_triv)
  qed
  show ?thesis unfolding each_dispatch_def
    by (simp only: leaves_get, rule leaves_mono [OF all]) (use settled_inv [OF ok run] keep over in blast)+
qed

lemma control_run_in_inv:
  assumes "inj uuid" "team_inv uuid s"
  shows "leaves (control_run_in uuid now i k c) s (\<lambda>_. team_inv uuid) (\<lambda>_. True)"
proof (cases "\<exists>r. jmap_get (tm_runs s) k = Some r \<and> tr_team r = i \<and> \<not> run_over (tr_status r)")
  case False
  with assms show ?thesis by (auto simp: control_run_in_def split: option.split)
next
  case True
  then obtain r where r: "jmap_get (tm_runs s) k = Some r" "tr_team r = i" "\<not> run_over (tr_status r)" by blast
  have idr: "tr_id r = k" by (rule inv_ids(3) [OF assms(2) r(1)])
  have run: "wk_run (work_of s) k = Some (False, i)" using r by (simp add: work_of_fields run_facts_def)
  let ?s = "put_team_run (controlled now c r) s"
  have put: "s\<lparr>tm_runs := jmap_set k (controlled now c r) (tm_runs s)\<rparr> = ?s" by (simp add: put_team_run_def idr)
  show ?thesis
  proof (cases "c = Control_Cancel")
    case True
    show ?thesis using r put True unfolding control_run_in_def
      by simp (rule leaves_mono [OF cancel_loop [OF assms(2) r]], simp_all)
  next
    case False
    have inv: "team_inv uuid ?s"
      by (rule inv_put_run [OF assms(2), of _ r])
         (use r idr False limits_of [OF assms(2) r(1)] in \<open>auto simp: run_facts_def controlled_limits run_over_def split: run_control.split\<close>)
    have view: "work_of ?s = work_of s"
      using set_run_same [of "work_of s" k] run r idr False by (simp add: run_facts_def run_over_def split: run_control.split)
    have more': "leaves (enqueue uuid now (controlled now c r) (tb_id l) resume_text None None []) (map_turns (fresh_turns k) ?s)
        (\<lambda>_ u. team_inv uuid (team_save (push_event uuid now i Run_Updated k u))) (\<lambda>_. True)"
      if "jmap_get (tm_teams s) i = Some t" "lead_of t = Some l" for t l
    proof (rule leaves_mono [OF enqueue_inv [OF assms(1), of _ _ i]])
      show "team_inv uuid (map_turns (fresh_turns k) ?s)" by (rule fresh_turns_inv(1) [OF inv])
      show "open_run (controlled now c r) i (map_turns (fresh_turns k) ?s)"
        using fresh_turns_inv(2) [OF inv] view run r(2) idr by (simp add: open_run_def del: work_of_put)
      show "in_team i (tb_id l) (map_turns (fresh_turns k) ?s)" using that lead_in_team by (auto simp: in_team_def)
    qed (simp_all add: task_free_def)
    have ids: "ids_ok ?s" by (rule team_invD(2) [OF inv])
    show ?thesis using r put inv False more' fresh_turns_inv(1) [OF inv] ids unfolding control_run_in_def
      by (auto simp: leaves_fresh_turns split: option.split)
  qed
qed

lemma control_cancel:
  assumes "team_inv uuid s" "\<not> tm_batch s"
  shows "leaves (control_run uuid now i k Control_Cancel) s
    (\<lambda>q t. team_inv uuid t \<and> wk_run (work_of s) k = Some (False, i) \<and>
      wk_run (work_of t) = (wk_run (work_of s))(k \<mapsto> (True, i)) \<and> settled k i (work_of t) = settled k i (work_of s) \<and>
      tr_status q = Run_Cancelled) (\<lambda>_. True)"
proof -
  let ?u = "s\<lparr>tm_batch := True\<rparr>"
  have inv: "team_inv uuid ?u" using assms(1) by simp
  have "leaves (control_run_in uuid now i k Control_Cancel) ?u
    (\<lambda>q t. team_inv uuid t \<and> wk_run (work_of s) k = Some (False, i) \<and>
      wk_run (work_of t) = (wk_run (work_of s))(k \<mapsto> (True, i)) \<and> settled k i (work_of t) = settled k i (work_of s) \<and>
      tr_status q = Run_Cancelled) (\<lambda>_. True)"
  proof (cases "\<exists>r. jmap_get (tm_runs ?u) k = Some r \<and> tr_team r = i \<and> \<not> run_over (tr_status r)")
    case False
    then show ?thesis by (auto simp: control_run_in_def split: option.split)
  next
    case True
    then obtain r where r: "jmap_get (tm_runs ?u) k = Some r" "tr_team r = i" "\<not> run_over (tr_status r)" by blast
    have idr: "tr_id r = k" by (rule inv_ids(3) [OF inv r(1)])
    have put: "?u\<lparr>tm_runs := jmap_set k (controlled now Control_Cancel r) (tm_runs ?u)\<rparr> = put_team_run (controlled now Control_Cancel r) ?u"
      by (simp add: put_team_run_def idr)
    have "wk_run (work_of s) k = Some (False, i)" using r by (simp add: work_of_fields run_facts_def)
    then show ?thesis using r put unfolding control_run_in_def
      by simp (rule leaves_mono [OF cancel_loop [OF inv r]], simp_all)
  qed
  with assms(2) show ?thesis unfolding control_run_def
    by (intro leaves_transaction) (auto elim!: leaves_mono)
qed

lemma control_run_inv:
  assumes "inj uuid" "team_inv uuid s" "\<not> tm_batch s"
  shows "leaves (control_run uuid now i k c) s (\<lambda>_. team_inv uuid) (team_inv uuid)"
  unfolding control_run_def
  by (rule transaction_from [OF calm_control_run_in assms(2,3) control_run_in_inv [OF assms(1)]]) (use assms(2) in simp)

end
