(* ===== verification/Team_Restart.thy ===== *)
theory Team_Restart
  imports Team_Cancel
begin

text \<open>
  The restart of the service: the store is read back from its file, what was running is marked interrupted, and
  the result satisfies the invariant again.
\<close>

section \<open>The view after a restart\<close>

definition stale_turn :: "work \<Rightarrow> dispatch_status \<Rightarrow> string option \<Rightarrow> bool" where
  "stale_turn w st x \<longleftrightarrow> st = Turn_Queued \<and> (case x of None \<Rightarrow> False
     | Some y \<Rightarrow> (case wk_task w y of None \<Rightarrow> False | Some (ts, p) \<Rightarrow> ts = Task_Running \<or> \<not> task_open ts))"

definition restarted :: "work \<Rightarrow> work" where
  "restarted w = \<lparr>
     wk_status = (\<lambda>i m. map_option (\<lambda>st. if st = Member_Running then Member_Idle else st) (wk_status w i m)),
     wk_team = wk_team w,
     wk_task = (\<lambda>y. map_option (\<lambda>(ts, p). (if ts = Task_Running then Task_Failed else ts, p)) (wk_task w y)),
     wk_run = wk_run w,
     wk_turn = (\<lambda>k. map_option (\<lambda>(st, i, r, m, x). (if st = Turn_Running then Turn_Interrupted
       else if stale_turn w st x then Turn_Cancelled else st, i, r, m, x)) (wk_turn w k))\<rparr>"

lemma restarted_open:
  "turn_open st \<Longrightarrow> wk_turn (restarted w) k = Some (st, i, r, m, x) \<Longrightarrow> st = Turn_Queued \<and> wk_turn w k = Some (Turn_Queued, i, r, m, x)"
  by (auto simp: restarted_def turn_open_def split: if_splits)

lemma restarted_tasks:
  "wk_task (restarted w) y = Some (ts, i, m) \<longleftrightarrow> (\<exists>us. wk_task w y = Some (us, i, m) \<and> ts = (if us = Task_Running then Task_Failed else us))"
  by (auto simp: restarted_def)

lemma restarted_fields [simp]:
  "wk_team (restarted w) = wk_team w" "wk_run (restarted w) = wk_run w"
  "wk_status (restarted w) i m = None \<longleftrightarrow> wk_status w i m = None" "wk_status (restarted w) i m \<noteq> Some Member_Running"
  by (auto simp: restarted_def)

lemma work_restarted:
  assumes "work_ok w"
  shows "work_ok (restarted w)" (is "work_ok ?w")
proof (rule work_okI)
  note ok = work_okD [OF assms]
  note turns = turns_okD [OF ok(1)] and tasks = tasks_okD [OF ok(3)]
  have no: "wk_turn ?w k \<noteq> Some (Turn_Running, i, r, m, x)" for k i r m x using restarted_open [of Turn_Running w k i r m x] by auto
  show "turns_ok ?w"
  proof (rule turns_okI)
    fix k st i r m x assume k: "wk_turn ?w k = Some (st, i, r, m, x)" "turn_open st"
    from restarted_open [OF k(2,1)] have "wk_turn w k = Some (Turn_Queued, i, r, m, x)" by simp
    from turns(1,2) [OF this] show "wk_run ?w r = Some (False, i) \<and> wk_status ?w i m \<noteq> None" by simp
  qed (use no in auto)
  show "homes_ok ?w" unfolding homes_ok_def
  proof (intro allI impI)
    fix y ts i m assume "wk_task ?w y = Some (ts, i, m)" "task_open ts"
    then have "wk_task w y = Some (ts, i, m)" by (auto simp: restarted_tasks split: if_splits)
    from homes_okD [OF ok(5) this \<open>task_open ts\<close>] show "wk_status ?w i m \<noteq> None" by simp
  qed
  show "runs_ok ?w" using ok(2) unfolding runs_ok_def by simp
  show "tasks_ok ?w"
  proof (rule tasks_okI)
    fix y i m assume "wk_task ?w y = Some (Task_Running, i, m)"
    then show "\<exists>k r. wk_turn ?w k = Some (Turn_Running, i, r, m, Some y)" by (auto simp: restarted_tasks split: if_splits)
  next
    fix k st i r m y assume k: "wk_turn ?w k = Some (st, i, r, m, Some y)" "turn_open st"
    from restarted_open [OF k(2,1)] have q: "st = Turn_Queued" "wk_turn w k = Some (Turn_Queued, i, r, m, Some y)" by simp_all
    from tasks(2) [OF q(2)] q(1) show "\<exists>ts. wk_task ?w y = Some (ts, i, m) \<and> (st = Turn_Running \<longrightarrow> ts \<noteq> Task_Queued)"
      by (auto simp: restarted_tasks)
  next
    fix k l st su i j r q m n y
    assume k: "wk_turn ?w k = Some (st, i, r, m, Some y)" "turn_open st" and l: "wk_turn ?w l = Some (su, j, q, n, Some y)" "turn_open su"
    from restarted_open [OF k(2,1)] restarted_open [OF l(2,1)] show "k = l" using tasks(3) not_open(5) by metis
  qed
  show "crowd_ok ?w" unfolding crowd_ok_def running_of_def using no by simp
qed

section \<open>Reading the file\<close>

lemma leaves_each_prefix:
  assumes "P [] s" "\<And>xs x ys t. vs = xs @ x # ys \<Longrightarrow> P xs t \<Longrightarrow> leaves (f x) t (\<lambda>_. P (xs @ [x])) E"
  shows "leaves (act_each f vs) s (\<lambda>_. P vs) E"
proof -
  have "leaves (act_each f ys) t (\<lambda>_. P vs) E" if "vs = xs @ ys" "P xs t" for xs ys t
    using that
  proof (induction ys arbitrary: xs t)
    case (Cons y ys)
    have "leaves (f y) t (\<lambda>_. P (xs @ [y])) E" by (rule assms(2)) (use Cons.prems in auto)
    then have "leaves (f y) t (\<lambda>_ u. leaves (act_each f ys) u (\<lambda>_. P vs) E) E"
      by (rule leaves_mono) (use Cons in auto)
    then show ?case by simp
  qed simp
  from this [of "[]" vs s] assms(1) show ?thesis by simp
qed

definition loaded_turn :: "nat \<Rightarrow> team_dispatch \<Rightarrow> team_dispatch" where
  "loaded_turn now d = (if td_status d = Turn_Running
     then d\<lparr>td_status := Turn_Interrupted, td_error := Some ''runtime_restarted'', td_finished := Some now\<rparr> else d)"

lemma loaded_turn_fields [simp]: "td_id (loaded_turn now d) = td_id d" "td_task (loaded_turn now d) = td_task d"
  by (simp_all add: loaded_turn_def)

lemma load_dispatches:
  assumes "distinct (map td_id ds)" "keyed tr_id (tm_runs s)" "limits_ok s" "tm_dispatches s = []"
    and "\<And>d. d \<in> set ds \<Longrightarrow> td_status d = Turn_Running \<Longrightarrow> \<exists>i. map_option run_facts (jmap_get (tm_runs s) (td_run d)) = Some (False, i)"
  shows "leaves (act_each (load_dispatch now) ds) s
    (\<lambda>_ t. tm_dispatches t = map (\<lambda>d. (td_id d, loaded_turn now d)) ds \<and> keyed tr_id (tm_runs t) \<and> limits_ok t \<and>
       (\<forall>k. map_option run_facts (jmap_get (tm_runs t) k) = map_option run_facts (jmap_get (tm_runs s) k)) \<and>
       tm_teams t = tm_teams s \<and> tm_drawn t = tm_drawn s \<and> tm_batch t = tm_batch s) (\<lambda>_. True)"
proof (rule leaves_each_prefix [where P = "\<lambda>xs t. tm_dispatches t = map (\<lambda>d. (td_id d, loaded_turn now d)) xs \<and> keyed tr_id (tm_runs t) \<and> limits_ok t \<and>
       (\<forall>k. map_option run_facts (jmap_get (tm_runs t) k) = map_option run_facts (jmap_get (tm_runs s) k)) \<and>
       tm_teams t = tm_teams s \<and> tm_drawn t = tm_drawn s \<and> tm_batch t = tm_batch s"])
  fix xs d ys t
  assume ds: "ds = xs @ d # ys" and P: "tm_dispatches t = map (\<lambda>d. (td_id d, loaded_turn now d)) xs \<and> keyed tr_id (tm_runs t) \<and> limits_ok t \<and>
       (\<forall>k. map_option run_facts (jmap_get (tm_runs t) k) = map_option run_facts (jmap_get (tm_runs s) k)) \<and>
       tm_teams t = tm_teams s \<and> tm_drawn t = tm_drawn s \<and> tm_batch t = tm_batch s"
  have "td_id d \<notin> set (jkeys (tm_dispatches t))" using P assms(1) ds by (auto simp: image_iff)
  then have put: "jmap_set (td_id d) e (tm_dispatches t) = map (\<lambda>d. (td_id d, loaded_turn now d)) xs @ [(td_id d, e)]" for e
    using P by (simp add: jmap_set_fresh)
  show "leaves (load_dispatch now d) t (\<lambda>_ u. tm_dispatches u = map (\<lambda>d. (td_id d, loaded_turn now d)) (xs @ [d]) \<and> keyed tr_id (tm_runs u) \<and> limits_ok u \<and>
       (\<forall>k. map_option run_facts (jmap_get (tm_runs u) k) = map_option run_facts (jmap_get (tm_runs s) k)) \<and>
       tm_teams u = tm_teams s \<and> tm_drawn u = tm_drawn s \<and> tm_batch u = tm_batch s) (\<lambda>_. True)"
  proof (cases "td_status d = Turn_Running")
    case False
    with P put show ?thesis
      by (simp add: load_dispatch_def put_dispatch_def loaded_turn_def limits_ok_def)
  next
    case True
    from assms(5) [OF _ True] ds obtain i where "map_option run_facts (jmap_get (tm_runs s) (td_run d)) = Some (False, i)" by auto
    with P have "map_option run_facts (jmap_get (tm_runs t) (td_run d)) = Some (False, i)" by simp
    then obtain r where r: "jmap_get (tm_runs t) (td_run d) = Some r" "run_facts r = (False, i)" by auto
    have idr: "tr_id r = td_run d" using P r(1) by (auto intro: keyed_get)
    have lim: "run_limits r" using P r(1) by (auto simp: limits_ok_def)
    let ?r = "r\<lparr>tr_status := Run_Interrupted, tr_reason := Some ''runtime_restarted'', tr_updated := now\<rparr>"
    have v: "run_facts ?r = run_facts r" "run_limits ?r" using r(2) lim by (simp_all add: run_facts_def run_limits_def)
    have same: "map_option run_facts (jmap_get (tm_runs s) (td_run d)) = Some (False, i)" using P r by (metis option.simps(9))
    show ?thesis using True P put r v idr same
      by (auto simp: load_dispatch_def put_dispatch_def put_team_run_def loaded_turn_def limits_ok_def jmap_simps keyed_set)
  qed
qed (use assms in simp)

lemma those_map_get:
  assumes "those (map f vs) = Some ws" "\<And>v w. f v = Some w \<Longrightarrow> key w = key v"
  shows "map_of (map (\<lambda>w. (key w, g w)) ws) i =
    (case map_of (map (\<lambda>v. (key v, v)) vs) i of None \<Rightarrow> None | Some v \<Rightarrow> map_option g (f v))"
  using assms(1)
proof (induction vs arbitrary: ws)
  case (Cons v vs)
  then obtain w us where w: "f v = Some w" "those (map f vs) = Some us" "ws = w # us" by (auto split: option.splits)
  with Cons.IH [OF w(2)] assms(2) [OF w(1)] show ?case by simp
qed simp

lemma those_map_all: "those (map f vs) = Some ws \<Longrightarrow> v \<in> set vs \<Longrightarrow> f v \<noteq> None"
  by (induction vs arbitrary: ws) (auto split: option.splits)

lemma keyed_list: "keyed f m \<Longrightarrow> map (\<lambda>v. (f v, v)) (map snd m) = m"
  by (induction m) (auto simp: keyed_def)

lemma keyed_sorted:
  assumes "keyed f m"
  shows "map_of (map (\<lambda>v. (f v, v)) (sort_key k (map snd m))) = map_of m" "distinct (map f (sort_key k (map snd m)))"
proof -
  have "map fst (map (\<lambda>v. (f v, v)) (map snd m)) = jkeys m" unfolding keyed_list [OF assms] ..
  then have "map f (map snd m) = jkeys m" by (simp add: comp_def)
  then have "distinct (map f (map snd m))" using keyed_distinct [OF assms] by (simp only:)
  then show d: "distinct (map f (sort_key k (map snd m)))"
    by (simp only: distinct_map [of f "sort_key k (map snd m)"] distinct_map [of f "map snd m"] distinct_sort set_sort)
  have "set (map (\<lambda>v. (f v, v)) (sort_key k (map snd m))) = set (map (\<lambda>v. (f v, v)) (map snd m))"
    by (simp only: set_map set_sort)
  also have "\<dots> = set m" unfolding keyed_list [OF assms] ..
  finally show "map_of (map (\<lambda>v. (f v, v)) (sort_key k (map snd m))) = map_of m"
    using map_of_inject_set [of "map (\<lambda>v. (f v, v)) (sort_key k (map snd m))" m] d keyed_distinct [OF assms] by (simp add: comp_def)
qed

definition idled :: "team_store \<Rightarrow> team_store" where
  "idled s = s\<lparr>tm_teams := map (map_prod id idle_team) (tm_teams s)\<rparr>"

lemma idled_fields [simp]:
  "tm_runs (idled s) = tm_runs s" "tm_tasks (idled s) = tm_tasks s" "tm_dispatches (idled s) = tm_dispatches s"
  "tm_batch (idled s) = tm_batch s" "tm_drawn (idled s) = tm_drawn s"
  "jmap_get (tm_teams (idled s)) i = map_option idle_team (jmap_get (tm_teams s) i)" "jkeys (tm_teams (idled s)) = jkeys (tm_teams s)"
  by (simp_all add: idled_def map_of_map_values)

lemma idle_team_fields [simp]:
  "tt_id (idle_team t) = tt_id t" "map tb_id (tt_members (idle_team t)) = map tb_id (tt_members t)"
  "team_shape (idle_team t) = team_shape t"
  by (auto simp: idle_team_def team_shape_def comp_def if_distrib cong: if_cong)

lemma idle_team_status:
  "member_status_of (idle_team t) k = map_option (\<lambda>st. if st = Member_Running then Member_Idle else st) (member_status_of t k)"
proof -
  have "map_option tb_status (find (\<lambda>m. tb_id m = k) (map (\<lambda>m. if tb_status m = Member_Running then m\<lparr>tb_status := Member_Idle\<rparr> else m) ms)) =
      map_option (\<lambda>st. if st = Member_Running then Member_Idle else st) (map_option tb_status (find (\<lambda>m. tb_id m = k) ms))" for ms :: "team_member list"
    by (induction ms) auto
  then show ?thesis by (simp add: member_status_of_def find_member_def idle_team_def)
qed

lemma idle_team_id: "(\<And>m. m \<in> set (tt_members t) \<Longrightarrow> tb_status m \<noteq> Member_Running) \<Longrightarrow> idle_team t = t"
  by (simp add: idle_team_def map_idI)

definition drop_turn :: "nat \<Rightarrow> (string \<times> team_task) list \<Rightarrow> team_dispatch \<Rightarrow> team_dispatch" where
  "drop_turn now ks d = (if td_status d = Turn_Queued \<and>
        (case td_task d of None \<Rightarrow> False
         | Some k \<Rightarrow> (case jmap_get ks k of None \<Rightarrow> False | Some t \<Rightarrow> \<not> task_open (tk_status t)))
     then d\<lparr>td_status := Turn_Cancelled, td_finished := Some now\<rparr> else d)"

lemma drop_finished_loop:
  assumes "keyed td_id (tm_dispatches s)"
  shows "leaves (each_dispatch (drop_finished now)) s Q E = Q () (map_turns (drop_turn now (tm_tasks s)) s)"
proof -
  have "each_dispatch (drop_finished now) s = (Inr (), map_turns (drop_turn now (tm_tasks s)) s)"
  proof (rule each_dispatch_map [OF assms])
    show "td_id (drop_turn now (tm_tasks s) d) = td_id d" for d by (simp add: drop_turn_def)
    fix d ds
    let ?u = "s\<lparr>tm_dispatches := ds\<rparr>"
    have t: "tm_tasks ?u = tm_tasks s" by simp
    show "drop_finished now d ?u = (Inr (), put_dispatch (drop_turn now (tm_tasks s) d) ?u) \<or>
        drop_finished now d ?u = (Inr (), ?u) \<and> drop_turn now (tm_tasks s) d = d"
      unfolding drop_finished_def act_get_def drop_turn_def t by (simp add: cancel_turn_def act_do_def act_return_def)
  qed
  then show ?thesis by (simp add: leaves_def)
qed

lemma load_task_fields [simp]:
  "tk_id (load_task now t) = tk_id t" "tk_team (load_task now t) = tk_team t" "tk_member (load_task now t) = tk_member t"
  "tk_status (load_task now t) = (if tk_status t = Task_Running then Task_Failed else tk_status t)"
  by (simp_all add: load_task_def)

text \<open>The teams, runs, turns and tasks as they are after the file has been read.\<close>

lemma loaded_view:
  assumes "team_inv uuid s0" "parse_document (team_document_of s0) = Some p" "tm_drawn s0 \<le> tm_drawn s"
    and teams: "tm_teams s = fold (\<lambda>t. jmap_set (tt_id t) t) (dc_teams p) []"
    and tasks: "tm_tasks s = fold (\<lambda>t. jmap_set (tk_id t) (load_task now t)) (dc_tasks p) []"
    and turns: "tm_dispatches s = map (map_prod id (drop_turn now (tm_tasks s))) (map (\<lambda>d. (td_id d, loaded_turn now d)) (dc_dispatches p))"
    and runs: "keyed tr_id (tm_runs s)" "limits_ok s" "\<And>k. map_option run_facts (jmap_get (tm_runs s) k) = map_option run_facts (jmap_get (tm_runs s0) k)"
  shows "work_of (idled s) = restarted (work_of s0)" "team_inv uuid (idled s)"
    "list_all (\<lambda>d. td_status d \<noteq> Turn_Running) (dc_dispatches p) \<Longrightarrow> idled s = s"
proof -
  have ids: "keyed tt_id (tm_teams s0)" "keyed tk_id (tm_tasks s0)" "keyed td_id (tm_dispatches s0)" "jmap_get (tm_tasks s0) [] = None"
    using team_invD(2) [OF assms(1)] by (simp_all add: ids_ok_def)
  from assms(2) obtain ts ks ms where p: "those (map parse_team (team_list s0)) = Some ts" "those (map parse_task (map snd (tm_tasks s0))) = Some ks"
      "dc_teams p = ts" "dc_tasks p = ks" "dc_dispatches p = map snd (tm_dispatches s0)"
    by (auto simp: parse_document_def team_document_of_def split: option.splits if_splits)
  have tt: "map tt_id ts = map tt_id (team_list s0)" by (rule those_map_keeps [OF p(1)]) (rule parse_team_fields(1))
  have tk: "map tk_id ks = map tk_id (map snd (tm_tasks s0))" by (rule those_map_keeps [OF p(2)]) (simp add: parse_task_fields)
  have dk: "distinct (map tk_id (map snd (tm_tasks s0)))" using ids(2) keyed_list [OF ids(2)] unfolding keyed_def by (metis (no_types, lifting) comp_apply fst_conv list.map_comp map_eq_conv)
  have dt: "distinct (map tt_id ts)" unfolding tt team_list_def by (rule keyed_sorted(2) [OF ids(1)])
  have teams': "tm_teams s = map (\<lambda>t. (tt_id t, t)) ts"
    unfolding teams p(3) by (subst fold_put_keyed) (use dt in simp_all)
  have tasks': "tm_tasks s = map (\<lambda>t. (tk_id t, load_task now t)) ks"
    unfolding tasks p(4) by (subst fold_put_keyed) (use dk tk in simp_all)
  have get_team: "jmap_get (tm_teams s) i = (case jmap_get (tm_teams s0) i of None \<Rightarrow> None | Some t \<Rightarrow> parse_team t)" for i
    unfolding teams' using those_map_get [OF p(1), of tt_id "\<lambda>t. t" i] parse_team_fields(1) keyed_sorted(1) [OF ids(1), of tt_created]
    by (simp add: team_list_def option.map_ident split: option.split)
  have parsed: "parse_team t \<noteq> None" if "jmap_get (tm_teams s0) i = Some t" for i t
    by (rule those_map_all [OF p(1)]) (use that in \<open>force simp: team_list_def dest: map_of_SomeD\<close>)
  have get_task: "jmap_get (tm_tasks s) y = (case jmap_get (tm_tasks s0) y of None \<Rightarrow> None | Some t \<Rightarrow> map_option (load_task now) (parse_task t))" for y
    unfolding tasks' using those_map_get [OF p(2), of tk_id "load_task now" y] parse_task_fields keyed_list [OF ids(2)] by simp
  have parsed_task: "parse_task t \<noteq> None" if "jmap_get (tm_tasks s0) y = Some t" for y t
    by (rule those_map_all [OF p(2)]) (use that in \<open>force dest: map_of_SomeD\<close>)
  have turns': "tm_dispatches s = map (map_prod id (\<lambda>d. drop_turn now (tm_tasks s) (loaded_turn now d))) (tm_dispatches s0)"
    unfolding turns p(5) using keyed_values [OF ids(3), of "\<lambda>d. drop_turn now (tm_tasks s) (loaded_turn now d)"] by (simp add: comp_def)
  have status: "wk_status (work_of (idled s)) i k = wk_status (restarted (work_of s0)) i k" for i k
  proof (cases "jmap_get (tm_teams s0) i")
    case None
    then show ?thesis by (simp add: work_of_fields get_team restarted_def)
  next
    case (Some t)
    with parsed obtain u where u: "parse_team t = Some u" by blast
    with Some parsed_team(2) [OF u] show ?thesis by (simp add: work_of_fields get_team restarted_def idle_team_status)
  qed
  have team: "wk_team (work_of (idled s)) i = wk_team (restarted (work_of s0)) i" for i
    using parsed [of i] by (cases "jmap_get (tm_teams s0) i") (auto simp: work_of_fields get_team)
  have task: "wk_task (work_of (idled s)) y = wk_task (restarted (work_of s0)) y" for y
  proof (cases "jmap_get (tm_tasks s0) y")
    case None
    then show ?thesis by (simp add: work_of_fields get_task restarted_def)
  next
    case (Some t)
    with parsed_task obtain u where u: "parse_task t = Some u" by blast
    with Some parse_task_fields [OF u] show ?thesis by (simp add: work_of_fields get_task restarted_def task_view_def)
  qed
  have run: "wk_run (work_of (idled s)) k = wk_run (restarted (work_of s0)) k" for k
    using runs(3) [of k] by (simp add: work_of_fields)
  have turn: "wk_turn (work_of (idled s)) k = wk_turn (restarted (work_of s0)) k" for k
  proof (cases "jmap_get (tm_dispatches s0) k")
    case None
    then show ?thesis by (simp add: work_of_fields turns' map_of_map_values restarted_def)
  next
    case (Some d)
    have stale: "(case td_task d of None \<Rightarrow> False | Some k \<Rightarrow> (case jmap_get (tm_tasks s) k of None \<Rightarrow> False | Some t \<Rightarrow> \<not> task_open (tk_status t))) \<longleftrightarrow>
        (case td_task d of None \<Rightarrow> False | Some y \<Rightarrow> (case wk_task (work_of s0) y of None \<Rightarrow> False | Some (ts, p) \<Rightarrow> ts = Task_Running \<or> \<not> task_open ts))"
    proof (cases "td_task d")
      case (Some y)
      show ?thesis
      proof (cases "jmap_get (tm_tasks s0) y")
        case None
        with Some show ?thesis by (simp add: get_task work_of_fields)
      next
        case (Some t)
        with parsed_task obtain u where u: "parse_task t = Some u" by blast
        have "tk_status u = tk_status t" using parse_task_fields [OF u] by (simp add: task_view_def)
        with Some u \<open>td_task d = Some y\<close> show ?thesis by (auto simp: get_task work_of_fields task_view_def)
      qed
    qed simp
    with Some show ?thesis
      by (auto simp: work_of_fields turns' map_of_map_values restarted_def turn_view_def stale_turn_def drop_turn_def loaded_turn_def)
  qed
  show view: "work_of (idled s) = restarted (work_of s0)"
    using status team task run turn by (intro work.equality) (auto simp: fun_eq_iff)
  have idk: "td_id (drop_turn now (tm_tasks s) d) = td_id d" for d by (simp add: drop_turn_def)
  have ids': "ids_ok (idled s)"
  proof -
    have "keyed tt_id (tm_teams (idled s))" unfolding idled_def teams' using dt by (auto simp: keyed_def comp_def)
    moreover have "keyed tk_id (tm_tasks s)" unfolding tasks' using dk tk by (auto simp: keyed_def comp_def)
    moreover have "keyed td_id (tm_dispatches s)" using ids(3) idk unfolding turns' by (auto simp: keyed_def)
    ultimately show ?thesis using runs(1) ids(4) by (simp add: ids_ok_def get_task)
  qed
  have members: "tb_id ` set (tt_members (idle_team u)) = tb_id ` set (tt_members t)" if "parse_team t = Some u" for t u
    using parsed_team(4) [OF that] idle_team_fields(2) [of u] by (metis list.set_map)
  have "unused uuid (idled s)" unfolding unused_def
  proof (intro allI impI)
    fix n assume "tm_drawn (idled s) \<le> n"
    with assms(3) have n: "tm_drawn s0 \<le> n" by simp
    have run_none: "jmap_get (tm_runs s) (run_key (uuid n)) = None"
      using runs(3) [of "run_key (uuid n)"] team_invD(3) [OF assms(1)] n unfolding unused_def by (cases "jmap_get (tm_runs s) (run_key (uuid n))") auto
    have mem: "member_key (uuid n) \<notin> tb_id ` set (tt_members t)" if t: "jmap_get (tm_teams (idled s)) i = Some t" for i t
    proof -
      from t obtain v u where v: "jmap_get (tm_teams s0) i = Some v" "parse_team v = Some u" "t = idle_team u"
        by (auto simp: get_team split: option.splits)
      with team_invD(3) [OF assms(1)] n members [OF v(2)] show ?thesis unfolding unused_def by blast
    qed
    show "jmap_get (tm_teams (idled s)) (team_key (uuid n)) = None \<and> jmap_get (tm_tasks (idled s)) (team_task_key (uuid n)) = None \<and>
       jmap_get (tm_runs (idled s)) (run_key (uuid n)) = None \<and> jmap_get (tm_dispatches (idled s)) (dispatch_key (uuid n)) = None \<and>
       (\<forall>i t. jmap_get (tm_teams (idled s)) i = Some t \<longrightarrow> member_key (uuid n) \<notin> tb_id ` set (tt_members t))"
      using team_invD(3) [OF assms(1)] n run_none mem unfolding unused_def by (simp add: get_team get_task turns' map_of_map_values)
  qed
  moreover have "shapes_ok (idled s)"
    using team_invD(4) [OF assms(1)] parsed_team(3) by (auto simp: shapes_ok_def get_team split: option.splits)
  moreover have "limits_ok (idled s)" using runs(2) by (simp add: limits_ok_def)
  moreover have "work_ok (work_of (idled s))" unfolding view by (rule work_restarted) (rule team_invD(1) [OF assms(1)])
  ultimately show "team_inv uuid (idled s)" using ids' by (simp add: team_inv_def)
  show "idled s = s" if none: "list_all (\<lambda>d. td_status d \<noteq> Turn_Running) (dc_dispatches p)"
  proof -
    have "idle_team u = u" if u: "u \<in> set ts" for u
    proof (rule idle_team_id)
      fix m assume m: "m \<in> set (tt_members u)"
      have "jmap_get (tm_teams s) (tt_id u) = Some u" unfolding teams' using u dt by (simp add: map_of_eq_Some_iff comp_def image_iff)
      then obtain v where v: "jmap_get (tm_teams s0) (tt_id u) = Some v" "parse_team v = Some u" by (auto simp: get_team split: option.splits)
      show "tb_status m \<noteq> Member_Running"
      proof
        assume a: "tb_status m = Member_Running"
        have "distinct (map tb_id (tt_members u))" using parsed_team(3) [OF v(2)] shape_of [OF assms(1) v(1)] by (simp add: team_shape_def)
        from find_member_distinct [OF this m] a have "member_status_of u (tb_id m) = Some Member_Running" by (simp add: member_status_of_def)
        with parsed_team(2) [OF v(2)] v(1) have "wk_status (work_of s0) (tt_id u) (tb_id m) = Some Member_Running" by (simp add: work_of_fields)
        from turns_okD(5) [OF work_okD(1) [OF team_invD(1) [OF assms(1)]] this] obtain k d where "jmap_get (tm_dispatches s0) k = Some d" "td_status d = Turn_Running"
          by (auto simp: work_of_fields turn_view_def)
        with none p(5) show False by (force simp: list_all_iff dest: map_of_SomeD)
      qed
    qed
    then have "map (map_prod id idle_team) (tm_teams s) = tm_teams s" unfolding teams' by (simp add: map_idI)
    then show ?thesis by (simp add: idled_def)
  qed
qed

subsection \<open>Tasks without a turn\<close>

text \<open>Starting a run and queuing a turn do not look at the members.\<close>

lemma ensure_run_idled: "ensure_run uuid now i input (idled s) = apsnd idled (ensure_run uuid now i input s)"
  by (simp add: ensure_run_def team_runs_def required_team_def act_bind_def act_seq_def act_get_def act_need_def act_return_def
      act_fail_def act_do_def new_id_def put_team_run_def push_event_def idled_def Let_def map_of_map_values split: option.split)

lemma enqueue_idled: "enqueue uuid now r k input None x mids (idled s) = apsnd idled (enqueue uuid now r k input None x mids s)"
  by (simp add: enqueue_def register_edge_def act_bind_def act_seq_def act_get_def act_check_def act_return_def
      act_fail_def act_do_def new_id_def put_dispatch_def push_event_def idled_def Let_def max_fanout_def max_depth_def)

lemma leaves_idled: "m (idled s) = apsnd idled (m s) \<Longrightarrow> leaves m (idled s) Q E = leaves m s (\<lambda>a t. Q a (idled t)) (\<lambda>t. E (idled t))"
  by (cases "m s") (auto simp: leaves_def split: sum.split)

lemmas leaves_ensure_idled = leaves_idled [where m = "ensure_run uuid now i input" for uuid now i input, OF ensure_run_idled]
lemmas leaves_enqueue_idled = leaves_idled [where m = "enqueue uuid now r k input None x mids" for uuid now r k input x mids, OF enqueue_idled]

lemma leaves_any:
  assumes "P s" "\<And>x t. x \<in> set xs \<Longrightarrow> P t \<Longrightarrow> leaves (f x) t (\<lambda>_. P) E"
  shows "leaves (act_any f xs) s (\<lambda>_. P) E"
  using assms
proof (induction xs arbitrary: s)
  case (Cons x xs)
  have "leaves (f x) s (\<lambda>_. P) E" using Cons.prems by simp
  then have "leaves (f x) s (\<lambda>_ t. leaves (act_any f xs) t (\<lambda>_. P) E) E"
    by (rule leaves_mono) (use Cons in auto)
  then show ?case by simp
qed simp

definition requeueing :: "(nat \<Rightarrow> string) \<Rightarrow> team_store \<Rightarrow> team_store \<Rightarrow> bool" where
  "requeueing uuid s t \<longleftrightarrow> team_inv uuid (idled t) \<and> tm_teams t = tm_teams s \<and> tm_tasks t = tm_tasks s \<and> tm_batch t = tm_batch s"

lemma ensure_run_frame:
  "leaves (ensure_run uuid now i input) s (\<lambda>_ t. tm_teams t = tm_teams s \<and> tm_tasks t = tm_tasks s \<and> tm_batch t = tm_batch s) (\<lambda>_. True)"
  by (auto simp: ensure_run_def Let_def split: option.split)

lemma enqueue_frame:
  "leaves (enqueue uuid now r k input None x mids) s (\<lambda>_ t. tm_teams t = tm_teams s \<and> tm_tasks t = tm_tasks s \<and> tm_batch t = tm_batch s) (\<lambda>_. True)"
  by (simp add: enqueue_def register_edge_def Let_def max_fanout_def max_depth_def)

lemma requeue_task_step:
  assumes "inj uuid" "requeueing uuid s0 s" "t \<in> set (map snd (tm_tasks s0))"
  shows "leaves (requeue_task uuid now t) s (\<lambda>_. requeueing uuid s0) (\<lambda>_. True)"
proof (cases "tk_status t = Task_Queued \<and> \<not> list_ex (\<lambda>d. td_task d = Some (tk_id t)) (team_dispatches s)")
  case False
  with assms(2) show ?thesis by (auto simp: requeue_task_def)
next
  case True
  have inv: "team_inv uuid (idled s)" using assms(2) by (simp add: requeueing_def)
  let ?i = "tk_team t" and ?m = "tk_member t"
  have t: "jmap_get (tm_tasks s) (tk_id t) = Some t"
    using keyed_get_value [OF _ assms(3), of tk_id] assms(2) team_invD(2) [OF inv] by (simp add: ids_ok_def requeueing_def)
  have home: "wk_status (work_of (idled s)) ?i ?m \<noteq> None"
    using homes_okD [OF work_okD(5) [OF team_invD(1) [OF inv]], of "tk_id t" "tk_status t" ?i ?m] t True by (simp add: work_of_fields task_view_def)
  have none: "wk_turn (work_of u) l \<noteq> Some (st, j, r, n, Some (tk_id t))" if same: "tm_dispatches u = tm_dispatches s" for u l st j r n
  proof
    assume "wk_turn (work_of u) l = Some (st, j, r, n, Some (tk_id t))"
    then obtain d where "jmap_get (tm_dispatches s) l = Some d" "td_task d = Some (tk_id t)"
      using same by (auto simp: work_of_fields turn_view_def)
    with True show False by (force simp: list_ex_iff team_dispatches_def dest: map_of_SomeD)
  qed
  have add: "leaves (enqueue uuid now r ?m (tk_input t) None (Some (tk_id t)) []) u (\<lambda>_. requeueing uuid s0) (\<lambda>_. True)"
    if u: "team_inv uuid (idled u)" "same_base (idled s) (idled u)" "open_run r ?i (idled u)" "tm_dispatches u = tm_dispatches s" "tm_tasks u = tm_tasks s"
      "tm_teams u = tm_teams s0" "tm_tasks u = tm_tasks s0" "tm_batch u = tm_batch s0" for r u
  proof -
    have home': "in_team ?i ?m (idled u)"
      by (rule in_team_base [OF u(2)])
         (use home in \<open>auto simp: in_team_def work_of_fields member_status_of_def split: option.splits\<close>)
    have free: "task_free (Some (tk_id t)) ?i ?m (work_of (idled u))"
      using none [of "idled u"] u(4,5) t by (auto simp: task_free_def work_of_fields task_view_def)
    have "leaves (enqueue uuid now r ?m (tk_input t) None (Some (tk_id t)) []) (idled u) (\<lambda>_. team_inv uuid) (\<lambda>_. True)"
      by (rule leaves_mono [OF enqueue_inv [OF assms(1) u(1,3) home' free]]) simp_all
    then have "leaves (enqueue uuid now r ?m (tk_input t) None (Some (tk_id t)) []) u (\<lambda>_ v. team_inv uuid (idled v)) (\<lambda>_. True)"
      unfolding leaves_enqueue_idled .
    from leaves_conj [OF this enqueue_frame [of uuid now r ?m "tk_input t" "Some (tk_id t)" "[]" u]]
    show ?thesis by (rule leaves_mono) (use u in \<open>simp_all add: requeueing_def\<close>)
  qed
  have "leaves (ensure_run uuid now ?i (tk_input t)) s (\<lambda>r v. team_inv uuid (idled v) \<and> same_base (idled s) (idled v) \<and> open_run r ?i (idled v) \<and>
      tm_dispatches v = tm_dispatches s \<and> tm_tasks v = tm_tasks s) (\<lambda>_. True)"
    using ensure_run_inv [OF assms(1) inv, of now ?i "tk_input t"] unfolding leaves_ensure_idled
    by (rule leaves_mono) simp_all
  from leaves_conj [OF this ensure_run_frame [of uuid now ?i "tk_input t" s]]
  have "leaves (ensure_run uuid now ?i (tk_input t)) s
      (\<lambda>r u. leaves (enqueue uuid now r ?m (tk_input t) None (Some (tk_id t)) []) u (\<lambda>_. requeueing uuid s0) (\<lambda>_. True)) (\<lambda>_. True)"
    by (rule leaves_mono) (use assms(2) in \<open>simp_all add: add requeueing_def [of uuid s0 s]\<close>)
  with True show ?thesis by (simp add: requeue_task_def)
qed

section \<open>The constructor\<close>

lemma load_document_inv:
  assumes "inj uuid" "team_inv uuid s0" "parse_document (team_document_of s0) = Some p" "tm_drawn s0 \<le> drawn"
  shows "leaves (load_document uuid now p) (empty_team_store drawn disk) (\<lambda>_ t. team_inv uuid t \<and> \<not> tm_batch t) (\<lambda>_. True)"
proof -
  have ids: "keyed tr_id (tm_runs s0)" "keyed td_id (tm_dispatches s0)" using team_invD(2) [OF assms(2)] by (simp_all add: ids_ok_def)
  have p: "dc_runs p = map snd (tm_runs s0)" "dc_dispatches p = map snd (tm_dispatches s0)"
    using assms(3) by (auto simp: parse_document_def team_document_of_def split: option.splits if_splits)
  have runs: "fold (\<lambda>r. jmap_set (tr_id r) r) (dc_runs p) [] = tm_runs s0"
    unfolding p(1) using keyed_fold [OF ids(1), of id] by (simp add: prod.map_id0)
  let ?s1 = "(empty_team_store drawn disk)\<lparr>tm_teams := fold (\<lambda>t. jmap_set (tt_id t) t) (dc_teams p) [],
       tm_runs := fold (\<lambda>r. jmap_set (tr_id r) r) (dc_runs p) [],
       tm_operations := fold (\<lambda>q. jmap_set (fst q) (snd q)) (dc_operations p) []\<rparr>"
  have dd: "distinct (map td_id (dc_dispatches p))"
    unfolding p(2) using ids(2) keyed_list [OF ids(2)] unfolding keyed_def by (metis (no_types, lifting) comp_apply fst_conv list.map_comp map_eq_conv)
  have running: "\<exists>i. map_option run_facts (jmap_get (tm_runs ?s1) (td_run d)) = Some (False, i)"
    if d: "d \<in> set (dc_dispatches p)" "td_status d = Turn_Running" for d
  proof -
    have "jmap_get (tm_dispatches s0) (td_id d) = Some d" by (rule dispatch_values [OF assms(2)]) (use d p in \<open>simp add: team_dispatches_def\<close>)
    then have "wk_turn (work_of s0) (td_id d) = Some (Turn_Running, td_team d, td_run d, td_member d, td_task d)"
      using d by (simp add: work_of_fields turn_view_def)
    from turns_okD(1) [OF work_okD(1) [OF team_invD(1) [OF assms(2)]] this] show ?thesis using runs by (auto simp: work_of_fields)
  qed
  have first: "leaves (act_each (load_dispatch now) (dc_dispatches p)) ?s1
    (\<lambda>_ t. tm_dispatches t = map (\<lambda>d. (td_id d, loaded_turn now d)) (dc_dispatches p) \<and> keyed tr_id (tm_runs t) \<and> limits_ok t \<and>
       (\<forall>k. map_option run_facts (jmap_get (tm_runs t) k) = map_option run_facts (jmap_get (tm_runs s0) k)) \<and>
       tm_teams t = tm_teams ?s1 \<and> tm_drawn t = tm_drawn ?s1 \<and> tm_batch t = tm_batch ?s1) (\<lambda>_. True)"
    using load_dispatches [OF dd, of ?s1 now] running ids(1) runs team_invD(5) [OF assms(2)]
    by (simp add: limits_ok_def empty_team_store_def)
  have rest: "leaves (act_bind (act_get (\<lambda>s. act_any (requeue_task uuid now) (map snd (tm_tasks s)))) (\<lambda>requeued.
      if requeued \<or> list_ex (\<lambda>t. tk_status t = Task_Running) (dc_tasks p) \<or>
         list_ex (\<lambda>x. td_status x = Turn_Running) (dc_dispatches p)
      then act_do (\<lambda>s. team_save (s\<lparr>tm_teams := map (\<lambda>(i, t). (i, idle_team t)) (tm_teams s)\<rparr>))
      else act_return ())) s (\<lambda>_ t. team_inv uuid t \<and> \<not> tm_batch t) (\<lambda>_. True)"
    if s: "team_inv uuid (idled s)" "\<not> tm_batch s" "list_all (\<lambda>d. td_status d \<noteq> Turn_Running) (dc_dispatches p) \<Longrightarrow> idled s = s" for s
  proof -
    have all: "leaves (act_any (requeue_task uuid now) (map snd (tm_tasks s))) s (\<lambda>_. requeueing uuid s) (\<lambda>_. True)"
      by (rule leaves_any) (use s requeue_task_step [OF assms(1)] in \<open>simp_all add: requeueing_def\<close>)
    have idle: "t\<lparr>tm_teams := map (\<lambda>(i, t). (i, idle_team t)) (tm_teams t)\<rparr> = idled t" for t
      unfolding idled_def map_prod_def id_def ..
    have same: "idled t = t" if "requeueing uuid s t" "\<not> list_ex (\<lambda>x. td_status x = Turn_Running) (dc_dispatches p)" for t
    proof -
      have "list_all (\<lambda>d. td_status d \<noteq> Turn_Running) (dc_dispatches p)" using that(2) by (simp add: list_all_iff list_ex_iff)
      from s(3) [OF this] have "map (map_prod id idle_team) (tm_teams s) = tm_teams s"
        by (simp add: idled_def) (metis (no_types, lifting) team_store.select_convs(1) team_store.surjective team_store.update_convs(1))
      with that(1) show ?thesis by (simp add: idled_def requeueing_def)
    qed
    have keep: "team_inv uuid t"
      if "team_inv uuid (idled t)" "tm_teams t = tm_teams s" "tm_tasks t = tm_tasks s" "tm_batch t = tm_batch s"
        "\<not> list_ex (\<lambda>x. td_status x = Turn_Running) (dc_dispatches p)" for t
      using same [of t] that by (simp add: requeueing_def)
    show ?thesis
      by (simp, rule leaves_mono [OF all]) (use keep s(2) in \<open>auto simp: idle requeueing_def\<close>)
  qed
  show ?thesis unfolding load_document_def
  proof (simp only: leaves_seq leaves_unit, rule leaves_mono [OF first])
    fix t :: team_store
    let ?t1 = "t\<lparr>tm_tasks := fold (\<lambda>t. jmap_set (tk_id t) (load_task now t)) (dc_tasks p) []\<rparr>"
    let ?t2 = "map_turns (drop_turn now (tm_tasks ?t1)) ?t1"
    let ?t3 = "?t2\<lparr>tm_messages := fold (\<lambda>m. jmap_set (ml_id m) m) (dc_messages p) [], tm_events := dc_events p,
         tm_sequence := fold max (map ev_sequence (dc_events p)) (dc_sequence p), tm_reconciled := js_set (dc_reconciled p)\<rparr>"
    assume t: "tm_dispatches t = map (\<lambda>d. (td_id d, loaded_turn now d)) (dc_dispatches p) \<and> keyed tr_id (tm_runs t) \<and> limits_ok t \<and>
       (\<forall>k. map_option run_facts (jmap_get (tm_runs t) k) = map_option run_facts (jmap_get (tm_runs s0) k)) \<and>
       tm_teams t = tm_teams ?s1 \<and> tm_drawn t = tm_drawn ?s1 \<and> tm_batch t = tm_batch ?s1"
    have keyed: "keyed td_id (tm_dispatches ?t1)" using t dd by (auto simp: keyed_def comp_def)
    have "team_inv uuid (idled ?t3)" "list_all (\<lambda>d. td_status d \<noteq> Turn_Running) (dc_dispatches p) \<Longrightarrow> idled ?t3 = ?t3"
      by (rule loaded_view(2,3) [OF assms(2,3), where now = now];
          use t assms(4) in \<open>simp add: map_turns_def empty_team_store_def limits_ok_def\<close>)+
    moreover have "\<not> tm_batch ?t3" using t by (simp add: empty_team_store_def)
    ultimately show "leaves (each_dispatch (drop_finished now)) ?t1 (\<lambda>_ s. leaves (act_bind (act_get (\<lambda>s. act_any (requeue_task uuid now) (map snd (tm_tasks s)))) (\<lambda>requeued.
      if requeued \<or> list_ex (\<lambda>t. tk_status t = Task_Running) (dc_tasks p) \<or>
         list_ex (\<lambda>x. td_status x = Turn_Running) (dc_dispatches p)
      then act_do (\<lambda>s. team_save (s\<lparr>tm_teams := map (\<lambda>(i, t). (i, idle_team t)) (tm_teams s)\<rparr>))
      else act_return ())) (s\<lparr>tm_messages := fold (\<lambda>m. jmap_set (ml_id m) m) (dc_messages p) [], tm_events := dc_events p,
         tm_sequence := fold max (map ev_sequence (dc_events p)) (dc_sequence p), tm_reconciled := js_set (dc_reconciled p)\<rparr>)
       (\<lambda>_ t. team_inv uuid t \<and> \<not> tm_batch t) (\<lambda>_. True)) (\<lambda>_. True)"
      unfolding drop_finished_loop [OF keyed] by (intro rest)
  qed simp
qed

text \<open>A document that a consistent state wrote opens as a consistent state.\<close>

lemma open_team_store_inv:
  assumes "inj uuid" "open_team_store uuid now drawn disk = Inr t"
    and "\<And>d. disk = Some d \<Longrightarrow> \<exists>s. team_inv uuid s \<and> tm_drawn s \<le> drawn \<and> d = team_document_of s"
  shows "team_inv uuid t \<and> \<not> tm_batch t"
proof (cases disk)
  case None
  with assms(2) have "t = empty_team_store drawn None" by (simp add: open_team_store_def)
  then show ?thesis
    by (simp add: team_inv_def empty_team_store_def work_ok_def turns_ok_def runs_ok_def task_rules crowd_ok_def running_of_def homes_ok_def
      work_of_fields ids_ok_def keyed_def unused_def shapes_ok_def limits_ok_def)
next
  case (Some d)
  from assms(3) [OF this] obtain s where s: "team_inv uuid s" "tm_drawn s \<le> drawn" "d = team_document_of s" by blast
  from assms(2) Some s(3) obtain p where p: "parse_document (team_document_of s) = Some p"
      "load_document uuid now p (empty_team_store drawn disk) = (Inr (), t)"
    by (auto simp: open_team_store_def split: option.splits prod.splits sum.splits)
  from load_document_inv [OF assms(1) s(1) p(1) s(2), of now disk] p(2) show ?thesis by (simp add: leaves_def)
qed

end
