(* ===== verification/Team_History.thy ===== *)
theory Team_History
  imports Team_Restart "HOL-Library.Code_Target_Nat"
begin

text \<open>
  All histories of the team store: calls of its methods in any order, each with its own reading of the clock,
  and restarts from the file. Every state reached satisfies the invariant.
\<close>

section \<open>What is on disk\<close>

definition silent :: "'a tact \<Rightarrow> bool" where
  "silent m \<longleftrightarrow> (\<forall>s. tm_disk (snd (m s)) = tm_disk s \<and> tm_batch (snd (m s)) = tm_batch s)"

text \<open>Outside a transaction a method leaves the file as it is, or as the document of the state it ends in.\<close>

definition tidy :: "'a tact \<Rightarrow> bool" where
  "tidy m \<longleftrightarrow> (\<forall>s. \<not> tm_batch s \<longrightarrow> tm_disk (snd (m s)) = tm_disk s \<or>
     tm_disk (snd (m s)) = Some (team_document_of (snd (m s))))"

named_theorems silent_intros "rules that a method writes nothing"
named_theorems tidy_intros "rules that a method writes the state it ends in"

lemma silent_pure [silent_intros]: "silent (act_return a)" "silent (act_fail e)" "silent (act_check e b)" "silent (act_need e x)"
  by (auto simp: silent_def act_return_def act_fail_def act_check_def act_need_def split: option.split)

lemma silent_bind [silent_intros]: "silent m \<Longrightarrow> (\<And>a. silent (f a)) \<Longrightarrow> silent (act_bind m f)"
  unfolding silent_def act_bind_def by (auto split: prod.splits sum.splits) (metis snd_conv)+

lemma silent_seq [silent_intros]: "silent m \<Longrightarrow> silent n \<Longrightarrow> silent (act_seq m n)"
  unfolding act_seq_def by (rule silent_bind)

lemma silent_get [silent_intros]: "(\<And>u. silent (f u)) \<Longrightarrow> silent (act_get f)"
  by (simp add: silent_def act_get_def)

lemma silent_do [silent_intros]: "(\<And>s. tm_disk (g s) = tm_disk s \<and> tm_batch (g s) = tm_batch s) \<Longrightarrow> silent (act_do g)"
  by (simp add: silent_def act_do_def)

lemma silent_option [silent_intros]: "silent a \<Longrightarrow> (\<And>x. silent (f x)) \<Longrightarrow> silent (case z of None \<Rightarrow> a | Some x \<Rightarrow> f x)"
  by (simp split: option.split)

lemma silent_if [silent_intros]: "silent a \<Longrightarrow> silent b \<Longrightarrow> silent (if c then a else b)"
  by simp

lemma silent_each [silent_intros]: "(\<And>x. silent (f x)) \<Longrightarrow> silent (act_each f xs)"
  by (induction xs) (auto intro: silent_intros)

lemma silent_base [silent_intros]:
  "silent (required_team i)" "silent (required_task k)" "silent (required_member t k)" "silent (team_runs i)" "silent (team_tasks i)"
  "silent (new_id uuid kind)" "silent (idle_member now i m b)" "silent (cancel_turn now d)"
  unfolding required_team_def required_task_def required_member_def team_runs_def team_tasks_def idle_member_def cancel_turn_def
  by ((intro silent_intros; simp) | simp add: silent_def new_id_def)+

lemma silent_ensure_run [silent_intros]: "silent (ensure_run uuid now i input)"
  unfolding ensure_run_def Let_def by (intro silent_intros; simp)

lemma silent_register_edge [silent_intros]: "silent (register_edge uuid now r m parent)"
  unfolding register_edge_def Let_def by (intro silent_intros; simp)

lemma silent_enqueue [silent_intros]: "silent (enqueue uuid now r m input parent x mids)"
  unfolding enqueue_def by (intro silent_intros; simp)

lemma silent_validate [silent_intros]: "silent (validate_dependencies i ids target)"
  unfolding validate_dependencies_def by (intro silent_intros)

lemma silent_each_dispatch [silent_intros]: "(\<And>d. silent (f d)) \<Longrightarrow> silent (each_dispatch f)"
  unfolding each_dispatch_def by (intro silent_intros)

lemma tidy_silent: "silent m \<Longrightarrow> tidy m"
  by (simp add: silent_def tidy_def)

lemma tidy_pure [tidy_intros]: "tidy (act_return a)" "tidy (act_fail e)"
  by (simp_all add: tidy_silent silent_intros)

lemma tidy_bind [tidy_intros]: "silent m \<Longrightarrow> (\<And>a. tidy (f a)) \<Longrightarrow> tidy (act_bind m f)"
  unfolding silent_def tidy_def act_bind_def by (auto split: prod.splits sum.splits) (metis snd_conv)+

lemma tidy_seq [tidy_intros]: "silent m \<Longrightarrow> tidy n \<Longrightarrow> tidy (act_seq m n)"
  unfolding act_seq_def by (rule tidy_bind)

lemma tidy_get [tidy_intros]: "(\<And>u. tidy (f u)) \<Longrightarrow> tidy (act_get f)"
  by (simp add: tidy_def act_get_def)

lemma tidy_option [tidy_intros]: "tidy a \<Longrightarrow> (\<And>x. tidy (f x)) \<Longrightarrow> tidy (case z of None \<Rightarrow> a | Some x \<Rightarrow> f x)"
  by (simp split: option.split)

lemma tidy_if [tidy_intros]: "tidy a \<Longrightarrow> tidy b \<Longrightarrow> tidy (if c then a else b)"
  by simp

lemma document_save [simp]: "team_document_of (team_save s) = team_document_of s"
  by (simp add: team_save_def team_document_of_def team_list_def)

lemma tidy_save: "(\<And>s. tm_batch (g s) = tm_batch s) \<Longrightarrow> tidy (act_do (\<lambda>s. team_save (g s)))"
  by (simp add: tidy_def act_do_def team_save_def) (simp add: team_document_of_def team_list_def)

lemma tidy_announce: "tidy (announce uuid now i ty subject)"
  unfolding announce_def by (rule tidy_save) simp

lemma tidy_after: "tidy m \<Longrightarrow> tidy (act_bind m (\<lambda>x. act_return (h x)))" "tidy m \<Longrightarrow> tidy (act_seq m (act_return a))"
    "tidy m \<Longrightarrow> tidy (act_seq m (act_fail e))"
  unfolding tidy_def act_seq_def act_bind_def act_return_def act_fail_def by (auto split: prod.split sum.split)

lemma tidy_last [tidy_intros]: "tidy (act_seq (announce uuid now i ty subject) (act_return a))"
    "tidy (act_seq (announce uuid now i ty subject) (act_fail e))"
  by (rule tidy_after, rule tidy_announce)+

lemma tidy_transaction [tidy_intros]:
  assumes "calm m"
  shows "tidy (transaction m)"
  unfolding tidy_def
proof (intro allI impI)
  fix s :: team_store
  assume b: "\<not> tm_batch s"
  obtain r t where mt: "m (s\<lparr>tm_batch := True\<rparr>) = (r, t)" by (cases "m (s\<lparr>tm_batch := True\<rparr>)")
  with assms [unfolded calm_def, rule_format, of "s\<lparr>tm_batch := True\<rparr>"] b
  show "tm_disk (snd (transaction m s)) = tm_disk s \<or>
      tm_disk (snd (transaction m s)) = Some (team_document_of (snd (transaction m s)))"
    by (cases r) (simp_all add: transaction_def rolled_back_def team_save_def team_document_of_def team_list_def)
qed

section \<open>The methods\<close>

lemma tidy_team_create: "tidy (team_create uuid now input)"
  unfolding team_create_def by (intro tidy_intros silent_intros; simp)

lemma tidy_team_update: "tidy (team_update uuid now i expected p)"
  unfolding team_update_def by (intro tidy_intros silent_intros; simp)

lemma tidy_members: "tidy (add_member uuid now i input)" "tidy (update_member uuid now i k p)" "tidy (remove_team_member uuid now i k)"
  unfolding add_member_def update_member_def remove_team_member_def by (intro tidy_intros silent_intros; simp)+

lemma tidy_team_delete: "tidy (team_delete uuid now i)"
  unfolding team_delete_def by (intro tidy_intros silent_intros tidy_save) (simp add: team_forgotten_def)

lemma tidy_tasks: "tidy (queue_task uuid now i kinput parent)" "tidy (cancel_team_task uuid now i k)" "tidy (update_task uuid now i k version tp caller)"
  unfolding queue_task_def cancel_team_task_def update_task_def by (intro tidy_intros silent_intros calm_intros; simp)+

lemma tidy_mail: "tidy (send_mail uuid now i sender receiver body parent)"
  unfolding send_mail_def by (intro tidy_intros calm_intros)

lemma tidy_start_run: "tidy (start_run uuid now i input member)"
  unfolding start_run_def by (intro tidy_intros silent_intros tidy_after(2) tidy_save [of "\<lambda>s. s", simplified])

lemma tidy_control: "tidy (control_run uuid now i k c)" "tidy (recruit uuid now i parent minput)" "tidy (finish_dispatch uuid now k e)"
  unfolding control_run_def recruit_def finish_dispatch_def by (intro tidy_intros calm_intros)+

lemma tidy_begin: "tidy (begin_dispatch uuid now k)"
  unfolding begin_dispatch_def by (intro tidy_intros silent_intros calm_intros; simp)

lemma tidy_submitted: "tidy (submitted_dispatch now k turn)"
  unfolding submitted_dispatch_def by (intro tidy_intros silent_intros tidy_save [of "\<lambda>s. s", simplified]; simp)

lemma tidy_defer: "tidy (defer_dispatch now k)"
  unfolding defer_dispatch_def by (intro tidy_intros silent_intros tidy_save [of "\<lambda>s. s", simplified]; simp)

lemma tidy_acknowledge: "tidy (team_acknowledge k)"
  unfolding team_acknowledge_def mark_reconciled_def by (intro tidy_intros silent_intros tidy_save; simp)

lemma tidy_operation:
  assumes "calm m"
  shows "tidy (team_operation i input m)"
proof -
  have "calm (act_bind m (\<lambda>result. act_seq (act_do (\<lambda>u. u\<lparr>tm_operations := jmap_set i (input, result) (tm_operations u)\<rparr>)) (act_return result)))"
    by (intro calm_intros assms; simp)
  then show ?thesis unfolding team_operation_def
    by (intro tidy_intros silent_intros) (auto intro!: tidy_intros split: option.split)
qed

lemma silent_any [silent_intros]: "(\<And>x. silent (f x)) \<Longrightarrow> silent (act_any f xs)"
  by (induction xs) (auto intro: silent_intros)

lemma calm_any [calm_intros]: "(\<And>x. calm (f x)) \<Longrightarrow> calm (act_any f xs)"
  by (induction xs) (auto intro: calm_intros)

lemma calm_load_dispatch [calm_intros]: "calm (load_dispatch now d)"
  unfolding load_dispatch_def by (intro calm_intros; simp)

lemma calm_requeue [calm_intros]: "calm (requeue_task uuid now t)" "calm (drop_finished now d)"
  unfolding requeue_task_def drop_finished_def by (intro calm_intros)+

lemma calm_load: "calm (load_document uuid now d)"
  unfolding load_document_def by (intro calm_intros; simp)

lemma silent_load_dispatch [silent_intros]: "silent (load_dispatch now d)"
  unfolding load_dispatch_def by (intro silent_intros; simp)

lemma silent_requeue [silent_intros]: "silent (requeue_task uuid now t)" "silent (drop_finished now d)"
  unfolding requeue_task_def drop_finished_def by (intro silent_intros)+

lemma tidy_load: "tidy (load_document uuid now d)"
  unfolding load_document_def by (intro tidy_intros silent_intros tidy_save; simp)

lemma calm_methods [calm_intros]:
  "calm (team_create uuid now input)" "calm (team_update uuid now i expected p)" "calm (update_member uuid now i k mp)"
  "calm (remove_team_member uuid now i k)" "calm (update_task uuid now i k version tp caller)" "calm (start_run uuid now i text1 member)"
  "calm (begin_dispatch uuid now k)" "calm (submitted_dispatch now k turn)" "calm (defer_dispatch now k)"
  unfolding team_create_def team_update_def update_member_def remove_team_member_def update_task_def start_run_def begin_dispatch_def
    submitted_dispatch_def defer_dispatch_def
  by (intro calm_intros; simp)+

lemma calm_delete [calm_intros]: "calm (team_delete uuid now i)"
  unfolding team_delete_def team_forgotten_def by (intro calm_intros) (simp add: team_save_def push_event_def)

lemma calm_acknowledge [calm_intros]: "calm (team_acknowledge k)"
  unfolding team_acknowledge_def mark_reconciled_def by (intro calm_intros) (simp_all add: team_save_def)

lemma calm_pause [calm_intros]: "calm (pause_blocked uuid now k)" "calm (pause_blocked_runs uuid now)"
proof -
  show "calm (pause_blocked uuid now k)" for k
    unfolding pause_blocked_def Let_def by (intro calm_intros) (auto intro!: calm_intros split: sum.split bool.split)
  then show "calm (pause_blocked_runs uuid now)" unfolding pause_blocked_runs_def by (intro calm_intros)
qed

lemma tidy_pause: "tidy (pause_blocked uuid now k)"
  unfolding pause_blocked_def Let_def
  by (intro tidy_intros) (auto intro!: tidy_intros tidy_announce silent_intros split: sum.split bool.split)

lemma calm_operation [calm_intros]:
  assumes "calm m"
  shows "calm (team_operation i input m)"
  unfolding team_operation_def
  by (intro calm_intros assms) (auto intro!: calm_intros assms split: option.split)

section \<open>Calls\<close>

text \<open>
  The changes that a tool of a session makes; the operation id and the name and arguments of the tool are those
  of the repeated call.
\<close>

datatype team_tool =
    Tool_Spawn string member_input
  | Tool_Mail string "string option" string string
  | Tool_Task task_input string
  | Tool_Rename nat string
  | Tool_Shutdown string
  | Tool_Update_Task string nat task_patch string
  | Tool_Input string string

definition tool_act :: "(nat \<Rightarrow> string) \<Rightarrow> nat \<Rightarrow> string \<Rightarrow> team_tool \<Rightarrow> team_result tact" where
  "tool_act uuid now i c = (case c of
     Tool_Spawn k input \<Rightarrow> act_bind (recruit uuid now i k input) (\<lambda>t. act_return (Team_Result t))
   | Tool_Mail m receiver body k \<Rightarrow> act_bind (send_mail uuid now i (Some m) receiver body (Some k)) (\<lambda>x. act_return (Mail_Result x))
   | Tool_Task input k \<Rightarrow> act_bind (queue_task uuid now i input (Some k)) (\<lambda>x. act_return (Task_Result x))
   | Tool_Rename version n \<Rightarrow>
       act_bind (team_update uuid now i version \<lparr>tp_name = Some n, tp_mode = None, tp_members = None\<rparr>) (\<lambda>t. act_return (Team_Result t))
   | Tool_Shutdown r \<Rightarrow> act_bind (control_run uuid now i r Control_Pause) (\<lambda>x. act_return (Run_Result x))
   | Tool_Update_Task k version p m \<Rightarrow> act_bind (update_task uuid now i k version p (Some m)) (\<lambda>x. act_return (Task_Result x))
   | Tool_Input words m \<Rightarrow> act_bind (start_run uuid now i words (if m = [] then None else Some m)) (\<lambda>r. act_return (Run_Result r)))"

datatype store_call =
    Call_Create team_input
  | Call_Update string nat team_patch
  | Call_Add string member_input
  | Call_Change_Member string string member_patch
  | Call_Remove string string
  | Call_Delete string
  | Call_Queue string task_input
  | Call_Cancel_Task string string
  | Call_Mail string "string option" string
  | Call_Control string string run_control
  | Call_Operation string string string team_tool
  | Call_Begin string
  | Call_Submitted string string
  | Call_Defer string
  | Call_Finish string turn_end
  | Call_Pause_Blocked
  | Call_Acknowledge string

definition ignoring :: "'a tact \<Rightarrow> unit tact" where
  "ignoring m = act_bind m (\<lambda>_. act_return ())"

definition call_act :: "(nat \<Rightarrow> string) \<Rightarrow> nat \<Rightarrow> store_call \<Rightarrow> unit tact" where
  "call_act uuid now c = (case c of
     Call_Create input \<Rightarrow> ignoring (team_create uuid now input)
   | Call_Update i version p \<Rightarrow> ignoring (team_update uuid now i version p)
   | Call_Add i input \<Rightarrow> ignoring (add_member uuid now i input)
   | Call_Change_Member i k p \<Rightarrow> ignoring (update_member uuid now i k p)
   | Call_Remove i k \<Rightarrow> ignoring (remove_team_member uuid now i k)
   | Call_Delete i \<Rightarrow> team_delete uuid now i
   | Call_Queue i input \<Rightarrow> ignoring (queue_task uuid now i input None)
   | Call_Cancel_Task i k \<Rightarrow> ignoring (cancel_team_task uuid now i k)
   | Call_Mail i receiver body \<Rightarrow> ignoring (send_mail uuid now i None receiver body None)
   | Call_Control i r x \<Rightarrow> ignoring (control_run uuid now i r x)
   | Call_Operation op input i tool \<Rightarrow> ignoring (team_operation op input (tool_act uuid now i tool))
   | Call_Begin k \<Rightarrow> ignoring (begin_dispatch uuid now k)
   | Call_Submitted k turn \<Rightarrow> submitted_dispatch now k turn
   | Call_Defer k \<Rightarrow> defer_dispatch now k
   | Call_Finish k e \<Rightarrow> finish_dispatch uuid now k e
   | Call_Pause_Blocked \<Rightarrow> pause_blocked_runs uuid now
   | Call_Acknowledge k \<Rightarrow> team_acknowledge k)"

text \<open>The state after a call, whether it returned or threw.\<close>

definition team_after :: "(nat \<Rightarrow> string) \<Rightarrow> nat \<Rightarrow> store_call \<Rightarrow> team_store \<Rightarrow> team_store" where
  "team_after uuid now c s = snd (call_act uuid now c s)"

text \<open>
  The stores of the service: the first start finds no file, calls come in any order, and at any time the process
  may end and start again from its file.
\<close>

inductive team_reach :: "(nat \<Rightarrow> string) \<Rightarrow> team_store \<Rightarrow> bool" for uuid where
  first_start: "team_reach uuid (empty_team_store 0 None)"
| some_call: "team_reach uuid s \<Longrightarrow> team_reach uuid (team_after uuid now c s)"
| team_restart: "team_reach uuid s \<Longrightarrow> open_team_store uuid now (tm_drawn s) (tm_disk s) = Inr t \<Longrightarrow> team_reach uuid t"

section \<open>Every store reached is consistent\<close>

definition team_disk_ok :: "(nat \<Rightarrow> string) \<Rightarrow> team_store \<Rightarrow> bool" where
  "team_disk_ok uuid s \<longleftrightarrow> (\<forall>d. tm_disk s = Some d \<longrightarrow> (\<exists>t. team_inv uuid t \<and> tm_drawn t \<le> tm_drawn s \<and> d = team_document_of t))"

definition team_good :: "(nat \<Rightarrow> string) \<Rightarrow> team_store \<Rightarrow> bool" where
  "team_good uuid s \<longleftrightarrow> team_inv uuid s \<and> team_disk_ok uuid s \<and> \<not> tm_batch s"

lemma good_step:
  assumes "calm m" "tidy m" "team_good uuid s" "leaves m s (\<lambda>_. team_inv uuid) (team_inv uuid)"
  shows "leaves m s (\<lambda>_. team_good uuid) (team_good uuid)"
proof -
  obtain r t where mt: "m s = (r, t)" by (cases "m s")
  have inv: "team_inv uuid t" using leaves_state [OF assms(4)] mt by simp
  have b: "\<not> tm_batch s" and disk: "team_disk_ok uuid s" using assms(3) by (simp_all add: team_good_def)
  have c: "tm_drawn s \<le> tm_drawn t" "tm_batch t = tm_batch s" using assms(1) [unfolded calm_def, rule_format, of s] mt by simp_all
  have "tm_disk t = tm_disk s \<or> tm_disk t = Some (team_document_of t)" using assms(2) b mt unfolding tidy_def by (metis snd_conv)
  with inv disk c have "team_disk_ok uuid t" unfolding team_disk_ok_def by (metis le_refl le_trans option.inject)
  with inv b c mt show ?thesis by (cases r) (simp_all add: leaves_def team_good_def)
qed

lemma leaves_nested: "tm_batch s \<Longrightarrow> leaves (transaction m) s Q E = leaves m s Q E"
  by (simp add: leaves_def transaction_def)

lemma calm_tool [calm_intros]: "calm (tool_act uuid now i c)"
  unfolding tool_act_def control_run_def recruit_def queue_task_def by (cases c) (auto intro!: calm_intros)

lemma tool_inv:
  assumes "inj uuid" "team_inv uuid s" "tm_batch s"
  shows "leaves (tool_act uuid now i c) s (\<lambda>_. team_inv uuid) (\<lambda>_. True)"
proof (cases c)
  case (Tool_Shutdown r)
  then show ?thesis using control_run_in_inv [OF assms(1,2)] assms(3) by (simp add: tool_act_def control_run_def leaves_nested)
qed (simp_all add: tool_act_def leaves_mono [OF recruit_inv [OF assms(1,2)]] leaves_mono [OF send_mail_inv [OF assms(1,2)]]
  leaves_mono [OF queue_task_inv [OF assms(1,2)]] leaves_mono [OF team_update_inv [OF assms(2)]]
  leaves_mono [OF update_task_inv [OF assms(2)]] leaves_mono [OF start_run_inv [OF assms(1,2)]])

lemma operation_inv:
  assumes "inj uuid" "team_inv uuid s" "\<not> tm_batch s"
  shows "leaves (team_operation op input (tool_act uuid now i c)) s (\<lambda>_. team_inv uuid) (team_inv uuid)"
proof -
  let ?m = "act_bind (tool_act uuid now i c) (\<lambda>result.
    act_seq (act_do (\<lambda>u. u\<lparr>tm_operations := jmap_set op (input, result) (tm_operations u)\<rparr>)) (act_return result))"
  have calm: "calm ?m" by (intro calm_intros; simp)
  have body: "leaves ?m (s\<lparr>tm_batch := True\<rparr>) (\<lambda>_. team_inv uuid) (\<lambda>_. True)"
    by (simp, rule leaves_mono [OF tool_inv [OF assms(1)]]) (use assms(2) in simp_all)
  have "leaves (transaction ?m) s (\<lambda>_. team_inv uuid) (team_inv uuid)"
    by (rule transaction_from [OF calm assms(2,3) body])
  with assms(2) show ?thesis by (auto simp: team_operation_def split: option.split)
qed

lemma tidy_tool_operation: "tidy (team_operation op input (tool_act uuid now i c))"
  by (rule tidy_operation) (rule calm_tool)

lemma ignoring_rules:
  "calm m \<Longrightarrow> calm (ignoring m)" "tidy m \<Longrightarrow> tidy (ignoring m)"
  "leaves m s (\<lambda>_. P) P \<Longrightarrow> leaves (ignoring m) s (\<lambda>_. P) P"
  unfolding ignoring_def by (rule calm_bind, assumption, rule calm_pure) (rule tidy_after, assumption, simp)

lemma pause_blocked_runs_good:
  assumes "team_good uuid s"
  shows "leaves (pause_blocked_runs uuid now) s (\<lambda>_. team_good uuid) (team_good uuid)"
proof -
  have "leaves (pause_blocked uuid now k) t (\<lambda>_. team_good uuid) (team_good uuid)" if "team_good uuid t" for k t
    by (rule good_step [OF calm_pause(1) tidy_pause that pause_blocked_inv]) (use that in \<open>simp add: team_good_def\<close>)
  then show ?thesis unfolding pause_blocked_runs_def using assms by (simp add: leaves_each [of "team_good uuid"])
qed

lemmas tidy_methods = tidy_team_create tidy_team_update tidy_members tidy_team_delete tidy_tasks tidy_mail tidy_control tidy_begin
  tidy_submitted tidy_defer tidy_acknowledge tidy_tool_operation

lemma add_member_inv': "inj uuid \<Longrightarrow> team_inv uuid s \<Longrightarrow> leaves (add_member uuid now i input) s (\<lambda>_. team_inv uuid) (team_inv uuid)"
  by (rule leaves_mono [OF add_member_inv]) simp_all

lemma calm_control [calm_intros]: "calm (control_run uuid now i k c)" "calm (finish_dispatch uuid now k e)" "calm (queue_task uuid now i input parent)"
  unfolding control_run_def finish_dispatch_def queue_task_def by (intro calm_intros)+

lemma call_good:
  assumes "inj uuid" "team_good uuid s"
  shows "leaves (call_act uuid now c) s (\<lambda>_. team_good uuid) (team_good uuid)"
proof -
  have inv: "team_inv uuid s" "\<not> tm_batch s" using assms(2) by (simp_all add: team_good_def)
  note single = ignoring_rules(3) [OF good_step [OF _ _ assms(2)]]
  show ?thesis
  proof (cases c)
    case (Call_Control i r x)
    then show ?thesis using single [OF calm_control(1) tidy_control(1) control_run_inv [OF assms(1) inv]] by (simp add: call_act_def)
  qed (simp_all add: call_act_def pause_blocked_runs_good [OF assms(2)]
      single [OF calm_methods(1) tidy_team_create team_create_inv [OF assms(1) inv(1)]]
      single [OF calm_methods(2) tidy_team_update team_update_inv [OF inv(1)]]
      single [OF calm_add_member tidy_members(1) add_member_inv' [OF assms(1) inv(1)]]
      single [OF calm_methods(3) tidy_members(2) update_member_inv [OF inv(1)]]
      single [OF calm_methods(4) tidy_members(3) remove_team_member_inv [OF inv(1)]]
      good_step [OF calm_delete tidy_team_delete assms(2) team_delete_inv [OF inv(1)]]
      single [OF calm_control(3) tidy_tasks(1) queue_task_inv [OF assms(1) inv(1)]]
      single [OF calm_cancel_task tidy_tasks(2) cancel_team_task_inv [OF inv(1)]]
      single [OF calm_send_mail tidy_mail send_mail_inv [OF assms(1) inv(1)]]
      single [OF calm_operation [OF calm_tool] tidy_tool_operation operation_inv [OF assms(1) inv]]
      single [OF calm_methods(7) tidy_begin begin_dispatch_inv [OF inv]]
      good_step [OF calm_methods(8) tidy_submitted assms(2) submitted_dispatch_inv [OF inv(1)]]
      good_step [OF calm_methods(9) tidy_defer assms(2) defer_dispatch_inv [OF inv(1)]]
      good_step [OF calm_control(2) tidy_control(3) assms(2) finish_dispatch_inv [OF assms(1) inv]]
      good_step [OF calm_acknowledge tidy_acknowledge assms(2) team_acknowledge_inv [OF inv(1)]])
qed

lemma restart_good:
  assumes "inj uuid" "team_good uuid s" "open_team_store uuid now (tm_drawn s) (tm_disk s) = Inr t"
  shows "team_good uuid t"
proof -
  have disk: "team_disk_ok uuid s" using assms(2) by (simp add: team_good_def)
  have "team_inv uuid t \<and> \<not> tm_batch t"
    by (rule open_team_store_inv [OF assms(1,3)]) (use disk in \<open>auto simp: team_disk_ok_def\<close>)
  moreover have "team_disk_ok uuid t"
  proof (cases "tm_disk s")
    case None
    with assms(3) have "t = empty_team_store (tm_drawn s) None" by (simp add: open_team_store_def)
    then show ?thesis by (simp add: team_disk_ok_def empty_team_store_def)
  next
    case (Some d)
    let ?e = "empty_team_store (tm_drawn s) (tm_disk s)"
    from assms(3) Some obtain p where p: "load_document uuid now p ?e = (Inr (), t)"
      by (auto simp: open_team_store_def split: option.splits prod.splits sum.splits)
    have e: "\<not> tm_batch ?e" "tm_disk ?e = tm_disk s" "tm_drawn ?e = tm_drawn s" by (simp_all add: empty_team_store_def)
    have "tm_drawn s \<le> tm_drawn t" using calm_load [of uuid now p, unfolded calm_def, rule_format, of ?e] p e by simp
    moreover have "tm_disk t = tm_disk s \<or> tm_disk t = Some (team_document_of t)"
      using tidy_load [of uuid now p, unfolded tidy_def, rule_format, OF e(1)] p e by simp
    ultimately show ?thesis using disk \<open>team_inv uuid t \<and> \<not> tm_batch t\<close> unfolding team_disk_ok_def by (metis le_refl le_trans option.inject)
  qed
  ultimately show ?thesis by (simp add: team_good_def)
qed

theorem team_reach_good:
  assumes "inj uuid" "team_reach uuid s"
  shows "team_good uuid s"
  using assms(2)
proof induction
  case first_start
  have "team_inv uuid (empty_team_store 0 None) \<and> \<not> tm_batch (empty_team_store 0 None)"
    by (rule open_team_store_inv [OF assms(1), where disk = None]) (simp_all add: open_team_store_def)
  then show ?case by (simp add: team_good_def team_disk_ok_def empty_team_store_def)
next
  case (some_call s now c)
  show ?case unfolding team_after_def by (rule leaves_state) (rule call_good [OF assms(1) some_call.IH])
next
  case (team_restart s now t)
  show ?case by (rule restart_good [OF assms(1) team_restart.IH team_restart.hyps(2)])
qed

section \<open>A service that runs\<close>

text \<open>A server on which a team was created, its lead was given a goal, and the turn of the lead began.\<close>

definition sample_uuid :: "nat \<Rightarrow> string" where
  "sample_uuid n = replicate n CHR ''x''"

definition sample_team :: "team_input" where
  "sample_team = \<lparr>ti_name = ''Crew'', ti_workspace = ''w'', ti_lead = ''Ann'', ti_engine = ''codex'', ti_acp = None,
     ti_preset = ''p'', ti_model = None, ti_effort = None, ti_permission = None\<rparr>"

definition sample_calls :: "store_call list" where
  "sample_calls = [Call_Create sample_team,
     Call_Queue ''team-'' \<lparr>ki_member = ''member-x'', ki_title = ''Plan'', ki_input = ''go'', ki_depends = [], ki_creator = None\<rparr>,
     Call_Begin ''team-dispatch-xxxxxxx'']"

definition calls_after :: "(nat \<Rightarrow> string) \<Rightarrow> store_call list \<Rightarrow> team_store \<Rightarrow> team_store" where
  "calls_after uuid = fold (team_after uuid 0)"

definition sample_store :: team_store where
  "sample_store = calls_after sample_uuid sample_calls (empty_team_store 0 None)"

lemma inj_sample: "inj sample_uuid"
  by (rule injI) (metis length_replicate sample_uuid_def)

lemma reach_calls: "team_reach uuid s \<Longrightarrow> team_reach uuid (calls_after uuid cs s)"
  unfolding calls_after_def by (induction cs arbitrary: s) (auto intro: some_call)

lemma reach_sample: "team_reach sample_uuid sample_store"
  unfolding sample_store_def by (rule reach_calls) (rule first_start)

end
