(* ===== verification/Team_Operations.thy ===== *)
theory Team_Operations
  imports Team_History
begin

text \<open>
  What repeated and failed calls do: the record of operations, which no other method changes, and the restore
  of a transaction that throws.
\<close>

section \<open>Methods that keep a relation\<close>

text \<open>A relation between the states before and after a method that holds along sequences.\<close>

locale step_relation =
  fixes R :: "'s \<Rightarrow> 's \<Rightarrow> bool"
  assumes R_refl: "R s s" and R_trans: "R s t \<Longrightarrow> R t u \<Longrightarrow> R s u"
begin

definition preserves :: "('s, 'a) act \<Rightarrow> bool" where
  "preserves m \<longleftrightarrow> (\<forall>s. R s (snd (m s)))"

lemma keepsI: "(\<And>s. R s (snd (m s))) \<Longrightarrow> preserves m"
  by (simp add: preserves_def)

lemma keepsD: "preserves m \<Longrightarrow> m s = (r, t) \<Longrightarrow> R s t"
  unfolding preserves_def by (metis snd_conv)

lemma keeps_pure: "preserves (act_return a)" "preserves (act_fail e)" "preserves (act_check e b)" "preserves (act_need e x)"
  by (auto simp: preserves_def act_return_def act_fail_def act_check_def act_need_def R_refl split: option.split)

lemma keeps_do: "(\<And>s. R s (g s)) \<Longrightarrow> preserves (act_do g)"
  by (simp add: preserves_def act_do_def)

lemma keeps_bind:
  assumes "preserves m" "\<And>a. preserves (f a)"
  shows "preserves (act_bind m f)"
proof (rule keepsI)
  fix s
  obtain r t where m: "m s = (r, t)" by (cases "m s")
  from keepsD [OF assms(1) m] have "R s t" .
  then show "R s (snd (act_bind m f s))"
    using m assms(2) R_trans unfolding preserves_def act_bind_def by (cases r) auto
qed

lemma keeps_seq: "preserves m \<Longrightarrow> preserves n \<Longrightarrow> preserves (act_seq m n)"
  unfolding act_seq_def by (rule keeps_bind)

lemma keeps_get: "(\<And>u. preserves (f u)) \<Longrightarrow> preserves (act_get f)"
  by (simp add: preserves_def act_get_def)

lemma keeps_option: "preserves a \<Longrightarrow> (\<And>x. preserves (f x)) \<Longrightarrow> preserves (case z of None \<Rightarrow> a | Some x \<Rightarrow> f x)"
  by (simp split: option.split)

lemma keeps_if: "(c \<Longrightarrow> preserves a) \<Longrightarrow> (\<not> c \<Longrightarrow> preserves b) \<Longrightarrow> preserves (if c then a else b)"
  by simp

lemma keeps_each: "(\<And>x. preserves (f x)) \<Longrightarrow> preserves (act_each f xs)"
  by (induction xs) (auto intro: keeps_pure keeps_seq)

lemmas keeps_intros = keeps_pure keeps_do keeps_bind keeps_seq keeps_get keeps_option keeps_if keeps_each

end

text \<open>
  A relation on stores that the parts of the methods keep: writing what is neither a task nor a turn, rewriting a
  stored task without touching its team and dependencies, writing a turn that does not begin to run, and the restore
  of a transaction. Every method that makes no new task, changes no dependencies, begins no turn and removes no team
  then keeps it.
\<close>

definition rewrites_task :: "team_task \<Rightarrow> team_store \<Rightarrow> bool" where
  "rewrites_task u s \<longleftrightarrow> (keyed tk_id (tm_tasks s) \<longrightarrow>
     (\<exists>t. jmap_get (tm_tasks s) (tk_id u) = Some t \<and> tk_team u = tk_team t \<and> tk_depends u = tk_depends t))"

definition quiet_turn :: "team_dispatch \<Rightarrow> team_store \<Rightarrow> bool" where
  "quiet_turn d s \<longleftrightarrow> (keyed td_id (tm_dispatches s) \<longrightarrow> td_status d = Turn_Running \<longrightarrow>
     map_option td_status (jmap_get (tm_dispatches s) (td_id d)) = Some Turn_Running)"

lemma quietI: "jmap_get (tm_dispatches s) k = Some d \<Longrightarrow> td_id e = td_id d \<Longrightarrow> td_status e = td_status d \<Longrightarrow> quiet_turn e s"
  unfolding quiet_turn_def by (metis keyed_get option.simps(9))

lemma quiet_simps [simp]:
  "td_status d \<noteq> Turn_Running \<Longrightarrow> quiet_turn d s" "quiet_turn (d\<lparr>td_status := Turn_Queued, td_not_before := x\<rparr>) s"
  "quiet_turn (ended now e d) s"
  by (cases e; simp add: quiet_turn_def ended_def)+

lemma rewritesI:
  assumes "jmap_get (tm_tasks s) k = Some t" "tk_id u = tk_id t" "tk_team u = tk_team t" "tk_depends u = tk_depends t"
  shows "rewrites_task u s"
  using assms unfolding rewrites_task_def by (metis keyed_get)

lemma parsed_task: "parse_task t = Some u \<Longrightarrow> tk_id u = tk_id t \<and> tk_team u = tk_team t \<and> tk_depends u = tk_depends t"
  using parse_task_fields by (auto simp: task_view_def)

locale store_relation = step_relation R for R :: "team_store \<Rightarrow> team_store \<Rightarrow> bool" +
  assumes R_put: "R s (put_team u s)" "R s (put_mail m s)" "R s (put_team_run r s)"
      "R s (push_event uuid now i ty subject s)" "R s (team_save s)" "R s (s\<lparr>tm_runs := rs\<rparr>)" "R s (s\<lparr>tm_messages := ms\<rparr>)"
      "R s (s\<lparr>tm_drawn := n\<rparr>)"
    and R_turn: "quiet_turn d s \<Longrightarrow> R s (put_dispatch d s)"
    and R_task: "rewrites_task k s \<Longrightarrow> R s (put_task k s)"
    and R_batch: "R s t \<Longrightarrow> R (s\<lparr>tm_batch := b\<rparr>) (t\<lparr>tm_batch := c\<rparr>)"
    and R_back: "R s t \<Longrightarrow> R s (rolled_back s t)"
begin

lemma R_save: "R s (team_save (push_event uuid now i ty subject s))"
  by (rule R_trans) (rule R_put)+

lemma keeps_new_id: "preserves (new_id uuid kind)"
  by (simp add: preserves_def new_id_def R_put)

lemma keeps_transaction:
  assumes "preserves m"
  shows "preserves (transaction m)"
proof (rule keepsI)
  fix s
  obtain r t where m: "m (s\<lparr>tm_batch := True\<rparr>) = (r, t)" by (cases "m (s\<lparr>tm_batch := True\<rparr>)")
  from R_batch [OF keepsD [OF assms m], of "tm_batch s"] have b: "R s (t\<lparr>tm_batch := c\<rparr>)" for c by simp
  have undo: "rolled_back s (t\<lparr>tm_batch := c\<rparr>) = rolled_back s t" for c by (simp add: rolled_back_def)
  show "R s (snd (transaction m s))"
    using assms m b [THEN R_back, unfolded undo] R_trans [OF b R_put(5)]
    by (cases r) (auto simp: transaction_def preserves_def)
qed

lemma keeps_base:
  "preserves (required_team i)" "preserves (required_task k)" "preserves (required_member t k)" "preserves (team_runs i)"
  "preserves (team_tasks i)" "preserves (announce uuid now i ty subject)" "preserves (idle_member now i m b)" "preserves (cancel_turn now d)"
  unfolding required_team_def required_task_def required_member_def team_runs_def team_tasks_def announce_def idle_member_def
    cancel_turn_def
  by (intro keeps_intros R_put R_save R_turn; simp)+

lemmas rules = keeps_intros keeps_new_id keeps_base R_put R_save R_turn

text \<open>A chain of changes.\<close>

lemma R_then:
  assumes "R s t"
  shows "R s (put_team u t)" "R s (put_mail m t)" "R s (put_team_run r t)"
    "R s (push_event uuid now i ty subject t)" "R s (team_save t)" "R s (t\<lparr>tm_drawn := n\<rparr>)" "R s (t\<lparr>tm_messages := ms\<rparr>)"
    "quiet_turn d t \<Longrightarrow> R s (put_dispatch d t)" "rewrites_task k t \<Longrightarrow> R s (put_task k t)"
  by (rule R_trans [OF assms]; simp add: R_put R_turn R_task)+

lemma keeps_then: "preserves m \<Longrightarrow> R s t \<Longrightarrow> leaves m t (\<lambda>_. R s) (R s)"
  using R_trans unfolding preserves_def leaves_def by (auto split: prod.split sum.split) (metis snd_conv)+

lemma keeps_from: "(\<And>s. leaves m s (\<lambda>_. R s) (R s)) \<Longrightarrow> preserves m"
  by (rule keepsI) (rule leaves_state)

text \<open>The methods that rewrite a task.\<close>

lemma keeps_begin_task: "preserves (begin_task uuid now k)"
proof (rule keeps_from)
  fix s
  show "leaves (begin_task uuid now k) s (\<lambda>_. R s) (R s)"
    by (auto simp: begin_task_def R_refl intro!: R_then rewritesI split: option.split dest!: parsed_task)
qed

lemma keeps_finish_task: "preserves (finish_task uuid now k e)"
proof (rule keeps_from)
  fix s
  show "leaves (finish_task uuid now k e) s (\<lambda>_. R s) (R s)"
    by (cases e) (auto simp: finish_task_def leaves_idle_member R_refl intro!: R_then rewritesI split: option.split dest!: parsed_task)
qed

lemma keeps_register_edge: "preserves (register_edge uuid now r m parent)"
proof (rule keeps_from)
  fix s
  show "leaves (register_edge uuid now r m parent) s (\<lambda>_. R s) (R s)"
    by (auto simp: register_edge_def Let_def max_fanout_def max_depth_def R_refl intro!: R_then split: option.split if_splits
        intro: quietI)
qed

lemma keeps_turns: "preserves (ensure_run uuid now i input)"
    "preserves (validate_dependencies i ids target)" "(\<And>d. preserves (f d)) \<Longrightarrow> preserves (each_dispatch f)"
  unfolding ensure_run_def validate_dependencies_def each_dispatch_def Let_def
  by (intro rules; simp)+

lemma keeps_enqueue: "preserves (enqueue uuid now r m input parent x mids)"
  unfolding enqueue_def by (intro rules keeps_register_edge; simp add: new_dispatch_def)

lemma keeps_deliver: "preserves (deliver uuid now r k words parent m)"
proof -
  have "preserves (act_bind (register_edge uuid now r m parent) (\<lambda>depth.
           act_do (put_dispatch (d\<lparr>td_depth := max (td_depth d) depth, td_messages := td_messages d @ [k],
             td_input := td_input d @ newline @ newline @ words\<rparr>))))"
    if "find (takes_mail (tr_id r) m) (team_dispatches s) = Some d" for s d
    using that by (intro rules keeps_register_edge) (auto simp: find_Some_iff takes_mail_def)
  then show ?thesis
    unfolding deliver_def by (intro keeps_get) (auto intro: keeps_enqueue split: option.split)
qed

lemma keeps_cancel_task: "preserves (cancel_team_task uuid now i k)"
proof (rule keeps_from)
  fix s
  let ?stop = "\<lambda>d. if td_task d = Some k \<and> turn_open (td_status d) then cancel_turn now d else act_return ()"
  have "preserves (each_dispatch ?stop)" by (intro rules keeps_turns)
  from keeps_then [OF this]
  have stop: "R s t \<Longrightarrow> leaves (each_dispatch ?stop) t (\<lambda>_. R s) (R s)" for t .
  show "leaves (cancel_team_task uuid now i k) s (\<lambda>_. R s) (R s)"
    by (auto simp: cancel_team_task_def leaves_idle_member R_refl split: option.split dest!: parsed_task
        intro!: R_then rewritesI leaves_mono [OF stop])
qed

lemma keeps_send_mail: "preserves (send_mail uuid now i sender receiver body parent)"
  unfolding send_mail_def send_mail_in_def by (intro keeps_transaction rules keeps_turns keeps_deliver; simp)

lemma keeps_members: "preserves (team_create uuid now input)" "preserves (team_update uuid now i expected p)"
    "preserves (add_member uuid now i minput)" "preserves (update_member uuid now i k mp)" "preserves (remove_team_member uuid now i k)"
  unfolding team_create_def team_update_def add_member_def update_member_def remove_team_member_def
  by (intro rules; simp)+

lemma keeps_runs: "preserves (start_run uuid now i input member)" "preserves (control_run uuid now i k c)"
    "preserves (recruit uuid now i parent minput)"
  unfolding start_run_def control_run_def control_run_in_def recruit_def recruit_in_def cancel_item_def
  by (intro keeps_transaction rules keeps_turns keeps_enqueue keeps_cancel_task keeps_members; simp)+

lemma keeps_defer: "preserves (defer_dispatch now k)"
proof (rule keeps_from)
  fix s
  show "leaves (defer_dispatch now k) s (\<lambda>_. R s) (R s)"
    by (auto simp: defer_dispatch_def leaves_idle_member R_refl intro!: R_then rewritesI split: option.split)
qed

lemma keeps_submitted: "preserves (submitted_dispatch now k turn)"
proof (rule keeps_from)
  fix s
  let ?read = "\<lambda>m. act_bind (act_get (\<lambda>u. act_need ''TypeError'' (jmap_get (tm_messages u) m))) (\<lambda>x.
             act_do (\<lambda>u. u\<lparr>tm_messages := jmap_set m (x\<lparr>ml_read := Some now\<rparr>) (tm_messages u)\<rparr>))"
  have "preserves (act_each ?read ms)" for ms by (intro rules)
  from keeps_then [OF this] have read: "R s t \<Longrightarrow> leaves (act_each ?read ms) t (\<lambda>_. R s) (R s)" for t ms .
  have turn: "R s (put_dispatch (d\<lparr>td_turn := x, td_submitted := y\<rparr>) s)" if "jmap_get (tm_dispatches s) k = Some d" for d x y
    by (rule R_turn, rule quietI [OF that]) simp_all
  show "leaves (submitted_dispatch now k turn) s (\<lambda>_. R s) (R s)"
    by (auto simp: submitted_dispatch_def R_refl split: option.split intro!: leaves_mono [OF read] turn R_then)
qed

lemma keeps_finish_dispatch: "preserves (finish_dispatch uuid now k e)"
  unfolding finish_dispatch_def finish_dispatch_in_def report_turn_def
  by (intro keeps_transaction rules keeps_finish_task keeps_send_mail; simp)

lemma keeps_pause: "preserves (pause_blocked uuid now k)"
  unfolding pause_blocked_def Let_def
  by (intro rules; simp split: sum.split bool.split) (intro conjI allI impI rules; simp)

lemma keeps_load: "preserves (load_dispatch now d)" "preserves (each_dispatch (drop_finished now))" "preserves (requeue_task uuid now t)"
  unfolding load_dispatch_def drop_finished_def requeue_task_def
  by (intro rules keeps_turns keeps_enqueue; simp)+

end

text \<open>A relation that does not look at turns is kept when a turn begins, too.\<close>

locale turn_blind_relation = store_relation +
  assumes R_any_turn: "R s (put_dispatch d s)"
begin

lemma keeps_begin: "preserves (begin_dispatch uuid now k)"
  unfolding begin_dispatch_def begin_turn_def
  by (intro keeps_transaction rules keeps_begin_task R_any_turn; simp)

end

section \<open>The record of operations\<close>

definition same_ledger :: "team_store \<Rightarrow> team_store \<Rightarrow> bool" where
  "same_ledger s t \<longleftrightarrow> tm_operations t = tm_operations s \<and> tm_reconciled t = tm_reconciled s"

interpretation ledger: turn_blind_relation same_ledger
  by unfold_locales
    (simp_all add: same_ledger_def put_team_def put_task_def put_mail_def put_team_run_def put_dispatch_def push_event_def team_save_def
      rolled_back_def)

lemma ledger_tasks: "ledger.preserves (queue_task uuid now i kinput parent)" "ledger.preserves (update_task uuid now i k version tp caller)"
  unfolding queue_task_def queue_task_in_def update_task_def
  by (intro ledger.keeps_transaction ledger.rules ledger.keeps_turns ledger.keeps_enqueue; simp add: same_ledger_def put_task_def)+

lemma ledger_leaves: "ledger.preserves m \<Longrightarrow> leaves m s (\<lambda>_. same_ledger s) (same_ledger s)"
  by (auto simp: leaves_def ledger.preserves_def split: prod.split sum.split) (metis snd_conv)+

lemma ledger_tool: "ledger.preserves (tool_act uuid now i c)"
  unfolding tool_act_def
  by (cases c) (simp_all, (intro conjI impI ledger.rules ledger.keeps_members ledger_tasks ledger.keeps_runs ledger.keeps_send_mail)+)

text \<open>Every change of the record is saved at once: the record in memory is the one in the file.\<close>

definition filed :: "team_store \<Rightarrow> (string \<times> string \<times> team_result) list" where
  "filed s = (case tm_disk s of None \<Rightarrow> [] | Some d \<Rightarrow> dc_operations d)"

definition ledger_saved :: "team_store \<Rightarrow> bool" where
  "ledger_saved s \<longleftrightarrow> distinct (jkeys (tm_operations s)) \<and> tm_operations s = filed s \<and> \<not> tm_batch s"

lemma filed_save: "\<not> tm_batch s \<Longrightarrow> filed (team_save s) = tm_operations s"
  by (simp add: filed_def team_save_def team_document_of_def)

lemma saved_step:
  assumes "calm m" "tidy m" "ledger.preserves m" "ledger_saved s"
  shows "ledger_saved (snd (m s))"
proof -
  have b: "\<not> tm_batch s" using assms(4) by (simp add: ledger_saved_def)
  have "tm_operations (snd (m s)) = tm_operations s" using assms(3) by (simp add: ledger.preserves_def same_ledger_def)
  moreover have "tm_batch (snd (m s)) = tm_batch s" using assms(1) by (simp add: calm_def)
  moreover have "tm_disk (snd (m s)) = tm_disk s \<or> tm_disk (snd (m s)) = Some (team_document_of (snd (m s)))"
    using assms(2) b by (simp add: tidy_def)
  ultimately show ?thesis using assms(4) by (auto simp: ledger_saved_def filed_def team_document_of_def)
qed

text \<open>What a call makes of the record: an operation adds an entry, the removal of a team drops those of the team.\<close>

lemma operation_cases:
  assumes "calm m" "ledger.preserves m" "\<not> tm_batch s" "team_operation i input m s = (r, t)"
  shows "(\<exists>e. r = Inl e \<and> t = s\<lparr>tm_drawn := tm_drawn t\<rparr>) \<or>
    (\<exists>a. r = Inr a \<and> t = s \<and> jmap_get (tm_operations s) i = Some (input, a) \<and> operation_id_ok i) \<or>
    (\<exists>a. r = Inr a \<and> jmap_get (tm_operations s) i = None \<and> tm_operations t = jmap_set i (input, a) (tm_operations s) \<and>
       filed t = tm_operations t \<and> \<not> tm_batch t \<and> operation_id_ok i)"
proof (cases "operation_id_ok i \<and> jmap_get (tm_operations s) i = None")
  case False
  with assms(4) show ?thesis
    by (auto simp: team_operation_def act_seq_def act_bind_def act_check_def act_get_def act_return_def act_fail_def split: option.splits if_splits)
next
  case True
  obtain x u where m: "m (s\<lparr>tm_batch := True\<rparr>) = (x, u)" by (cases "m (s\<lparr>tm_batch := True\<rparr>)")
  have u: "tm_operations u = tm_operations s" "tm_reconciled u = tm_reconciled s"
    using ledger.keepsD [OF assms(2) m] by (simp_all add: same_ledger_def)
  have d: "tm_disk u = tm_disk s" using assms(1) [unfolded calm_def, rule_format, of "s\<lparr>tm_batch := True\<rparr>"] m by simp
  show ?thesis
  proof (cases x)
    case (Inl e)
    with True m assms(4) have "r = Inl e" "t = rolled_back s u"
      by (simp_all add: team_operation_def transaction_def act_seq_def act_bind_def act_check_def act_get_def act_return_def assms(3))
    with u d assms(3) show ?thesis by (simp add: rolled_back_def)
  next
    case (Inr a)
    with True m assms(4) have t: "r = Inr a" "t = team_save (u\<lparr>tm_operations := jmap_set i (input, a) (tm_operations u), tm_batch := False\<rparr>)"
      by (simp_all add: team_operation_def transaction_def act_seq_def act_bind_def act_check_def act_get_def act_return_def act_do_def assms(3))
    have "filed t = tm_operations t" unfolding t(2) by (subst filed_save) (simp_all add: team_save_def)
    moreover have "tm_operations t = jmap_set i (input, a) (tm_operations s)" "\<not> tm_batch t" unfolding t(2) u(1) by (simp_all add: team_save_def u(1))
    ultimately show ?thesis using True t(1) by simp
  qed
qed

text \<open>C3. A tool call of a session that throws changes nothing at all, neither in memory nor in the file, whatever it had done
  before the throw; only random ids were used up.\<close>

theorem failed_tool_changes_nothing:
  assumes "inj uuid" "team_reach uuid s" "team_operation op input (tool_act uuid now i c) s = (Inl e, t)"
  shows "t = s\<lparr>tm_drawn := tm_drawn t\<rparr>"
proof -
  have "\<not> tm_batch s" using team_reach_good [OF assms(1,2)] by (simp add: team_good_def)
  from operation_cases [OF calm_tool ledger_tool this assms(3)] show ?thesis by auto
qed


lemma drawn_only: "t = s\<lparr>tm_drawn := n\<rparr> \<Longrightarrow> tm_tasks t = tm_tasks s \<and> tm_runs t = tm_runs s"
  by simp

theorem failed_tool_changes_nothing_witness:
  "let s = calls_after sample_uuid [Call_Control ''team-'' ''team-run-xxxxx'' Control_Cancel] sample_store;
       r = team_operation ''team-:1'' ''task'' (tool_act sample_uuid 5 ''team-'' (Tool_Task
         \<lparr>ki_member = ''member-x'', ki_title = ''Plan'', ki_input = ''go'', ki_depends = [], ki_creator = None\<rparr> ''team-dispatch-xxxxxxx'')) s
   in fst r = Inl ''team_dispatch_expired'' \<and> tm_tasks (snd r) = tm_tasks s \<and> tm_runs (snd r) = tm_runs s"
proof -
  let ?s = "calls_after sample_uuid [Call_Control ''team-'' ''team-run-xxxxx'' Control_Cancel] sample_store"
  let ?r = "team_operation ''team-:1'' ''task'' (tool_act sample_uuid 5 ''team-'' (Tool_Task
         \<lparr>ki_member = ''member-x'', ki_title = ''Plan'', ki_input = ''go'', ki_depends = [], ki_creator = None\<rparr> ''team-dispatch-xxxxxxx'')) ?s"
  have e: "fst ?r = Inl ''team_dispatch_expired''" by code_simp
  then have r: "?r = (Inl ''team_dispatch_expired'', snd ?r)" by (metis prod.collapse)
  from failed_tool_changes_nothing [OF inj_sample reach_calls [OF reach_sample] r]
  have "tm_tasks (snd ?r) = tm_tasks ?s \<and> tm_runs (snd ?r) = tm_runs ?s" by (rule drawn_only)
  with e show ?thesis unfolding Let_def by (rule conjI)
qed

lemma delete_record:
  "tm_operations (snd (team_delete uuid now i s)) = tm_operations s \<or>
   tm_operations (snd (team_delete uuid now i s)) = filter (\<lambda>p. take (length i + 1) (fst p) \<noteq> i @ '':'') (tm_operations s)"
proof -
  have "leaves (team_delete uuid now i) s (\<lambda>_ t. tm_operations t = tm_operations s \<or>
      tm_operations t = filter (\<lambda>p. take (length i + 1) (fst p) \<noteq> i @ '':'') (tm_operations s)) (\<lambda>t. tm_operations t = tm_operations s \<or>
      tm_operations t = filter (\<lambda>p. take (length i + 1) (fst p) \<noteq> i @ '':'') (tm_operations s))"
    by (auto simp: team_delete_def team_forgotten_def push_event_def team_save_def split: option.split)
  from leaves_state [OF this] show ?thesis .
qed

definition forgets :: "string \<Rightarrow> store_call \<Rightarrow> bool" where
  "forgets op c \<longleftrightarrow> (case c of Call_Delete i \<Rightarrow> take (length i + 1) op = i @ '':'' | _ \<Rightarrow> False)"

lemma ledger_acknowledge: "tm_operations (snd (team_acknowledge k s)) = tm_operations s"
proof -
  have "leaves (team_acknowledge k) s (\<lambda>_ t. tm_operations t = tm_operations s) (\<lambda>t. tm_operations t = tm_operations s)"
    by (auto simp: team_acknowledge_def mark_reconciled_def team_save_def split: option.split)
  from leaves_state [OF this] show ?thesis .
qed

lemma ignoring_keeps:
  "calm m \<Longrightarrow> calm (ignoring m)" "tidy m \<Longrightarrow> tidy (ignoring m)" "ledger.preserves m \<Longrightarrow> ledger.preserves (ignoring m)"
  unfolding ignoring_def by ((intro calm_intros; simp) | (rule tidy_after(1) [of m "\<lambda>_. ()"]; simp) | (intro ledger.rules; simp))+

lemma ignoring_state [simp]: "snd (ignoring m s) = snd (m s)"
  by (simp add: ignoring_def act_bind_def act_return_def split: prod.split sum.split)

definition orderly :: "unit tact \<Rightarrow> bool" where
  "orderly m \<longleftrightarrow> calm m \<and> tidy m \<and> ledger.preserves m"

lemma orderlyI: "calm m \<Longrightarrow> tidy m \<Longrightarrow> ledger.preserves m \<Longrightarrow> orderly (ignoring m)" "calm n \<Longrightarrow> tidy n \<Longrightarrow> ledger.preserves n \<Longrightarrow> orderly n"
  by (simp_all add: orderly_def ignoring_keeps)

lemma orderly_calls:
  "(case c of Call_Delete i \<Rightarrow> True | Call_Operation op input i tool \<Rightarrow> True | Call_Pause_Blocked \<Rightarrow> True | Call_Acknowledge k \<Rightarrow> True
    | _ \<Rightarrow> orderly (call_act uuid now c))"
  by (cases c)
    (simp_all add: call_act_def orderlyI calm_methods calm_control calm_add_member calm_cancel_task calm_send_mail tidy_team_create
      tidy_team_update tidy_members tidy_tasks tidy_mail tidy_control tidy_begin tidy_submitted tidy_defer ledger.keeps_members ledger_tasks ledger.keeps_cancel_task
      ledger.keeps_send_mail ledger.keeps_runs ledger.keeps_begin ledger.keeps_submitted ledger.keeps_defer ledger.keeps_finish_dispatch)

lemma orderly_record:
  assumes "orderly m" "ledger_saved s"
  shows "ledger_saved (snd (m s)) \<and> tm_operations (snd (m s)) = tm_operations s"
  using saved_step [of m s] assms by (simp add: orderly_def ledger.preserves_def same_ledger_def)

lemma get_filtered: "jmap_get m k = Some v \<Longrightarrow> P (k, v) \<Longrightarrow> jmap_get (filter (\<lambda>p. P (fst p, snd p)) m) k = Some v"
  by (induction m) (auto split: if_splits)

text \<open>The record after a call.\<close>

lemma delete_saved:
  assumes "ledger_saved s"
  shows "ledger_saved (snd (team_delete uuid now i s))"
proof -
  have "leaves (team_delete uuid now i) s (\<lambda>_. ledger_saved) ledger_saved"
    using assms by (auto simp: team_delete_def team_forgotten_def push_event_def team_save_def ledger_saved_def filed_def team_document_of_def
      distinct_map_filter split: option.split)
  from leaves_state [OF this] show ?thesis .
qed

lemma pause_saved:
  assumes "ledger_saved s"
  shows "ledger_saved (snd (pause_blocked_runs uuid now s)) \<and> tm_operations (snd (pause_blocked_runs uuid now s)) = tm_operations s"
proof -
  have one: "orderly (pause_blocked uuid now k)" for k
    unfolding orderly_def using calm_pause(1) tidy_pause ledger.keeps_pause by blast
  let ?P = "\<lambda>t. ledger_saved t \<and> tm_operations t = tm_operations s"
  have "leaves (pause_blocked_runs uuid now) s (\<lambda>_. ?P) ?P"
    unfolding pause_blocked_runs_def
  proof (simp only: leaves_get, rule leaves_each)
    show "leaves (pause_blocked uuid now k) t (\<lambda>_. ?P) ?P" if "?P t" for k t
      using orderly_record [OF one, of t k] that
      by (cases "pause_blocked uuid now k t") (auto simp: leaves_def split: sum.split)
  qed (use assms in simp)
  from leaves_state [OF this] show ?thesis .
qed

lemma record_operation:
  assumes "ledger_saved s"
  shows "ledger_saved (snd (team_operation i input (tool_act uuid now j c) s)) \<and>
    (jmap_get (tm_operations s) k = Some v \<longrightarrow>
      jmap_get (tm_operations (snd (team_operation i input (tool_act uuid now j c) s))) k = Some v)"
proof -
  obtain r t where t: "team_operation i input (tool_act uuid now j c) s = (r, t)"
    by (cases "team_operation i input (tool_act uuid now j c) s")
  have b: "\<not> tm_batch s" using assms by (simp add: ledger_saved_def)
  have draw: "ledger_saved (s\<lparr>tm_drawn := n\<rparr>) = ledger_saved s" for n by (simp add: ledger_saved_def filed_def)
  from operation_cases [OF calm_tool ledger_tool b t] consider n where "t = s\<lparr>tm_drawn := n\<rparr>"
    | a where "jmap_get (tm_operations s) i = None" "tm_operations t = jmap_set i (input, a) (tm_operations s)"
      "filed t = tm_operations t" "\<not> tm_batch t"
    by (metis (no_types, lifting) team_store.surjective team_store.update_convs(11))
  then show ?thesis
  proof cases
    case 1
    with t assms draw show ?thesis by simp
  next
    case 2
    have "distinct (jkeys (tm_operations s))" using assms unfolding ledger_saved_def by (rule conjunct1)
    then have "distinct (jkeys (tm_operations t))" unfolding 2(2) by simp
    with t 2 show ?thesis by (auto simp: ledger_saved_def jmap_simps)
  qed
qed

lemma acknowledge_saved: "ledger_saved s \<Longrightarrow> ledger_saved (snd (team_acknowledge k s))"
proof -
  assume s: "ledger_saved s"
  have "leaves (team_acknowledge k) s (\<lambda>_. ledger_saved) ledger_saved"
    using s by (auto simp: team_acknowledge_def mark_reconciled_def team_save_def ledger_saved_def filed_def team_document_of_def split: option.split)
  from leaves_state [OF this] show ?thesis .
qed

lemma call_record:
  assumes "ledger_saved s"
  shows "ledger_saved (team_after uuid now c s) \<and>
    (jmap_get (tm_operations s) op = Some v \<longrightarrow> \<not> forgets op c \<longrightarrow> jmap_get (tm_operations (team_after uuid now c s)) op = Some v)"
proof (cases "orderly (call_act uuid now c)")
  case True
  from orderly_record [OF this assms] show ?thesis by (simp add: team_after_def)
next
  case False
  with orderly_calls [of uuid now c] consider i where "c = Call_Delete i" | x y i z where "c = Call_Operation x y i z"
    | "c = Call_Pause_Blocked" | k where "c = Call_Acknowledge k"
    by (cases c) simp_all
  then show ?thesis
  proof cases
    case (1 i)
    have "jmap_get (tm_operations (snd (team_delete uuid now i s))) op = Some v"
      if "jmap_get (tm_operations s) op = Some v" "\<not> forgets op c"
      using delete_record [of uuid now i s] get_filtered [of "tm_operations s" op v "\<lambda>p. take (length i + 1) (fst p) \<noteq> i @ '':''"] that 1
      by (auto simp: forgets_def)
    with delete_saved [OF assms] 1 show ?thesis by (simp add: team_after_def call_act_def)
  next
    case 2
    with record_operation [OF assms] show ?thesis by (simp add: team_after_def call_act_def)
  next
    case 3
    with pause_saved [OF assms] show ?thesis by (simp add: team_after_def call_act_def)
  next
    case 4
    with acknowledge_saved [OF assms] ledger_acknowledge show ?thesis by (simp add: team_after_def call_act_def)
  qed
qed

text \<open>The record after a restart.\<close>

lemma load_record:
  "leaves (load_document uuid now d) (empty_team_store n disk)
    (\<lambda>_ t. tm_operations t = fold (\<lambda>p. jmap_set (fst p) (snd p)) (dc_operations d) []) (\<lambda>_. True)"
proof -
  let ?P = "\<lambda>t. tm_operations t = fold (\<lambda>p. jmap_set (fst p) (snd p)) (dc_operations d) []"
  have first: "leaves (act_each (load_dispatch now) ds) s (\<lambda>_. ?P) (\<lambda>_. True)" if "?P s" for ds s
    by (rule leaves_mono [OF ledger_leaves]) (use that in \<open>simp_all add: same_ledger_def ledger.keeps_each ledger.keeps_load\<close>)
  have drop: "leaves (each_dispatch (drop_finished now)) s (\<lambda>_. ?P) (\<lambda>_. True)" if "?P s" for s
    by (rule leaves_mono [OF ledger_leaves [OF ledger.keeps_load(2)]]) (use that in \<open>simp_all add: same_ledger_def\<close>)
  have last: "leaves (act_any (requeue_task uuid now) ts) s (\<lambda>_. ?P) (\<lambda>_. True)" if "?P s" for ts s
    by (rule leaves_any [where P = ?P, OF that], rule leaves_mono [OF ledger_leaves [OF ledger.keeps_load(3)]]) (simp_all add: same_ledger_def)
  show ?thesis unfolding load_document_def
    by (simp, rule leaves_mono [OF first], simp, rule leaves_mono [OF drop], simp, rule leaves_mono [OF last], simp)
       (simp_all add: team_save_def)
qed

lemma open_record:
  assumes "ledger_saved s" "open_team_store uuid now (tm_drawn s) (tm_disk s) = Inr t"
  shows "ledger_saved t \<and> tm_operations t = tm_operations s"
proof (cases "tm_disk s")
  case None
  with assms have "t = empty_team_store (tm_drawn s) None" by (simp add: open_team_store_def)
  with None assms(1) show ?thesis by (simp add: empty_team_store_def ledger_saved_def filed_def)
next
  case (Some d)
  let ?e = "empty_team_store (tm_drawn s) (tm_disk s)"
  from assms(2) Some obtain p where p: "parse_document d = Some p" "load_document uuid now p ?e = (Inr (), t)"
    by (auto simp: open_team_store_def split: option.splits prod.splits sum.splits)
  have dc: "dc_operations p = tm_operations s"
    using p(1) Some assms(1) by (auto simp: parse_document_def ledger_saved_def filed_def split: option.splits if_splits)
  have dist: "distinct (map fst (tm_operations s))" using assms(1) unfolding ledger_saved_def by (rule conjunct1)
  from leaves_result [OF load_record p(2)] have ops: "tm_operations t = tm_operations s"
    unfolding dc using fold_put_keyed [of fst "tm_operations s" "[]" snd] dist by simp
  have e: "\<not> tm_batch ?e" "tm_disk ?e = tm_disk s" by (simp_all add: empty_team_store_def)
  from tidy_load [of uuid now p, unfolded tidy_def, rule_format, OF e(1)] p(2) e
  have disk: "tm_disk t = tm_disk s \<or> tm_disk t = Some (team_document_of t)" by simp
  have batch: "\<not> tm_batch t" using calm_load [of uuid now p, unfolded calm_def, rule_format, of ?e] p(2) e by simp
  from disk batch ops assms(1) show ?thesis by (auto simp: ledger_saved_def filed_def team_document_of_def)
qed

lemma reach_saved: "team_reach uuid s \<Longrightarrow> ledger_saved s"
proof (induction rule: team_reach.induct)
  case first_start
  show ?case by (simp add: ledger_saved_def filed_def empty_team_store_def)
next
  case (some_call s now c)
  from call_record [OF some_call.IH] show ?case by blast
next
  case (team_restart s now t)
  from open_record [OF team_restart.IH team_restart.hyps(2)] show ?case by blast
qed

section \<open>Repeated calls\<close>

text \<open>The states after calls and restarts, as long as the team that an operation belongs to is not removed.\<close>

inductive team_path :: "(nat \<Rightarrow> string) \<Rightarrow> string \<Rightarrow> team_store \<Rightarrow> team_store \<Rightarrow> bool" for uuid op s where
  path_here: "team_path uuid op s s"
| path_call: "team_path uuid op s t \<Longrightarrow> \<not> forgets op c \<Longrightarrow> team_path uuid op s (team_after uuid now c t)"
| path_restart: "team_path uuid op s t \<Longrightarrow> open_team_store uuid now (tm_drawn t) (tm_disk t) = Inr u \<Longrightarrow> team_path uuid op s u"

lemma path_record:
  assumes "team_path uuid op s t" "ledger_saved s" "jmap_get (tm_operations s) op = Some v"
  shows "ledger_saved t \<and> jmap_get (tm_operations t) op = Some v"
  using assms(1)
proof induction
  case path_here
  from assms(2,3) show ?case ..
next
  case (path_call t c now)
  with call_record [of t uuid now c op v] show ?case by blast
next
  case (path_restart t now u)
  with open_record [of t uuid now u] show ?case by simp
qed

lemma repeated_operation:
  assumes "jmap_get (tm_operations s) op = Some (input, a)" "operation_id_ok op"
  shows "team_operation op other m s = (if other = input then Inr a else Inl ''operation_id_conflict'', s)"
  using assms by (auto simp: team_operation_def act_seq_def act_bind_def act_check_def act_get_def act_return_def act_fail_def)

text \<open>C2. A tool call that succeeded is made once: whatever calls and restarts follow, as long as the team is not removed, the same
  operation id with the same input gives the recorded result again and changes nothing, whatever the tool would do now, and with
  another input it is refused.\<close>

theorem tool_call_made_once:
  assumes "inj uuid" "team_reach uuid s" "team_operation op input (tool_act uuid now i c) s = (Inr a, t)" "team_path uuid op t u"
  shows "team_operation op other (tool_act uuid later j d) u = (if other = input then Inr a else Inl ''operation_id_conflict'', u)"
proof -
  have saved: "ledger_saved s" by (rule reach_saved [OF assms(2)])
  then have b: "\<not> tm_batch s" by (simp add: ledger_saved_def)
  from operation_cases [OF calm_tool ledger_tool b assms(3)]
  have op: "jmap_get (tm_operations t) op = Some (input, a)" "operation_id_ok op" by (auto simp: jmap_simps)
  have "ledger_saved t" using record_operation [OF saved, of op input uuid now i c] assms(3) by simp
  from path_record [OF assms(4) this op(1)] op(2) show ?thesis by (intro repeated_operation) simp_all
qed

theorem tool_call_made_once_witness:
  "let r = team_operation ''team-:1'' ''rename'' (tool_act sample_uuid 5 ''team-'' (Tool_Rename 1 ''New'')) sample_store;
       u = team_after sample_uuid 6 (Call_Update ''team-'' 2 \<lparr>tp_name = Some ''Other'', tp_mode = None, tp_members = None\<rparr>) (snd r)
   in team_operation ''team-:1'' ''rename'' (tool_act sample_uuid 7 ''team-'' (Tool_Rename 1 ''New'')) u = (fst r, u) \<and>
     map_option tt_version (jmap_get (tm_teams u) ''team-'') = Some 3"
proof -
  let ?r = "team_operation ''team-:1'' ''rename'' (tool_act sample_uuid 5 ''team-'' (Tool_Rename 1 ''New'')) sample_store"
  let ?c = "Call_Update ''team-'' 2 \<lparr>tp_name = Some ''Other'', tp_mode = None, tp_members = None\<rparr>"
  let ?u = "team_after sample_uuid 6 ?c (snd ?r)"
  have v: "map_option tt_version (jmap_get (tm_teams ?u) ''team-'') = Some 3" "\<not> isl (fst ?r)" by code_simp+
  then obtain a where r: "?r = (Inr a, snd ?r)" by (metis prod.collapse sum.collapse(2))
  have p: "team_path sample_uuid ''team-:1'' (snd ?r) ?u"
    by (rule path_call [OF path_here]) (simp add: forgets_def)
  have q: "fst ?r = Inr a" using arg_cong [OF r, of fst] by (simp only: fst_conv)
  from tool_call_made_once [OF inj_sample reach_sample r p, of "''rename''" 7 "''team-''" "Tool_Rename 1 ''New''"]
  have "team_operation ''team-:1'' ''rename'' (tool_act sample_uuid 7 ''team-'' (Tool_Rename 1 ''New'')) ?u = (fst ?r, ?u)"
    unfolding q by (simp only: simp_thms if_True)
  from this v(1) show ?thesis unfolding Let_def by (rule conjI)
qed

end
