(* ===== verification/Team_Guarantees.thy ===== *)
theory Team_Guarantees
  imports Team_Operations
begin

text \<open>
  What the team service guarantees in every state it reaches, whatever the order of the calls and however often
  it is restarted.
\<close>

section \<open>Members, tasks and turns\<close>

definition running_turns :: "string \<Rightarrow> string \<Rightarrow> team_store \<Rightarrow> team_dispatch list" where
  "running_turns i k s = filter (\<lambda>d. td_status d = Turn_Running \<and> td_team d = i \<and> td_member d = k) (team_dispatches s)"

definition open_turns :: "string \<Rightarrow> team_store \<Rightarrow> team_dispatch list" where
  "open_turns y s = filter (\<lambda>d. td_task d = Some y \<and> turn_open (td_status d)) (team_dispatches s)"

lemma reach_inv:
  assumes "inj uuid" "team_reach uuid s"
  shows "team_inv uuid s"
  using team_reach_good [OF assms] by (simp add: team_good_def)

lemma stored_dispatch: "team_inv uuid s \<Longrightarrow> d \<in> set (team_dispatches s) \<longleftrightarrow> jmap_get (tm_dispatches s) (td_id d) = Some d"
  by (auto simp: dispatch_values) (force simp: team_dispatches_def dest: map_of_SomeD)

lemma turn_of_dispatch:
  assumes "team_inv uuid s" "d \<in> set (team_dispatches s)"
  shows "wk_turn (work_of s) (td_id d) = Some (td_status d, td_team d, td_run d, td_member d, td_task d)"
  using assms stored_dispatch by (auto simp: work_of_fields turn_view_def)

lemma dispatch_of_turn:
  assumes "team_inv uuid s" "wk_turn (work_of s) k = Some (st, i, r, m, x)"
  shows "\<exists>d \<in> set (team_dispatches s). td_id d = k \<and> td_status d = st \<and> td_team d = i \<and> td_run d = r \<and> td_member d = m \<and> td_task d = x"
proof -
  from assms(2) obtain d where d: "jmap_get (tm_dispatches s) k = Some d" "turn_view d = (st, i, r, m, x)"
    by (auto simp: work_of_fields)
  from inv_ids(4) [OF assms(1) d(1)] d have "td_id d = k" "d \<in> set (team_dispatches s)"
    unfolding stored_dispatch [OF assms(1)] by simp_all
  with d(2) show ?thesis by (auto simp: turn_view_def)
qed

lemma keyed_ids:
  assumes "keyed f m"
  shows "distinct (map f (map snd m))"
proof -
  have "map f (map snd m) = jkeys m" using assms by (auto simp: keyed_def)
  moreover have "distinct (jkeys m)" using assms by (simp add: keyed_def)
  ultimately show ?thesis by (simp only:)
qed

lemma dispatches_distinct: "team_inv uuid s \<Longrightarrow> distinct (map td_id (team_dispatches s))"
  unfolding team_dispatches_def by (rule keyed_ids) (simp add: ids_ok_def team_inv_def)

text \<open>A filtered list without two different elements, counted.\<close>

lemma filter_unique:
  assumes "distinct xs" "\<And>x y. x \<in> set xs \<Longrightarrow> y \<in> set xs \<Longrightarrow> P x \<Longrightarrow> P y \<Longrightarrow> x = y"
  shows "length (filter P xs) = (if \<exists>x \<in> set xs. P x then 1 else 0)"
  using assms
proof (induction xs)
  case (Cons a xs)
  have "filter P xs = []" if a: "P a"
  proof (unfold filter_empty_conv, intro ballI notI)
    fix x assume "x \<in> set xs" "P x"
    with Cons.prems(1) Cons.prems(2) [of x a] a show False by simp
  qed
  with Cons show ?case by simp
qed simp

lemma turns_unique:
  assumes "team_inv uuid s"
    and "\<And>d e. P d \<Longrightarrow> P e \<Longrightarrow> d \<in> set (team_dispatches s) \<Longrightarrow> e \<in> set (team_dispatches s) \<Longrightarrow> td_id d = td_id e"
  shows "length (filter P (team_dispatches s)) = (if \<exists>d \<in> set (team_dispatches s). P d then 1 else 0)"
proof (rule filter_unique)
  show "distinct (team_dispatches s)" using dispatches_distinct [OF assms(1)] unfolding distinct_map ..
  show "d = e" if "d \<in> set (team_dispatches s)" "e \<in> set (team_dispatches s)" "P d" "P e" for d e
    using assms(2) [OF that(3,4,1,2)] that(1,2) [unfolded stored_dispatch [OF assms(1)]] by (metis option.inject)
qed

text \<open>C1. However its calls are ordered and whenever it is restarted, the service shows a member as running exactly
  while one turn of this member in this team is running, and never has two running turns of a member.\<close>

theorem member_runs_one_turn:
  assumes "inj uuid" "team_reach uuid s" "jmap_get (tm_teams s) i = Some t" "find_member t k = Some m"
  shows "length (running_turns i k s) = (if tb_status m = Member_Running then 1 else 0)"
proof -
  note inv = reach_inv [OF assms(1,2)]
  note turns = turns_okD [OF work_okD(1) [OF team_invD(1) [OF inv]]]
  have status: "wk_status (work_of s) i k = Some (tb_status m)" using assms(3,4) by (simp add: work_of_fields member_status_of_def)
  have "tb_status m = Member_Running" if "d \<in> set (team_dispatches s)" "td_status d = Turn_Running" "td_team d = i" "td_member d = k" for d
    using turns(3) [of "td_id d" i "td_run d" k "td_task d"] turn_of_dispatch [OF inv that(1)] that(2-) status by simp
  moreover have "\<exists>d \<in> set (team_dispatches s). td_status d = Turn_Running \<and> td_team d = i \<and> td_member d = k" if "tb_status m = Member_Running"
  proof -
    from turns(5) [of i k] status that obtain l r x where "wk_turn (work_of s) l = Some (Turn_Running, i, r, k, x)" by auto
    from dispatch_of_turn [OF inv this] show ?thesis by blast
  qed
  moreover have "length (running_turns i k s) =
      (if \<exists>d \<in> set (team_dispatches s). td_status d = Turn_Running \<and> td_team d = i \<and> td_member d = k then 1 else 0)"
    unfolding running_turns_def
  proof (rule turns_unique [OF inv])
    fix d e assume "td_status d = Turn_Running \<and> td_team d = i \<and> td_member d = k" "td_status e = Turn_Running \<and> td_team e = i \<and> td_member e = k"
      "d \<in> set (team_dispatches s)" "e \<in> set (team_dispatches s)"
    with turns(4) [of "td_id d" i "td_run d" k "td_task d" "td_id e" "td_run e" "td_task e"] turn_of_dispatch [OF inv, of d]
      turn_of_dispatch [OF inv, of e] show "td_id d = td_id e" by simp
  qed
  ultimately show ?thesis by auto
qed

theorem member_runs_one_turn_witness:
  "length (running_turns ''team-'' ''member-x'' sample_store) = 1 \<and>
   map_option (\<lambda>t. map_option tb_status (find_member t ''member-x'')) (jmap_get (tm_teams sample_store) ''team-'') =
     Some (Some Member_Running)"
proof -
  have s: "map_option (\<lambda>t. map_option tb_status (find_member t ''member-x'')) (jmap_get (tm_teams sample_store) ''team-'') =
     Some (Some Member_Running)" by code_simp
  then obtain t m where t: "jmap_get (tm_teams sample_store) ''team-'' = Some t" "find_member t ''member-x'' = Some m" "tb_status m = Member_Running"
    by auto
  from member_runs_one_turn [OF inj_sample reach_sample t(1,2)] t(3) s show ?thesis by simp
qed

text \<open>C7. A task is worked on by at most one turn that is queued or running, whose team and member are those of the task; and a
  task that runs has a running turn.\<close>

theorem task_has_one_turn:
  assumes "inj uuid" "team_reach uuid s" "jmap_get (tm_tasks s) y = Some x"
  shows "length (open_turns y s) \<le> 1 \<and>
    list_all (\<lambda>d. td_team d = tk_team x \<and> td_member d = tk_member x) (open_turns y s) \<and>
    (tk_status x \<noteq> Task_Running \<or> map td_status (open_turns y s) = [Turn_Running])"
proof -
  note inv = reach_inv [OF assms(1,2)]
  note tasks = tasks_okD [OF work_okD(3) [OF team_invD(1) [OF inv]]]
  note turn = turn_of_dispatch [OF inv]
  let ?P = "\<lambda>d. td_task d = Some y \<and> turn_open (td_status d)"
  have task: "wk_task (work_of s) y = Some (tk_status x, tk_team x, tk_member x)" using assms(3) by (simp add: work_of_fields task_view_def)
  have one: "length (open_turns y s) = (if \<exists>d \<in> set (team_dispatches s). ?P d then 1 else 0)"
    unfolding open_turns_def
  proof (rule turns_unique [OF inv])
    fix d e assume "?P d" "?P e" "d \<in> set (team_dispatches s)" "e \<in> set (team_dispatches s)"
    with tasks(3) [of "td_id d" "td_status d" "td_team d" "td_run d" "td_member d" y "td_id e" "td_status e" "td_team e" "td_run e" "td_member e"]
      turn [of d] turn [of e] show "td_id d = td_id e" by simp
  qed
  have own: "td_team d = tk_team x \<and> td_member d = tk_member x" if "d \<in> set (open_turns y s)" for d
    using tasks(2) [of "td_id d" "td_status d" "td_team d" "td_run d" "td_member d" y] turn [of d] that task by (auto simp: open_turns_def)
  have run: "map td_status (open_turns y s) = [Turn_Running]" if r: "tk_status x = Task_Running"
  proof -
    from tasks(1) [of y "tk_team x" "tk_member x"] task r obtain k q where
      "wk_turn (work_of s) k = Some (Turn_Running, tk_team x, q, tk_member x, Some y)" by auto
    from dispatch_of_turn [OF inv this] obtain d where d: "d \<in> set (open_turns y s)" "td_status d = Turn_Running"
      by (auto simp: open_turns_def)
    with one have "length (open_turns y s) = 1" by (auto simp: open_turns_def split: if_splits)
    with d show ?thesis by (auto simp: length_Suc_conv)
  qed
  show ?thesis using one own run by (auto simp: list_all_iff)
qed

theorem task_has_one_turn_witness:
  "map_option tk_status (jmap_get (tm_tasks sample_store) ''team-task-xxxx'') = Some Task_Running \<and>
   map td_status (open_turns ''team-task-xxxx'' sample_store) = [Turn_Running]"
proof -
  have s: "map_option tk_status (jmap_get (tm_tasks sample_store) ''team-task-xxxx'') = Some Task_Running" by code_simp
  then obtain x where x: "jmap_get (tm_tasks sample_store) ''team-task-xxxx'' = Some x" "tk_status x = Task_Running" by auto
  from task_has_one_turn [OF inj_sample reach_sample x(1)] x s show ?thesis by simp
qed

text \<open>C8. A team never has two runs that are neither completed nor cancelled.\<close>

theorem one_open_run:
  assumes "inj uuid" "team_reach uuid s"
  shows "length (filter (\<lambda>r. tr_team r = i \<and> \<not> run_over (tr_status r)) (map snd (tm_runs s))) \<le> 1"
proof -
  note inv = reach_inv [OF assms]
  let ?rs = "map snd (tm_runs s)"
  have keyed: "keyed tr_id (tm_runs s)" using team_invD(2) [OF inv] by (simp add: ids_ok_def)
  then have dist: "distinct (map tr_id ?rs)" by (rule keyed_ids)
  have stored: "wk_run (work_of s) (tr_id r) = Some (run_over (tr_status r), tr_team r)" if "r \<in> set ?rs" for r
    using run_values [OF inv that] by (simp add: work_of_fields run_facts_def)
  have "length (filter (\<lambda>r. tr_team r = i \<and> \<not> run_over (tr_status r)) ?rs) =
      (if \<exists>r \<in> set ?rs. tr_team r = i \<and> \<not> run_over (tr_status r) then 1 else 0)"
  proof (rule filter_unique)
    show "distinct ?rs" using dist unfolding distinct_map ..
    show "r = q" if "r \<in> set ?rs" "q \<in> set ?rs" "tr_team r = i \<and> \<not> run_over (tr_status r)" "tr_team q = i \<and> \<not> run_over (tr_status q)" for r q
    proof -
      have "wk_run (work_of s) (tr_id r) = Some (False, i)" "wk_run (work_of s) (tr_id q) = Some (False, i)"
        using stored that by simp_all
      with work_okD(2) [OF team_invD(1) [OF inv]] have "tr_id r = tr_id q" unfolding runs_ok_def by blast
      with run_values [OF inv that(1)] run_values [OF inv that(2)] show ?thesis by (metis option.inject)
    qed
  qed
  then show ?thesis by simp
qed

theorem one_open_run_witness:
  "length (filter (\<lambda>r. tr_team r = ''team-'' \<and> \<not> run_over (tr_status r)) (map snd (tm_runs sample_store))) \<le> 1 \<and>
   map tr_status (map snd (tm_runs sample_store)) = [Run_Running]"
proof -
  have "map tr_status (map snd (tm_runs sample_store)) = [Run_Running]" by code_simp
  with one_open_run [OF inj_sample reach_sample, of "''team-''"] show ?thesis by simp
qed

lemma running_length:
  assumes "team_inv uuid s"
  shows "length (filter (\<lambda>d. td_status d = Turn_Running) (run_dispatches r s)) \<le> max_concurrent"
proof -
  let ?ds = "filter (\<lambda>d. td_status d = Turn_Running) (run_dispatches r s)"
  have fin: "finite (running_of (work_of s) r)" "card (running_of (work_of s) r) \<le> max_concurrent"
    using work_okD(4) [OF team_invD(1) [OF assms]] by (simp_all add: crowd_ok_def)
  have "td_id ` set ?ds \<subseteq> running_of (work_of s) r"
    using turn_of_dispatch [OF assms] by (auto simp: running_of_def run_dispatches_def)
  from card_mono [OF fin(1) this] have "card (td_id ` set ?ds) \<le> max_concurrent" using fin(2) by simp
  moreover have "card (td_id ` set ?ds) = length ?ds"
    using dispatches_distinct [OF assms] unfolding run_dispatches_def distinct_map
    by (subst card_image) (auto simp: distinct_card [symmetric] intro: inj_on_subset)
  ultimately show ?thesis by simp
qed



section \<open>Cancelled runs\<close>

definition stopped_turn :: "string \<Rightarrow> team_dispatch \<Rightarrow> dispatch_status" where
  "stopped_turn k d = (if td_run d = k \<and> turn_open (td_status d) then Turn_Cancelled else td_status d)"

definition has_turn_in :: "string \<Rightarrow> team_store \<Rightarrow> string \<Rightarrow> bool" where
  "has_turn_in k s y \<longleftrightarrow> list_ex (\<lambda>d. td_run d = k) (open_turns y s)"

lemma worked_iff:
  assumes "team_inv uuid s" "wk_run (work_of s) k = Some (False, i)"
  shows "worked_on k i (work_of s) y \<longleftrightarrow> has_turn_in k s y"
proof
  let ?v = "work_of s"
  assume "worked_on k i ?v y"
  then obtain l st m where "wk_turn ?v l = Some (st, i, k, m, Some y)" "turn_open st" by (auto simp: worked_on_def)
  with dispatch_of_turn [OF assms(1) this(1)] show "has_turn_in k s y" by (auto simp: has_turn_in_def open_turns_def list_ex_iff)
next
  let ?v = "work_of s"
  assume "has_turn_in k s y"
  then obtain d where d: "d \<in> set (team_dispatches s)" "td_run d = k" "td_task d = Some y" "turn_open (td_status d)"
    by (auto simp: has_turn_in_def open_turns_def list_ex_iff)
  from turn_of_dispatch [OF assms(1) d(1)] d(2-3)
  have "wk_turn ?v (td_id d) = Some (td_status d, td_team d, k, td_member d, Some y)" by simp
  moreover from turns_okD(1) [OF work_okD(1) [OF team_invD(1) [OF assms(1)]] this d(4)] assms(2) have "td_team d = i" by simp
  ultimately show "worked_on k i ?v y" using d(4) by (auto simp: worked_on_def)
qed

text \<open>A member runs only while a turn of the team runs.\<close>

lemma team_idle:
  assumes "team_inv uuid t" "jmap_get (tm_teams t) i = Some u" "\<And>l r m x. wk_turn (work_of t) l \<noteq> Some (Turn_Running, i, r, m, x)"
  shows "list_all (\<lambda>m. tb_status m \<noteq> Member_Running) (tt_members u)"
  unfolding list_all_iff
proof (intro ballI notI)
  fix m assume m: "m \<in> set (tt_members u)" and a: "tb_status m = Member_Running"
  have "distinct (map tb_id (tt_members u))" using shape_of [OF assms(1,2)] by (simp add: team_shape_def)
  from find_member_distinct [OF this m] a assms(2) have "wk_status (work_of t) i (tb_id m) = Some Member_Running"
    by (simp add: work_of_fields member_status_of_def)
  from turns_okD(5) [OF work_okD(1) [OF team_invD(1) [OF assms(1)]] this] assms(3) show False by blast
qed



section \<open>Restarts\<close>

definition no_running_turn :: "team_store \<Rightarrow> bool" where
  "no_running_turn s \<longleftrightarrow> list_all (\<lambda>d. td_status d \<noteq> Turn_Running) (team_dispatches s)"

lemma values_jmap_set: "snd ` set (jmap_set k v m) \<subseteq> insert v (snd ` set m)"
  by (induction m) auto

lemma no_running_iff: "no_running_turn s \<longleftrightarrow> (\<forall>d \<in> snd ` set (tm_dispatches s). td_status d \<noteq> Turn_Running)"
  by (auto simp: no_running_turn_def team_dispatches_def list_all_iff)

lemma no_running_put:
  assumes "no_running_turn s" "td_status d \<noteq> Turn_Running"
  shows "no_running_turn (put_dispatch d s)"
  unfolding no_running_iff
proof
  fix e assume "e \<in> snd ` set (tm_dispatches (put_dispatch d s))"
  then have "e \<in> snd ` set (jmap_set (td_id d) d (tm_dispatches s))" by (simp add: put_dispatch_def)
  from subsetD [OF values_jmap_set this] have "e = d \<or> e \<in> snd ` set (tm_dispatches s)" by (simp only: insert_iff)
  then show "td_status e \<noteq> Turn_Running"
    using assms(2) assms(1) [unfolded no_running_iff, rule_format, of e] by metis
qed

lemma no_running_other [simp]:
  "no_running_turn (put_team_run r s) = no_running_turn s" "no_running_turn (push_event uuid now i ty subject s) = no_running_turn s"
  "no_running_turn (s\<lparr>tm_drawn := n\<rparr>) = no_running_turn s" "no_running_turn (team_save s) = no_running_turn s"
  "no_running_turn (s\<lparr>tm_teams := ts\<rparr>) = no_running_turn s" "no_running_turn (s\<lparr>tm_tasks := ks\<rparr>) = no_running_turn s"
  by (simp_all add: no_running_turn_def team_dispatches_def put_team_run_def push_event_def team_save_def)

lemma no_running_load: "no_running_turn s \<Longrightarrow> leaves (load_dispatch now d) s (\<lambda>_. no_running_turn) (\<lambda>_. True)"
  by (simp add: load_dispatch_def no_running_put split: option.split)

lemma no_running_drop: "no_running_turn s \<Longrightarrow> leaves (each_dispatch (drop_finished now)) s (\<lambda>_. no_running_turn) (\<lambda>_. True)"
  unfolding each_dispatch_def
  by (simp, rule leaves_each [where P = no_running_turn]) (auto simp: drop_finished_def cancel_turn_def no_running_put split: option.split)

lemma no_running_requeue: "no_running_turn s \<Longrightarrow> leaves (requeue_task uuid now t) s (\<lambda>_. no_running_turn) (\<lambda>_. True)"
  by (auto simp: requeue_task_def ensure_run_def enqueue_def register_edge_def Let_def no_running_put new_dispatch_def max_fanout_def
      max_depth_def split: option.split)

lemma no_running_document: "leaves (load_document uuid now d) (empty_team_store n disk) (\<lambda>_. no_running_turn) (\<lambda>_. True)"
proof -
  have first: "leaves (act_each (load_dispatch now) ds) s (\<lambda>_. no_running_turn) (\<lambda>_. True)" if "no_running_turn s" for ds s
    by (rule leaves_each [where P = no_running_turn, OF that]) (rule no_running_load)
  have last: "leaves (act_any (requeue_task uuid now) ts) s (\<lambda>_. no_running_turn) (\<lambda>_. True)" if "no_running_turn s" for ts s
    by (rule leaves_any [where P = no_running_turn, OF that]) (rule no_running_requeue)
  have new: "no_running_turn (empty_team_store n disk\<lparr>tm_teams := ts, tm_runs := rs, tm_operations := os\<rparr>)" for ts rs os
    by (simp add: no_running_turn_def team_dispatches_def empty_team_store_def)
  have mid: "no_running_turn (s\<lparr>tm_messages := ms, tm_events := es, tm_sequence := q, tm_reconciled := xs\<rparr>) = no_running_turn s" for s ms es q xs
    by (simp add: no_running_turn_def team_dispatches_def)
  show ?thesis unfolding load_document_def
    by (simp, rule leaves_mono [OF first [OF new]], rule leaves_mono [OF no_running_drop], simp,
        rule leaves_mono [OF last]) (simp_all add: mid)
qed

text \<open>C5. A service that starts again from its file shows nothing as running: no turn, no task and no member.\<close>

theorem nothing_runs_after_restart:
  assumes "inj uuid" "team_reach uuid s" "open_team_store uuid now (tm_drawn s) (tm_disk s) = Inr t"
  shows "list_all (\<lambda>d. td_status d \<noteq> Turn_Running) (team_dispatches t) \<and>
    list_all (\<lambda>x. tk_status x \<noteq> Task_Running) (map snd (tm_tasks t)) \<and>
    list_all (\<lambda>u. list_all (\<lambda>m. tb_status m \<noteq> Member_Running) (tt_members u)) (map snd (tm_teams t))"
proof -
  have inv: "team_inv uuid t" by (rule reach_inv [OF assms(1) team_restart [OF assms(2,3)]])
  have quiet: "no_running_turn t"
  proof (cases "tm_disk s")
    case None
    with assms(3) show ?thesis by (auto simp: open_team_store_def empty_team_store_def no_running_turn_def team_dispatches_def)
  next
    case (Some d)
    with assms(3) obtain p where "load_document uuid now p (empty_team_store (tm_drawn s) (tm_disk s)) = (Inr (), t)"
      by (auto simp: open_team_store_def split: option.splits prod.splits sum.splits)
    from leaves_result [OF no_running_document this] show ?thesis .
  qed
  have none: "wk_turn (work_of t) l \<noteq> Some (Turn_Running, i, r, m, x)" for l i r m x
    using dispatch_of_turn [OF inv, of l Turn_Running i r m x] quiet by (auto simp: no_running_turn_def list_all_iff)
  have task: "tk_status x \<noteq> Task_Running" if x: "x \<in> set (map snd (tm_tasks t))" for x
  proof
    assume a: "tk_status x = Task_Running"
    have "jmap_get (tm_tasks t) (tk_id x) = Some x"
      using keyed_get_value [OF _ x, of tk_id] team_invD(2) [OF inv] by (simp add: ids_ok_def)
    with a have "wk_task (work_of t) (tk_id x) = Some (Task_Running, tk_team x, tk_member x)" by (simp add: work_of_fields task_view_def)
    from tasks_okD(1) [OF work_okD(3) [OF team_invD(1) [OF inv]] this] none show False by blast
  qed
  have member: "tb_status m \<noteq> Member_Running" if u: "u \<in> set (map snd (tm_teams t))" and m: "m \<in> set (tt_members u)" for u m
  proof
    assume a: "tb_status m = Member_Running"
    have g: "jmap_get (tm_teams t) (tt_id u) = Some u"
      using keyed_get_value [OF _ u, of tt_id] team_invD(2) [OF inv] by (simp add: ids_ok_def)
    have "distinct (map tb_id (tt_members u))" using shape_of [OF inv g] by (simp add: team_shape_def)
    from find_member_distinct [OF this m] a g have "wk_status (work_of t) (tt_id u) (tb_id m) = Some Member_Running"
      by (simp add: work_of_fields member_status_of_def)
    from turns_okD(5) [OF work_okD(1) [OF team_invD(1) [OF inv]] this] none show False by blast
  qed
  from quiet task member show ?thesis by (simp add: no_running_turn_def list_all_iff)
qed

theorem nothing_runs_after_restart_witness:
  "(case open_team_store sample_uuid 9 (tm_drawn sample_store) (tm_disk sample_store) of Inl e \<Rightarrow> False
    | Inr t \<Rightarrow> list_all (\<lambda>x. tk_status x \<noteq> Task_Running) (map snd (tm_tasks t)) \<and>
        map td_status (team_dispatches t) = [Turn_Interrupted])"
proof -
  have o: "(case open_team_store sample_uuid 9 (tm_drawn sample_store) (tm_disk sample_store) of Inl e \<Rightarrow> False
    | Inr t \<Rightarrow> map td_status (team_dispatches t) = [Turn_Interrupted])" by code_simp
  then obtain t where t: "open_team_store sample_uuid 9 (tm_drawn sample_store) (tm_disk sample_store) = Inr t"
    by (auto split: sum.splits)
  from nothing_runs_after_restart [OF inj_sample reach_sample t] o t show ?thesis by simp
qed

end
