(* ===== verification/Team_Dependencies.thy ===== *)
theory Team_Dependencies
  imports Team_Operations
begin

text \<open>
  The dependencies of tasks: what \<open>validateDependencies\<close> accepts, and that the tasks stored never depend on
  each other in a circle nor on a task that is gone.
\<close>

section \<open>The walk over the dependencies\<close>

definition needs :: "(string \<times> team_task) list \<Rightarrow> (string \<times> string) set" where
  "needs tasks = {(x, y). \<exists>t. jmap_get tasks x = Some t \<and> y \<in> set (tk_depends t)}"

definition task_of_team :: "(string \<times> team_task) list \<Rightarrow> string \<Rightarrow> string option \<Rightarrow> string set" where
  "task_of_team tasks i target = {y. Some y \<noteq> target \<and> (\<exists>t. jmap_get tasks y = Some t \<and> tk_team t = i)}"

lemma visit_sound:
  assumes "visit tasks i target seen xs = None"
    and "set seen \<subseteq> task_of_team tasks i target" "needs tasks `` set seen \<subseteq> set seen \<union> set xs"
  shows "\<exists>S. set seen \<union> set xs \<subseteq> S \<and> S \<subseteq> task_of_team tasks i target \<and> needs tasks `` S \<subseteq> S"
  using assms
proof (induction tasks i target seen xs rule: visit.induct)
  case (1 tasks i target seen)
  then show ?case by (intro exI [of _ "set seen"]) simp
next
  case (2 tasks i target seen x rest)
  from "2.prems"(1) have target: "Some x \<noteq> target" by (simp split: if_splits)
  show ?case
  proof (cases "x \<in> set seen")
    case True
    have "visit tasks i target seen rest = None" using "2.prems"(1) True target by simp
    moreover have "needs tasks `` set seen \<subseteq> set seen \<union> set rest" using "2.prems"(3) True by auto
    ultimately obtain S where "set seen \<union> set rest \<subseteq> S" "S \<subseteq> task_of_team tasks i target" "needs tasks `` S \<subseteq> S"
      using "2.IH"(1) [OF target True] "2.prems"(2) by blast
    with True show ?thesis by (intro exI [of _ S]) auto
  next
    case False
    with "2.prems"(1) target obtain t where t: "jmap_get tasks x = Some t" "tk_team t = i"
        "visit tasks i target (x # seen) (tk_depends t @ rest) = None"
      by (auto split: option.splits if_splits)
    have x: "x \<in> task_of_team tasks i target" using t target by (simp add: task_of_team_def)
    have "needs tasks `` {x} = set (tk_depends t)" using t(1) by (auto simp: needs_def)
    with "2.prems"(3) have "needs tasks `` set (x # seen) \<subseteq> set (x # seen) \<union> set (tk_depends t @ rest)" by auto
    moreover have "set (x # seen) \<subseteq> task_of_team tasks i target" using x "2.prems"(2) by simp
    ultimately obtain S where "set (x # seen) \<union> set (tk_depends t @ rest) \<subseteq> S" "S \<subseteq> task_of_team tasks i target" "needs tasks `` S \<subseteq> S"
      using "2.IH"(2) [OF target False t(1)] t(2,3) by blast
    then show ?thesis by (intro exI [of _ S]) auto
  qed
qed

lemma visit_complete:
  assumes "(needs tasks)\<^sup>* `` set xs \<subseteq> task_of_team tasks i target"
  shows "visit tasks i target seen xs = None"
  using assms
proof (induction tasks i target seen xs rule: visit.induct)
  case (2 tasks i target seen x rest)
  have "x \<in> task_of_team tasks i target" using "2.prems" by auto
  then obtain t where t: "Some x \<noteq> target" "jmap_get tasks x = Some t" "tk_team t = i" by (auto simp: task_of_team_def)
  have rest: "(needs tasks)\<^sup>* `` set rest \<subseteq> task_of_team tasks i target" using "2.prems" by auto
  have "(x, y) \<in> needs tasks" if "y \<in> set (tk_depends t)" for y using that t(2) by (auto simp: needs_def)
  then have "(needs tasks)\<^sup>* `` set (tk_depends t) \<subseteq> (needs tasks)\<^sup>* `` {x}" by (auto intro: converse_rtrancl_into_rtrancl)
  moreover have "(needs tasks)\<^sup>* `` {x} \<subseteq> task_of_team tasks i target" using "2.prems" by auto
  ultimately have deps: "(needs tasks)\<^sup>* `` set (tk_depends t @ rest) \<subseteq> task_of_team tasks i target"
    using rest by (simp add: Image_Un)
  show ?case using t "2.IH"(1) [OF t(1) _ rest] "2.IH"(2) [OF t(1) _ t(2) _ deps] by simp
qed simp

lemma visit_iff: "visit tasks i target [] xs = None \<longleftrightarrow> (needs tasks)\<^sup>* `` set xs \<subseteq> task_of_team tasks i target"
proof
  assume "visit tasks i target [] xs = None"
  from visit_sound [OF this] obtain S where S: "set xs \<subseteq> S" "S \<subseteq> task_of_team tasks i target" "needs tasks `` S \<subseteq> S" by auto
  have "(needs tasks)\<^sup>* `` S \<subseteq> S"
  proof
    fix y assume "y \<in> (needs tasks)\<^sup>* `` S"
    then obtain x where "x \<in> S" "(x, y) \<in> (needs tasks)\<^sup>*" by blast
    from this(2,1) show "y \<in> S" by induction (use S(3) in auto)
  qed
  with S show "(needs tasks)\<^sup>* `` set xs \<subseteq> task_of_team tasks i target" by blast
qed (rule visit_complete)

text \<open>C12. \<open>validateDependencies\<close> accepts exactly the lists without a repeated id from which every task that can be reached over
  dependencies is stored, belongs to the team and is not the task that is changed.\<close>

theorem dependencies_accepted:
  "validate_dependencies i ids target s = (Inr (), s) \<longleftrightarrow>
    distinct ids \<and> (needs (tm_tasks s))\<^sup>* `` set ids \<subseteq> task_of_team (tm_tasks s) i target"
proof -
  have each: "list_all (\<lambda>x. visit (tm_tasks s) i target [] [x] = None) ids \<longleftrightarrow>
      (needs (tm_tasks s))\<^sup>* `` set ids \<subseteq> task_of_team (tm_tasks s) i target"
    unfolding visit_iff by (auto simp: list_all_iff)
  have pure: "validate_dependencies i ids target s = (r, t) \<Longrightarrow> t = s" for r t
  proof -
    have "leaves (validate_dependencies i ids target) s (\<lambda>_ u. u = s) (\<lambda>u. u = s)" unfolding leaves_validate_iff by simp
    from leaves_state [of _ s "\<lambda>u. u = s", OF this] show "validate_dependencies i ids target s = (r, t) \<Longrightarrow> t = s" by simp
  qed
  have "leaves (validate_dependencies i ids target) s (\<lambda>_ _. True) (\<lambda>_. False) \<longleftrightarrow> deps_valid s i ids target"
    unfolding leaves_validate_iff by simp
  then have "(\<exists>t. validate_dependencies i ids target s = (Inr (), t)) \<longleftrightarrow> deps_valid s i ids target"
    by (cases "validate_dependencies i ids target s") (auto simp: leaves_def split: sum.splits)
  with pure each show ?thesis by (auto simp: deps_valid_def)
qed

section \<open>Dependencies never form a circle\<close>

subsection \<open>The graph\<close>

type_synonym graph = "string \<Rightarrow> (string \<times> string list) option"

definition graph_of :: "(string \<times> team_task) list \<Rightarrow> graph" where
  "graph_of m = (\<lambda>y. map_option (\<lambda>t. (tk_team t, tk_depends t)) (jmap_get m y))"

definition edges :: "graph \<Rightarrow> (string \<times> string) set" where
  "edges g = {(x, y). \<exists>i ds. g x = Some (i, ds) \<and> y \<in> set ds}"

definition grounded :: "graph \<Rightarrow> bool" where
  "grounded g \<longleftrightarrow> (\<forall>x i ds y. g x = Some (i, ds) \<longrightarrow> y \<in> set ds \<longrightarrow> (\<exists>es. g y = Some (i, es)))"

definition sound_graph :: "graph \<Rightarrow> bool" where
  "sound_graph g \<longleftrightarrow> acyclic (edges g) \<and> grounded g"

lemma edges_graph: "edges (graph_of m) = needs m"
  by (auto simp: edges_def graph_of_def needs_def)

text \<open>New edges out of \<open>k\<close> close no circle when \<open>k\<close> cannot be reached from their ends.\<close>

lemma acyclic_redirect:
  assumes "acyclic E" "k \<notin> E\<^sup>* `` D" "F = {(x, y) \<in> E. x \<noteq> k} \<union> {k} \<times> D"
  shows "acyclic F"
proof -
  have inside: "b \<in> E\<^sup>* `` D" if "(a, b) \<in> F\<^sup>*" "a \<in> E\<^sup>* `` D" for a b
    using that
  proof induction
    case (step y z)
    with assms(2) have "y \<noteq> k" by blast
    with step.hyps(2) assms(3) have "(y, z) \<in> E" by auto
    with step show ?case by (meson Image_iff rtrancl.rtrancl_into_rtrancl)
  qed
  have k: "(k, k) \<notin> F\<^sup>+"
  proof
    assume "(k, k) \<in> F\<^sup>+"
    then obtain d where "(k, d) \<in> F" "(d, k) \<in> F\<^sup>*" by (meson tranclD)
    moreover from this(1) assms(3) have "d \<in> E\<^sup>* `` D" by auto
    ultimately show False using inside assms(2) by blast
  qed
  have split: "(a, b) \<in> E\<^sup>+ \<or> (a, k) \<in> F\<^sup>* \<and> (k, b) \<in> F\<^sup>+" if "(a, b) \<in> F\<^sup>+" for a b
    using that
  proof induction
    case (base y)
    then show ?case using assms(3) by (cases "a = k") auto
  next
    case (step y z)
    show ?case
    proof (cases "y = k")
      case True
      with step.hyps show ?thesis by (auto intro: trancl_into_rtrancl)
    next
      case False
      with step.hyps(2) assms(3) have "(y, z) \<in> E" by auto
      with step.IH step.hyps(2) show ?thesis by (meson trancl.trancl_into_trancl)
    qed
  qed
  show ?thesis
  proof (rule acyclicI, rule allI, rule notI)
    fix a assume a: "(a, a) \<in> F\<^sup>+"
    from split [OF a] assms(1) k show False by (meson acyclic_def rtrancl_trancl_trancl trancl_rtrancl_trancl)
  qed
qed

lemma sound_change:
  assumes "sound_graph g" "(edges g)\<^sup>* `` set ds \<subseteq> {y. y \<noteq> k \<and> (\<exists>es. g y = Some (i, es))}"
    and "g k = None \<or> (\<exists>es. g k = Some (i, es))"
  shows "sound_graph (g(k \<mapsto> (i, ds)))"
  unfolding sound_graph_def
proof
  show "acyclic (edges (g(k \<mapsto> (i, ds))))"
    by (rule acyclic_redirect [of "edges g" k "set ds"])
       (use assms(1,2) in \<open>auto simp: sound_graph_def edges_def split: if_splits\<close>)
  show "grounded (g(k \<mapsto> (i, ds)))" unfolding grounded_def
  proof (intro allI impI)
    fix x j es y assume x: "(g(k \<mapsto> (i, ds))) x = Some (j, es)" "y \<in> set es"
    show "\<exists>fs. (g(k \<mapsto> (i, ds))) y = Some (j, fs)"
    proof (cases "x = k")
      case True
      with x assms(2) show ?thesis by auto
    next
      case False
      with x have "g x = Some (j, es)" by simp
      with x(2) assms(1) obtain fs where "g y = Some (j, fs)" unfolding sound_graph_def grounded_def by blast
      with assms(3) show ?thesis by auto
    qed
  qed
qed

lemma sound_restrict:
  assumes "sound_graph g" "\<And>y. h y = (case g y of None \<Rightarrow> None | Some (j, ds) \<Rightarrow> if j \<noteq> i then Some (j, ds) else None)"
  shows "sound_graph h"
proof -
  have h: "h y = Some (j, ds) \<longleftrightarrow> g y = Some (j, ds) \<and> j \<noteq> i" for y j ds
    using assms(2) [of y] by (cases "g y") (auto split: if_splits)
  have "edges h \<subseteq> edges g" unfolding edges_def h by blast
  moreover have "grounded h" using assms(1) unfolding sound_graph_def grounded_def h by blast
  ultimately show ?thesis using assms(1) by (auto simp: sound_graph_def intro: acyclic_subset)
qed

subsection \<open>Methods that leave the graph alone\<close>

definition tasks_sound :: "(string \<times> team_task) list \<Rightarrow> bool" where
  "tasks_sound m \<longleftrightarrow> keyed tk_id m \<and> sound_graph (graph_of m)"

definition same_graph :: "team_store \<Rightarrow> team_store \<Rightarrow> bool" where
  "same_graph s t \<longleftrightarrow> (keyed tk_id (tm_tasks s) \<longrightarrow> keyed tk_id (tm_tasks t) \<and> graph_of (tm_tasks t) = graph_of (tm_tasks s))"

interpretation graph: turn_blind_relation same_graph
proof (unfold_locales, goal_cases)
  case (12 k s)
  then show ?case
    by (auto simp: same_graph_def rewrites_task_def put_task_def keyed_set graph_of_def jmap_simps fun_eq_iff)
qed (auto simp: same_graph_def put_team_def put_mail_def put_team_run_def put_dispatch_def push_event_def team_save_def rolled_back_def)

subsection \<open>New tasks and new dependencies\<close>

lemma reached_tasks:
  assumes "deps_valid s i ids target"
  shows "(edges (graph_of (tm_tasks s)))\<^sup>* `` set ids \<subseteq> {y. Some y \<noteq> target \<and> (\<exists>es. graph_of (tm_tasks s) y = Some (i, es))}"
proof -
  have "(needs (tm_tasks s))\<^sup>* `` set ids \<subseteq> task_of_team (tm_tasks s) i target"
    using assms unfolding deps_valid_def visit_iff by (auto simp: list_all_iff)
  then show ?thesis unfolding edges_graph by (auto simp: task_of_team_def graph_of_def)
qed

lemma put_task_sound:
  assumes "tasks_sound (tm_tasks s)" "deps_valid s i (tk_depends u) target" "tk_team u = i"
    and "target = Some (tk_id u) \<and> map_option tk_team (jmap_get (tm_tasks s) (tk_id u)) = Some i \<or> jmap_get (tm_tasks s) (tk_id u) = None"
  shows "tasks_sound (tm_tasks (put_task u s))"
proof -
  let ?g = "graph_of (tm_tasks s)"
  have "sound_graph (?g(tk_id u \<mapsto> (i, tk_depends u)))"
  proof (rule sound_change)
    show "(edges ?g)\<^sup>* `` set (tk_depends u) \<subseteq> {y. y \<noteq> tk_id u \<and> (\<exists>es. ?g y = Some (i, es))}"
      using reached_tasks [OF assms(2)] assms(4) by (auto simp: graph_of_def)
    show "?g (tk_id u) = None \<or> (\<exists>es. ?g (tk_id u) = Some (i, es))" using assms(4) by (auto simp: graph_of_def)
  qed (use assms(1) in \<open>simp add: tasks_sound_def\<close>)
  moreover have "graph_of (tm_tasks (put_task u s)) = ?g(tk_id u \<mapsto> (i, tk_depends u))"
    using assms(3) by (auto simp: graph_of_def put_task_def jmap_simps fun_eq_iff)
  ultimately show ?thesis using assms(1) by (simp add: tasks_sound_def put_task_def keyed_set)
qed

lemma sound_then: "graph.preserves m \<Longrightarrow> tasks_sound (tm_tasks s) \<Longrightarrow> leaves m s (\<lambda>_ t. tasks_sound (tm_tasks t)) (\<lambda>t. tasks_sound (tm_tasks t))"
  by (rule leaves_mono [OF graph.keeps_then [where s = s]]) (auto simp: same_graph_def tasks_sound_def)

lemma queue_task_sound:
  assumes "team_inv uuid s" "tasks_sound (tm_tasks s)"
  shows "leaves (queue_task_in uuid now i input parent) s (\<lambda>_ t. tasks_sound (tm_tasks t)) (\<lambda>t. tasks_sound (tm_tasks t))"
proof -
  let ?P = "\<lambda>t. tasks_sound (tm_tasks t)"
  let ?k = "team_task_key (uuid (tm_drawn s))"
  have new: "jmap_get (tm_tasks s) ?k = None" using team_invD(3) [OF assms(1)] by (simp add: unused_def)
  have rest: "leaves (act_bind (ensure_run uuid now i x) (\<lambda>r.
       act_seq (enqueue uuid now r m y parent z []) (act_seq (announce uuid now i Event_Queued k) (act_return task)))) t (\<lambda>_. ?P) ?P"
    if "?P t" for x m y z k task t
    by (rule sound_then [OF _ that]) (intro graph.rules graph.keeps_turns graph.keeps_enqueue)
  have put: "?P (put_task u (s\<lparr>tm_drawn := n\<rparr>))"
    if "deps_valid s i (tk_depends u) None" "tk_id u = ?k" "tk_team u = i" for u n
    by (rule put_task_sound [where target = None and i = i]) (use assms(2) that new in \<open>simp_all add: deps_valid_def\<close>)
  show ?thesis
    using assms(2) by (auto simp: queue_task_in_def leaves_validate_iff split: option.split dest!: parsed_task
        intro!: rest [simplified] put)
qed

lemma update_task_sound:
  assumes "tasks_sound (tm_tasks s)"
  shows "leaves (update_task uuid now i k version p caller) s (\<lambda>_ t. tasks_sound (tm_tasks t)) (\<lambda>t. tasks_sound (tm_tasks t))"
proof -
  let ?P = "\<lambda>t. tasks_sound (tm_tasks t)"
  have loop: "leaves (each_dispatch (\<lambda>d. if td_task d = Some k \<and> td_status d = Turn_Queued
       then act_do (put_dispatch (d\<lparr>td_input := x\<rparr>)) else act_return ())) t (\<lambda>_. ?P) ?P" if "?P t" for x t
    by (rule sound_then [OF _ that], intro graph.rules graph.keeps_turns) simp
  show ?thesis
  proof (cases "jmap_get (tm_tasks s) k")
    case None
    with assms show ?thesis by (simp add: update_task_def)
  next
    case (Some t)
    have id: "tk_id t = k" using assms Some by (auto simp: tasks_sound_def intro: keyed_get)
    have put: "?P (put_task u s)"
      if u: "parse_task (patched_task now p t) = Some u" and i: "tk_team t = i"
        and deps: "case kp_depends p of None \<Rightarrow> True | Some ids \<Rightarrow> deps_valid s i ids (Some k)" for u
    proof -
      have f: "tk_id u = k" "tk_team u = i" "tk_depends u = (case kp_depends p of None \<Rightarrow> tk_depends t | Some ids \<Rightarrow> ids)"
        using parsed_task [OF u] id i by (simp_all add: patched_task_def)
      show ?thesis
      proof (cases "kp_depends p")
        case None
        with f i id have "rewrites_task u s" by (intro rewritesI [OF Some]) simp_all
        from graph.R_task [OF this] assms show ?thesis by (simp add: same_graph_def tasks_sound_def)
      next
        case (Some ids)
        with f deps have "deps_valid s i (tk_depends u) (Some k)" by simp
        from put_task_sound [OF assms this f(2)] f(1) i \<open>jmap_get (tm_tasks s) k = Some t\<close> show ?thesis by simp
      qed
    qed
    show ?thesis using Some put assms loop
      by (auto simp: update_task_def leaves_validate_iff split: option.split intro!: leaves_mono [OF loop])
  qed
qed

subsection \<open>All histories\<close>

definition doc_sound :: "team_store \<Rightarrow> bool" where
  "doc_sound s \<longleftrightarrow> (\<forall>d. tm_disk s = Some d \<longrightarrow> tasks_sound (map (\<lambda>t. (tk_id t, t)) (dc_tasks d)))"

definition deps_good :: "team_store \<Rightarrow> bool" where
  "deps_good s \<longleftrightarrow> tasks_sound (tm_tasks s) \<and> doc_sound s"

lemma sound_document: "tasks_sound (tm_tasks t) \<Longrightarrow> tasks_sound (map (\<lambda>t. (tk_id t, t)) (dc_tasks (team_document_of t)))"
  using keyed_list [of tk_id "tm_tasks t"] by (simp add: tasks_sound_def team_document_of_def comp_def)

lemma deps_step:
  assumes "tidy m" "\<not> tm_batch s" "deps_good s" "leaves m s (\<lambda>_ t. tasks_sound (tm_tasks t)) (\<lambda>t. tasks_sound (tm_tasks t))"
  shows "leaves m s (\<lambda>_. deps_good) deps_good"
proof -
  obtain r t where mt: "m s = (r, t)" by (cases "m s")
  have "tasks_sound (tm_tasks t)" using leaves_state [of m s "\<lambda>t. tasks_sound (tm_tasks t)", OF assms(4)] mt by simp
  moreover have "tm_disk t = tm_disk s \<or> tm_disk t = Some (team_document_of t)" using assms(1,2) mt unfolding tidy_def by (metis snd_conv)
  ultimately have "deps_good t" using assms(3) sound_document unfolding deps_good_def doc_sound_def by auto
  with mt show ?thesis by (cases r) (simp_all add: leaves_def)
qed

lemma deps_preserved: "graph.preserves m \<Longrightarrow> tidy m \<Longrightarrow> \<not> tm_batch s \<Longrightarrow> deps_good s \<Longrightarrow> leaves m s (\<lambda>_. deps_good) deps_good"
  by (rule deps_step) (auto simp: deps_good_def intro: sound_then)

lemma queue_task_deps:
  assumes "team_inv uuid s" "\<not> tm_batch s" "deps_good s"
  shows "leaves (queue_task uuid now i input parent) s (\<lambda>_. deps_good) deps_good"
proof (rule deps_step [OF tidy_tasks(1) assms(2,3)])
  let ?P = "\<lambda>t. tasks_sound (tm_tasks t)"
  have "leaves (queue_task_in uuid now i input parent) (s\<lparr>tm_batch := True\<rparr>) (\<lambda>_. ?P) ?P"
    by (rule queue_task_sound) (use assms in \<open>simp_all add: deps_good_def\<close>)
  then show "leaves (queue_task uuid now i input parent) s (\<lambda>_. ?P) ?P" unfolding queue_task_def
    using assms(2,3) by (intro leaves_transaction) (auto elim!: leaves_mono simp: rolled_back_def deps_good_def)
qed

lemma delete_deps:
  assumes "\<not> tm_batch s" "deps_good s"
  shows "leaves (team_delete uuid now i) s (\<lambda>_. deps_good) deps_good"
proof (rule deps_step [OF tidy_team_delete assms])
  have s: "tasks_sound (tm_tasks s)" using assms(2) by (simp add: deps_good_def)
  have "keyed tk_id (jmap_only (\<lambda>t. tk_team t \<noteq> i) (tm_tasks s))"
    using s by (auto simp: tasks_sound_def keyed_def jmap_only_def distinct_map_filter)
  moreover have "sound_graph (graph_of (jmap_only (\<lambda>t. tk_team t \<noteq> i) (tm_tasks s)))"
  proof (rule sound_restrict)
    show "sound_graph (graph_of (tm_tasks s))" using s by (simp add: tasks_sound_def)
    show "graph_of (jmap_only (\<lambda>t. tk_team t \<noteq> i) (tm_tasks s)) y =
        (case graph_of (tm_tasks s) y of None \<Rightarrow> None | Some (j, ds) \<Rightarrow> if j \<noteq> i then Some (j, ds) else None)" for y
      using s get_only [of "tm_tasks s" "\<lambda>t. tk_team t \<noteq> i" y] keyed_distinct [of tk_id "tm_tasks s"]
      by (simp add: graph_of_def tasks_sound_def split: option.split)
  qed
  ultimately have "tasks_sound (jmap_only (\<lambda>t. tk_team t \<noteq> i) (tm_tasks s))" by (simp add: tasks_sound_def)
  with s show "leaves (team_delete uuid now i) s (\<lambda>_ t. tasks_sound (tm_tasks t)) (\<lambda>t. tasks_sound (tm_tasks t))"
    by (auto simp: team_delete_def team_forgotten_def push_event_def team_save_def split: option.split)
qed

lemma tool_sound:
  assumes "team_inv uuid s" "tm_batch s" "tasks_sound (tm_tasks s)"
  shows "leaves (tool_act uuid now i c) s (\<lambda>_ t. tasks_sound (tm_tasks t)) (\<lambda>t. tasks_sound (tm_tasks t))"
proof (cases c)
  case (Tool_Task input k)
  with assms show ?thesis by (simp add: tool_act_def queue_task_def leaves_nested queue_task_sound)
next
  case (Tool_Update_Task k version p m)
  with assms show ?thesis by (simp add: tool_act_def update_task_sound)
qed (simp_all add: tool_act_def assms sound_then graph.keeps_members graph.keeps_runs graph.keeps_send_mail)

lemma operation_deps:
  assumes "team_inv uuid s" "\<not> tm_batch s" "deps_good s"
  shows "leaves (team_operation op input (tool_act uuid now i c)) s (\<lambda>_. deps_good) deps_good"
proof (rule deps_step [OF tidy_operation [OF calm_tool] assms(2,3)])
  let ?P = "\<lambda>t. tasks_sound (tm_tasks t)"
  have s: "?P s" using assms(3) by (simp add: deps_good_def)
  have tool: "leaves (tool_act uuid now i c) (s\<lparr>tm_batch := True\<rparr>) (\<lambda>_. ?P) ?P"
    by (rule tool_sound) (use assms s in simp_all)
  show "leaves (team_operation op input (tool_act uuid now i c)) s (\<lambda>_. ?P) ?P"
    using s assms(2) unfolding team_operation_def
    by (auto simp: rolled_back_def split: option.split intro!: leaves_transaction leaves_mono [OF tool])
qed

lemma pause_deps:
  assumes "\<not> tm_batch s" "deps_good s"
  shows "leaves (pause_blocked_runs uuid now) s (\<lambda>_. deps_good) deps_good"
proof -
  let ?P = "\<lambda>t. \<not> tm_batch t \<and> deps_good t"
  have one: "leaves (pause_blocked uuid now k) t (\<lambda>_. ?P) ?P" if "?P t" for k t
  proof -
    have "\<not> tm_batch (snd (pause_blocked uuid now k t))"
      using calm_pause(1) [of uuid now k, unfolded calm_def, rule_format, of t] that by simp
    moreover have "deps_good (snd (pause_blocked uuid now k t))"
      by (rule leaves_state) (rule deps_preserved [OF graph.keeps_pause tidy_pause]; use that in simp)
    ultimately show ?thesis by (cases "pause_blocked uuid now k t") (auto simp: leaves_def split: sum.split)
  qed
  have "leaves (pause_blocked_runs uuid now) s (\<lambda>_. ?P) ?P"
    unfolding pause_blocked_runs_def by (simp only: leaves_get, rule leaves_each [where P = ?P]) (use assms one in auto)
  then show ?thesis by (rule leaves_mono) simp_all
qed

lemma call_deps:
  assumes "team_good uuid s" "deps_good s"
  shows "leaves (call_act uuid now c) s (\<lambda>_. deps_good) deps_good"
proof -
  have s: "team_inv uuid s" "\<not> tm_batch s" using assms(1) by (simp_all add: team_good_def)
  note keep = deps_preserved [OF _ _ s(2) assms(2)]
  note single = ignoring_rules(3)
  have update: "leaves (update_task uuid now i k version p caller) s (\<lambda>_. deps_good) deps_good" for i k version p caller
    by (rule deps_step [OF tidy_tasks(3) s(2) assms(2) update_task_sound]) (use assms(2) in \<open>simp add: deps_good_def\<close>)
  have ack: "graph.preserves (team_acknowledge k)" for k
    unfolding team_acknowledge_def mark_reconciled_def by (intro graph.rules) (simp_all add: same_graph_def team_save_def)
  show ?thesis
    by (cases c)
      (simp_all add: call_act_def single delete_deps [OF s(2) assms(2)] queue_task_deps [OF s assms(2)] operation_deps [OF s assms(2)]
        pause_deps [OF s(2) assms(2)] keep [OF graph.keeps_members(1) tidy_team_create] keep [OF graph.keeps_members(2) tidy_team_update]
        keep [OF graph.keeps_members(3) tidy_members(1)] keep [OF graph.keeps_members(4) tidy_members(2)]
        keep [OF graph.keeps_members(5) tidy_members(3)] keep [OF graph.keeps_cancel_task tidy_tasks(2)]
        keep [OF graph.keeps_send_mail tidy_mail] keep [OF graph.keeps_runs(2) tidy_control(1)] keep [OF graph.keeps_begin tidy_begin]
        keep [OF graph.keeps_submitted tidy_submitted] keep [OF graph.keeps_defer tidy_defer] keep [OF graph.keeps_finish_dispatch tidy_control(3)]
        keep [OF ack tidy_acknowledge])
qed

subsection \<open>Restarts\<close>

lemma loaded_sound:
  assumes "tasks_sound (map (\<lambda>t. (tk_id t, t)) ks)" "those (map parse_task ks) = Some us"
  shows "tasks_sound (fold (\<lambda>t. jmap_set (tk_id t) (load_task now t)) us [])"
proof -
  have parsed: "map tk_id us = map tk_id ks" using assms(2)
    by (induction ks arbitrary: us) (auto split: option.splits dest!: parsed_task)
  have "distinct (map tk_id us)" using assms(1) unfolding parsed by (simp add: tasks_sound_def keyed_def comp_def)
  from fold_put_keyed [OF this, of "[]" "load_task now"]
  have f: "fold (\<lambda>t. jmap_set (tk_id t) (load_task now t)) us [] = map (\<lambda>t. (tk_id t, load_task now t)) us" by simp
  have load: "tk_team (load_task now w) = tk_team w" "tk_depends (load_task now w) = tk_depends w" "tk_id (load_task now w) = tk_id w" for w
    by (simp_all add: load_task_def)
  have "graph_of (map (\<lambda>t. (tk_id t, load_task now t)) us) y = graph_of (map (\<lambda>t. (tk_id t, t)) ks) y" for y
  proof (cases "jmap_get (map (\<lambda>t. (tk_id t, t)) ks) y")
    case None
    with those_map_get [OF assms(2), of tk_id "load_task now" y] parsed_task show ?thesis by (simp add: graph_of_def)
  next
    case (Some t)
    then have "t \<in> set ks" by (auto dest: map_of_SomeD)
    with those_map_all [OF assms(2)] obtain w where w: "parse_task t = Some w" by blast
    with those_map_get [OF assms(2), of tk_id "load_task now" y] Some parsed_task show ?thesis by (simp add: graph_of_def load)
  qed
  then have "graph_of (map (\<lambda>t. (tk_id t, load_task now t)) us) = graph_of (map (\<lambda>t. (tk_id t, t)) ks)" by (rule ext)
  with assms(1) \<open>distinct (map tk_id us)\<close> f show ?thesis
    by (auto simp: tasks_sound_def keyed_def comp_def load)
qed

lemma load_sound:
  assumes "tasks_sound (fold (\<lambda>t. jmap_set (tk_id t) (load_task now t)) (dc_tasks d) [])"
  shows "leaves (load_document uuid now d) (empty_team_store n disk) (\<lambda>_ t. tasks_sound (tm_tasks t)) (\<lambda>_. True)"
proof -
  let ?P = "\<lambda>t. tasks_sound (tm_tasks t)"
  have first: "leaves (act_each (load_dispatch now) ds) s (\<lambda>_ _. True) (\<lambda>_. True)" for ds s
    by (simp add: leaves_def split: prod.split sum.split)
  have drop: "leaves (each_dispatch (drop_finished now)) s (\<lambda>_. ?P) (\<lambda>_. True)" if "?P s" for s
    by (rule leaves_mono [OF sound_then [OF graph.keeps_load(2) that]]) simp_all
  have last: "leaves (act_any (requeue_task uuid now) ts) s (\<lambda>_. ?P) (\<lambda>_. True)" if "?P s" for ts s
    by (rule leaves_any [where P = ?P, OF that], rule leaves_mono [OF sound_then [OF graph.keeps_load(3)]]) simp_all
  show ?thesis unfolding load_document_def
    by (simp, rule leaves_mono [OF first], rule leaves_mono [OF drop], simp add: assms, rule leaves_mono [OF last], simp)
       (simp_all add: team_save_def)
qed

lemma no_deps: "deps_good (empty_team_store n None)"
proof -
  have "edges (graph_of []) = {}" by (simp add: edges_def graph_of_def)
  then show ?thesis
    by (simp add: deps_good_def doc_sound_def empty_team_store_def tasks_sound_def keyed_def sound_graph_def grounded_def acyclic_def)
       (simp add: graph_of_def)
qed

lemma open_deps:
  assumes "deps_good s" "open_team_store uuid now (tm_drawn s) (tm_disk s) = Inr t"
  shows "deps_good t"
proof (cases "tm_disk s")
  case None
  with assms(2) have "t = empty_team_store (tm_drawn s) None" by (simp add: open_team_store_def)
  then show ?thesis by (simp add: no_deps)
next
  case (Some d)
  let ?e = "empty_team_store (tm_drawn s) (tm_disk s)"
  from assms(2) Some obtain p where p: "parse_document d = Some p" "load_document uuid now p ?e = (Inr (), t)"
    by (auto simp: open_team_store_def split: option.splits prod.splits sum.splits)
  have "those (map parse_task (dc_tasks d)) = Some (dc_tasks p)"
    using p(1) by (auto simp: parse_document_def split: option.splits if_splits)
  from loaded_sound [OF _ this, of now] assms(1) Some
  have "tasks_sound (fold (\<lambda>t. jmap_set (tk_id t) (load_task now t)) (dc_tasks p) [])" by (simp add: deps_good_def doc_sound_def)
  from leaves_result [OF load_sound [OF this] p(2)] have t: "tasks_sound (tm_tasks t)" .
  have e: "\<not> tm_batch ?e" "tm_disk ?e = tm_disk s" by (simp_all add: empty_team_store_def)
  from tidy_load [of uuid now p, unfolded tidy_def, rule_format, OF e(1)] p(2) e
  have "tm_disk t = tm_disk s \<or> tm_disk t = Some (team_document_of t)" by simp
  with t assms(1) sound_document show ?thesis unfolding deps_good_def doc_sound_def by auto
qed

lemma reach_deps:
  assumes "inj uuid" "team_reach uuid s"
  shows "deps_good s"
  using assms(2)
proof induction
  case first_start
  show ?case by (rule no_deps)
next
  case (some_call s now c)
  show ?case unfolding team_after_def
    by (rule leaves_state) (rule call_deps [OF team_reach_good [OF assms(1) some_call.hyps] some_call.IH])
next
  case (team_restart s now t)
  show ?case by (rule open_deps [OF team_restart.IH team_restart.hyps(2)])
qed

text \<open>C11. The tasks stored never depend on each other in a circle, and a task they depend on is stored and of the same team, in every
  state of the service.\<close>

theorem dependencies_never_circle:
  assumes "inj uuid" "team_reach uuid s"
  shows "acyclic (needs (tm_tasks s)) \<and>
    needs (tm_tasks s) \<subseteq> {(x, y). map_option tk_team (jmap_get (tm_tasks s) x) = map_option tk_team (jmap_get (tm_tasks s) y)}"
proof -
  have "sound_graph (graph_of (tm_tasks s))" using reach_deps [OF assms] by (simp add: deps_good_def tasks_sound_def)
  then have "acyclic (needs (tm_tasks s))" "grounded (graph_of (tm_tasks s))" by (simp_all add: sound_graph_def edges_graph)
  moreover from this(2) have "map_option tk_team (jmap_get (tm_tasks s) y) = map_option tk_team (jmap_get (tm_tasks s) x)"
    if "(x, y) \<in> needs (tm_tasks s)" for x y
    using that unfolding needs_def grounded_def graph_of_def by fastforce
  ultimately show ?thesis by auto
qed

theorem dependencies_never_circle_witness:
  "let s = calls_after sample_uuid [Call_Queue ''team-'' \<lparr>ki_member = ''member-x'', ki_title = ''Do'', ki_input = ''go'',
       ki_depends = [''team-task-xxxx''], ki_creator = None\<rparr>] sample_store
   in acyclic (needs (tm_tasks s)) \<and> map (\<lambda>p. tk_depends (snd p)) (tm_tasks s) = [[], [''team-task-xxxx'']]"
proof -
  let ?s = "calls_after sample_uuid [Call_Queue ''team-'' \<lparr>ki_member = ''member-x'', ki_title = ''Do'', ki_input = ''go'',
       ki_depends = [''team-task-xxxx''], ki_creator = None\<rparr>] sample_store"
  have s: "map (\<lambda>p. tk_depends (snd p)) (tm_tasks ?s) = [[], [''team-task-xxxx'']]" by code_simp
  from conjunct1 [OF dependencies_never_circle [OF inj_sample reach_calls [OF reach_sample]]]
  have "acyclic (needs (tm_tasks ?s))" .
  from this s show ?thesis unfolding Let_def by (rule conjI)
qed

section \<open>The scheduling loop\<close>

lemma stored_deps:
  assumes "deps_good s" "jmap_get (tm_tasks s) y = Some t"
  shows "list_all (\<lambda>x. jmap_get (tm_tasks s) x \<noteq> None) (tk_depends t)"
proof -
  have "grounded (graph_of (tm_tasks s))" using assms(1) by (simp add: deps_good_def tasks_sound_def sound_graph_def)
  with assms(2) show ?thesis unfolding list_all_iff grounded_def graph_of_def by fastforce
qed

lemma some_failed_total: "list_all (\<lambda>x. jmap_get tasks x \<noteq> None) xs \<Longrightarrow> \<exists>b. some_failed tasks xs = Inr b"
  by (induction xs) auto

lemma open_turn_task:
  assumes "team_inv uuid s" "d \<in> set (team_dispatches s)" "turn_open (td_status d)" "td_task d = Some y"
  shows "jmap_get (tm_tasks s) y \<noteq> None"
proof -
  have "wk_turn (work_of s) (td_id d) = Some (td_status d, td_team d, td_run d, td_member d, Some y)"
    using dispatch_values [OF assms(1,2)] assms(4) by (simp add: work_of_fields turn_view_def)
  from tasks_okD(2) [OF work_okD(3) [OF team_invD(1) [OF assms(1)]] this assms(3)] show ?thesis by (auto simp: work_of_fields)
qed

lemma can_go_on_total:
  assumes "\<And>d y. d \<in> set ds \<Longrightarrow> td_task d = Some y \<Longrightarrow> \<exists>t. jmap_get tasks y = Some t \<and> list_all (\<lambda>x. jmap_get tasks x \<noteq> None) (tk_depends t)"
  shows "\<exists>b. can_go_on tasks ds = Inr b"
  using assms
proof (induction ds)
  case (Cons d ds)
  have ds: "\<exists>b. can_go_on tasks ds = Inr b" by (rule Cons.IH) (use Cons.prems in auto)
  show ?case
  proof (cases "td_task d")
    case (Some y)
    with Cons.prems [of d y] obtain t where t: "jmap_get tasks y = Some t" "list_all (\<lambda>x. jmap_get tasks x \<noteq> None) (tk_depends t)" by auto
    from some_failed_total [OF t(2)] obtain b where "some_failed tasks (tk_depends t) = Inr b" by blast
    with Some t ds show ?thesis by (cases b) auto
  next
    case None
    then show ?thesis by (intro exI [of _ True]) simp
  qed
qed (auto intro: exI [of _ False])

lemma active_in_total:
  assumes "\<And>d y. d \<in> set ds \<Longrightarrow> td_status d = Turn_Queued \<Longrightarrow> td_task d = Some y \<Longrightarrow> jmap_get (tm_tasks s) y \<noteq> None"
  shows "\<exists>b. active_in now s ds = Inr b"
  using assms
proof (induction ds)
  case (Cons d ds)
  have ds: "\<exists>b. active_in now s ds = Inr b" by (rule Cons.IH) (use Cons.prems in auto)
  show ?case
  proof (cases "td_task d")
    case (Some y)
    with Cons.prems [of d y] ds show ?thesis by (auto split: option.split)
  next
    case None
    from ds obtain b where "active_in now s ds = Inr b" by blast
    with None show ?thesis
      by (intro exI [of _ "td_status d = Turn_Running \<or> td_status d = Turn_Queued \<and> run_is_running s d \<and> due now d \<or> b"]) auto
  qed
qed (auto intro: exI [of _ False])

lemma scheduling_total:
  assumes "inj uuid" "team_reach uuid s"
  shows "fst (pause_blocked_runs uuid now s) = Inr () \<and> \<not> isl (has_active_work now s)"
proof
  have inv: "team_inv uuid s" using team_reach_good [OF assms] by (simp add: team_good_def)
  note deps = reach_deps [OF assms]
  let ?P = "\<lambda>t. tm_tasks t = tm_tasks s \<and> tm_dispatches t = tm_dispatches s"
  have go: "\<exists>b. can_go_on (tm_tasks s) (filter (\<lambda>d. turn_open (td_status d)) (run_dispatches k s)) = Inr b" for k
  proof (rule can_go_on_total)
    fix d y assume d: "d \<in> set (filter (\<lambda>d. turn_open (td_status d)) (run_dispatches k s))" "td_task d = Some y"
    then have "jmap_get (tm_tasks s) y \<noteq> None" using open_turn_task [OF inv, of d y] by (simp add: run_dispatches_def)
    with stored_deps [OF deps] show "\<exists>t. jmap_get (tm_tasks s) y = Some t \<and> list_all (\<lambda>x. jmap_get (tm_tasks s) x \<noteq> None) (tk_depends t)"
      by blast
  qed
  have one: "leaves (pause_blocked uuid now k) t (\<lambda>_. ?P) (\<lambda>_. False)" if t: "?P t" for k t
  proof -
    have same: "run_dispatches k t = run_dispatches k s" using t by (simp add: run_dispatches_def team_dispatches_def)
    obtain b where "can_go_on (tm_tasks s) (filter (\<lambda>d. turn_open (td_status d)) (run_dispatches k s)) = Inr b" using go by blast
    with t show ?thesis by (cases b) (auto simp: pause_blocked_def Let_def same split: option.split)
  qed
  have "leaves (pause_blocked_runs uuid now) s (\<lambda>_. ?P) (\<lambda>_. False)"
    unfolding pause_blocked_runs_def by (simp only: leaves_get, rule leaves_each [where P = ?P]) (use one in auto)
  then show "fst (pause_blocked_runs uuid now s) = Inr ()"
    by (cases "pause_blocked_runs uuid now s") (auto simp: leaves_def split: sum.splits)
  have "\<exists>b. has_active_work now s = Inr b" unfolding has_active_work_def
    by (rule active_in_total) (use open_turn_task [OF inv] in auto)
  then show "\<not> isl (has_active_work now s)" by auto
qed

text \<open>C13. Neither the check for work nor the pausing of blocked runs ever throws: every task that an open turn names, and every task
  that this one depends on, is stored.\<close>

theorem scheduling_never_throws:
  assumes "inj uuid" "team_reach uuid s"
  shows "fst (pause_blocked_runs uuid now s) = Inr () \<and> \<not> isl (has_active_work now s)"
  by (rule scheduling_total [OF assms])

theorem scheduling_never_throws_witness:
  "fst (pause_blocked_runs sample_uuid 7 sample_store) = Inr () \<and> has_active_work 7 sample_store = Inr True"
proof -
  have s: "has_active_work 7 sample_store = Inr True" by code_simp
  from scheduling_never_throws [OF inj_sample reach_sample, of 7] s show ?thesis by simp
qed

end
