(* ===== verification/Team_Orchestrator.thy ===== *)
theory Team_Orchestrator
  imports Team_Guarantees Team_Dependencies
begin

text \<open>
  The scheduling of team turns: the class \<open>TeamOrchestrator\<close> of \<^verbatim>\<open>harness-bundle/src/team-store.ts\<close>,
  which begins queued turns, has the runner execute them and reports how they end.

  \<open>#run\<close> is cut at its awaits: it waits for the reconciliation of an interrupted execution
  (\<open>Orch_Recovering\<close>) or for an execution to end or a wake-up (\<open>Orch_Waiting\<close>). What follows a settled promise
  in the queue of jobs runs before the next event. The runner is an environment: it answers an execution with a result, with
  \<open>SessionBusyError\<close> or with another error, at any time and in any order. \<open>stop\<close> further waits for what is under way
  to end, which has no effect on the state.
\<close>

section \<open>State\<close>

datatype orch_phase = Orch_Idle | Orch_Recovering "team_execution list" | Orch_Waiting

record team_note =
  tn_title :: string
  tn_message :: string
  tn_link :: string

text \<open>
  \<open>oc_notifier\<close> and \<open>oc_reconciles\<close> say whether there is a notifier and whether the runner reconciles.
  \<open>oc_cancels\<close> are the executions the runner was asked to cancel. \<open>oc_left\<close> is only for the statements:
  the turns that still ran in the store when their execution had ended.
\<close>

record orchestrator =
  oc_store :: team_store
  oc_executions :: "(string \<times> team_execution) list"
  oc_phase :: orch_phase
  oc_recovered :: bool
  oc_stopped :: bool
  oc_timer :: "nat option"
  oc_notes :: "team_note list"
  oc_cancels :: "string list"
  oc_notifier :: bool
  oc_reconciles :: bool
  oc_left :: "string list"

definition new_orchestrator :: "team_store \<Rightarrow> bool \<Rightarrow> bool \<Rightarrow> orchestrator" where
  "new_orchestrator s notifier reconciles = \<lparr>oc_store = s, oc_executions = [], oc_phase = Orch_Idle, oc_recovered = False,
     oc_stopped = False, oc_timer = None, oc_notes = [], oc_cancels = [], oc_notifier = notifier, oc_reconciles = reconciles,
     oc_left = []\<rparr>"

section \<open>The loop\<close>

fun begin_all :: "(nat \<Rightarrow> string) \<Rightarrow> nat \<Rightarrow> team_dispatch list \<Rightarrow> orchestrator \<Rightarrow> orchestrator" where
  "begin_all uuid now [] s = s"
| "begin_all uuid now (d # ds) s =
     (case begin_dispatch uuid now (td_id d) (oc_store s) of
        (Inl e, t) \<Rightarrow> begin_all uuid now ds (s\<lparr>oc_store := t\<rparr>)
      | (Inr x, t) \<Rightarrow> begin_all uuid now ds
          (s\<lparr>oc_store := t, oc_executions := jmap_set (td_id d) x (oc_executions s)\<rparr>))"

definition orch_scan :: "(nat \<Rightarrow> string) \<Rightarrow> nat \<Rightarrow> orchestrator \<Rightarrow> orchestrator" where
  "orch_scan uuid now s =
     (let b = begin_all uuid now (queued_dispatches now (oc_store s)) s
      in if oc_executions b \<noteq> [] then b\<lparr>oc_phase := Orch_Waiting\<rparr>
         else case pause_blocked_runs uuid now (oc_store b) of
                (Inl e, t) \<Rightarrow> b\<lparr>oc_store := t, oc_phase := Orch_Idle\<rparr>
              | (Inr u, t) \<Rightarrow> b\<lparr>oc_store := t, oc_phase := Orch_Idle,
                  oc_timer := (if wake_time t = None then oc_timer b else wake_time t)\<rparr>)"

definition orch_loop :: "(nat \<Rightarrow> string) \<Rightarrow> nat \<Rightarrow> orchestrator \<Rightarrow> orchestrator" where
  "orch_loop uuid now s = (if oc_stopped s then s\<lparr>oc_phase := Orch_Idle\<rparr> else orch_scan uuid now s)"

definition orch_wake :: "(nat \<Rightarrow> string) \<Rightarrow> nat \<Rightarrow> orchestrator \<Rightarrow> orchestrator" where
  "orch_wake uuid now s = (if oc_phase s = Orch_Waiting then orch_loop uuid now s else s)"

fun orch_recover :: "(nat \<Rightarrow> string) \<Rightarrow> nat \<Rightarrow> team_execution list \<Rightarrow> orchestrator \<Rightarrow> orchestrator" where
  "orch_recover uuid now [] s = orch_loop uuid now (s\<lparr>oc_recovered := True\<rparr>)"
| "orch_recover uuid now (x # xs) s =
     (if oc_stopped s then orch_loop uuid now s
      else if oc_reconciles s then s\<lparr>oc_phase := Orch_Recovering (x # xs)\<rparr>
      else case team_acknowledge (tx_task x) (oc_store s) of
             (Inl e, t) \<Rightarrow> s\<lparr>oc_store := t, oc_phase := Orch_Idle\<rparr>
           | (Inr u, t) \<Rightarrow> orch_recover uuid now xs (s\<lparr>oc_store := t\<rparr>))"

definition orch_recovered :: "(nat \<Rightarrow> string) \<Rightarrow> nat \<Rightarrow> bool \<Rightarrow> orchestrator \<Rightarrow> orchestrator" where
  "orch_recovered uuid now ok s =
     (case oc_phase s of
        Orch_Recovering (x # xs) \<Rightarrow>
          (if \<not> ok then s\<lparr>oc_phase := Orch_Idle\<rparr>
           else case team_acknowledge (tx_task x) (oc_store s) of
                  (Inl e, t) \<Rightarrow> s\<lparr>oc_store := t, oc_phase := Orch_Idle\<rparr>
                | (Inr u, t) \<Rightarrow> orch_recover uuid now xs (s\<lparr>oc_store := t\<rparr>))
      | _ \<Rightarrow> s)"

definition orch_tick :: "(nat \<Rightarrow> string) \<Rightarrow> nat \<Rightarrow> orchestrator \<Rightarrow> orchestrator" where
  "orch_tick uuid now s =
     (if oc_stopped s then s
      else if oc_phase s \<noteq> Orch_Idle then orch_wake uuid now s
      else if oc_recovered s then orch_loop uuid now s
      else case team_interrupted (oc_store s) of
             (Inl e, t) \<Rightarrow> s\<lparr>oc_store := t\<rparr>
           | (Inr xs, t) \<Rightarrow> orch_recover uuid now xs (s\<lparr>oc_store := t\<rparr>))"

section \<open>An execution ends\<close>

text \<open>How the runner settles an execution. The text of an error stands for its \<open>message\<close>.\<close>

datatype turn_reply = Reply_Result string "string option" | Reply_Busy | Reply_Error string

definition report_reply :: "(nat \<Rightarrow> string) \<Rightarrow> nat \<Rightarrow> string \<Rightarrow> turn_reply \<Rightarrow> unit tact" where
  "report_reply uuid now k r = (case r of
     Reply_Result sid res \<Rightarrow> (\<lambda>s. case finish_dispatch uuid now k (Turn_Done sid res) s of
         (Inl e, t) \<Rightarrow> finish_dispatch uuid now k (Turn_Error e) t
       | (Inr u, t) \<Rightarrow> (Inr u, t))
   | Reply_Busy \<Rightarrow> defer_dispatch now k
   | Reply_Error m \<Rightarrow> finish_dispatch uuid now k (Turn_Error m))"

definition terminal_note :: "team \<Rightarrow> team_task \<Rightarrow> team_note" where
  "terminal_note u t = \<lparr>
     tn_title = (if tk_status t = Task_Failed then ''Team task failed'' else ''Team task completed''),
     tn_message = ''Team '' @ [CHR 0x22] @ tt_name u @ [CHR 0x22] @ '' task '' @ [CHR 0x22] @ tk_title t @ [CHR 0x22] @
       (if tk_status t = Task_Failed
        then '' failed: '' @ (case tk_error t of None \<Rightarrow> ''unknown error'' | Some e \<Rightarrow> e) else '' completed.''),
     tn_link = ''/team/'' @ tt_id u\<rparr>"

text \<open>The notice of a task that ended; \<open>None\<close> when the team is gone and reading its name throws.\<close>

definition notify_team_terminal :: "team_execution \<Rightarrow> orchestrator \<Rightarrow> orchestrator option" where
  "notify_team_terminal x s =
     (case tx_logical x of
        None \<Rightarrow> Some s
      | Some y \<Rightarrow>
          (if y = [] then Some s
           else case jmap_get (tm_tasks (oc_store s)) y of
             None \<Rightarrow> Some s
           | Some t \<Rightarrow>
               (if \<not> oc_notifier s \<or> tk_status t \<notin> {Task_Succeeded, Task_Failed} then Some s
                else case jmap_get (tm_teams (oc_store s)) (tx_team x) of
                       None \<Rightarrow> None
                     | Some u \<Rightarrow> Some (s\<lparr>oc_notes := oc_notes s @ [terminal_note u t]\<rparr>))))"

definition running_id :: "string \<Rightarrow> team_store \<Rightarrow> bool" where
  "running_id k s \<longleftrightarrow> map_option td_status (jmap_get (tm_dispatches s) k) = Some Turn_Running"

text \<open>A loop that waits goes on when the execution resolves and ends when it rejects.\<close>

definition orch_rejected :: "orchestrator \<Rightarrow> orchestrator" where
  "orch_rejected s = (if oc_phase s = Orch_Waiting then s\<lparr>oc_phase := Orch_Idle\<rparr> else s)"

definition orch_reply :: "(nat \<Rightarrow> string) \<Rightarrow> nat \<Rightarrow> string \<Rightarrow> turn_reply \<Rightarrow> orchestrator \<Rightarrow> orchestrator" where
  "orch_reply uuid now k r s =
     (case jmap_get (oc_executions s) k of
        None \<Rightarrow> s
      | Some x \<Rightarrow>
          (case report_reply uuid now k r (oc_store s) of (res, t) \<Rightarrow>
             let u = s\<lparr>oc_store := t, oc_executions := jmap_delete k (oc_executions s),
                   oc_left := (if running_id k t then oc_left s @ [k] else oc_left s)\<rparr>
             in case res of
                  Inl e \<Rightarrow> orch_rejected u
                | Inr _ \<Rightarrow> (case notify_team_terminal x u of None \<Rightarrow> orch_rejected u | Some v \<Rightarrow> orch_wake uuid now v)))"

section \<open>Calls\<close>

definition running_keys :: "(team_dispatch \<Rightarrow> bool) \<Rightarrow> team_store \<Rightarrow> string list" where
  "running_keys P s = map td_id (filter (\<lambda>d. P d \<and> td_status d = Turn_Running) (team_dispatches s))"

text \<open>
  The wake-up after a cancellation comes when the runner has answered, an event of its own; the one that follows the
  tick of a resumed run finds a loop that does not wait yet or that was woken by the tick.
\<close>

definition orch_control :: "(nat \<Rightarrow> string) \<Rightarrow> nat \<Rightarrow> string \<Rightarrow> string \<Rightarrow> run_control \<Rightarrow> orchestrator \<Rightarrow> orchestrator" where
  "orch_control uuid now i r c s =
     (case control_run uuid now i r c (oc_store s) of
        (Inl e, t) \<Rightarrow> s\<lparr>oc_store := t\<rparr>
      | (Inr q, t) \<Rightarrow>
          let u = s\<lparr>oc_store := t\<rparr>
          in case c of
               Control_Cancel \<Rightarrow> u\<lparr>oc_cancels := oc_cancels u @ running_keys (\<lambda>d. td_run d = r) (oc_store s)\<rparr>
             | Control_Resume \<Rightarrow> orch_tick uuid now u
             | Control_Pause \<Rightarrow> orch_wake uuid now u)"

definition orch_cancel :: "(nat \<Rightarrow> string) \<Rightarrow> nat \<Rightarrow> string \<Rightarrow> string \<Rightarrow> orchestrator \<Rightarrow> orchestrator" where
  "orch_cancel uuid now i y s =
     (case cancel_team_task uuid now i y (oc_store s) of
        (Inl e, t) \<Rightarrow> s\<lparr>oc_store := t\<rparr>
      | (Inr x, t) \<Rightarrow> s\<lparr>oc_store := t, oc_cancels := oc_cancels s @ running_keys (\<lambda>d. td_task d = Some y) (oc_store s)\<rparr>)"

definition orch_stop :: "(nat \<Rightarrow> string) \<Rightarrow> nat \<Rightarrow> orchestrator \<Rightarrow> orchestrator" where
  "orch_stop uuid now s =
     (if oc_stopped s then s
      else orch_wake uuid now (s\<lparr>oc_stopped := True, oc_timer := None,
             oc_cancels := oc_cancels s @ jkeys (oc_executions s)\<rparr>))"

datatype orch_event =
    Orch_Tick
  | Orch_Reply string turn_reply
  | Orch_Reconciled bool
  | Orch_Call store_call
  | Orch_Control string string run_control
  | Orch_Cancel string string
  | Orch_Wake
  | Orch_Stop

definition orch_step :: "(nat \<Rightarrow> string) \<Rightarrow> nat \<Rightarrow> orch_event \<Rightarrow> orchestrator \<Rightarrow> orchestrator" where
  "orch_step uuid now ev s = (case ev of
     Orch_Tick \<Rightarrow> orch_tick uuid now s
   | Orch_Reply k r \<Rightarrow> orch_reply uuid now k r s
   | Orch_Reconciled ok \<Rightarrow> orch_recovered uuid now ok s
   | Orch_Call c \<Rightarrow> s\<lparr>oc_store := team_after uuid now c (oc_store s)\<rparr>
   | Orch_Control i r c \<Rightarrow> orch_control uuid now i r c s
   | Orch_Cancel i y \<Rightarrow> orch_cancel uuid now i y s
   | Orch_Wake \<Rightarrow> orch_wake uuid now s
   | Orch_Stop \<Rightarrow> orch_stop uuid now s)"

text \<open>The calls that come from outside: the orchestrator alone begins turns, defers and finishes them.\<close>

definition user_call :: "store_call \<Rightarrow> bool" where
  "user_call c \<longleftrightarrow> (case c of Call_Begin k \<Rightarrow> False | Call_Defer k \<Rightarrow> False | Call_Finish k e \<Rightarrow> False
     | Call_Pause_Blocked \<Rightarrow> False | Call_Acknowledge k \<Rightarrow> False | _ \<Rightarrow> True)"

definition outside :: "orch_event \<Rightarrow> bool" where
  "outside ev \<longleftrightarrow> (case ev of Orch_Call c \<Rightarrow> user_call c | _ \<Rightarrow> True)"

inductive orch_reach :: "(nat \<Rightarrow> string) \<Rightarrow> orchestrator \<Rightarrow> bool" for uuid where
  orch_first: "orch_reach uuid (new_orchestrator (empty_team_store 0 None) n c)"
| orch_event: "orch_reach uuid s \<Longrightarrow> outside ev \<Longrightarrow> orch_reach uuid (orch_step uuid now ev s)"
| orch_restart: "orch_reach uuid s \<Longrightarrow> open_team_store uuid now (tm_drawn (oc_store s)) (tm_disk (oc_store s)) = Inr t \<Longrightarrow>
    orch_reach uuid (new_orchestrator t n c)"

section \<open>The store of the orchestrator\<close>

interpretation same: step_relation "\<lambda>s t. t = s"
  by unfold_locales simp_all

lemma same_collect: "(\<And>x. same.preserves (f x)) \<Longrightarrow> same.preserves (act_collect f xs)"
  by (induction xs) (auto intro: same.keeps_intros)

lemma interrupted_pure: "snd (team_interrupted s) = s"
proof -
  have base: "same.preserves (team_and_member i k)" for i k
    unfolding team_and_member_def required_team_def required_member_def by (intro same.keeps_intros)
  have "same.preserves team_interrupted"
    unfolding team_interrupted_def by (intro same.keeps_intros same_collect; simp add: base same.keeps_bind same.keeps_pure split: prod.split)
  then show ?thesis by (simp add: same.preserves_def)
qed

text \<open>What the calls of the store keep, the orchestrator keeps: it changes the store by calls only.\<close>

locale kept_by_calls =
  fixes uuid :: "nat \<Rightarrow> string" and P :: "team_store \<Rightarrow> bool"
  assumes kept: "P s \<Longrightarrow> P (team_after uuid now c s)"
begin

lemma results:
  assumes "P s"
  shows "begin_dispatch uuid now k s = (a, t) \<Longrightarrow> P t" "finish_dispatch uuid now k e s = (b, t) \<Longrightarrow> P t"
    "defer_dispatch now k s = (b, t) \<Longrightarrow> P t" "pause_blocked_runs uuid now s = (b, t) \<Longrightarrow> P t" "team_acknowledge k s = (b, t) \<Longrightarrow> P t"
    "control_run uuid now i k x s = (q, t) \<Longrightarrow> P t" "cancel_team_task uuid now i k s = (y, t) \<Longrightarrow> P t" "team_interrupted s = (xs, t) \<Longrightarrow> P t"
  using kept [OF assms, of now "Call_Begin k"] kept [OF assms, of now "Call_Finish k e"] kept [OF assms, of now "Call_Defer k"]
    kept [OF assms, of now Call_Pause_Blocked] kept [OF assms, of now "Call_Acknowledge k"] kept [OF assms, of now "Call_Control i k x"]
    kept [OF assms, of now "Call_Cancel_Task i k"] assms interrupted_pure [of s]
  by (simp_all add: team_after_def call_act_def)

lemma begin_all_kept: "P (oc_store s) \<Longrightarrow> P (oc_store (begin_all uuid now ds s))"
  by (induction ds arbitrary: s) (auto split: prod.split sum.split dest: results(1))

lemma loop_kept:
  assumes "P (oc_store s)"
  shows "P (oc_store (orch_loop uuid now s))" "P (oc_store (orch_wake uuid now s))"
proof -
  have "P (oc_store (orch_scan uuid now s))"
    using begin_all_kept [OF assms] results(4) [OF begin_all_kept [OF assms]]
    by (auto simp: orch_scan_def Let_def split: prod.split sum.split)
  with assms show "P (oc_store (orch_loop uuid now s))" "P (oc_store (orch_wake uuid now s))"
    by (simp_all add: orch_loop_def orch_wake_def)
qed

lemma recover_kept: "P (oc_store s) \<Longrightarrow> P (oc_store (orch_recover uuid now xs s))"
  by (induction xs arbitrary: s) (auto intro: loop_kept split: prod.split sum.split dest: results(5))

lemma tick_kept: "P (oc_store s) \<Longrightarrow> P (oc_store (orch_tick uuid now s))"
  by (auto simp: orch_tick_def intro!: loop_kept recover_kept split: prod.split sum.split dest: results(8))

lemma report_kept: "P s \<Longrightarrow> report_reply uuid now k r s = (x, t) \<Longrightarrow> P t"
  by (cases r) (auto simp: report_reply_def split: prod.splits sum.splits dest: results(2,3))

lemma notify_store: "notify_team_terminal x s = Some u \<Longrightarrow> oc_store u = oc_store s"
  by (auto simp: notify_team_terminal_def split: option.splits if_splits)

lemma reply_kept: 
  assumes "P (oc_store s)"
  shows "P (oc_store (orch_reply uuid now k r s))"
proof (cases "jmap_get (oc_executions s) k")
  case (Some x)
  obtain y t where r: "report_reply uuid now k r (oc_store s) = (y, t)" by (cases "report_reply uuid now k r (oc_store s)")
  with Some report_kept [OF assms r] notify_store show ?thesis
    by (auto simp: orch_reply_def Let_def orch_rejected_def intro!: loop_kept split: sum.split option.split)
qed (use assms in \<open>simp add: orch_reply_def\<close>)

lemma step_kept:
  assumes "P (oc_store s)"
  shows "P (oc_store (orch_step uuid now ev s))"
proof (cases ev)
  case (Orch_Reconciled ok)
  with assms show ?thesis
    by (auto simp: orch_step_def orch_recovered_def intro!: recover_kept split: orch_phase.split list.split prod.split sum.split
        dest: results(5))
next
  case (Orch_Control i r c)
  with assms show ?thesis
    by (auto simp: orch_step_def orch_control_def Let_def intro!: tick_kept loop_kept split: prod.split sum.split run_control.split
        dest: results(6))
next
  case (Orch_Cancel i y)
  with assms show ?thesis by (auto simp: orch_step_def orch_cancel_def split: prod.split sum.split dest: results(7))
next
  case Orch_Stop
  with assms show ?thesis by (auto simp: orch_step_def orch_stop_def intro!: loop_kept)
qed (simp_all add: orch_step_def assms tick_kept reply_kept kept loop_kept)

end

interpretation reached: kept_by_calls uuid "team_reach uuid" for uuid
  by unfold_locales (rule some_call)

lemma orch_store_reach: "orch_reach uuid s \<Longrightarrow> team_reach uuid (oc_store s)"
proof (induction rule: orch_reach.induct)
  case (orch_first n c)
  show ?case by (simp add: new_orchestrator_def first_start)
next
  case (orch_event s ev now)
  show ?case by (rule reached.step_kept) (rule orch_event.IH)
next
  case (orch_restart s now t n c)
  from team_restart [OF orch_restart.IH orch_restart.hyps(2)] show ?case by (simp add: new_orchestrator_def)
qed

section \<open>What runs is executed\<close>

definition no_new_turn :: "team_store \<Rightarrow> team_store \<Rightarrow> bool" where
  "no_new_turn s t \<longleftrightarrow> (keyed td_id (tm_dispatches s) \<longrightarrow>
     keyed td_id (tm_dispatches t) \<and> (\<forall>k. running_id k t \<longrightarrow> running_id k s))"

interpretation turns: store_relation no_new_turn
proof (unfold_locales, goal_cases)
  case (11 d s)
  then show ?case
    by (auto simp: no_new_turn_def quiet_turn_def put_dispatch_def keyed_set running_id_def jmap_simps split: if_splits)
qed (auto simp: no_new_turn_def put_team_def put_task_def put_mail_def put_team_run_def push_event_def team_save_def rolled_back_def
  running_id_def)

lemma turns_tasks: "turns.preserves (queue_task uuid now i kinput parent)" "turns.preserves (update_task uuid now i k version tp caller)"
proof -
  have put: "no_new_turn s (put_task t s)" for s t by (simp add: no_new_turn_def put_task_def running_id_def)
  show "turns.preserves (queue_task uuid now i kinput parent)" "turns.preserves (update_task uuid now i k version tp caller)"
    unfolding queue_task_def queue_task_in_def update_task_def
    by (intro turns.keeps_transaction turns.rules turns.keeps_turns turns.keeps_enqueue put; simp)+
qed

lemma turns_operation: "turns.preserves (team_operation op input (tool_act uuid now i c))"
proof -
  have ops: "no_new_turn s (s\<lparr>tm_operations := x\<rparr>)" for s x by (simp add: no_new_turn_def running_id_def)
  have tool: "turns.preserves (tool_act uuid now i c)"
    unfolding tool_act_def
    by (cases c) (simp_all, (intro conjI impI turns.rules turns.keeps_members turns_tasks turns.keeps_runs turns.keeps_send_mail)+)
  show ?thesis unfolding team_operation_def
    by (intro turns.rules) (auto intro!: turns.rules turns.keeps_transaction tool ops split: option.split)
qed

lemma turns_delete: "turns.preserves (team_delete uuid now i)"
proof -
  have "no_new_turn s (team_save (team_forgotten i (push_event uuid now i Team_Removed i s)))" for s
    by (auto simp: no_new_turn_def team_forgotten_def push_event_def team_save_def jmap_only_def keyed_def distinct_map_filter running_id_def
        get_only [unfolded jmap_only_def] split: option.splits if_splits)
  then show ?thesis unfolding team_delete_def by (intro turns.rules)
qed

lemma turns_acknowledge: "turns.preserves (team_acknowledge k)"
  unfolding team_acknowledge_def mark_reconciled_def
  by (intro turns.rules) (simp_all add: no_new_turn_def team_save_def running_id_def)

lemma turns_ignoring: "turns.preserves m \<Longrightarrow> turns.preserves (ignoring m)"
  unfolding ignoring_def by (intro turns.rules)

lemma turns_pause: "turns.preserves (pause_blocked_runs uuid now)"
  unfolding pause_blocked_runs_def by (intro turns.rules turns.keeps_pause)

text \<open>Only the beginning of a turn makes one run.\<close>

lemma call_turns:
  assumes "user_call c"
  shows "no_new_turn s (team_after uuid now c s)"
proof -
  have "turns.preserves (call_act uuid now c)"
    using assms by (cases c) (simp_all add: user_call_def call_act_def turns_ignoring turns.keeps_members turns_delete turns_tasks
      turns.keeps_cancel_task turns.keeps_send_mail turns.keeps_runs turns_operation turns.keeps_submitted)
  then show ?thesis by (simp add: turns.preserves_def team_after_def)
qed

lemma begin_turns:
  assumes "keyed td_id (tm_dispatches s)" "begin_dispatch uuid now k s = (r, t)" "running_id l t" "\<not> tm_batch s"
  shows "running_id l s \<or> l = k \<and> \<not> isl r"
proof -
  let ?P = "\<lambda>t. \<forall>l. running_id l t \<longrightarrow> running_id l s" and ?Q = "\<lambda>t. \<forall>l. running_id l t \<longrightarrow> running_id l s \<or> l = k"
  have other: "running_id l (put_team_run q u) = running_id l u" "running_id l (push_event uuid now i ty subject u) = running_id l u"
    "running_id l (team_save u) = running_id l u" "running_id l (put_team v u) = running_id l u" "running_id l (rolled_back s u) = running_id l s"
    "running_id l (u\<lparr>tm_batch := b\<rparr>) = running_id l u" for l q u i ty subject v b
    by (simp_all add: running_id_def rolled_back_def)
  have put: "running_id l (put_dispatch d u) \<Longrightarrow> td_id d = k \<Longrightarrow> running_id l u \<or> l = k" for l d u
    by (simp add: running_id_def split: if_splits)
  have task: "leaves (begin_task uuid now y) u (\<lambda>_. ?P) (\<lambda>_. True)" if "?P u" "tm_dispatches u = tm_dispatches s" for y u
    by (rule leaves_mono [OF turns.keeps_then [OF turns.keeps_begin_task, where s = u]])
       (use that assms(1) in \<open>auto simp: no_new_turn_def\<close>)
  have turn: "leaves (begin_turn uuid now d q u m) v (\<lambda>_. ?Q) (\<lambda>_. True)" if "?P v" "tm_dispatches v = tm_dispatches s" "td_id d = k" for d q u m v
    using that unfolding begin_turn_def
    by (cases "td_task d") (auto simp: other intro!: leaves_mono [OF task] dest!: put)
  have id: "td_id d = k" if "jmap_get (tm_dispatches s) k = Some d" for d using keyed_get [OF assms(1) that] .
  have "leaves (begin_dispatch uuid now k) s (\<lambda>_. ?Q) ?P"
    unfolding begin_dispatch_def using assms(4)
    by (auto simp: other split: option.split intro!: leaves_transaction leaves_mono [OF turn] id)
  with assms(2,3) show ?thesis by (cases r) (auto simp: leaves_def)
qed

definition covered :: "orchestrator \<Rightarrow> bool" where
  "covered s \<longleftrightarrow> (\<forall>k. running_id k (oc_store s) \<longrightarrow> k \<in> set (jkeys (oc_executions s)) \<or> k \<in> set (oc_left s))"

definition orch_good :: "(nat \<Rightarrow> string) \<Rightarrow> orchestrator \<Rightarrow> bool" where
  "orch_good uuid s \<longleftrightarrow> inj uuid \<and> team_reach uuid (oc_store s) \<and> covered s"

lemma orch_goodD:
  assumes "orch_good uuid s"
  shows "team_reach uuid (oc_store s)" "covered s" "keyed td_id (tm_dispatches (oc_store s))" "\<not> tm_batch (oc_store s)"
  using assms team_reach_good [of uuid "oc_store s"]
  by (auto simp: orch_good_def team_good_def team_inv_def ids_ok_def)

lemma good_store:
  assumes "orch_good uuid s" "team_reach uuid t" "no_new_turn (oc_store s) t"
  shows "orch_good uuid (s\<lparr>oc_store := t\<rparr>)"
  using assms orch_goodD(3) [OF assms(1)] by (auto simp: orch_good_def covered_def no_new_turn_def)

lemma good_other [simp]:
  "orch_good uuid (s\<lparr>oc_phase := p\<rparr>) = orch_good uuid s" "orch_good uuid (s\<lparr>oc_timer := w\<rparr>) = orch_good uuid s"
  "orch_good uuid (s\<lparr>oc_recovered := b\<rparr>) = orch_good uuid s" "orch_good uuid (s\<lparr>oc_stopped := b\<rparr>) = orch_good uuid s"
  "orch_good uuid (s\<lparr>oc_cancels := ks\<rparr>) = orch_good uuid s" "orch_good uuid (s\<lparr>oc_notes := ns\<rparr>) = orch_good uuid s"
  by (simp_all add: orch_good_def covered_def)

lemma executions_set: "fst ` set (jmap_set k v m) = insert k (fst ` set m)"
  by (induction m) auto

lemma begin_all_good: "orch_good uuid s \<Longrightarrow> orch_good uuid (begin_all uuid now ds s)"
proof (induction ds arbitrary: s)
  case (Cons d ds)
  note s = orch_goodD [OF Cons.prems]
  obtain r t where b: "begin_dispatch uuid now (td_id d) (oc_store s) = (r, t)" by (cases "begin_dispatch uuid now (td_id d) (oc_store s)")
  have t: "team_reach uuid t" by (rule reached.results(1) [OF s(1) b])
  note new = begin_turns [OF s(3) b _ s(4)]
  have "orch_good uuid (case r of Inl e \<Rightarrow> s\<lparr>oc_store := t\<rparr>
      | Inr x \<Rightarrow> s\<lparr>oc_store := t, oc_executions := jmap_set (td_id d) x (oc_executions s)\<rparr>)"
    using Cons.prems t new s(2) by (cases r) (auto simp: orch_good_def covered_def executions_set)
  from Cons.IH [OF this] b show ?case by (cases r) simp_all
qed simp

lemma loop_good: "orch_good uuid s \<Longrightarrow> orch_good uuid (orch_loop uuid now s)" "orch_good uuid s \<Longrightarrow> orch_good uuid (orch_wake uuid now s)"
proof -
  have scan: "orch_good uuid (orch_scan uuid now s)" if s: "orch_good uuid s"
  proof -
    let ?b = "begin_all uuid now (queued_dispatches now (oc_store s)) s"
    note b = begin_all_good [OF s, of now "queued_dispatches now (oc_store s)"]
    obtain r t where p: "pause_blocked_runs uuid now (oc_store ?b) = (r, t)" by (cases "pause_blocked_runs uuid now (oc_store ?b)")
    have "orch_good uuid (?b\<lparr>oc_store := t\<rparr>)"
      by (rule good_store [OF b reached.results(4) [OF orch_goodD(1) [OF b] p] turns.keepsD [OF turns_pause p]])
    with b p show ?thesis by (cases r) (auto simp: orch_scan_def Let_def)
  qed
  then show "orch_good uuid s \<Longrightarrow> orch_good uuid (orch_loop uuid now s)" "orch_good uuid s \<Longrightarrow> orch_good uuid (orch_wake uuid now s)"
    by (simp_all add: orch_loop_def orch_wake_def)
qed

lemma acknowledge_good:
  assumes "orch_good uuid s" "team_acknowledge k (oc_store s) = (r, t)"
  shows "orch_good uuid (s\<lparr>oc_store := t\<rparr>)"
  by (rule good_store [OF assms(1) reached.results(5) [OF orch_goodD(1) [OF assms(1)] assms(2)] turns.keepsD [OF turns_acknowledge assms(2)]])

lemma recover_good: "orch_good uuid s \<Longrightarrow> orch_good uuid (orch_recover uuid now xs s)"
  by (induction xs arbitrary: s) (auto simp: loop_good split: prod.split sum.split dest: acknowledge_good)

lemma tick_good:
  assumes "orch_good uuid s"
  shows "orch_good uuid (orch_tick uuid now s)"
proof -
  obtain r t where "team_interrupted (oc_store s) = (r, t)" by (cases "team_interrupted (oc_store s)")
  with interrupted_pure [of "oc_store s"] assms show ?thesis
    by (cases r) (simp_all add: orch_tick_def loop_good recover_good)
qed

lemma turns_report: "no_new_turn s (snd (report_reply uuid now k r s))"
proof -
  have finish: "no_new_turn s (snd (finish_dispatch uuid now k e s))" for e s
    using turns.keeps_finish_dispatch by (simp add: turns.preserves_def)
  show ?thesis
  proof (cases r)
    case (Reply_Result sid res)
    with finish [of s "Turn_Done sid res"] finish turns.R_trans show ?thesis
      by (auto simp: report_reply_def split: prod.split sum.split) (metis snd_conv)+
  next
    case Reply_Busy
    with turns.keeps_defer show ?thesis by (simp add: report_reply_def turns.preserves_def)
  qed (simp add: report_reply_def finish)
qed

lemma reply_good:
  assumes "orch_good uuid s"
  shows "orch_good uuid (orch_reply uuid now k r s)"
proof (cases "jmap_get (oc_executions s) k")
  case (Some x)
  note s = orch_goodD [OF assms]
  obtain y t where r: "report_reply uuid now k r (oc_store s) = (y, t)" by (cases "report_reply uuid now k r (oc_store s)")
  let ?u = "s\<lparr>oc_store := t, oc_executions := jmap_delete k (oc_executions s),
                   oc_left := (if running_id k t then oc_left s @ [k] else oc_left s)\<rparr>"
  have "no_new_turn (oc_store s) t" using turns_report [of "oc_store s" uuid now k r] r by simp
  moreover have "team_reach uuid t" by (rule reached.report_kept [OF s(1) r])
  ultimately have u: "orch_good uuid ?u" using assms s(2,3)
    by (auto simp: orch_good_def covered_def no_new_turn_def jkeys_delete)
  have note_good: "orch_good uuid v" if "notify_team_terminal x ?u = Some v" for v
    using that u by (auto simp: notify_team_terminal_def split: option.splits if_splits)
  from Some r u note_good show ?thesis
    by (auto simp: orch_reply_def Let_def orch_rejected_def intro!: loop_good split: sum.split option.split)
qed (use assms in \<open>simp add: orch_reply_def\<close>)

lemma control_good:
  assumes "orch_good uuid s"
  shows "orch_good uuid (orch_control uuid now i r c s)" "orch_good uuid (orch_cancel uuid now i y s)"
proof -
  note s = orch_goodD [OF assms]
  obtain q t where c: "control_run uuid now i r c (oc_store s) = (q, t)" by (cases "control_run uuid now i r c (oc_store s)")
  have "orch_good uuid (s\<lparr>oc_store := t\<rparr>)"
    by (rule good_store [OF assms reached.results(6) [OF s(1) c] turns.keepsD [OF turns.keeps_runs(2) c]])
  with c show "orch_good uuid (orch_control uuid now i r c s)"
    by (cases q) (auto simp: orch_control_def Let_def intro!: tick_good loop_good split: run_control.split)
  obtain z u where d: "cancel_team_task uuid now i y (oc_store s) = (z, u)" by (cases "cancel_team_task uuid now i y (oc_store s)")
  have "orch_good uuid (s\<lparr>oc_store := u\<rparr>)"
    by (rule good_store [OF assms reached.results(7) [OF s(1) d] turns.keepsD [OF turns.keeps_cancel_task d]])
  with d show "orch_good uuid (orch_cancel uuid now i y s)"
    by (cases z) (auto simp: orch_cancel_def orch_good_def covered_def)
qed

lemma orch_reach_good:
  assumes "inj uuid" "orch_reach uuid s"
  shows "orch_good uuid s"
  using assms(2)
proof induction
  case (orch_first n c)
  from assms(1) first_start [of uuid] show ?case
    by (simp add: orch_good_def covered_def new_orchestrator_def running_id_def) (simp add: empty_team_store_def)
next
  case (orch_event s ev now)
  note s = orch_goodD [OF orch_event.IH]
  show ?case
  proof (cases ev)
    case (Orch_Reconciled ok)
    with orch_event.IH show ?thesis
      by (auto simp: orch_step_def orch_recovered_def recover_good split: orch_phase.split list.split prod.split sum.split
          dest: acknowledge_good)
  next
    case (Orch_Call c)
    have "orch_good uuid (s\<lparr>oc_store := team_after uuid now c (oc_store s)\<rparr>)"
      by (rule good_store [OF orch_event.IH some_call [OF s(1)] call_turns]) (use orch_event.hyps(2) Orch_Call in \<open>simp add: outside_def\<close>)
    with Orch_Call show ?thesis by (simp add: orch_step_def)
  qed (simp_all add: orch_step_def orch_stop_def orch_event.IH tick_good reply_good control_good loop_good)
next
  case (orch_restart s now t n c)
  note r = orch_goodD [OF orch_restart.IH]
  have t: "team_reach uuid t" by (rule team_restart [OF r(1) orch_restart.hyps(2)])
  have "no_running_turn t"
  proof (cases "tm_disk (oc_store s)")
    case None
    with orch_restart.hyps(2) show ?thesis
      by (auto simp: open_team_store_def empty_team_store_def no_running_turn_def team_dispatches_def)
  next
    case (Some d)
    with orch_restart.hyps(2) obtain p where
      "load_document uuid now p (empty_team_store (tm_drawn (oc_store s)) (tm_disk (oc_store s))) = (Inr (), t)"
      by (auto simp: open_team_store_def split: option.splits prod.splits sum.splits)
    from leaves_result [OF no_running_document this] show ?thesis .
  qed
  then have "\<not> running_id k t" for k
    by (force simp: no_running_turn_def team_dispatches_def list_all_iff running_id_def dest: map_of_SomeD)
  with t assms(1) show ?case by (simp add: orch_good_def covered_def new_orchestrator_def)
qed

text \<open>The turns that go on after their execution are those whose end could not be stored.\<close>

lemma finished_turn:
  assumes "keyed td_id (tm_dispatches s)" "finish_dispatch uuid now k e s = (Inr u, t)"
  shows "\<not> running_id k t"
proof -
  define rest where "rest d = act_seq (case td_task d of
             None \<Rightarrow> idle_member now (td_team d) (td_member d) (is_error e)
           | Some x \<Rightarrow> act_bind (required_task x) (\<lambda>t.
               if tk_status t = Task_Running then act_bind (finish_task uuid now x e) (\<lambda>_. act_return ())
               else idle_member now (td_team d) (td_member d) (is_error e)))
        (act_bind (act_get (\<lambda>u. act_need ''TypeError'' (jmap_get (tm_runs u) (td_run d)))) (\<lambda>r.
         act_seq (if run_over (tr_status r) \<or> tr_status r = Run_Interrupted then act_return ()
           else report_turn uuid now d r e)
         (act_seq (act_do (push_event uuid now (td_team d) Dispatch_Updated k))
           (announce uuid now (td_team d) Run_Updated (tr_id r)))))" for d
  have rest: "turns.preserves (rest d)" for d
    unfolding rest_def report_turn_def by (intro turns.rules turns.keeps_finish_task turns.keeps_send_mail)
  have "leaves (rest d) (put_dispatch (ended now e d) v) (\<lambda>_ w. \<not> running_id k w) (\<lambda>_. True)"
    if "td_id d = k" "keyed td_id (tm_dispatches v)" for d v
  proof (rule leaves_mono [OF turns.keeps_then [OF rest turns.R_refl]])
    have "\<not> running_id k (put_dispatch (ended now e d) v)" "keyed td_id (tm_dispatches (put_dispatch (ended now e d) v))"
      using that by (cases e; simp add: running_id_def ended_def put_dispatch_def keyed_set jmap_simps)+
    then show "\<not> running_id k w" if "no_new_turn (put_dispatch (ended now e d) v) w" for w using that by (auto simp: no_new_turn_def)
  qed simp
  then have "leaves (finish_dispatch_in uuid now k e) v (\<lambda>_ w. \<not> running_id k w) (\<lambda>_. True)" if "keyed td_id (tm_dispatches v)" for v
    unfolding finish_dispatch_in_def rest_def [symmetric] using that
    by (simp split: option.split) (auto simp: running_id_def dest: keyed_get)
  then have "leaves (finish_dispatch uuid now k e) s (\<lambda>_ w. \<not> running_id k w) (\<lambda>_. True)"
    unfolding finish_dispatch_def using assms(1)
    by (intro leaves_transaction) (auto elim!: leaves_mono simp: running_id_def)
  from leaves_result [OF this assms(2)] show ?thesis .
qed

text \<open>C9. Every turn that the service shows as running is being executed, whatever calls, answers, wake-ups and restarts came before;
  the only other ones are turns that still ran in the store when their execution had ended.\<close>

theorem running_turns_executed:
  assumes "inj uuid" "orch_reach uuid s"
  shows "list_all (\<lambda>d. td_id d \<in> set (jkeys (oc_executions s)) \<union> set (oc_left s))
    (filter (\<lambda>d. td_status d = Turn_Running) (team_dispatches (oc_store s)))"
proof -
  note s = orch_goodD [OF orch_reach_good [OF assms]]
  have "jmap_get (tm_dispatches (oc_store s)) (td_id d) = Some d" if "d \<in> set (team_dispatches (oc_store s))" for d
    by (rule keyed_get_value [OF s(3)]) (use that in \<open>simp add: team_dispatches_def\<close>)
  with s(2) show ?thesis by (auto simp: list_all_iff covered_def running_id_def)
qed

text \<open>C10. A turn goes on after its execution only when the report of its end threw, or when the runner answered that the session is
  busy after it had told that the turn was submitted.\<close>

theorem reported_turn_is_over:
  assumes "inj uuid" "orch_reach uuid s" "jmap_get (tm_dispatches (oc_store s)) k = Some d"
    and "report_reply uuid now k r (oc_store s) = (res, t)" "running_id k t"
  shows "isl res \<or> r = Reply_Busy \<and> td_submitted d \<noteq> None"
proof -
  note s = orch_goodD [OF orch_reach_good [OF assms(1,2)]]
  have id: "td_id d = k" using keyed_get [OF s(3) assms(3)] .
  show ?thesis
  proof (cases r)
    case (Reply_Result sid x)
    obtain y u where f: "finish_dispatch uuid now k (Turn_Done sid x) (oc_store s) = (y, u)"
      by (cases "finish_dispatch uuid now k (Turn_Done sid x) (oc_store s)")
    have "keyed td_id (tm_dispatches u)" using turns.keepsD [OF turns.keeps_finish_dispatch f] s(3) by (simp add: no_new_turn_def)
    with f finished_turn [OF s(3)] finished_turn [of u] assms(4,5) Reply_Result show ?thesis
      by (cases y; cases res) (auto simp: report_reply_def)
  next
    case (Reply_Error m)
    with finished_turn [OF s(3)] assms(4,5) show ?thesis by (cases res) (auto simp: report_reply_def)
  next
    case Reply_Busy
    show ?thesis
    proof (rule ccontr)
      assume a: "\<not> ?thesis"
      then obtain u where res: "res = Inr u" and none: "td_submitted d = None" using Reply_Busy by (cases res) auto
      have run: "running_id k (oc_store s)"
        using turns.keepsD [OF turns.keeps_defer] assms(4,5) Reply_Busy s(3) by (auto simp: report_reply_def no_new_turn_def)
      have "leaves (defer_dispatch now k) (oc_store s) (\<lambda>_ w. \<not> running_id k w) (\<lambda>_. True)"
        using assms(3) none run id by (auto simp: defer_dispatch_def leaves_idle_member running_id_def split: option.split)
      from leaves_result [OF this] assms(4,5) Reply_Busy res show False by (simp add: report_reply_def)
    qed
  qed
qed

section \<open>A service that runs\<close>

definition orch_run :: "(nat \<Rightarrow> string) \<Rightarrow> orch_event list \<Rightarrow> orchestrator \<Rightarrow> orchestrator" where
  "orch_run uuid evs s = fold (orch_step uuid 0) evs s"

definition orch_reopened :: "(nat \<Rightarrow> string) \<Rightarrow> orchestrator \<Rightarrow> orchestrator" where
  "orch_reopened uuid s = (case open_team_store uuid 0 (tm_drawn (oc_store s)) (tm_disk (oc_store s)) of
     Inl e \<Rightarrow> s | Inr t \<Rightarrow> new_orchestrator t (oc_notifier s) (oc_reconciles s))"

lemma reach_run: "orch_reach uuid s \<Longrightarrow> list_all outside evs \<Longrightarrow> orch_reach uuid (orch_run uuid evs s)"
  unfolding orch_run_def by (induction evs arbitrary: s) (auto intro: orch_event)

lemma reach_reopened: "orch_reach uuid s \<Longrightarrow> orch_reach uuid (orch_reopened uuid s)"
  by (auto simp: orch_reopened_def intro: orch_restart split: sum.split)

text \<open>A team with a second member, who was given a task that runs.\<close>

definition member_task :: "string \<Rightarrow> task_input" where
  "member_task k = \<lparr>ki_member = k, ki_title = ''Plan'', ki_input = ''go'', ki_depends = [], ki_creator = None\<rparr>"

definition sample_orch :: orchestrator where
  "sample_orch = orch_run sample_uuid [Orch_Call (Call_Create sample_team),
     Orch_Call (Call_Add ''team-'' \<lparr>mi_name = ''Bob'', mi_engine = ''codex'', mi_preset = ''p'', mi_acp = None\<rparr>),
     Orch_Call (Call_Queue ''team-'' (member_task ''member-xxxx'')), Orch_Tick]
     (new_orchestrator (empty_team_store 0 None) True True)"

lemma reach_sample_orch: "orch_reach sample_uuid sample_orch"
  unfolding sample_orch_def
  by (rule reach_run [OF orch_first]) (simp add: outside_def user_call_def)

lemma throws_bind: "isl (fst (m s)) \<Longrightarrow> isl (fst (act_bind m f s))"
  by (cases "m s") (auto simp: act_bind_def split: sum.split)

lemma throws_later:
  assumes "same.preserves m" "\<And>a. isl (fst (f a s))"
  shows "isl (fst (act_bind m f s))"
proof (cases "m s")
  case (Pair r t)
  with assms(1) have "t = s" unfolding same.preserves_def by (metis snd_conv)
  with Pair assms(2) show ?thesis by (cases r) (simp_all add: act_bind_def)
qed

lemma throws_collect:
  assumes "x \<in> set xs" "isl (fst (f x s))" "\<And>y. same.preserves (f y)"
  shows "isl (fst (act_collect f xs s))"
  using assms(1)
proof (induction xs)
  case (Cons y ys)
  show ?case
  proof (cases "x = y")
    case True
    with assms(2) show ?thesis by (simp add: throws_bind)
  next
    case False
    with Cons have "isl (fst (act_collect f ys s))" by simp
    then show ?thesis by (auto intro: throws_later assms(3) throws_bind)
  qed
qed simp

text \<open>A turn that a restart interrupted, not recovered yet, whose member is gone.\<close>

definition lost_turn :: "team_store \<Rightarrow> team_dispatch \<Rightarrow> bool" where
  "lost_turn s d \<longleftrightarrow> td_status d = Turn_Interrupted \<and> td_id d \<notin> set (tm_reconciled s) \<and>
     (case jmap_get (tm_teams s) (td_team d) of None \<Rightarrow> True | Some t \<Rightarrow> find_member t (td_member d) = None)"

definition has_lost_turn :: "team_store \<Rightarrow> bool" where
  "has_lost_turn s \<longleftrightarrow> list_ex (lost_turn s) (team_dispatches s)"

lemma interrupted_throws:
  assumes "has_lost_turn s"
  shows "isl (fst (team_interrupted s))"
proof -
  have base: "same.preserves (team_and_member i k)" for i k
    unfolding team_and_member_def required_team_def required_member_def by (intro same.keeps_intros)
  from assms obtain d where d: "d \<in> set (team_dispatches s)" "lost_turn s d" by (auto simp: has_lost_turn_def list_ex_iff)
  then have gone: "isl (fst (team_and_member (td_team d) (td_member d) s))"
    by (auto simp: lost_turn_def team_and_member_def required_team_def required_member_def act_need_def act_bind_def act_get_def
        act_return_def act_fail_def split: option.splits)
  show ?thesis
    unfolding team_interrupted_def act_get_def
    by (rule throws_later, intro same_collect)
       (use d gone base in \<open>auto simp: lost_turn_def intro!: throws_bind throws_collect [of d] same.keeps_intros split: prod.split\<close>)
qed

definition recovery_blocked :: "orchestrator \<Rightarrow> bool" where
  "recovery_blocked s \<longleftrightarrow> \<not> oc_recovered s \<and> oc_phase s = Orch_Idle \<and> has_lost_turn (oc_store s)"

text \<open>The service restarts while the member works, the reconciliation fails, and the member is removed.\<close>

definition removed_orch :: orchestrator where
  "removed_orch = orch_run sample_uuid [Orch_Tick, Orch_Reconciled False, Orch_Call (Call_Remove ''team-'' ''member-xxxx'')]
     (orch_reopened sample_uuid sample_orch)"

lemma reach_removed_orch: "orch_reach sample_uuid removed_orch"
  unfolding removed_orch_def
  by (rule reach_run [OF reach_reopened [OF reach_sample_orch]]) (simp add: outside_def user_call_def)



text \<open>An execution whose turn is gone from the store, while the loop waits.\<close>

definition orphaned :: "string \<Rightarrow> orchestrator \<Rightarrow> bool" where
  "orphaned k s \<longleftrightarrow> oc_phase s = Orch_Waiting \<and> k \<in> set (jkeys (oc_executions s)) \<and> jmap_get (tm_dispatches (oc_store s)) k = None"

text \<open>The run is cancelled and the team deleted while the runner still settles the turn.\<close>

definition deleted_orch :: orchestrator where
  "deleted_orch = orch_run sample_uuid [Orch_Control ''team-'' ''team-run-xxxxxxxx'' Control_Cancel, Orch_Call (Call_Delete ''team-'')]
     sample_orch"

lemma reach_deleted_orch: "orch_reach sample_uuid deleted_orch"
  unfolding deleted_orch_def
  by (rule reach_run [OF reach_sample_orch]) (simp add: outside_def user_call_def)

lemma orphan_throws:
  assumes "jmap_get (tm_dispatches s) k = None"
  shows "isl (fst (report_reply uuid now k r s)) \<and>
    queued_dispatches now (snd (report_reply uuid now k r s)) = queued_dispatches now s"
  using assms
  by (cases r) (auto simp: report_reply_def finish_dispatch_def finish_dispatch_in_def defer_dispatch_def transaction_def rolled_back_def
    act_need_def act_bind_def act_get_def act_fail_def queued_dispatches_def team_dispatches_def run_is_running_def split: prod.split sum.split)

text \<open>C15. When the team of a cancelled turn is deleted before the runner has answered, the answer ends the loop that waits: it begins
  no queued turn of any team before the next tick.\<close>

theorem deleted_team_ends_loop:
  assumes "orphaned k s"
  shows "oc_phase (orch_reply uuid now k r s) = Orch_Idle \<and>
    queued_dispatches now (oc_store (orch_reply uuid now k r s)) = queued_dispatches now (oc_store s)"
proof -
  from assms obtain x where x: "jmap_get (oc_executions s) k = Some x"
    by (cases "jmap_get (oc_executions s) k") (auto simp: orphaned_def map_of_eq_None_iff)
  obtain y t where "report_reply uuid now k r (oc_store s) = (y, t)" by (cases "report_reply uuid now k r (oc_store s)")
  with orphan_throws [of "oc_store s" k uuid now r] assms x show ?thesis
    by (cases y) (auto simp: orch_reply_def Let_def orch_rejected_def orphaned_def)
qed

theorem deleted_team_ends_loop_witness:
  "orch_reach sample_uuid deleted_orch \<and>
   oc_phase (orch_reply sample_uuid 0 ''team-dispatch-xxxxxxxxxx'' (Reply_Error ''cancelled'') deleted_orch) = Orch_Idle"
proof -
  have "orphaned ''team-dispatch-xxxxxxxxxx'' deleted_orch" by code_simp
  from deleted_team_ends_loop [OF this, of sample_uuid 0 "Reply_Error ''cancelled''"] reach_deleted_orch show ?thesis by (intro conjI) simp_all
qed

theorem running_turns_executed_witness:
  "list_all (\<lambda>d. td_id d \<in> set (jkeys (oc_executions sample_orch)) \<union> set (oc_left sample_orch))
     (filter (\<lambda>d. td_status d = Turn_Running) (team_dispatches (oc_store sample_orch))) \<and>
   map td_id (filter (\<lambda>d. td_status d = Turn_Running) (team_dispatches (oc_store sample_orch))) = [''team-dispatch-xxxxxxxxxx'']"
proof -
  have "map td_id (filter (\<lambda>d. td_status d = Turn_Running) (team_dispatches (oc_store sample_orch))) = [''team-dispatch-xxxxxxxxxx'']"
    by code_simp
  with running_turns_executed [OF inj_sample reach_sample_orch] show ?thesis by (intro conjI)
qed

text \<open>The runner tells that the turn was submitted.\<close>

definition submitted_orch :: orchestrator where
  "submitted_orch = orch_run sample_uuid [Orch_Call (Call_Submitted ''team-dispatch-xxxxxxxxxx'' ''t'')] sample_orch"

lemma reach_submitted_orch: "orch_reach sample_uuid submitted_orch"
  unfolding submitted_orch_def
  by (rule reach_run [OF reach_sample_orch]) (simp add: outside_def user_call_def)

theorem reported_turn_is_over_witness:
  "let r = report_reply sample_uuid 0 ''team-dispatch-xxxxxxxxxx'' Reply_Busy (oc_store submitted_orch) in
   running_id ''team-dispatch-xxxxxxxxxx'' (snd r) \<and>
   (isl (fst r) \<or> (\<exists>d. jmap_get (tm_dispatches (oc_store submitted_orch)) ''team-dispatch-xxxxxxxxxx'' = Some d \<and> td_submitted d \<noteq> None))"
proof -
  let ?k = "''team-dispatch-xxxxxxxxxx''"
  have run: "running_id ?k (snd (report_reply sample_uuid 0 ?k Reply_Busy (oc_store submitted_orch)))"
    by code_simp
  have "map_option td_id (jmap_get (tm_dispatches (oc_store submitted_orch)) ?k) = Some ?k" by code_simp
  then obtain d where d: "jmap_get (tm_dispatches (oc_store submitted_orch)) ?k = Some d" by (auto simp only: map_option_eq_Some)
  from reported_turn_is_over [OF inj_sample reach_submitted_orch d surjective_pairing run] d run show ?thesis
    unfolding Let_def by blast
qed

end
