(* ===== verification/Spec2Isabelle.thy ===== *)
theory Spec2Isabelle
  imports Conversation_Resources Message_Delivery Personal_Tasks File_Moves
    Upload_Server Upload_Views File_Trash Teams Shared_Composer Automation_Scheduler Quota_Settlement
    Team_Orchestrator
begin

text \<open>
  WorkAgent3 is an office-agent platform: each employee has a workspace on the company's server in which agents
  run, a browser client, shared projects and discussions, scheduled tasks and teams of assistants. A portal in Go
  authenticates and keeps accounts, quotas and shared projects; a service in TypeScript
  (\<^verbatim>\<open>harness-bundle/src\<close>) runs in each employee's workspace; the client
  (\<^verbatim>\<open>packages/dsh-client-workagent/src\<close>, JavaScript with React) talks to both over HTTP. This development
  models the client's logic and the parts of the workspace service it depends on most, and proves what makes
  them correct.

  \<^bold>\<open>How the code is modelled.\<close> A JavaScript \<open>Map\<close> is an association list in insertion order, an object is a record,
  a rejected promise or a thrown error is the \<open>Inl\<close> side of a sum. An asynchronous function is cut at its awaits:
  what runs up to an await is one operation on the state, what runs after it is another, and the requests under way
  are part of the state, so that other operations interleave between the two. A React component is its state, its handlers and
  the list of controls it shows. What is not under \<^verbatim>\<open>src/\<close> or belongs to another process (the HTTP
  server a client calls, the engine that executes a run, time zones, random ids) is an argument or an environment
  that may answer in any way, with what the code relies on as named hypotheses.

  \<^bold>\<open>The parts.\<close>

  \<^item> \<open>Prelude\<close>: maps, strings, JSON, rendered fragments.
  \<^item> \<open>Conversation_Cache\<close> (\<^verbatim>\<open>conversations/cache.js\<close>), \<open>Resource_Loader\<close> (\<^verbatim>\<open>platform/api.js\<close>,
    \<^verbatim>\<open>platform/resources.js\<close>), \<open>Conversation_Resources\<close> (\<^verbatim>\<open>resources.js\<close>, \<^verbatim>\<open>scroll.js\<close>): the least
    recently used cache bounded by sessions and bytes refines a map that forgets; a resource that is loading has a
    request under way, and a row shown belongs to the session shown. The loader relies on its cache through a locale that
    the cache interprets.
  \<^item> \<open>Message_Delivery\<close> (\<^verbatim>\<open>message-delivery.js\<close>): receipts of messages survive a reload of the page.
  \<^item> \<open>Uri\<close>, \<open>File_Paths\<close> (\<^verbatim>\<open>files/api.js\<close>, path functions of \<^verbatim>\<open>files/moves.js\<close>),
    \<open>File_Moves\<close> (\<^verbatim>\<open>files/moves.js\<close>): encoded addresses can be read back; batches of moves never contain an
    entry twice, below itself or below another one. \<open>File_Trash\<close> (\<^verbatim>\<open>files/trash.js\<close>): the recycle bin.
  \<^item> \<open>File_Uploads\<close>, \<open>Upload_Views\<close> (\<^verbatim>\<open>files/uploads.js\<close>) and \<open>Upload_Server\<close>
    (\<^verbatim>\<open>harness-bundle/src/resumable-upload.ts\<close>): both sides of a resumable upload and their composition: an
    upload that ends well has stored exactly the file, over a network that loses requests and answers; an interrupted one
    resumes where the server is.
  \<^item> \<open>Personal_Tasks\<close> (\<^verbatim>\<open>collaboration/personal-tasks.js\<close>): a task is created once however often it is retried,
    and waiting for it ends.
  \<^item> \<open>Labels\<close> (\<^verbatim>\<open>ui/labels.js\<close>, \<^verbatim>\<open>quota/panel.js\<close>): texts of errors, titles, quota meters.
  \<^item> \<open>Automations\<close> (\<^verbatim>\<open>automations/automations.js\<close>): the page of scheduled tasks.
    \<open>Automation_Store\<close> and \<open>Automation_Scheduler\<close> (\<^verbatim>\<open>harness-bundle/src/automation-store.ts\<close>,
    \<^verbatim>\<open>contracts/src/automation.ts\<close>): their store with its file and schemas, and the scheduler as a step relation
    over it: documents stay well formed, a finished run is final, each due date is claimed once, a tool call is made
    once, a restart restores what was saved, and a run is executed a bounded number of times.
  \<^item> \<open>Quota_Settlement\<close> (\<^verbatim>\<open>quota-settlement.ts\<close>, \<^verbatim>\<open>quota-runner.ts\<close>): reserving and
    settling the units of scheduled runs, with losses, delays and restarts: every settlement of a run carries one frozen amount.
  \<^item> \<open>Contracts\<close>: what the stores of the service share, among it the sequencing of methods that change a store and
    may throw, with rules for what holds after a method.
  \<^item> \<open>Team_Store\<close> (\<^verbatim>\<open>harness-bundle/src/team-store.ts\<close>, \<^verbatim>\<open>contracts/src/team.ts\<close>): the
    server side of the teams: runs, dispatches (turns of members), tasks with dependencies, mail, repeated calls, transactions,
    the file. \<open>Team_Work\<close> states who works on what on a view of the store, \<open>Team_Invariant\<close>, \<open>Team_Steps\<close>,
    \<open>Team_Cancel\<close> and \<open>Team_Restart\<close> prove that every method and every restart keeps it, \<open>Team_History\<close>
    draws it together for all histories (\<open>team_reach\<close>), \<open>Team_Operations\<close> treats repeated and failed calls,
    \<open>Team_Dependencies\<close> the graph of task dependencies (what the check accepts, and that the stored tasks never form
    a circle), and \<open>Team_Guarantees\<close> states what follows for the service. \<open>Team_Orchestrator\<close> models the scheduling
    loop over the store, cut at its awaits, as a relation \<open>orch_reach\<close> over its events; the runner, which executes, reconciles and cancels
    turns, is an environment. It shows that a running turn is being executed and when the loop ends early or is blocked.
  \<^item> \<open>Teams\<close> (\<^verbatim>\<open>teams/page.js\<close>): the page of assistant teams.
  \<^item> \<open>Shared_Composer\<close> (\<^verbatim>\<open>collaboration/shared.js\<close>): the message box of a shared discussion: mentions keep
    their place under edits and a message id stands for one content.

  \<^bold>\<open>The lemmas.\<close> Each theory proves an invariant of its state, that every operation keeps it (lemmas named after
  the operation), and derives its properties from the states reached. Histories are lists of events
  (\<open>auto_history_of\<close>, the runs of the page components) or inductive relations (\<open>sched_reach\<close>, \<open>quota_reach\<close>,
  \<open>team_reach\<close>, \<open>orch_reach\<close>, \<open>moves_reach\<close>).

  \<^bold>\<open>Bounds.\<close> \<open>weekly_minutes\<close> is the number of minutes the search for the next weekly date looks at, as in the code;
  \<open>busy_retries\<close> the number of retries of a busy session; \<open>max_polls\<close> the number of times a new task is asked for.
  The loops that may not end (sending the chunks of a file, evicting from the cache) are \<open>partial_function (option)\<close>;
  that eviction ends and that an upload over a working network returns are proved as such.

  \<^bold>\<open>Not modelled.\<close> The manifest lists every part left out with the reason: the Go services, the administration web
  application, the smoke tests, the generated client bundle, the adapter of the agent harness
  (\<^verbatim>\<open>runtime.ts\<close>), most of the shared projects page, and further pages of the client.
\<close>

end
